(* ===== verification/Prelude.thy ===== *)
theory Prelude
  imports Main "HOL-Library.Word" "HOL-Library.Monad_Syntax"
begin

text \<open>
  Shared vocabulary of the development: the machine types of base/Common.h at their width on the
  LP64 little-endian targets the build supports (ulong 64 bits, uint 32, ushort 16, byte 8), the
  byte order functions the packet code calls, indexed stores into a byte array, and two interfaces
  that several components implement: a labelled state machine with an invariant, and a byte codec.
\<close>

section \<open>Machine types\<close>

type_synonym byte = "8 word"
type_synonym ushort = "16 word"
type_synonym uint = "32 word"
type_synonym ulong = "64 word"

text \<open>Collections that carry the component proofs.\<close>

named_theorems layout \<open>equations that turn field stores and loads into byte lists\<close>
named_theorems inv_intros \<open>operations that keep the invariant of their component\<close>

lemma some_status [simp]: "\<exists>st. \<not> st" "\<exists>st. st"
  by (rule exI [of _ False], simp) (rule exI [of _ True], simp)

section \<open>Little-endian byte images\<close>

text \<open>The \<open>n\<close> low bytes of a word, least significant first: what a store of an \<open>n\<close>-byte integer
  leaves in memory.\<close>

definition le_bytes :: "nat \<Rightarrow> 'a::len word \<Rightarrow> byte list" where
  "le_bytes n w = map (\<lambda>i. ucast (drop_bit (8 * i) w)) [0..<n]"

text \<open>The integer a load of those bytes yields.\<close>

primrec of_le :: "byte list \<Rightarrow> 'a::len word" where
  "of_le [] = 0"
| "of_le (b # bs) = or (ucast b) (push_bit 8 (of_le bs))"

lemma length_le_bytes [simp]: "length (le_bytes n w) = n"
  by (simp add: le_bytes_def)

lemma le_bytes_nth: "i < n \<Longrightarrow> le_bytes n w ! i = ucast (drop_bit (8 * i) w)"
  by (simp add: le_bytes_def)

lemma bit_of_le:
  "bit (of_le bs :: 'a::len word) k \<longleftrightarrow>
     k < LENGTH('a) \<and> k div 8 < length bs \<and> bit (bs ! (k div 8)) (k mod 8)"
proof (induction bs arbitrary: k)
  case Nil
  then show ?case by simp
next
  case (Cons b bs)
  have step: "bit (of_le (b # bs) :: 'a word) k \<longleftrightarrow>
      k < LENGTH('a) \<and> (bit b k \<or> 8 \<le> k \<and> bit (of_le bs :: 'a word) (k - 8))"
    by (simp add: bit_simps) blast
  show ?case
  proof (cases "k < 8")
    case True
    then have "k div 8 = 0" "k mod 8 = k" by auto
    with True show ?thesis unfolding step by simp
  next
    case False
    then have k: "k div 8 = Suc ((k - 8) div 8)" "k mod 8 = (k - 8) mod 8"
      by (simp_all add: le_div_geq le_mod_geq)
    have nb: "\<not> bit b k" using False bit_imp_le_length [of b k] by auto
    have ih: "bit (of_le bs :: 'a word) (k - 8) \<longleftrightarrow>
      k - 8 < LENGTH('a) \<and> (k - 8) div 8 < length bs \<and> bit (bs ! ((k - 8) div 8)) ((k - 8) mod 8)"
      by (rule Cons.IH)
    show ?thesis unfolding step ih k using False nb by auto
  qed
qed

lemma bit_le_bytes:
  "i < n \<Longrightarrow> bit (le_bytes n w ! i) j \<longleftrightarrow> j < 8 \<and> bit w (8 * i + j)"
  by (auto simp: le_bytes_nth bit_ucast_iff bit_drop_bit_eq)

lemma of_le_le_bytes: "of_le (le_bytes n w) = (take_bit (8 * n) w :: 'a::len word)"
proof (rule bit_word_eqI)
  fix k assume k: "k < LENGTH('a)"
  have "8 * (k div 8) + k mod 8 = k" by simp
  moreover have "k div 8 < n \<longleftrightarrow> k < 8 * n" by (auto simp: div_less_iff_less_mult mult.commute)
  ultimately show "bit (of_le (le_bytes n w) :: 'a word) k \<longleftrightarrow> bit (take_bit (8 * n) w) k"
    using k by (auto simp: bit_of_le bit_le_bytes bit_take_bit_iff)
qed

lemma le_bytes_of_le:
  assumes "8 * length bs \<le> LENGTH('a)"
  shows "le_bytes (length bs) (of_le bs :: 'a::len word) = bs"
proof (rule nth_equalityI)
  show "length (le_bytes (length bs) (of_le bs :: 'a word)) = length bs" by simp
next
  fix i assume "i < length (le_bytes (length bs) (of_le bs :: 'a word))"
  then have i: "i < length bs" by simp
  show "le_bytes (length bs) (of_le bs :: 'a word) ! i = bs ! i"
  proof (rule bit_word_eqI)
    fix j assume "j < LENGTH(8)"
    then have j: "j < 8" by simp
    then have "(8 * i + j) div 8 = i" "(8 * i + j) mod 8 = j" by auto
    moreover have "8 * i + j < LENGTH('a)" using i j assms by linarith
    ultimately show "bit (le_bytes (length bs) (of_le bs :: 'a word) ! i) j \<longleftrightarrow> bit (bs ! i) j"
      using i j by (simp add: bit_le_bytes bit_of_le)
  qed
qed

text \<open>Widening a value appends zero bytes to its image.\<close>

lemma le_bytes_ucast_wide:
  assumes "8 * m = LENGTH('a)" and "8 * (m + k) \<le> LENGTH('b)"
  shows "le_bytes (m + k) (ucast (w :: 'a::len word) :: 'b::len word) = le_bytes m w @ replicate k 0"
proof (rule nth_equalityI)
  show "length (le_bytes (m + k) (ucast w :: 'b word)) = length (le_bytes m w @ replicate k 0)"
    by simp
next
  fix i assume "i < length (le_bytes (m + k) (ucast w :: 'b word))"
  then have i: "i < m + k" by simp
  show "le_bytes (m + k) (ucast w :: 'b word) ! i = (le_bytes m w @ replicate k 0) ! i"
  proof (rule bit_word_eqI)
    fix j assume "j < LENGTH(8)"
    then have j: "j < 8" by simp
    have "8 * Suc i \<le> 8 * (m + k)" using i by (intro mult_le_mono2) simp
    then have "8 * i + j < 8 * (m + k)" using j by simp
    then have b: "8 * i + j < LENGTH('b)" using assms(2) by (rule less_le_trans)
    have "m \<le> i \<Longrightarrow> \<not> bit w (8 * i + j)"
      using assms(1) bit_imp_le_length [of w "8 * i + j"] by auto
    then show "bit (le_bytes (m + k) (ucast w :: 'b word) ! i) j \<longleftrightarrow>
        bit ((le_bytes m w @ replicate k 0) ! i) j"
      using i j b by (auto simp: bit_le_bytes bit_ucast_iff nth_append)
  qed
qed

lemma take_bit_full [simp]:
  "take_bit 64 (w :: 64 word) = w" "take_bit 32 (v :: 32 word) = v" "take_bit 16 (u :: 16 word) = u"
  by (simp_all add: take_bit_word_eq_self)

section \<open>Network byte order\<close>

text \<open>\<open>htonl\<close> and \<open>htons\<close> of a little-endian host reverse the bytes of their argument; the
  parameter type truncates what the caller passes (a \<open>ulong\<close> to 32 bits). \<open>ntohl\<close> and \<open>ntohs\<close>
  are the same permutations.\<close>

definition bswap32 :: "32 word \<Rightarrow> 32 word" where
  "bswap32 w = of_le (rev (le_bytes 4 w))"

definition bswap16 :: "ushort \<Rightarrow> ushort" where
  "bswap16 w = of_le (rev (le_bytes 2 w))"

definition htonl :: "ulong \<Rightarrow> 32 word" where
  "htonl x = bswap32 (ucast x)"

definition ntohl :: "ulong \<Rightarrow> 32 word" where
  "ntohl x = bswap32 (ucast x)"

text \<open>The bytes left by \<^verbatim>\<open>*(ulong *)p = htonl(x)\<close> and \<^verbatim>\<open>*(ushort *)p = htons(x)\<close>: on LP64 the
  first store is eight bytes wide.\<close>

definition put_ulong :: "ulong \<Rightarrow> byte list" where
  "put_ulong x = le_bytes 8 (ucast (htonl x) :: ulong)"

definition put_ushort :: "ushort \<Rightarrow> byte list" where
  "put_ushort x = le_bytes 2 (bswap16 x)"

text \<open>The values of \<^verbatim>\<open>ntohl(*(ulong *)p)\<close> and \<^verbatim>\<open>ntohs(*(ushort *)p)\<close>.\<close>

definition get_ulong :: "byte list \<Rightarrow> ulong" where
  "get_ulong bs = ucast (ntohl (of_le bs))"

definition get_ushort :: "byte list \<Rightarrow> ushort" where
  "get_ushort bs = bswap16 (of_le bs)"

lemma length_put [simp]: "length (put_ulong x) = 8" "length (put_ushort y) = 2"
  by (simp_all add: put_ulong_def put_ushort_def)

lemma of_le_full: "8 * length bs = LENGTH('a) \<Longrightarrow> le_bytes (length bs) (of_le bs :: 'a::len word) = bs"
  by (rule le_bytes_of_le) simp

lemma bswap32_bswap32 [simp]: "bswap32 (bswap32 w) = w"
proof -
  have "le_bytes 4 (of_le (rev (le_bytes 4 w)) :: 32 word) = rev (le_bytes 4 w)"
    using of_le_full [where 'a = 32, of "rev (le_bytes 4 w)"] by simp
  then show ?thesis by (simp add: bswap32_def of_le_le_bytes)
qed

lemma bswap16_bswap16 [simp]: "bswap16 (bswap16 w) = w"
proof -
  have "le_bytes 2 (of_le (rev (le_bytes 2 w)) :: 16 word) = rev (le_bytes 2 w)"
    using of_le_full [where 'a = 16, of "rev (le_bytes 2 w)"] by simp
  then show ?thesis by (simp add: bswap16_def of_le_le_bytes)
qed

text \<open>What the byte order calls put on the wire: the four bytes of the low half, most significant
  first, and then four zero bytes.\<close>

lemma put_ulong_wire: "put_ulong x = rev (le_bytes 4 (ucast x :: 32 word)) @ [0, 0, 0, 0]"
proof -
  have "le_bytes (4 + 4) (ucast (htonl x) :: ulong) = le_bytes 4 (htonl x) @ replicate 4 0"
    by (rule le_bytes_ucast_wide) simp_all
  moreover have "le_bytes 4 (htonl x) = rev (le_bytes 4 (ucast x :: 32 word))"
    using of_le_full [where 'a = 32, of "rev (le_bytes 4 (ucast x :: 32 word))"]
    by (simp add: htonl_def bswap32_def)
  ultimately show ?thesis by (simp add: put_ulong_def numeral_eq_Suc)
qed

text \<open>A \<open>ulong\<close> travels modulo \<open>2 ^ 32\<close>, a \<open>ushort\<close> unchanged.\<close>

lemma get_put_ulong [simp]: "get_ulong (put_ulong x) = take_bit 32 x"
proof -
  have "of_le (put_ulong x) = (ucast (htonl x) :: ulong)"
    by (simp add: put_ulong_def of_le_le_bytes)
  moreover have "ucast (ucast (htonl x) :: ulong) = htonl x"
    by (simp add: ucast_up_ucast_id is_up.rep_eq)
  ultimately show ?thesis
    by (simp add: get_ulong_def ntohl_def htonl_def unsigned_ucast_eq)
qed

lemma get_put_ushort [simp]: "get_ushort (put_ushort x) = x"
  by (simp add: get_ushort_def put_ushort_def of_le_le_bytes)

lemma get_ulong_take: "take_bit 32 (get_ulong bs) = get_ulong bs"
  by (rule bit_word_eqI) (auto simp: get_ulong_def bit_take_bit_iff bit_ucast_iff dest: bit_imp_le_length)

section \<open>Indexed stores\<close>

text \<open>\<open>overwrite off bs xs\<close> is the array \<open>xs\<close> after the bytes \<open>bs\<close> were stored from index \<open>off\<close>.\<close>

definition overwrite :: "nat \<Rightarrow> 'a list \<Rightarrow> 'a list \<Rightarrow> 'a list" where
  "overwrite off bs xs = take off xs @ bs @ drop (off + length bs) xs"

lemma length_overwrite [simp]:
  "off + length bs \<le> length xs \<Longrightarrow> length (overwrite off bs xs) = length xs"
  by (simp add: overwrite_def)

lemma take_overwrite [simp]:
  "off + length bs \<le> length xs \<Longrightarrow> take (off + length bs) (overwrite off bs xs) = take off xs @ bs"
  by (simp add: overwrite_def)

lemma overwrite_overwrite:
  "off + length a + length b \<le> length xs \<Longrightarrow>
     overwrite (off + length a) b (overwrite off a xs) = overwrite off (a @ b) xs"
  by (simp add: overwrite_def min_absorb2 ac_simps)

text \<open>A C string in memory: the bytes up to the first zero byte. \<open>strcpy\<close> copies those and the
  terminator.\<close>

definition c_str :: "byte list \<Rightarrow> byte list" where
  "c_str s = takeWhile (\<lambda>b. b \<noteq> 0) s"

definition strcpy_bytes :: "byte list \<Rightarrow> byte list" where
  "strcpy_bytes s = c_str s @ [0]"

lemma c_str_append_zero [simp]: "0 \<notin> set s \<Longrightarrow> c_str (s @ 0 # r) = s"
  by (induction s) (auto simp: c_str_def)

lemma c_str_ident [simp]: "0 \<notin> set s \<Longrightarrow> c_str s = s"
  by (auto simp: c_str_def)

lemma length_c_str: "0 \<in> set s \<Longrightarrow> length (c_str s) < length s"
proof -
  assume z: "0 \<in> set s"
  have "c_str s \<noteq> s" using z by (auto simp: c_str_def)
  then have "length (c_str s) \<noteq> length s"
    by (metis c_str_def append_eq_conv_conj takeWhile_dropWhile_id take_all order_refl)
  then show ?thesis using length_takeWhile_le [of "\<lambda>b. b \<noteq> 0" s] by (simp add: c_str_def)
qed

section \<open>Interfaces\<close>

text \<open>A component as a machine: labelled operations over a state and an invariant that each of them
  keeps. What holds of one operation then holds of every sequence of calls.\<close>

locale machine =
  fixes step :: "'e \<Rightarrow> 's \<Rightarrow> 's" and I :: "'s \<Rightarrow> bool"
  assumes step_inv: "I s \<Longrightarrow> I (step e s)"
begin

lemma run_inv: "I s \<Longrightarrow> I (fold step es s)"
  by (induction es arbitrary: s) (auto intro: step_inv)

lemma run_prefix_inv: "I s \<Longrightarrow> I (fold step (take n es) s)"
  by (rule run_inv)

end

text \<open>A byte codec with a remainder: decoding what was encoded returns the value and leaves the
  rest of the input.\<close>

locale codec =
  fixes enc :: "'a \<Rightarrow> byte list" and dec :: "byte list \<Rightarrow> ('a \<times> byte list) option"
    and wf :: "'a \<Rightarrow> bool"
  assumes dec_enc: "wf x \<Longrightarrow> dec (enc x @ r) = Some (x, r)"
begin

lemma dec_enc_exact: "wf x \<Longrightarrow> dec (enc x) = Some (x, [])"
  using dec_enc [of x "[]"] by simp

text \<open>No encoding is a proper prefix of another, so the encoding is injective.\<close>

lemma enc_prefix_free:
  assumes "wf x" "wf y" "enc x @ r = enc y @ r'"
  shows "x = y \<and> r = r'"
proof -
  have "dec (enc x @ r) = Some (x, r)" using assms(1) by (rule dec_enc)
  moreover have "dec (enc x @ r) = Some (y, r')" unfolding assms(3) using assms(2) by (rule dec_enc)
  ultimately show ?thesis by simp
qed

end

text \<open>Calls that may fault: a sequence of them, and a simulation of an abstract state that holds along every
  sequence that does not fault.\<close>

primrec run_calls :: "('e \<Rightarrow> 's \<Rightarrow> 's option) \<Rightarrow> 'e list \<Rightarrow> 's \<Rightarrow> 's option" where
  "run_calls step [] s = Some s"
| "run_calls step (e # es) s = (case step e s of None \<Rightarrow> None | Some s1 \<Rightarrow> run_calls step es s1)"

lemma run_calls_append: "run_calls step (es @ fs) s = Option.bind (run_calls step es s) (run_calls step fs)"
  by (induction es arbitrary: s) (auto split: option.split)

locale simulation =
  fixes step :: "'e \<Rightarrow> 's \<Rightarrow> 's option" and spec :: "'e \<Rightarrow> 'a \<Rightarrow> 'a" and R :: "'a \<Rightarrow> 's \<Rightarrow> bool"
  assumes step_sim: "R a s \<Longrightarrow> step e s = Some s' \<Longrightarrow> R (spec e a) s'"
begin

lemma run_sim: "R a s \<Longrightarrow> run_calls step es s = Some s' \<Longrightarrow> R (fold spec es a) s'"
  by (induction es arbitrary: a s) (auto dest: step_sim split: option.splits)

lemma run_total:
  assumes "\<And>e a s. e \<in> set es \<Longrightarrow> R a s \<Longrightarrow> step e s \<noteq> None" and "R a s"
  shows "run_calls step es s \<noteq> None"
  using assms
proof (induction es arbitrary: a s)
  case (Cons e es)
  then obtain s1 where s1: "step e s = Some s1" by fastforce
  have "R (spec e a) s1" using Cons.prems(2) s1 by (rule step_sim)
  with Cons.IH [of "spec e a" s1] Cons.prems(1) s1 show ?case by simp
qed simp

end

end
