(* ===== verification/DataBuffer.thy ===== *)
theory DataBuffer
  imports Prelude
begin

text \<open>
  transport/TransBase/DataBuffer.cpp: the byte array with a read cursor and a write cursor through
  which every packet class of the stack reads and writes. The pointers handed out by
  \<open>getWriteBuffer\<close> and \<open>getReadBuffer\<close> are indices into the array; an access through such a pointer
  outside the array is the value \<open>None\<close> of \<open>store\<close> and \<open>load\<close>, so memory safety of a client is the
  statement that it never returns \<open>None\<close>. Counters are \<open>nat\<close>: \<open>db_inv\<close> bounds each by the array
  size, which the constructors take as a 32-bit \<open>uint\<close>, so no counter update wraps. A C++ member
  \<^verbatim>\<open>x_\<close> is the record field \<open>x_m\<close> throughout the development.
\<close>

section \<open>State and constructors\<close>

record DataBuffer =
  buffer_m :: "byte list"
  dataSize_m :: nat
  readOffset_m :: nat
  readRemaining_m :: nat
  writeOffset_m :: nat
  writeRemaining_m :: nat

definition DataBuffer_new :: "nat \<Rightarrow> DataBuffer" where
  "DataBuffer_new bufferSize =
     \<lparr>buffer_m = replicate bufferSize 0, dataSize_m = 0, readOffset_m = 0, readRemaining_m = 0,
      writeOffset_m = 0, writeRemaining_m = bufferSize\<rparr>"

definition DataBuffer_of :: "byte list \<Rightarrow> DataBuffer" where
  "DataBuffer_of data =
     \<lparr>buffer_m = data, dataSize_m = length data, readOffset_m = 0, readRemaining_m = length data,
      writeOffset_m = length data, writeRemaining_m = 0\<rparr>"

section \<open>Operations\<close>

text \<open>\<open>std::vector::resize\<close>: truncate, or extend with zeros.\<close>

definition vector_resize :: "nat \<Rightarrow> byte list \<Rightarrow> byte list" where
  "vector_resize n xs = take n xs @ replicate (n - length xs) 0"

definition resize :: "nat \<Rightarrow> DataBuffer \<Rightarrow> bool \<times> DataBuffer" where
  "resize sz db =
     (if sz = length (buffer_m db) then (True, db)
      else (True, db\<lparr>buffer_m := vector_resize sz (buffer_m db), dataSize_m := 0, readOffset_m := 0,
                    readRemaining_m := 0, writeOffset_m := 0, writeRemaining_m := sz\<rparr>))"

definition clear :: "DataBuffer \<Rightarrow> DataBuffer" where
  "clear db = db\<lparr>dataSize_m := 0, readOffset_m := 0, readRemaining_m := 0, writeOffset_m := 0,
                 writeRemaining_m := length (buffer_m db)\<rparr>"

definition readReset :: "DataBuffer \<Rightarrow> DataBuffer" where
  "readReset db = db\<lparr>readOffset_m := 0, readRemaining_m := dataSize_m db\<rparr>"

definition writeReset :: "DataBuffer \<Rightarrow> DataBuffer" where
  "writeReset db = db\<lparr>writeOffset_m := 0, writeRemaining_m := length (buffer_m db), dataSize_m := 0,
                     readOffset_m := 0, readRemaining_m := 0\<rparr>"

definition setData :: "byte list \<Rightarrow> DataBuffer \<Rightarrow> bool \<times> DataBuffer" where
  "setData data db =
     (let buf = (if length (buffer_m db) < length data then vector_resize (length data) (buffer_m db)
                 else buffer_m db)
      in (True, db\<lparr>buffer_m := overwrite 0 data buf, dataSize_m := length data, readOffset_m := 0,
                   readRemaining_m := length data, writeOffset_m := length buf,
                   writeRemaining_m := 0\<rparr>))"

definition getData :: "DataBuffer \<Rightarrow> byte list" where
  "getData db = take (dataSize_m db) (buffer_m db)"

definition getReadBuffer :: "DataBuffer \<Rightarrow> (nat \<times> nat) option" where
  "getReadBuffer db =
     (if readRemaining_m db = 0 then None else Some (readOffset_m db, readRemaining_m db))"

definition addReadBytes :: "nat \<Rightarrow> DataBuffer \<Rightarrow> bool \<times> DataBuffer" where
  "addReadBytes bytes db =
     (if readRemaining_m db < bytes then (False, db)
      else (True, db\<lparr>readRemaining_m := readRemaining_m db - bytes,
                     readOffset_m := readOffset_m db + bytes\<rparr>))"

definition getWriteBuffer :: "DataBuffer \<Rightarrow> (nat \<times> nat) option" where
  "getWriteBuffer db =
     (if writeRemaining_m db = 0 then None else Some (writeOffset_m db, writeRemaining_m db))"

definition addWriteBytes :: "nat \<Rightarrow> DataBuffer \<Rightarrow> bool \<times> DataBuffer" where
  "addWriteBytes bytes db =
     (if writeRemaining_m db < bytes then (False, db)
      else (True, db\<lparr>writeRemaining_m := writeRemaining_m db - bytes,
                     writeOffset_m := writeOffset_m db + bytes,
                     dataSize_m := dataSize_m db + bytes\<rparr>))"

text \<open>Accesses through the pointers handed out; an index outside the array faults.\<close>

definition store :: "nat \<Rightarrow> byte list \<Rightarrow> DataBuffer \<Rightarrow> DataBuffer option" where
  "store p bs db =
     (if p + length bs \<le> length (buffer_m db) then Some (db\<lparr>buffer_m := overwrite p bs (buffer_m db)\<rparr>)
      else None)"

definition load :: "nat \<Rightarrow> nat \<Rightarrow> DataBuffer \<Rightarrow> byte list option" where
  "load p n db =
     (if p + n \<le> length (buffer_m db) then Some (take n (drop p (buffer_m db))) else None)"

text \<open>Reading a \<open>const char *\<close>: faults when no terminator lies inside the array.\<close>

definition load_cstr :: "nat \<Rightarrow> DataBuffer \<Rightarrow> byte list option" where
  "load_cstr p db =
     (if 0 \<in> set (drop p (buffer_m db)) then Some (c_str (drop p (buffer_m db))) else None)"

section \<open>Invariant\<close>

definition db_inv :: "DataBuffer \<Rightarrow> bool" where
  "db_inv db \<longleftrightarrow>
     writeOffset_m db + writeRemaining_m db = length (buffer_m db) \<and>
     dataSize_m db \<le> writeOffset_m db \<and>
     readOffset_m db + readRemaining_m db \<le> dataSize_m db"

text \<open>The operations a client can call, as labels of one step function.\<close>

datatype db_op = DbResize nat | DbClear | DbReadReset | DbWriteReset | DbSetData "byte list"
  | DbAddReadBytes nat | DbAddWriteBytes nat

fun db_step :: "db_op \<Rightarrow> DataBuffer \<Rightarrow> DataBuffer" where
  "db_step (DbResize n) db = snd (resize n db)"
| "db_step DbClear db = clear db"
| "db_step DbReadReset db = readReset db"
| "db_step DbWriteReset db = writeReset db"
| "db_step (DbSetData d) db = snd (setData d db)"
| "db_step (DbAddReadBytes n) db = snd (addReadBytes n db)"
| "db_step (DbAddWriteBytes n) db = snd (addWriteBytes n db)"

lemma db_inv_new [inv_intros]: "db_inv (DataBuffer_new n)" "db_inv (DataBuffer_of d)"
  by (simp_all add: db_inv_def DataBuffer_new_def DataBuffer_of_def)

lemma length_vector_resize [simp]: "length (vector_resize n xs) = n"
  by (simp add: vector_resize_def)

lemmas db_op_defs = resize_def clear_def readReset_def writeReset_def setData_def addReadBytes_def
  addWriteBytes_def Let_def

lemma db_step_inv: "db_inv db \<Longrightarrow> db_inv (db_step op db)"
  by (cases op) (auto simp: db_inv_def db_op_defs)

interpretation db: machine db_step db_inv
  by unfold_locales (rule db_step_inv)

lemma db_inv_store: "db_inv db \<Longrightarrow> store p bs db = Some db' \<Longrightarrow> db_inv db'"
  by (auto simp: store_def db_inv_def split: if_splits)

section \<open>The abstract view: append to the written bytes, consume from the unread bytes\<close>

text \<open>What a packet class promises its callers is stated against two byte lists: what lies before
  the write cursor and what lies between the read cursor and the end of the data.\<close>

definition written :: "DataBuffer \<Rightarrow> byte list" where
  "written db = take (writeOffset_m db) (buffer_m db)"

definition unread :: "DataBuffer \<Rightarrow> byte list" where
  "unread db = take (readRemaining_m db) (drop (readOffset_m db) (buffer_m db))"

definition db_append :: "byte list \<Rightarrow> DataBuffer \<Rightarrow> DataBuffer" where
  "db_append bs db =
     db\<lparr>buffer_m := overwrite (writeOffset_m db) bs (buffer_m db),
        writeRemaining_m := writeRemaining_m db - length bs,
        writeOffset_m := writeOffset_m db + length bs,
        dataSize_m := dataSize_m db + length bs\<rparr>"

definition db_consume :: "nat \<Rightarrow> DataBuffer \<Rightarrow> DataBuffer" where
  "db_consume n db = db\<lparr>readRemaining_m := readRemaining_m db - n, readOffset_m := readOffset_m db + n\<rparr>"

lemma store_then_advance [layout]:
  assumes "db_inv db" "length bs \<le> writeRemaining_m db"
  shows "store (writeOffset_m db) bs db = Some (db\<lparr>buffer_m := overwrite (writeOffset_m db) bs (buffer_m db)\<rparr>)"
    and "snd (addWriteBytes (length bs) (db\<lparr>buffer_m := overwrite (writeOffset_m db) bs (buffer_m db)\<rparr>))
         = db_append bs db"
  using assms by (auto simp: store_def db_inv_def addWriteBytes_def db_append_def)

lemma store_fuse [layout]:
  "p' = p + length a \<Longrightarrow> store p a db \<bind> (\<lambda>d. store p' b d \<bind> k) = store p (a @ b) db \<bind> k"
  by (auto simp: store_def overwrite_overwrite bind_def split: option.splits)

text \<open>The interface the packet classes rely on, and what follows for any sequence of writes.\<close>

locale link_sink =
  fixes append :: "byte list \<Rightarrow> 'b \<Rightarrow> 'b" and room :: "'b \<Rightarrow> nat" and out :: "'b \<Rightarrow> byte list"
    and ok :: "'b \<Rightarrow> bool"
  assumes out_append: "ok b \<Longrightarrow> length bs \<le> room b \<Longrightarrow> out (append bs b) = out b @ bs"
    and room_append: "ok b \<Longrightarrow> length bs \<le> room b \<Longrightarrow> room (append bs b) = room b - length bs"
    and ok_append: "ok b \<Longrightarrow> length bs \<le> room b \<Longrightarrow> ok (append bs b)"
begin

lemma out_fold_append:
  "ok b \<Longrightarrow> length (concat chunks) \<le> room b \<Longrightarrow>
     out (fold append chunks b) = out b @ concat chunks \<and>
     room (fold append chunks b) = room b - length (concat chunks) \<and> ok (fold append chunks b)"
  by (induction chunks arbitrary: b) (auto simp: out_append room_append ok_append)

end

interpretation sink: link_sink db_append writeRemaining_m written db_inv
  by unfold_locales (auto simp: db_append_def written_def db_inv_def)

lemma written_writeReset [simp]: "written (writeReset db) = []"
  by (simp add: written_def writeReset_def)

text \<open>Data written from a reset buffer is what a reset reader finds.\<close>

lemma unread_readReset:
  "db_inv db \<Longrightarrow> dataSize_m db = writeOffset_m db \<Longrightarrow> unread (readReset db) = written db"
  by (simp add: unread_def readReset_def written_def)

lemma length_unread: "db_inv db \<Longrightarrow> length (unread db) = readRemaining_m db"
  by (auto simp: db_inv_def unread_def)

lemma load_unread [layout]:
  assumes "db_inv db" "k + n \<le> readRemaining_m db"
  shows "load (readOffset_m db + k) n db = Some (take n (drop k (unread db)))"
proof -
  have "min n (readRemaining_m db - k) = n" using assms(2) by simp
  then show ?thesis
    using assms by (auto simp: load_def unread_def db_inv_def drop_take add.commute)
qed

lemma load_unread_0 [layout]:
  "db_inv db \<Longrightarrow> n \<le> readRemaining_m db \<Longrightarrow> load (readOffset_m db) n db = Some (take n (unread db))"
  using load_unread [of db 0 n] by simp

lemma addReadBytes_consume [layout]:
  "n \<le> readRemaining_m db \<Longrightarrow> addReadBytes n db = (True, db_consume n db)"
  by (simp add: addReadBytes_def db_consume_def)

lemma unread_consume [simp]: "unread (db_consume n db) = drop n (unread db)"
  by (simp add: unread_def db_consume_def drop_take add.commute)

lemma db_inv_consume: "db_inv db \<Longrightarrow> n \<le> readRemaining_m db \<Longrightarrow> db_inv (db_consume n db)"
  by (auto simp: db_inv_def db_consume_def)

section \<open>Properties\<close>

text \<open>Whatever a client calls, in whatever order, on a buffer of either constructor, the cursors stay
  consistent: the bytes counted as data lie before the write cursor, and the windows that
  \<open>getReadBuffer\<close> and \<open>getWriteBuffer\<close> hand out lie inside the array, so every access within the
  reported size is defined.\<close>

lemma buffer_windows_safe:
  assumes "db = fold db_step ops (DataBuffer_new n) \<or> db = fold db_step ops (DataBuffer_of d)"
  shows "dataSize_m db \<le> writeOffset_m db \<and> writeOffset_m db \<le> length (buffer_m db) \<and>
    (\<forall>p k j len. getReadBuffer db = Some (p, k) \<and> j + len \<le> k \<longrightarrow> load (p + j) len db \<noteq> None) \<and>
    (\<forall>p k j bs. getWriteBuffer db = Some (p, k) \<and> j + length bs \<le> k \<longrightarrow> store (p + j) bs db \<noteq> None)"
proof -
  have "db_inv db" using assms db.run_inv db_inv_new by metis
  then show ?thesis
    by (auto simp: db_inv_def getReadBuffer_def getWriteBuffer_def load_def store_def split: if_splits)
qed

lemma buffer_windows_safe_witness:
  "getReadBuffer (fold db_step [DbResize 8, DbAddWriteBytes 5, DbReadReset] (DataBuffer_new 4)) = Some (0, 5) \<and>
   load (0 + 2) 3 (fold db_step [DbResize 8, DbAddWriteBytes 5, DbReadReset] (DataBuffer_new 4)) \<noteq> None"
proof -
  let ?db = "fold db_step [DbResize 8, DbAddWriteBytes 5, DbReadReset] (DataBuffer_new 4)"
  have "getReadBuffer ?db = Some (0, 5)"
    by (simp add: getReadBuffer_def db_op_defs DataBuffer_new_def)
  then show ?thesis
    using buffer_windows_safe [of ?db "[DbResize 8, DbAddWriteBytes 5, DbReadReset]" 4] by fastforce
qed

end
