(* ===== verification/DtcpPackets.thy ===== *)
theory DtcpPackets
  imports DataBuffer
begin

text \<open>
  The three stack links of the DTCP transport: \<open>DtcpPacket\<close> (cookie, version, type),
  \<open>DtcpConnPacket\<close> (connection identifiers) and \<open>DtcpDataPacket\<close> (payload), with the net identifier
  of DtcpNetId.cpp. A link owns its parent, so the \<open>parent_\<close> pointer is the last argument of the
  constructor and \<open>NullLink\<close> is the null pointer; a virtual call through it faults (\<open>None\<close>).
  The wire formats are stated once as the encoder and decoder of \<open>conn_msg\<close>, an instance of the
  \<open>codec\<close> interface, and the pointer code is proved to implement them.
\<close>

section \<open>Packet types\<close>

datatype dtcp_type = t_none | t_connRequest | t_connOffer | t_connAccept | t_connSuspend
  | t_connResume | t_connData | t_connReliableData | t_connDataAck | t_connClose | t_poll | t_ack
  | t_error | t_natDiscover | t_natSource | t_txnData | t_unlisted ushort

text \<open>The enumerator values; a cast from the wire can also produce a value with no enumerator.\<close>

primrec dtcp_code :: "dtcp_type \<Rightarrow> ushort" where
  "dtcp_code t_none = 0"
| "dtcp_code t_connRequest = 1"
| "dtcp_code t_connOffer = 2"
| "dtcp_code t_connAccept = 3"
| "dtcp_code t_connSuspend = 4"
| "dtcp_code t_connResume = 5"
| "dtcp_code t_connData = 6"
| "dtcp_code t_connReliableData = 7"
| "dtcp_code t_connDataAck = 8"
| "dtcp_code t_connClose = 9"
| "dtcp_code t_poll = 10"
| "dtcp_code t_ack = 11"
| "dtcp_code t_error = 12"
| "dtcp_code t_natDiscover = 13"
| "dtcp_code t_natSource = 14"
| "dtcp_code t_txnData = 15"
| "dtcp_code (t_unlisted w) = w"

definition dtcp_listed :: "dtcp_type list" where
  "dtcp_listed = [t_none, t_connRequest, t_connOffer, t_connAccept, t_connSuspend, t_connResume,
     t_connData, t_connReliableData, t_connDataAck, t_connClose, t_poll, t_ack, t_error,
     t_natDiscover, t_natSource, t_txnData]"

definition dtcp_of_code :: "ushort \<Rightarrow> dtcp_type" where
  "dtcp_of_code w = (case find (\<lambda>t. dtcp_code t = w) dtcp_listed of Some t \<Rightarrow> t | None \<Rightarrow> t_unlisted w)"

fun packetTypeAsString :: "dtcp_type \<Rightarrow> string option" where
  "packetTypeAsString t_none = Some ''no type set''"
| "packetTypeAsString t_connRequest = Some ''connection request''"
| "packetTypeAsString t_connOffer = Some ''connection offer''"
| "packetTypeAsString t_connAccept = Some ''connection accept''"
| "packetTypeAsString t_connSuspend = Some ''connection suspend''"
| "packetTypeAsString t_connResume = Some ''connection resume''"
| "packetTypeAsString t_connData = Some ''connection data''"
| "packetTypeAsString t_connReliableData = Some ''reliable connection data''"
| "packetTypeAsString t_connDataAck = Some ''reliable data ack''"
| "packetTypeAsString t_connClose = Some ''connection close''"
| "packetTypeAsString t_poll = Some ''poll request''"
| "packetTypeAsString t_ack = Some ''acknowledgement''"
| "packetTypeAsString t_error = Some ''error''"
| "packetTypeAsString t_txnData = Some ''transaction data''"
| "packetTypeAsString t_natDiscover = Some ''NAT Discover''"
| "packetTypeAsString t_natSource = Some ''NAT Source''"
| "packetTypeAsString (t_unlisted _) = None"

section \<open>State\<close>

record DtcpPacket =
  dp_packetType_m :: dtcp_type
  dp_peerIpAddress_m :: ulong
  dp_peerPort_m :: ushort

record DtcpConnPacket =
  cp_peerId_m :: ulong
  cp_myId_m :: ulong
  cp_peerIpAddress_m :: ulong
  cp_peerPort_m :: ushort
  cp_prevIpAddress_m :: ulong
  cp_prevPort_m :: ushort
  cp_sequenceNum_m :: ulong
  cp_packetType_m :: dtcp_type

text \<open>\<open>setData_\<close> with its length is the byte list it points to; \<open>getData_\<close> is an index into the
  buffer it was read from.\<close>

record DtcpDataPacket =
  da_setData_m :: "byte list"
  da_getData_m :: nat
  da_getDataLength_m :: nat

datatype stack_link = NullLink
  | DtcpL DtcpPacket stack_link
  | ConnL DtcpConnPacket stack_link
  | DataL DtcpDataPacket stack_link

definition DtcpPacket_new :: DtcpPacket where
  "DtcpPacket_new = \<lparr>dp_packetType_m = t_none, dp_peerIpAddress_m = 0, dp_peerPort_m = 0\<rparr>"

text \<open>The constructor leaves the members it does not name at whatever the memory held (\<open>raw\<close>).\<close>

definition DtcpConnPacket_new :: "DtcpConnPacket \<Rightarrow> DtcpConnPacket" where
  "DtcpConnPacket_new raw =
     raw\<lparr>cp_peerId_m := 0, cp_myId_m := 0, cp_peerIpAddress_m := 0, cp_peerPort_m := 0,
         cp_sequenceNum_m := 0\<rparr>"

definition DtcpDataPacket_new :: DtcpDataPacket where
  "DtcpDataPacket_new = \<lparr>da_setData_m = [], da_getData_m = 0, da_getDataLength_m = 0\<rparr>"

definition dp_getPeerLocation :: "DtcpPacket \<Rightarrow> (ulong \<times> ushort) option" where
  "dp_getPeerLocation p =
     (if dp_peerIpAddress_m p = 0 then None else Some (dp_peerIpAddress_m p, dp_peerPort_m p))"

definition cp_getPeerLocation :: "DtcpConnPacket \<Rightarrow> (ulong \<times> ushort) option" where
  "cp_getPeerLocation c =
     (if cp_peerIpAddress_m c = 0 then None else Some (cp_peerIpAddress_m c, cp_peerPort_m c))"

definition cp_setPeerLocation :: "ulong \<Rightarrow> ushort \<Rightarrow> DtcpConnPacket \<Rightarrow> DtcpConnPacket" where
  "cp_setPeerLocation ip port c = c\<lparr>cp_peerIpAddress_m := ip, cp_peerPort_m := port\<rparr>"

definition dp_setPacketType :: "dtcp_type \<Rightarrow> DtcpPacket \<Rightarrow> bool \<times> DtcpPacket" where
  "dp_setPacketType t p = (True, p\<lparr>dp_packetType_m := t\<rparr>)"

definition dp_setPeerLocation :: "ulong \<Rightarrow> ushort \<Rightarrow> DtcpPacket \<Rightarrow> DtcpPacket" where
  "dp_setPeerLocation ip port p = p\<lparr>dp_peerIpAddress_m := ip, dp_peerPort_m := port\<rparr>"

definition cp_setPacketType :: "dtcp_type \<Rightarrow> DtcpConnPacket \<Rightarrow> bool \<times> DtcpConnPacket" where
  "cp_setPacketType t c = (True, c\<lparr>cp_packetType_m := t\<rparr>)"

definition cp_setPeerId :: "ulong \<Rightarrow> DtcpConnPacket \<Rightarrow> bool \<times> DtcpConnPacket" where
  "cp_setPeerId peerId c = (True, c\<lparr>cp_peerId_m := peerId\<rparr>)"

definition cp_setMyId :: "ulong \<Rightarrow> DtcpConnPacket \<Rightarrow> bool \<times> DtcpConnPacket" where
  "cp_setMyId myId c = (True, c\<lparr>cp_myId_m := myId\<rparr>)"

definition cp_setSequenceNum :: "ulong \<Rightarrow> DtcpConnPacket \<Rightarrow> bool \<times> DtcpConnPacket" where
  "cp_setSequenceNum sequenceNum c = (True, c\<lparr>cp_sequenceNum_m := sequenceNum\<rparr>)"

definition da_setPacketData :: "byte list \<Rightarrow> DtcpDataPacket \<Rightarrow> bool \<times> DtcpDataPacket" where
  "da_setPacketData data d = (True, d\<lparr>da_setData_m := data\<rparr>)"

text \<open>\<open>DtcpConnPacket::operator=\<close> copies the identifiers and the location only.\<close>

definition cp_assign :: "DtcpConnPacket \<Rightarrow> DtcpConnPacket \<Rightarrow> DtcpConnPacket" where
  "cp_assign this copy =
     this\<lparr>cp_peerId_m := cp_peerId_m copy, cp_myId_m := cp_myId_m copy,
          cp_peerIpAddress_m := cp_peerIpAddress_m copy, cp_peerPort_m := cp_peerPort_m copy\<rparr>"

section \<open>Writing\<close>

definition magicCookie_s :: ulong where
  "magicCookie_s = push_bit 24 68 + push_bit 16 84 + push_bit 8 67 + 80"

definition version_s :: ushort where
  "version_s = 1"

text \<open>What \<open>DtcpPacket::writeData\<close> takes over from a connection packet above it.\<close>

definition dp_update_from :: "stack_link \<Rightarrow> DtcpPacket \<Rightarrow> DtcpPacket" where
  "dp_update_from par p = (case par of
       ConnL c _ \<Rightarrow>
         (case cp_getPeerLocation c of
            None \<Rightarrow> p
          | Some (ip, port) \<Rightarrow> p\<lparr>dp_peerIpAddress_m := ip, dp_peerPort_m := port\<rparr>)
         \<lparr>dp_packetType_m := cp_packetType_m c\<rparr>
     | _ \<Rightarrow> p)"

text \<open>The fields \<open>DtcpConnPacket::writeData\<close> writes after the first identifier; the three tests are
  on the same packet type.\<close>

definition cp_extra :: "DtcpConnPacket \<Rightarrow> byte list" where
  "cp_extra c =
     (if cp_packetType_m c = t_connOffer then put_ulong (cp_peerId_m c)
      else if cp_packetType_m c = t_connResume
      then put_ulong (cp_prevIpAddress_m c) @ put_ushort (cp_prevPort_m c)
      else if cp_packetType_m c = t_connReliableData then put_ulong (cp_sequenceNum_m c)
      else [])"

definition cp_first :: "DtcpConnPacket \<Rightarrow> ulong" where
  "cp_first c = (if cp_packetType_m c = t_connRequest then cp_peerId_m c else cp_myId_m c)"

text \<open>\<open>None\<close> in the first component: one of the room checks failed.\<close>

definition cp_write_fields :: "DtcpConnPacket \<Rightarrow> nat \<Rightarrow> nat \<Rightarrow> DataBuffer \<Rightarrow> (nat option \<times> DataBuffer) option" where
  "cp_write_fields c buf bufferSize db =
     (if bufferSize < 8 then Some (None, db)
      else do {
        db1 \<leftarrow> store buf (put_ulong (cp_first c)) db;
        if bufferSize < 8 + length (cp_extra c) then Some (None, db1)
        else do {
          db2 \<leftarrow> store (buf + 8) (cp_extra c) db1;
          Some (Some (8 + length (cp_extra c)), db2)
        }
      })"

text \<open>The three \<open>writeData\<close> methods. \<open>write_parent\<close> is the virtual call through \<open>parent_\<close>, whose object
  is \<open>par\<close>; the result holds the parent as the call left it.\<close>

type_synonym link_io = "DataBuffer \<Rightarrow> (bool \<times> stack_link \<times> DataBuffer) option"

definition dp_writeData :: "link_io \<Rightarrow> DtcpPacket \<Rightarrow> stack_link \<Rightarrow> link_io" where
  "dp_writeData write_parent p par db = (case getWriteBuffer db of
       None \<Rightarrow> Some (False, DtcpL p par, db)
     | Some (buf, bufferSize) \<Rightarrow>
         let p1 = dp_update_from par p in
         if bufferSize < 12 then Some (False, DtcpL p1 par, db)
         else do {
           db1 \<leftarrow> store buf (put_ulong magicCookie_s) db;
           db2 \<leftarrow> store (buf + 8) (put_ushort version_s) db1;
           db3 \<leftarrow> store (buf + 10) (put_ushort (dtcp_code (dp_packetType_m p1))) db2;
           let db4 = snd (addWriteBytes 12 db3);
           if par \<noteq> NullLink then do {
             (status, par', db5) \<leftarrow> write_parent db4;
             if \<not> status then Some (False, DtcpL p1 par', db5)
             else Some (False, DtcpL p1 par', db5)
           }
           else Some (True, DtcpL p1 par, db4)
         })"

definition cp_writeData :: "link_io \<Rightarrow> DtcpConnPacket \<Rightarrow> stack_link \<Rightarrow> link_io" where
  "cp_writeData write_parent c par db = (case getWriteBuffer db of
       None \<Rightarrow> Some (False, ConnL c par, db)
     | Some (buf, bufferSize) \<Rightarrow> do {
         (written_len, db1) \<leftarrow> cp_write_fields c buf bufferSize db;
         case written_len of
           None \<Rightarrow> Some (False, ConnL c par, db1)
         | Some n \<Rightarrow>
             let db2 = snd (addWriteBytes n db1) in
             if par \<noteq> NullLink then do {
               (status, par', db3) \<leftarrow> write_parent db2;
               if \<not> status then Some (False, ConnL c par', db3)
               else Some (True, ConnL c par', db3)
             }
             else Some (True, ConnL c par, db2)
       })"

definition da_writeData :: "link_io \<Rightarrow> DtcpDataPacket \<Rightarrow> stack_link \<Rightarrow> link_io" where
  "da_writeData write_parent d par db = (case getWriteBuffer db of
       None \<Rightarrow> Some (False, DataL d par, db)
     | Some (buf, bufferSize) \<Rightarrow>
         if bufferSize < length (da_setData_m d) then Some (False, DataL d par, db)
         else do {
           db1 \<leftarrow> store buf (da_setData_m d) db;
           let db2 = snd (addWriteBytes (length (da_setData_m d)) db1);
           if par \<noteq> NullLink then do {
             (status, par', db3) \<leftarrow> write_parent db2;
             if \<not> status then Some (False, DataL d par', db3)
             else Some (False, DataL d par', db3)
           }
           else Some (True, DataL d par, db2)
         })"

text \<open>The dispatch of the virtual call.\<close>

fun writeData :: "stack_link \<Rightarrow> link_io" where
  "writeData NullLink db = None"
| "writeData (DtcpL p par) db = dp_writeData (\<lambda>d. writeData par d) p par db"
| "writeData (ConnL c par) db = cp_writeData (\<lambda>d. writeData par d) c par db"
| "writeData (DataL d par) db = da_writeData (\<lambda>d. writeData par d) d par db"

declare dp_writeData_def [simp] cp_writeData_def [simp] da_writeData_def [simp]

section \<open>Reading\<close>

text \<open>\<open>DtcpPacket::readData\<close> up to \<open>addReadBytes\<close>: whether the header is a DTCP header, and the
  packet with its type set.\<close>

definition dp_read_header :: "DtcpPacket \<Rightarrow> nat \<Rightarrow> nat \<Rightarrow> DataBuffer \<Rightarrow> (bool \<times> DtcpPacket) option" where
  "dp_read_header p buf bufferSize db =
     (if bufferSize < 12 then Some (False, p)
      else do {
        cookie \<leftarrow> load buf 8 db;
        if get_ulong cookie \<noteq> magicCookie_s then Some (False, p)
        else do {
          ver \<leftarrow> load (buf + 8) 2 db;
          if get_ushort ver \<noteq> version_s then Some (False, p)
          else do {
            ty \<leftarrow> load (buf + 10) 2 db;
            Some (True, p\<lparr>dp_packetType_m := dtcp_of_code (get_ushort ty)\<rparr>)
          }
        }
      })"

text \<open>\<open>DtcpConnPacket::readData\<close> up to \<open>addReadBytes\<close>: the packet after the fields that were
  read, and the number of bytes read when every length check passed.\<close>

definition cp_read_fields :: "DtcpConnPacket \<Rightarrow> nat \<Rightarrow> nat \<Rightarrow> DataBuffer \<Rightarrow> (DtcpConnPacket \<times> nat option) option" where
  "cp_read_fields c buf bufferSize db =
     (if bufferSize < 8 then Some (c, None)
      else do {
        w \<leftarrow> load buf 8 db;
        let c1 = (if cp_packetType_m c = t_connRequest then c\<lparr>cp_myId_m := get_ulong w\<rparr>
                  else c\<lparr>cp_peerId_m := get_ulong w\<rparr>);
        if cp_packetType_m c = t_connOffer then
          if bufferSize < 16 then Some (c1, None)
          else do { v \<leftarrow> load (buf + 8) 8 db; Some (c1\<lparr>cp_myId_m := get_ulong v\<rparr>, Some 16) }
        else if cp_packetType_m c = t_connResume then
          if bufferSize < 18 then Some (c1, None)
          else do {
            v \<leftarrow> load (buf + 8) 8 db;
            u \<leftarrow> load (buf + 16) 2 db;
            Some (c1\<lparr>cp_prevIpAddress_m := get_ulong v, cp_prevPort_m := get_ushort u\<rparr>, Some 18)
          }
        else if cp_packetType_m c = t_connReliableData then
          if bufferSize < 16 then Some (c1, None)
          else do { v \<leftarrow> load (buf + 8) 8 db; Some (c1\<lparr>cp_sequenceNum_m := get_ulong v\<rparr>, Some 16) }
        else Some (c1, Some 8)
      })"

text \<open>What \<open>DtcpPacket::readData\<close> hands to a connection packet above it.\<close>

definition dp_update_parent :: "DtcpPacket \<Rightarrow> stack_link \<Rightarrow> stack_link" where
  "dp_update_parent p par = (case par of
       ConnL c par' \<Rightarrow>
         ConnL ((cp_setPeerLocation (dp_peerIpAddress_m p) (dp_peerPort_m p) c)
                  \<lparr>cp_packetType_m := dp_packetType_m p\<rparr>) par'
     | _ \<Rightarrow> par)"

lemma size_dp_update_parent [termination_simp]: "size (dp_update_parent p par) = size par"
  by (cases par) (simp_all add: dp_update_parent_def)

text \<open>The three \<open>readData\<close> methods; \<open>read_parent\<close> is the virtual call, on the parent that
  \<open>dp_update_parent\<close> has updated from the packet just read.\<close>

definition dp_readData :: "(DtcpPacket \<Rightarrow> link_io) \<Rightarrow> DtcpPacket \<Rightarrow> stack_link \<Rightarrow> link_io" where
  "dp_readData read_parent p par db = (case getReadBuffer db of
       None \<Rightarrow> Some (False, DtcpL p par, db)
     | Some (buf, bufferSize) \<Rightarrow> do {
         (ok, p1) \<leftarrow> dp_read_header p buf bufferSize db;
         if \<not> ok then Some (False, DtcpL p1 par, db)
         else
           let db1 = snd (addReadBytes 12 db) in
           if par \<noteq> NullLink then do {
             (status, par1, db2) \<leftarrow> read_parent p1 db1;
             if \<not> status then Some (False, DtcpL p1 par1, db2)
             else Some (False, DtcpL p1 par1, db2)
           }
           else Some (True, DtcpL p1 par, db1)
       })"

definition cp_readData :: "link_io \<Rightarrow> DtcpConnPacket \<Rightarrow> stack_link \<Rightarrow> link_io" where
  "cp_readData read_parent c par db = (case getReadBuffer db of
       None \<Rightarrow> Some (False, ConnL c par, db)
     | Some (buf, bufferSize) \<Rightarrow> do {
         (c1, read_len) \<leftarrow> cp_read_fields c buf bufferSize db;
         case read_len of
           None \<Rightarrow> Some (False, ConnL c1 par, db)
         | Some n \<Rightarrow>
             let db1 = snd (addReadBytes n db) in
             if par \<noteq> NullLink then do {
               (status, par1, db2) \<leftarrow> read_parent db1;
               if \<not> status then Some (False, ConnL c1 par1, db2)
               else Some (False, ConnL c1 par1, db2)
             }
             else Some (True, ConnL c1 par, db1)
       })"

definition da_readData :: "link_io \<Rightarrow> DtcpDataPacket \<Rightarrow> stack_link \<Rightarrow> link_io" where
  "da_readData read_parent d par db = (case getReadBuffer db of
       None \<Rightarrow> Some (False, DataL d par, db)
     | Some (buf, bufferSize) \<Rightarrow>
         let d1 = d\<lparr>da_getData_m := buf, da_getDataLength_m := bufferSize\<rparr>;
             db1 = snd (addReadBytes bufferSize db) in
         if par \<noteq> NullLink then do {
           (status, par1, db2) \<leftarrow> read_parent db1;
           if \<not> status then Some (False, DataL d1 par1, db2)
           else Some (False, DataL d1 par1, db2)
         }
         else Some (True, DataL d1 par, db1))"

fun readData :: "stack_link \<Rightarrow> link_io" where
  "readData NullLink db = None"
| "readData (DtcpL p par) db = dp_readData (\<lambda>p1 d. readData (dp_update_parent p1 par) d) p par db"
| "readData (ConnL c par) db = cp_readData (\<lambda>d. readData par d) c par db"
| "readData (DataL d par) db = da_readData (\<lambda>d. readData par d) d par db"

declare dp_readData_def [simp] cp_readData_def [simp] da_readData_def [simp]

definition da_getPacketData :: "DtcpDataPacket \<Rightarrow> DataBuffer \<Rightarrow> byte list option" where
  "da_getPacketData d db = load (da_getData_m d) (da_getDataLength_m d) db"

section \<open>Net identifiers\<close>

definition netIdToIpPort :: "ulong \<Rightarrow> ulong \<times> ushort" where
  "netIdToIpPort netId = (drop_bit 32 netId, ucast netId)"

definition ipPortToNetId :: "ulong \<Rightarrow> ushort \<Rightarrow> ulong" where
  "ipPortToNetId ipAddress port = push_bit 32 ipAddress + ucast port"

section \<open>Codes\<close>

lemma dtcp_code_of_code: "dtcp_code (dtcp_of_code w) = w"
proof (cases "find (\<lambda>t. dtcp_code t = w) dtcp_listed")
  case None
  then show ?thesis by (simp add: dtcp_of_code_def)
next
  case (Some t)
  then have "dtcp_code t = w" by (auto simp: find_Some_iff)
  with Some show ?thesis by (simp add: dtcp_of_code_def)
qed

lemma dtcp_of_code_code: "t \<in> set dtcp_listed \<Longrightarrow> dtcp_of_code (dtcp_code t) = t"
  by (auto simp: dtcp_listed_def dtcp_of_code_def)

text \<open>A type that the wire can carry: an enumerator, or a value with no enumerator.\<close>

definition dtcp_valid :: "dtcp_type \<Rightarrow> bool" where
  "dtcp_valid t \<longleftrightarrow> dtcp_of_code (dtcp_code t) = t"

section \<open>The wire format of the connection layer\<close>

datatype conn_msg = MRequest ulong | MOffer ulong ulong | MResume ulong ulong ushort
  | MReliable ulong ulong | MPlain ulong

text \<open>The message a packet of the given type carries, and what a reader does with it: the sender's
  own identifier becomes the reader's peer identifier, and the identifier the sender assigned to its
  peer becomes the reader's own.\<close>

definition conn_msg_of :: "DtcpConnPacket \<Rightarrow> conn_msg" where
  "conn_msg_of c = (case cp_packetType_m c of
       t_connRequest \<Rightarrow> MRequest (cp_peerId_m c)
     | t_connOffer \<Rightarrow> MOffer (cp_myId_m c) (cp_peerId_m c)
     | t_connResume \<Rightarrow> MResume (cp_myId_m c) (cp_prevIpAddress_m c) (cp_prevPort_m c)
     | t_connReliableData \<Rightarrow> MReliable (cp_myId_m c) (cp_sequenceNum_m c)
     | _ \<Rightarrow> MPlain (cp_myId_m c))"

fun conn_apply :: "conn_msg \<Rightarrow> DtcpConnPacket \<Rightarrow> DtcpConnPacket" where
  "conn_apply (MRequest assigned) c = c\<lparr>cp_myId_m := assigned\<rparr>"
| "conn_apply (MOffer sender assigned) c = c\<lparr>cp_peerId_m := sender, cp_myId_m := assigned\<rparr>"
| "conn_apply (MResume sender ip port) c =
     c\<lparr>cp_peerId_m := sender, cp_prevIpAddress_m := ip, cp_prevPort_m := port\<rparr>"
| "conn_apply (MReliable sender seq) c = c\<lparr>cp_peerId_m := sender, cp_sequenceNum_m := seq\<rparr>"
| "conn_apply (MPlain sender) c = c\<lparr>cp_peerId_m := sender\<rparr>"

fun conn_enc :: "conn_msg \<Rightarrow> byte list" where
  "conn_enc (MRequest a) = put_ulong a"
| "conn_enc (MOffer s a) = put_ulong s @ put_ulong a"
| "conn_enc (MResume s ip port) = put_ulong s @ put_ulong ip @ put_ushort port"
| "conn_enc (MReliable s q) = put_ulong s @ put_ulong q"
| "conn_enc (MPlain s) = put_ulong s"

definition conn_dec :: "dtcp_type \<Rightarrow> byte list \<Rightarrow> (conn_msg \<times> byte list) option" where
  "conn_dec t bs = (let first = get_ulong (take 8 bs); second = get_ulong (take 8 (drop 8 bs)) in
     if length bs < 8 then None
     else if t = t_connRequest then Some (MRequest first, drop 8 bs)
     else if t = t_connOffer then
       if length bs < 16 then None else Some (MOffer first second, drop 16 bs)
     else if t = t_connResume then
       if length bs < 18 then None
       else Some (MResume first second (get_ushort (take 2 (drop 16 bs))), drop 18 bs)
     else if t = t_connReliableData then
       if length bs < 16 then None else Some (MReliable first second, drop 16 bs)
     else Some (MPlain first, drop 8 bs))"

text \<open>Identifiers and addresses fit the 32 bits the wire carries, and the message is the kind that
  its packet type announces.\<close>

fun conn_fits :: "dtcp_type \<Rightarrow> conn_msg \<Rightarrow> bool" where
  "conn_fits t (MRequest a) = (t = t_connRequest \<and> take_bit 32 a = a)"
| "conn_fits t (MOffer s a) = (t = t_connOffer \<and> take_bit 32 s = s \<and> take_bit 32 a = a)"
| "conn_fits t (MResume s ip _) = (t = t_connResume \<and> take_bit 32 s = s \<and> take_bit 32 ip = ip)"
| "conn_fits t (MReliable s q) = (t = t_connReliableData \<and> take_bit 32 s = s \<and> take_bit 32 q = q)"
| "conn_fits t (MPlain s) =
     (t \<notin> {t_connRequest, t_connOffer, t_connResume, t_connReliableData} \<and> take_bit 32 s = s)"

interpretation conn: codec conn_enc "conn_dec t" "conn_fits t" for t
proof
  fix m r assume "conn_fits t m"
  then show "conn_dec t (conn_enc m @ r) = Some (m, r)"
    by (cases m) (auto simp: conn_dec_def Let_def)
qed

lemma cp_fields_enc: "put_ulong (cp_first c) @ cp_extra c = conn_enc (conn_msg_of c)"
  by (cases "cp_packetType_m c") (simp_all add: cp_first_def cp_extra_def conn_msg_of_def)

lemma length_cp_extra: "8 + length (cp_extra c) = length (conn_enc (conn_msg_of c))"
  by (simp add: cp_fields_enc [symmetric])

definition dtcp_header :: "dtcp_type \<Rightarrow> byte list" where
  "dtcp_header t = put_ulong magicCookie_s @ put_ushort version_s @ put_ushort (dtcp_code t)"

lemma length_dtcp_header [simp]: "length (dtcp_header t) = 12"
  by (simp add: dtcp_header_def)

section \<open>What the write path emits\<close>

text \<open>The bytes of a whole stack, and the status its \<open>writeData\<close> reports when every byte fits.\<close>

fun link_wire :: "stack_link \<Rightarrow> byte list" where
  "link_wire NullLink = []"
| "link_wire (DtcpL p par) = dtcp_header (dp_packetType_m (dp_update_from par p)) @ link_wire par"
| "link_wire (ConnL c par) = conn_enc (conn_msg_of c) @ link_wire par"
| "link_wire (DataL d par) = da_setData_m d @ link_wire par"

fun link_status :: "stack_link \<Rightarrow> bool" where
  "link_status NullLink = False"
| "link_status (DtcpL p par) = (par = NullLink)"
| "link_status (ConnL c par) = (par = NullLink \<or> link_status par)"
| "link_status (DataL d par) = (par = NullLink)"

fun link_after :: "stack_link \<Rightarrow> stack_link" where
  "link_after NullLink = NullLink"
| "link_after (DtcpL p par) = DtcpL (dp_update_from par p) (link_after par)"
| "link_after (ConnL c par) = ConnL c (link_after par)"
| "link_after (DataL d par) = DataL d (link_after par)"

lemma getWriteBuffer_room:
  "0 < writeRemaining_m db \<Longrightarrow> getWriteBuffer db = Some (writeOffset_m db, writeRemaining_m db)"
  by (simp add: getWriteBuffer_def)

lemma db_append_append:
  "db_inv db \<Longrightarrow> length a + length b \<le> writeRemaining_m db \<Longrightarrow>
     db_append b (db_append a db) = db_append (a @ b) db"
  by (auto simp: db_append_def overwrite_overwrite db_inv_def ac_simps)

lemma cp_write_fields_room:
  assumes "db_inv db" "length (conn_enc (conn_msg_of c)) \<le> writeRemaining_m db"
  shows "cp_write_fields c (writeOffset_m db) (writeRemaining_m db) db =
    Some (Some (length (conn_enc (conn_msg_of c))),
      db\<lparr>buffer_m := overwrite (writeOffset_m db) (conn_enc (conn_msg_of c)) (buffer_m db)\<rparr>)"
proof -
  have room: "8 \<le> writeRemaining_m db" "8 + length (cp_extra c) \<le> writeRemaining_m db"
    using assms(2) by (simp_all add: length_cp_extra [symmetric])
  have "cp_write_fields c (writeOffset_m db) (writeRemaining_m db) db =
      store (writeOffset_m db) (put_ulong (cp_first c)) db \<bind>
        (\<lambda>d. store (writeOffset_m db + 8) (cp_extra c) d \<bind>
           (\<lambda>d. Some (Some (8 + length (cp_extra c)), d)))"
    using room by (simp add: cp_write_fields_def)
  also have "\<dots> = store (writeOffset_m db) (conn_enc (conn_msg_of c)) db \<bind>
      (\<lambda>d. Some (Some (8 + length (cp_extra c)), d))"
    by (subst store_fuse) (simp_all add: cp_fields_enc)
  finally show ?thesis
    using store_then_advance(1) [OF assms] by (simp add: length_cp_extra)
qed

lemma dtcp_write_room:
  assumes "db_inv db" "12 \<le> writeRemaining_m db"
  shows "store (writeOffset_m db) (put_ulong magicCookie_s) db \<bind>
      (\<lambda>d. store (writeOffset_m db + 8) (put_ushort version_s) d \<bind>
      (\<lambda>d. store (writeOffset_m db + 10) (put_ushort (dtcp_code t)) d \<bind> k)) =
    k (db\<lparr>buffer_m := overwrite (writeOffset_m db) (dtcp_header t) (buffer_m db)\<rparr>)"
proof -
  have "store (writeOffset_m db) (put_ulong magicCookie_s) db \<bind>
      (\<lambda>d. store (writeOffset_m db + 8) (put_ushort version_s) d \<bind>
      (\<lambda>d. store (writeOffset_m db + 10) (put_ushort (dtcp_code t)) d \<bind> k)) =
    store (writeOffset_m db) (dtcp_header t) db \<bind> k"
    by (simp add: store_fuse dtcp_header_def)
  then show ?thesis
    using store_then_advance(1) [OF assms(1), of "dtcp_header t"] assms(2) by simp
qed

lemma dtcp_write_advance:
  assumes "db_inv db" "12 \<le> writeRemaining_m db"
  shows "snd (addWriteBytes 12 (db\<lparr>buffer_m := overwrite (writeOffset_m db) (dtcp_header t) (buffer_m db)\<rparr>))
    = db_append (dtcp_header t) db"
  using store_then_advance(2) [OF assms(1), of "dtcp_header t"] assms(2) by simp

lemma writeData_appends:
  assumes "db_inv db" "l \<noteq> NullLink" "length (link_wire l) < writeRemaining_m db"
  shows "writeData l db = Some (link_status l, link_after l, db_append (link_wire l) db)"
  using assms
proof (induction l arbitrary: db)
  case NullLink
  then show ?case by simp
next
  case (DtcpL p par)
  let ?h = "dtcp_header (dp_packetType_m (dp_update_from par p))"
  let ?db = "db_append ?h db"
  have room: "0 < writeRemaining_m db" "12 \<le> writeRemaining_m db" using DtcpL.prems by auto
  have inv: "db_inv ?db" "writeRemaining_m ?db = writeRemaining_m db - 12"
    using sink.ok_append [of db ?h] sink.room_append [of db ?h] DtcpL.prems(1) room by auto
  show ?case
  proof (cases "par = NullLink")
    case True
    with room DtcpL.prems show ?thesis
      by (simp add: getWriteBuffer_room Let_def dtcp_write_room dtcp_write_advance)
  next
    case False
    have "writeData par ?db = Some (link_status par, link_after par, db_append (link_wire par) ?db)"
      using DtcpL.prems inv False by (intro DtcpL.IH) auto
    moreover have "db_append (link_wire par) ?db = db_append (link_wire (DtcpL p par)) db"
      using DtcpL.prems by (simp add: db_append_append)
    ultimately show ?thesis
      using False room DtcpL.prems by (simp add: getWriteBuffer_room Let_def dtcp_write_room dtcp_write_advance)
  qed
next
  case (ConnL c par)
  let ?e = "conn_enc (conn_msg_of c)"
  let ?db = "db_append ?e db"
  have room: "0 < writeRemaining_m db" "length ?e \<le> writeRemaining_m db" using ConnL.prems by auto
  have inv: "db_inv ?db" "writeRemaining_m ?db = writeRemaining_m db - length ?e"
    using sink.ok_append [of db ?e] sink.room_append [of db ?e] ConnL.prems(1) room by auto
  note eqs = getWriteBuffer_room Let_def cp_write_fields_room store_then_advance(2)
  show ?case
  proof (cases "par = NullLink")
    case True
    with room ConnL.prems show ?thesis by (simp add: eqs)
  next
    case False
    have "writeData par ?db = Some (link_status par, link_after par, db_append (link_wire par) ?db)"
      using ConnL.prems inv False by (intro ConnL.IH) auto
    moreover have "db_append (link_wire par) ?db = db_append (link_wire (ConnL c par)) db"
      using ConnL.prems by (simp add: db_append_append)
    ultimately show ?thesis
      using False room ConnL.prems by (simp add: eqs)
  qed
next
  case (DataL d par)
  let ?e = "da_setData_m d"
  let ?db = "db_append ?e db"
  have room: "0 < writeRemaining_m db" "length ?e \<le> writeRemaining_m db" using DataL.prems by auto
  have inv: "db_inv ?db" "writeRemaining_m ?db = writeRemaining_m db - length ?e"
    using sink.ok_append [of db ?e] sink.room_append [of db ?e] DataL.prems(1) room by auto
  note eqs = getWriteBuffer_room Let_def store_then_advance
  show ?case
  proof (cases "par = NullLink")
    case True
    with room DataL.prems show ?thesis by (simp add: eqs)
  next
    case False
    have "writeData par ?db = Some (link_status par, link_after par, db_append (link_wire par) ?db)"
      using DataL.prems inv False by (intro DataL.IH) auto
    moreover have "db_append (link_wire par) ?db = db_append (link_wire (DataL d par)) db"
      using DataL.prems by (simp add: db_append_append)
    ultimately show ?thesis
      using False room DataL.prems by (simp add: eqs)
  qed
qed

section \<open>What the read path accepts\<close>

lemma getReadBuffer_data:
  "0 < readRemaining_m db \<Longrightarrow> getReadBuffer db = Some (readOffset_m db, readRemaining_m db)"
  by (simp add: getReadBuffer_def)

text \<open>Refinement: the pointer code of \<open>DtcpConnPacket::readData\<close> decodes the unread bytes.\<close>

lemma cp_read_fields_dec:
  assumes "db_inv db"
  shows "\<exists>c'. cp_read_fields c (readOffset_m db) (readRemaining_m db) db =
    Some (case conn_dec (cp_packetType_m c) (unread db) of
            None \<Rightarrow> (c', None)
          | Some (m, r) \<Rightarrow> (conn_apply m c, Some (readRemaining_m db - length r)))"
proof -
  have len: "length (unread db) = readRemaining_m db" using assms by (rule length_unread)
  show ?thesis
    using load_unread_0 [OF assms, of 8] load_unread [OF assms, of 8 8]
      load_unread [OF assms, of 16 2]
    by (auto simp: cp_read_fields_def conn_dec_def len Let_def)
qed

lemma readData_conn:
  assumes "db_inv db" "conn_dec (cp_packetType_m c) (unread db) = Some (m, r)"
  shows "readData (ConnL c NullLink) db =
    Some (True, ConnL (conn_apply m c) NullLink, db_consume (readRemaining_m db - length r) db)"
proof -
  have len: "length (unread db) = readRemaining_m db" using assms(1) by (rule length_unread)
  have data: "0 < readRemaining_m db"
    using assms(2) len by (auto simp: conn_dec_def Let_def split: if_splits)
  have "cp_read_fields c (readOffset_m db) (readRemaining_m db) db =
      Some (conn_apply m c, Some (readRemaining_m db - length r))"
    using cp_read_fields_dec [OF assms(1), of c] assms(2) by auto
  with data show ?thesis by (simp add: getReadBuffer_data Let_def addReadBytes_consume)
qed

lemma dp_read_header_dec:
  assumes "db_inv db"
  shows "dp_read_header p (readOffset_m db) (readRemaining_m db) db =
    Some (let u = unread db;
              ok = (12 \<le> length u \<and> get_ulong (take 8 u) = magicCookie_s \<and>
                    get_ushort (take 2 (drop 8 u)) = version_s)
          in (ok, if ok then p\<lparr>dp_packetType_m := dtcp_of_code (get_ushort (take 2 (drop 10 u)))\<rparr> else p))"
proof -
  have len: "length (unread db) = readRemaining_m db" using assms by (rule length_unread)
  show ?thesis
    using load_unread_0 [OF assms, of 8] load_unread [OF assms, of 8 2] load_unread [OF assms, of 10 2]
    by (auto simp: dp_read_header_def len Let_def)
qed

lemma magicCookie_fits [simp]: "take_bit 32 magicCookie_s = magicCookie_s"
  by (simp add: magicCookie_s_def)

lemma readData_dtcp:
  assumes "db_inv db" "unread db = dtcp_header t @ r" "dtcp_valid t"
  shows "readData (DtcpL p NullLink) db =
    Some (True, DtcpL (p\<lparr>dp_packetType_m := t\<rparr>) NullLink, db_consume 12 db)"
proof -
  have len: "readRemaining_m db = 12 + length r"
    using length_unread [OF assms(1)] assms(2) by simp
  have "dp_read_header p (readOffset_m db) (readRemaining_m db) db =
      Some (True, p\<lparr>dp_packetType_m := t\<rparr>)"
    using assms(3)
    by (simp add: dp_read_header_dec [OF assms(1)] assms(2) dtcp_header_def dtcp_valid_def)
  with len show ?thesis by (simp add: getReadBuffer_data Let_def addReadBytes_consume)
qed

text \<open>A payload is delivered as a pointer to exactly the unread bytes.\<close>

lemma readData_data:
  assumes "db_inv db" "unread db \<noteq> []"
  shows "\<exists>d' db'. readData (DataL d NullLink) db = Some (True, DataL d' NullLink, db') \<and>
    da_getPacketData d' db' = Some (unread db) \<and> unread db' = []"
proof -
  have len: "length (unread db) = readRemaining_m db" using assms(1) by (rule length_unread)
  with assms(2) have data: "0 < readRemaining_m db" by (metis length_greater_0_conv)
  then show ?thesis
    using load_unread_0 [OF assms(1), of "readRemaining_m db"] len
    by (simp add: getReadBuffer_data Let_def addReadBytes_consume da_getPacketData_def)
      (simp add: db_consume_def load_def split: if_splits)
qed

section \<open>Memory safety\<close>

text \<open>No store or load leaves the array, whatever the room left, the bytes received and the stack
  of links: the only fault is a call through the null pointer.\<close>

lemma store_room:
  "db_inv db \<Longrightarrow> k + length bs \<le> writeRemaining_m db \<Longrightarrow>
     \<exists>d. store (writeOffset_m db + k) bs db = Some d \<and> db_inv d \<and>
         writeOffset_m d = writeOffset_m db \<and> writeRemaining_m d = writeRemaining_m db"
  by (auto simp: store_def db_inv_def)

lemma addWriteBytes_inv: "db_inv db \<Longrightarrow> db_inv (snd (addWriteBytes n db))"
  using db_step_inv [of db "DbAddWriteBytes n"] by simp

lemma addReadBytes_inv: "db_inv db \<Longrightarrow> db_inv (snd (addReadBytes n db))"
  using db_step_inv [of db "DbAddReadBytes n"] by simp

lemma cp_write_fields_safe:
  assumes "db_inv db"
  shows "\<exists>n d. cp_write_fields c (writeOffset_m db) (writeRemaining_m db) db = Some (n, d) \<and> db_inv d"
proof (cases "writeRemaining_m db < 8")
  case True
  with assms show ?thesis by (simp add: cp_write_fields_def)
next
  case False
  then obtain d where d: "store (writeOffset_m db) (put_ulong (cp_first c)) db = Some d" "db_inv d"
      "writeOffset_m d = writeOffset_m db" "writeRemaining_m d = writeRemaining_m db"
    using store_room [OF assms, of 0 "put_ulong (cp_first c)"] by auto
  show ?thesis
  proof (cases "writeRemaining_m db < 8 + length (cp_extra c)")
    case True
    with False d show ?thesis by (simp add: cp_write_fields_def)
  next
    case room: False
    then obtain d' where "store (writeOffset_m db + 8) (cp_extra c) d = Some d'" "db_inv d'"
      using store_room [OF d(2), of 8 "cp_extra c"] d(3,4) by auto
    with False room d show ?thesis by (simp add: cp_write_fields_def)
  qed
qed

lemma writeData_safe:
  assumes "db_inv db" "l \<noteq> NullLink"
  shows "\<exists>st l' db'. writeData l db = Some (st, l', db') \<and> db_inv db'"
  using assms
proof (induction l arbitrary: db)
  case NullLink
  then show ?case by simp
next
  case (DtcpL p par)
  show ?case
  proof (cases "writeRemaining_m db < 12")
    case True
    with DtcpL.prems show ?thesis by (simp add: getWriteBuffer_def Let_def)
  next
    case False
    let ?t = "dp_packetType_m (dp_update_from par p)"
    let ?db = "db_append (dtcp_header ?t) db"
    have inv: "db_inv ?db" using sink.ok_append [of db "dtcp_header ?t"] DtcpL.prems False by auto
    have eqs: "getWriteBuffer db = Some (writeOffset_m db, writeRemaining_m db)"
      using False by (simp add: getWriteBuffer_def)
    show ?thesis
    proof (cases "par = NullLink")
      case True
      with False eqs inv DtcpL.prems show ?thesis
        by (simp add: Let_def dtcp_write_room dtcp_write_advance)
    next
      case par: False
      obtain st l' db' where "writeData par ?db = Some (st, l', db')" "db_inv db'"
        using DtcpL.IH [OF inv par] by blast
      with False par eqs DtcpL.prems show ?thesis
        by (simp add: Let_def dtcp_write_room dtcp_write_advance)
    qed
  qed
next
  case (ConnL c par)
  show ?case
  proof (cases "writeRemaining_m db = 0")
    case True
    with ConnL.prems show ?thesis by (simp add: getWriteBuffer_def)
  next
    case False
    then have eqs: "getWriteBuffer db = Some (writeOffset_m db, writeRemaining_m db)"
      by (simp add: getWriteBuffer_def)
    obtain n d where f: "cp_write_fields c (writeOffset_m db) (writeRemaining_m db) db = Some (n, d)"
        "db_inv d"
      using cp_write_fields_safe [OF ConnL.prems(1)] by blast
    note inv = addWriteBytes_inv [OF f(2)]
    show ?thesis
    proof (cases "n = None \<or> par = NullLink")
      case True
      with eqs f inv show ?thesis by (auto simp: Let_def split: option.splits)
    next
      case par: False
      then obtain k where n: "n = Some k" by auto
      obtain st l' db' where "writeData par (snd (addWriteBytes k d)) = Some (st, l', db')" "db_inv db'"
        using ConnL.IH [OF inv [of k]] par by blast
      with eqs f par n show ?thesis by (cases st) (simp_all add: Let_def)
    qed
  qed
next
  case (DataL d par)
  show ?case
  proof (cases "writeRemaining_m db = 0 \<or> writeRemaining_m db < length (da_setData_m d)")
    case True
    with DataL.prems show ?thesis by (auto simp: getWriteBuffer_def)
  next
    case False
    then have room: "length (da_setData_m d) \<le> writeRemaining_m db"
      and eqs: "getWriteBuffer db = Some (writeOffset_m db, writeRemaining_m db)"
      by (auto simp: getWriteBuffer_def)
    have inv: "db_inv (db_append (da_setData_m d) db)"
      using sink.ok_append DataL.prems(1) room by blast
    show ?thesis
    proof (cases "par = NullLink")
      case True
      with eqs inv room DataL.prems show ?thesis by (simp add: Let_def store_then_advance)
    next
      case par: False
      obtain st l' db' where "writeData par (db_append (da_setData_m d) db) = Some (st, l', db')"
          "db_inv db'"
        using DataL.IH [OF inv par] by blast
      with eqs room par DataL.prems show ?thesis by (simp add: Let_def store_then_advance)
    qed
  qed
qed

lemma dp_update_parent_null [simp]: "dp_update_parent p par = NullLink \<longleftrightarrow> par = NullLink"
  by (cases par) (simp_all add: dp_update_parent_def)

lemma readData_safe:
  assumes "db_inv db" "l \<noteq> NullLink"
  shows "\<exists>st l' db'. readData l db = Some (st, l', db') \<and> db_inv db'"
  using assms
proof (induction l arbitrary: db rule: measure_induct_rule [of size])
  case (less l)
  show ?case
  proof (cases "getReadBuffer db")
    case None
    with less.prems show ?thesis by (cases l) auto
  next
    case (Some b)
    then have b: "getReadBuffer db = Some (readOffset_m db, readRemaining_m db)"
      by (simp add: getReadBuffer_def split: if_splits)
    note inv = addReadBytes_inv [OF less.prems(1)]
    show ?thesis
    proof (cases l)
      case NullLink
      with less.prems show ?thesis by simp
    next
      case (DtcpL p par)
      obtain ok p1 where h: "dp_read_header p (readOffset_m db) (readRemaining_m db) db = Some (ok, p1)"
        using dp_read_header_dec [OF less.prems(1), of p] by (auto simp: Let_def)
      show ?thesis
      proof (cases "ok \<and> par \<noteq> NullLink")
        case False
        with DtcpL b h inv [of 12] less.prems show ?thesis by (auto simp: Let_def)
      next
        case True
        then obtain st l' db' where
          "readData (dp_update_parent p1 par) (snd (addReadBytes 12 db)) = Some (st, l', db')" "db_inv db'"
          using less.IH [of "dp_update_parent p1 par", OF _ inv [of 12]] DtcpL
          by (auto simp: size_dp_update_parent)
        with True DtcpL b h show ?thesis by (auto simp: Let_def)
      qed
    next
      case (ConnL c par)
      obtain c1 n where h: "cp_read_fields c (readOffset_m db) (readRemaining_m db) db = Some (c1, n)"
        using cp_read_fields_dec [OF less.prems(1), of c] by (auto split: option.splits)
      show ?thesis
      proof (cases "n = None \<or> par = NullLink")
        case True
        with ConnL b h inv less.prems show ?thesis by (auto simp: Let_def split: option.splits)
      next
        case False
        then obtain k where k: "n = Some k" "par \<noteq> NullLink" by auto
        then obtain st l' db' where
          "readData par (snd (addReadBytes k db)) = Some (st, l', db')" "db_inv db'"
          using less.IH [of par, OF _ inv [of k]] ConnL by auto
        with k ConnL b h show ?thesis by (auto simp: Let_def)
      qed
    next
      case (DataL d par)
      show ?thesis
      proof (cases "par = NullLink")
        case True
        with DataL b inv show ?thesis by (auto simp: Let_def)
      next
        case False
        then obtain st l' db' where
          "readData par (snd (addReadBytes (readRemaining_m db) db)) = Some (st, l', db')" "db_inv db'"
          using less.IH [of par, OF _ inv [of "readRemaining_m db"]] DataL by auto
        with False DataL b show ?thesis by (auto simp: Let_def)
      qed
    qed
  qed
qed

section \<open>The round trip\<close>

text \<open>The properties of the root theory rest on these two facts.\<close>

lemma written_stack:
  assumes "db_inv db" "l \<noteq> NullLink" "length (link_wire l) < length (buffer_m db)"
    and "writeData l (writeReset db) = Some (st, l', out)"
  shows "db_inv (readReset out) \<and> unread (readReset out) = link_wire l"
proof -
  have inv: "db_inv (writeReset db)" using db_step_inv [OF assms(1), of DbWriteReset] by simp
  have out: "out = db_append (link_wire l) (writeReset db)"
    using writeData_appends [OF inv assms(2)] assms(3,4) by (simp add: writeReset_def)
  have room: "length (link_wire l) \<le> writeRemaining_m (writeReset db)"
    using assms(3) by (simp add: writeReset_def)
  have o: "db_inv out" using sink.ok_append [OF inv room] by (simp add: out)
  moreover have "dataSize_m out = writeOffset_m out" by (simp add: out db_append_def writeReset_def)
  moreover have "written out = link_wire l" using sink.out_append [OF inv room] by (simp add: out)
  ultimately show ?thesis
    using unread_readReset [of out] db_step_inv [of out DbReadReset] by simp
qed

lemma received_stack:
  assumes "db_inv db" "unread db = dtcp_header t @ conn_enc m @ payload" "dtcp_valid t"
    "conn_fits t m"
  shows "\<exists>db1 db2. readData (DtcpL p NullLink) db = Some (True, DtcpL (p\<lparr>dp_packetType_m := t\<rparr>) NullLink, db1) \<and>
    readData (ConnL (c\<lparr>cp_packetType_m := t\<rparr>) NullLink) db1 =
      Some (True, ConnL (conn_apply m (c\<lparr>cp_packetType_m := t\<rparr>)) NullLink, db2) \<and>
    db_inv db2 \<and> unread db2 = payload"
proof -
  have len: "readRemaining_m db = 12 + length (conn_enc m) + length payload"
    using length_unread [OF assms(1)] assms(2) by simp
  let ?db1 = "db_consume 12 db"
  have inv1: "db_inv ?db1" using db_inv_consume [OF assms(1)] len by simp
  have u1: "unread ?db1 = conn_enc m @ payload" by (simp add: assms(2))
  have r1: "readRemaining_m ?db1 = length (conn_enc m) + length payload"
    using len by (simp add: db_consume_def)
  have dec: "conn_dec t (unread ?db1) = Some (m, payload)"
    unfolding u1 using assms(4) by (rule conn.dec_enc)
  have "readData (ConnL (c\<lparr>cp_packetType_m := t\<rparr>) NullLink) ?db1 =
      Some (True, ConnL (conn_apply m (c\<lparr>cp_packetType_m := t\<rparr>)) NullLink,
        db_consume (length (conn_enc m)) ?db1)"
    using readData_conn [OF inv1, of "c\<lparr>cp_packetType_m := t\<rparr>"] dec r1 by simp
  moreover have "db_inv (db_consume (length (conn_enc m)) ?db1)"
    using db_inv_consume [OF inv1] r1 by simp
  moreover have "unread (db_consume (length (conn_enc m)) ?db1) = payload" by (simp add: assms(2))
  ultimately show ?thesis
    using readData_dtcp [OF assms(1,2,3)] by blast
qed

section \<open>Properties\<close>

text \<open>C1: What one node writes for a DTCP packet with a connection packet and a payload above it,
  the peer reads back: from a buffer with room for it, the bytes written decode first to the
  packet type, then to the connection fields (with the roles of the identifiers exchanged), and
  leave exactly the payload, for every packet type and every identifier that fits 32 bits.\<close>

theorem dtcp_stack_roundtrip:
  assumes "db_inv db" "length (link_wire l) < length (buffer_m db)"
    and "l = DtcpL p (ConnL c (DataL d NullLink))" "dtcp_valid (cp_packetType_m c)"
    and "conn_fits (cp_packetType_m c) (conn_msg_of c)" "da_setData_m d \<noteq> []"
  shows "\<exists>st l' out db1 db2 d' db3.
    writeData l (writeReset db) = Some (st, l', out) \<and>
    readData (DtcpL q NullLink) (readReset out) =
      Some (True, DtcpL (q\<lparr>dp_packetType_m := cp_packetType_m c\<rparr>) NullLink, db1) \<and>
    readData (ConnL (c'\<lparr>cp_packetType_m := cp_packetType_m c\<rparr>) NullLink) db1 =
      Some (True, ConnL (conn_apply (conn_msg_of c) (c'\<lparr>cp_packetType_m := cp_packetType_m c\<rparr>)) NullLink, db2) \<and>
    readData (DataL e NullLink) db2 = Some (True, DataL d' NullLink, db3) \<and>
    da_getPacketData d' db3 = Some (da_setData_m d)"
proof -
  have l: "l \<noteq> NullLink" by (simp add: assms(3))
  have inv: "db_inv (writeReset db)" using db_step_inv [OF assms(1), of DbWriteReset] by simp
  obtain st l' out where w: "writeData l (writeReset db) = Some (st, l', out)"
    using writeData_safe [OF inv l] by blast
  have "link_wire l = dtcp_header (cp_packetType_m c) @ conn_enc (conn_msg_of c) @ da_setData_m d"
    by (simp add: assms(3) dp_update_from_def split: option.split)
  with written_stack [OF assms(1) l assms(2) w]
  have u: "db_inv (readReset out)"
      "unread (readReset out) = dtcp_header (cp_packetType_m c) @ conn_enc (conn_msg_of c) @ da_setData_m d"
    by simp_all
  from received_stack [OF u assms(4,5), of q c'] obtain db1 db2 where r:
    "readData (DtcpL q NullLink) (readReset out) =
      Some (True, DtcpL (q\<lparr>dp_packetType_m := cp_packetType_m c\<rparr>) NullLink, db1)"
    "readData (ConnL (c'\<lparr>cp_packetType_m := cp_packetType_m c\<rparr>) NullLink) db1 =
      Some (True, ConnL (conn_apply (conn_msg_of c) (c'\<lparr>cp_packetType_m := cp_packetType_m c\<rparr>)) NullLink, db2)"
    "db_inv db2" "unread db2 = da_setData_m d" by blast
  from readData_data [OF r(3), of e] r(4) assms(6) obtain d' db3 where
    "readData (DataL e NullLink) db2 = Some (True, DataL d' NullLink, db3)"
    "da_getPacketData d' db3 = Some (da_setData_m d)" by auto
  with w r show ?thesis by blast
qed

text \<open>A concrete offer: identifiers 7 and 9, three bytes of payload, a 64-byte buffer.\<close>

definition demo_conn :: DtcpConnPacket where
  "demo_conn = \<lparr>cp_peerId_m = 9, cp_myId_m = 7, cp_peerIpAddress_m = 3232235521, cp_peerPort_m = 4000,
     cp_prevIpAddress_m = 0, cp_prevPort_m = 0, cp_sequenceNum_m = 0, cp_packetType_m = t_connOffer\<rparr>"

definition demo_data :: DtcpDataPacket where
  "demo_data = DtcpDataPacket_new\<lparr>da_setData_m := [1, 2, 3]\<rparr>"

definition demo_stack :: stack_link where
  "demo_stack = DtcpL DtcpPacket_new (ConnL demo_conn (DataL demo_data NullLink))"

lemma demo_conn_simps:
  "cp_packetType_m demo_conn = t_connOffer" "conn_msg_of demo_conn = MOffer 7 9"
  "da_setData_m demo_data = [1, 2, 3]"
  by (simp_all add: demo_conn_def conn_msg_of_def demo_data_def)

lemma demo_wire: "length (link_wire demo_stack) = 31"
  by (simp add: demo_stack_def demo_conn_simps)

theorem dtcp_stack_roundtrip_witness:
  "\<exists>st l' out db1 db2 d' db3.
    writeData demo_stack (writeReset (DataBuffer_new 64)) = Some (st, l', out) \<and>
    readData (DtcpL DtcpPacket_new NullLink) (readReset out) =
      Some (True, DtcpL (DtcpPacket_new\<lparr>dp_packetType_m := t_connOffer\<rparr>) NullLink, db1) \<and>
    readData (ConnL (demo_conn\<lparr>cp_packetType_m := t_connOffer\<rparr>) NullLink) db1 =
      Some (True, ConnL (demo_conn\<lparr>cp_packetType_m := t_connOffer, cp_peerId_m := 7, cp_myId_m := 9\<rparr>) NullLink, db2) \<and>
    readData (DataL DtcpDataPacket_new NullLink) db2 = Some (True, DataL d' NullLink, db3) \<and>
    da_getPacketData d' db3 = Some [1, 2, 3]"
proof -
  have "db_inv (DataBuffer_new 64)" by (rule db_inv_new)
  moreover have "length (link_wire demo_stack) < length (buffer_m (DataBuffer_new 64))"
    by (simp add: demo_wire DataBuffer_new_def)
  moreover have "dtcp_valid (cp_packetType_m demo_conn)"
    by (simp add: demo_conn_simps dtcp_valid_def dtcp_of_code_def dtcp_listed_def)
  moreover have "conn_fits (cp_packetType_m demo_conn) (conn_msg_of demo_conn)"
    by (simp add: demo_conn_simps)
  moreover have "da_setData_m demo_data \<noteq> []" by (simp add: demo_conn_simps)
  ultimately show ?thesis
    using dtcp_stack_roundtrip [OF _ _ demo_stack_def, of "DataBuffer_new 64" DtcpPacket_new demo_conn
        DtcpDataPacket_new]
    unfolding demo_conn_simps conn_apply.simps by blast
qed

text \<open>C2: Neither direction of the packet code ever touches memory outside the buffer: for any
  stack of links, any room left and any received bytes, \<open>writeData\<close> and \<open>readData\<close> return and
  leave the buffer's counters consistent.\<close>

theorem dtcp_stack_memory_safe:
  assumes "db_inv db" "l \<noteq> NullLink"
  shows "(\<exists>st l' db'. writeData l db = Some (st, l', db') \<and> db_inv db') \<and>
         (\<exists>st l' db'. readData l db = Some (st, l', db') \<and> db_inv db')"
  using writeData_safe [OF assms] readData_safe [OF assms] by (rule conjI)

theorem dtcp_stack_memory_safe_witness:
  "(\<exists>st l' db'. writeData demo_stack (DataBuffer_new 20) = Some (st, l', db') \<and> db_inv db') \<and>
   (\<exists>st l' db'. readData demo_stack (DataBuffer_new 20) = Some (st, l', db') \<and> db_inv db')"
  by (rule dtcp_stack_memory_safe [OF db_inv_new(1)]) (simp add: demo_stack_def)

text \<open>A DTCP packet with a link above it never reports success, although the bytes are all
  written when there is room: \<open>DtcpPacket::writeData\<close> returns false after the parent's success, so
  every caller that tests the status (\<open>DtcpBaseUdpTransport::sendPacket\<close>) discards the packet.\<close>

lemma dtcp_parent_write_reports_failure:
  assumes "db_inv db" "par \<noteq> NullLink" "length (link_wire (DtcpL p par)) < writeRemaining_m db"
  shows "\<exists>l' db'. writeData (DtcpL p par) db = Some (False, l', db') \<and>
    written db' = written db @ link_wire (DtcpL p par)"
proof -
  have "writeData (DtcpL p par) db = Some (False, link_after (DtcpL p par),
      db_append (link_wire (DtcpL p par)) db)"
    using writeData_appends [OF assms(1) _ assms(3)] assms(2) by simp
  moreover have "written (db_append (link_wire (DtcpL p par)) db) = written db @ link_wire (DtcpL p par)"
    by (rule sink.out_append [OF assms(1)]) (use assms(3) in simp)
  ultimately show ?thesis by blast
qed

lemma dtcp_parent_write_reports_failure_witness:
  "\<exists>l' db'. writeData demo_stack (DataBuffer_new 64) = Some (False, l', db') \<and>
    written db' = written (DataBuffer_new 64) @ link_wire demo_stack"
proof -
  have "length (link_wire demo_stack) < writeRemaining_m (DataBuffer_new 64)"
    by (simp add: demo_wire DataBuffer_new_def)
  then show ?thesis
    unfolding demo_stack_def
    by (intro dtcp_parent_write_reports_failure [OF db_inv_new(1)]) simp_all
qed

text \<open>A net identifier gives back the 32-bit address and the port it was made from.\<close>

lemma netId_roundtrip: "netIdToIpPort (ipPortToNetId ip port) = (take_bit 32 ip, port)"
proof -
  have "push_bit 32 ip + (ucast port :: ulong) = or (push_bit 32 ip) (ucast port)"
    by (rule disjunctive_add) (auto simp: bit_simps dest: bit_imp_le_length)
  then have e: "ipPortToNetId ip port = or (push_bit 32 ip) (ucast port)"
    by (simp add: ipPortToNetId_def)
  have "drop_bit 32 (ipPortToNetId ip port) = take_bit 32 ip"
    unfolding e by (rule bit_word_eqI) (auto simp: bit_simps dest: bit_imp_le_length)
  moreover have "(ucast (ipPortToNetId ip port) :: ushort) = port"
    unfolding e by (rule bit_word_eqI) (auto simp: bit_simps)
  ultimately show ?thesis by (simp add: netIdToIpPort_def)
qed

end
