(* ===== verification/DtcpThreadTable.thy ===== *)
theory DtcpThreadTable
  imports Prelude "HOL-Library.Multiset"
begin

text \<open>
  transport/Dtcp/DtcpThreadTable.cpp: the pools of receive records and send buffers of a UDP
  transport, the queue of received records, and the threads that work on them. A record, buffer or
  thread object is its address; \<open>heap_m\<close> is the next address \<open>new\<close> returns, so no two allocations share
  one. A vector access out of range is a fault (\<open>None\<close>). Clock readings and the outcome of starting a
  thread are arguments, and the threads that are resumed are a result. Each method runs its lock
  scopes in one step: what a method holds between two of its scopes is known to its thread only.
\<close>

section \<open>State\<close>

type_synonym t_ThreadId = nat
type_synonym rec_ptr = nat
type_synonym thread_ptr = nat

record DtcpThreadTable =
  maxThreads_m :: ushort
  maxRecords_m :: uint
  maxBuffers_m :: uint
  recordPool_m :: "rec_ptr list"
  freeRecordIndices_m :: "int list"
  recordLastActivity_m :: "int list"
  recordQueue_m :: "int list"
  bufferPool_m :: "rec_ptr list"
  freeBufferIndices_m :: "int list"
  threadObjectIndex_m :: "(t_ThreadId \<times> thread_ptr option) list"
  activeThreadIndex_m :: "(t_ThreadId \<times> int) list"
  externalThreadIndex_m :: "(t_ThreadId \<times> int) list"
  allThreadList_m :: "thread_ptr list"
  idleThreadList_m :: "thread_ptr list"
  heap_m :: nat

definition vec_at :: "'a list \<Rightarrow> int \<Rightarrow> 'a option" where
  "vec_at xs i = (if 0 \<le> i \<and> nat i < length xs then Some (xs ! nat i) else None)"

definition vec_set :: "'a list \<Rightarrow> int \<Rightarrow> 'a \<Rightarrow> 'a list option" where
  "vec_set xs i x = (if 0 \<le> i \<and> nat i < length xs then Some (xs[nat i := x]) else None)"

text \<open>The search loops over a pool.\<close>

fun pool_index :: "rec_ptr \<Rightarrow> rec_ptr list \<Rightarrow> int \<Rightarrow> int option" where
  "pool_index p [] i = None"
| "pool_index p (x # xs) i = (if x = p then Some i else pool_index p xs (i + 1))"

text \<open>\<open>unordered_map\<close>: \<open>emplace\<close> keeps an existing entry.\<close>

definition um_emplace :: "'k \<Rightarrow> 'v \<Rightarrow> ('k \<times> 'v) list \<Rightarrow> ('k \<times> 'v) list" where
  "um_emplace k v m = (case map_of m k of None \<Rightarrow> (k, v) # m | Some _ \<Rightarrow> m)"

definition um_erase :: "'k \<Rightarrow> ('k \<times> 'v) list \<Rightarrow> ('k \<times> 'v) list" where
  "um_erase k m = filter (\<lambda>e. fst e \<noteq> k) m"

text \<open>\<open>maxConnections\<close> is the configured value, when there is one.\<close>

definition DtcpThreadTable_new :: "ushort \<Rightarrow> uint \<Rightarrow> uint \<Rightarrow> uint option \<Rightarrow> int \<Rightarrow> DtcpThreadTable" where
  "DtcpThreadTable_new maxThreads maxRecords maxBuffers maxConnections now =
     (let n = unat maxThreads in
      \<lparr>maxThreads_m = maxThreads,
       maxRecords_m = (case maxConnections of None \<Rightarrow> maxRecords | Some val \<Rightarrow> if val > 0 then val else maxRecords),
       maxBuffers_m = maxBuffers,
       recordPool_m = [0..<n], freeRecordIndices_m = map int [0..<n], recordLastActivity_m = replicate n now,
       recordQueue_m = [], bufferPool_m = [n..<2 * n], freeBufferIndices_m = map int [0..<n],
       threadObjectIndex_m = [], activeThreadIndex_m = [], externalThreadIndex_m = [], allThreadList_m = [],
       idleThreadList_m = [], heap_m = 2 * n\<rparr>)"

section \<open>Records\<close>

definition touch :: "int \<Rightarrow> int \<Rightarrow> DtcpThreadTable \<Rightarrow> DtcpThreadTable option" where
  "touch now idx t = map_option (\<lambda>ts. t\<lparr>recordLastActivity_m := ts\<rparr>) (vec_set (recordLastActivity_m t) idx now)"

text \<open>The scan for the oldest free record, from \<open>t_TimePoint::max()\<close>.\<close>

fun oldest_pos :: "int list \<Rightarrow> int list \<Rightarrow> int \<Rightarrow> int \<Rightarrow> int \<Rightarrow> int option" where
  "oldest_pos activity [] i oldestTime oldestPos = Some oldestPos"
| "oldest_pos activity (idx # free) i oldestTime oldestPos = do {
     ts \<leftarrow> vec_at activity idx;
     if ts < oldestTime then oldest_pos activity free (i + 1) ts i
     else oldest_pos activity free (i + 1) oldestTime oldestPos
   }"

definition evictLruRecord :: "DtcpThreadTable \<Rightarrow> (int \<times> DtcpThreadTable) option" where
  "evictLruRecord t =
     (if freeRecordIndices_m t \<noteq> [] then do {
        oldestPos \<leftarrow> oldest_pos (recordLastActivity_m t) (freeRecordIndices_m t) 0 (2 ^ 63 - 1) (- 1);
        if oldestPos \<ge> 0 then do {
          idx \<leftarrow> vec_at (freeRecordIndices_m t) oldestPos;
          free \<leftarrow> vec_set (freeRecordIndices_m t) oldestPos (last (freeRecordIndices_m t));
          Some (idx, t\<lparr>freeRecordIndices_m := butlast free\<rparr>)
        }
        else Some (- 1, t)
      }
      else Some (- 1, t))"

text \<open>The record is \<open>None\<close> exactly when the method returns false.\<close>

definition allocateRecord :: "int \<Rightarrow> DtcpThreadTable \<Rightarrow> (rec_ptr option \<times> DtcpThreadTable) option" where
  "allocateRecord now t =
     (if freeRecordIndices_m t \<noteq> [] then do {
        let idx = last (freeRecordIndices_m t);
        let t1 = t\<lparr>freeRecordIndices_m := butlast (freeRecordIndices_m t)\<rparr>;
        record \<leftarrow> vec_at (recordPool_m t1) idx;
        t2 \<leftarrow> touch now idx t1;
        Some (Some record, t2)
      }
      else if length (recordPool_m t) < unat (maxRecords_m t)
      then Some (Some (heap_m t),
                 t\<lparr>recordPool_m := recordPool_m t @ [heap_m t],
                   recordLastActivity_m := recordLastActivity_m t @ [now], heap_m := heap_m t + 1\<rparr>)
      else do {
        (evicted, t1) \<leftarrow> evictLruRecord t;
        if evicted \<ge> 0 then do {
          record \<leftarrow> vec_at (recordPool_m t1) evicted;
          t2 \<leftarrow> touch now evicted t1;
          Some (Some record, t2)
        }
        else Some (None, t1)
      })"

definition returnRecord :: "int \<Rightarrow> rec_ptr option \<Rightarrow> DtcpThreadTable \<Rightarrow> DtcpThreadTable option" where
  "returnRecord now record t = (case record of
       None \<Rightarrow> Some t
     | Some r \<Rightarrow> (case pool_index r (recordPool_m t) 0 of
           None \<Rightarrow> Some t
         | Some i \<Rightarrow> touch now i (t\<lparr>freeRecordIndices_m := freeRecordIndices_m t @ [i]\<rparr>)))"

definition allocateBuffer :: "DtcpThreadTable \<Rightarrow> (rec_ptr option \<times> DtcpThreadTable) option" where
  "allocateBuffer t =
     (if freeBufferIndices_m t \<noteq> [] then do {
        let idx = last (freeBufferIndices_m t);
        let t1 = t\<lparr>freeBufferIndices_m := butlast (freeBufferIndices_m t)\<rparr>;
        buffer \<leftarrow> vec_at (bufferPool_m t1) idx;
        Some (Some buffer, t1)
      }
      else if length (bufferPool_m t) < unat (maxBuffers_m t)
      then let t1 = t\<lparr>bufferPool_m := bufferPool_m t @ [heap_m t], heap_m := heap_m t + 1\<rparr>;
               t2 = t1\<lparr>freeBufferIndices_m := freeBufferIndices_m t1 @ [int (length (bufferPool_m t1)) - 1]\<rparr>;
               t3 = t2\<lparr>freeBufferIndices_m := butlast (freeBufferIndices_m t2)\<rparr>
           in Some (Some (heap_m t), t3)
      else Some (None, t))"

definition releaseBuffer :: "rec_ptr option \<Rightarrow> DtcpThreadTable \<Rightarrow> bool \<times> DtcpThreadTable" where
  "releaseBuffer buffer t = (case buffer of
       None \<Rightarrow> (False, t)
     | Some b \<Rightarrow> (case pool_index b (bufferPool_m t) 0 of
           None \<Rightarrow> (False, t)
         | Some i \<Rightarrow> (True, t\<lparr>freeBufferIndices_m := freeBufferIndices_m t @ [i]\<rparr>)))"

section \<open>Threads\<close>

text \<open>\<open>spawn\<close> is the id and the object of a thread that was started, \<open>None\<close> when \<open>create\<close> failed.\<close>

definition createThread :: "(t_ThreadId \<times> thread_ptr) option \<Rightarrow> DtcpThreadTable \<Rightarrow>
    bool \<times> thread_ptr list \<times> DtcpThreadTable" where
  "createThread spawn t = (case spawn of
       None \<Rightarrow> (False, [], t)
     | Some (i, newThread) \<Rightarrow>
         (True, [newThread],
          t\<lparr>allThreadList_m := allThreadList_m t @ [newThread],
            threadObjectIndex_m := um_emplace i (Some newThread) (threadObjectIndex_m t)\<rparr>))"

definition wakeThread :: "DtcpThreadTable \<Rightarrow> bool \<times> thread_ptr list \<times> DtcpThreadTable" where
  "wakeThread t = (case idleThreadList_m t of
       [] \<Rightarrow> (True, [], t)
     | idleThread # rest \<Rightarrow> (True, [idleThread], t\<lparr>idleThreadList_m := rest\<rparr>))"

definition threadIdle :: "t_ThreadId \<Rightarrow> DtcpThreadTable \<Rightarrow> bool \<times> DtcpThreadTable" where
  "threadIdle i t = (case map_of (threadObjectIndex_m t) i of
       None \<Rightarrow> (False, t)
     | Some None \<Rightarrow> (False, t)
     | Some (Some threadObj) \<Rightarrow> (True, t\<lparr>idleThreadList_m := idleThreadList_m t @ [threadObj]\<rparr>))"

text \<open>A record that is not of the pool is queued as \<open>-1\<close>.\<close>

definition enqueue_record :: "int \<Rightarrow> rec_ptr \<Rightarrow> DtcpThreadTable \<Rightarrow> DtcpThreadTable option" where
  "enqueue_record now r t = (case pool_index r (recordPool_m t) 0 of
       None \<Rightarrow> Some (t\<lparr>recordQueue_m := recordQueue_m t @ [- 1]\<rparr>)
     | Some recIdx \<Rightarrow> do {
         t1 \<leftarrow> touch now recIdx t;
         Some (t1\<lparr>recordQueue_m := recordQueue_m t1 @ [recIdx]\<rparr>)
       })"

definition processRecord :: "int \<Rightarrow> (t_ThreadId \<times> thread_ptr) option \<Rightarrow> rec_ptr option \<Rightarrow> DtcpThreadTable \<Rightarrow>
    (bool \<times> thread_ptr list \<times> DtcpThreadTable) option" where
  "processRecord now spawn record t = (case record of
       None \<Rightarrow> Some (False, [], t)
     | Some r \<Rightarrow> do {
         t1 \<leftarrow> enqueue_record now r t;
         if idleThreadList_m t1 \<noteq> [] then Some (True, snd (wakeThread t1))
         else if length (allThreadList_m t1) < unat (maxThreads_m t1) then Some (True, snd (createThread spawn t1))
         else Some (True, [], t1)
       })"

definition processComplete :: "int \<Rightarrow> t_ThreadId \<Rightarrow> DtcpThreadTable \<Rightarrow> (bool \<times> DtcpThreadTable) option" where
  "processComplete now i t = (case map_of (activeThreadIndex_m t) i of
       None \<Rightarrow> Some (False, t)
     | Some recIdx \<Rightarrow> do {
         t1 \<leftarrow> touch now recIdx
           (t\<lparr>activeThreadIndex_m := um_erase i (activeThreadIndex_m t),
              freeRecordIndices_m := freeRecordIndices_m t @ [recIdx]\<rparr>);
         Some (True, t1)
       })"

definition find_record :: "t_ThreadId \<Rightarrow> DtcpThreadTable \<Rightarrow> rec_ptr option option" where
  "find_record threadId t = (case map_of (activeThreadIndex_m t) threadId of
       Some i \<Rightarrow> map_option Some (vec_at (recordPool_m t) i)
     | None \<Rightarrow> (case map_of (externalThreadIndex_m t) threadId of
           Some i \<Rightarrow> map_option Some (vec_at (recordPool_m t) i)
         | None \<Rightarrow> Some None))"

definition locateRecord :: "int \<Rightarrow> t_ThreadId \<Rightarrow> DtcpThreadTable \<Rightarrow> (rec_ptr option \<times> DtcpThreadTable) option" where
  "locateRecord now threadId t = do {
     found \<leftarrow> find_record threadId t;
     case found of
       Some record \<Rightarrow> Some (Some record, t)
     | None \<Rightarrow> do {
         (record, t1) \<leftarrow> allocateRecord now t;
         case record of
           None \<Rightarrow> Some (None, t1)
         | Some r \<Rightarrow>
             Some (Some r, (case pool_index r (recordPool_m t1) 0 of
                 None \<Rightarrow> t1
               | Some i \<Rightarrow> t1\<lparr>externalThreadIndex_m := um_emplace threadId i (externalThreadIndex_m t1)\<rparr>))
       }
   }"

definition getNextRecord :: "int \<Rightarrow> t_ThreadId \<Rightarrow> DtcpThreadTable \<Rightarrow> (rec_ptr option \<times> DtcpThreadTable) option" where
  "getNextRecord now threadId t = (case recordQueue_m t of
       [] \<Rightarrow> Some (None, t)
     | recIdx # rest \<Rightarrow>
         let t1 = t\<lparr>recordQueue_m := rest\<rparr> in
         if recIdx < 0 then Some (None, t1)
         else do {
           let old = map_of (activeThreadIndex_m t1) threadId;
           t2 \<leftarrow> touch now recIdx
             (t1\<lparr>activeThreadIndex_m := um_emplace threadId recIdx (um_erase threadId (activeThreadIndex_m t1))\<rparr>);
           record \<leftarrow> vec_at (recordPool_m t2) recIdx;
           t3 \<leftarrow> (case old of
               None \<Rightarrow> Some t2
             | Some oldRecIdx \<Rightarrow>
                 if oldRecIdx \<ge> 0
                 then touch now oldRecIdx (t2\<lparr>freeRecordIndices_m := freeRecordIndices_m t2 @ [oldRecIdx]\<rparr>)
                 else Some t2);
           Some (Some record, t3)
         })"

section \<open>Index pools\<close>

text \<open>A pool, the indices filed in one of the table's lists, and the pointers that are handed out:
  together they are the pool, each element once.\<close>

definition pool_ok :: "rec_ptr list \<Rightarrow> int list \<Rightarrow> rec_ptr list \<Rightarrow> bool" where
  "pool_ok pool filed held \<longleftrightarrow> distinct pool \<and> (\<forall>i\<in>set filed. 0 \<le> i \<and> nat i < length pool) \<and>
     mset (map (\<lambda>i. pool ! nat i) filed) + mset held = mset pool"

lemma pool_index_Some:
  "pool_index p xs k = Some i \<Longrightarrow> k \<le> i \<and> nat (i - k) < length xs \<and> xs ! nat (i - k) = p"
proof (induction p xs k rule: pool_index.induct)
  case (2 p x xs k)
  show ?case
  proof (cases "x = p")
    case False
    with 2 have "k + 1 \<le> i \<and> nat (i - (k + 1)) < length xs \<and> xs ! nat (i - (k + 1)) = p" by simp
    moreover from this have "nat (i - k) = Suc (nat (i - (k + 1)))" by linarith
    ultimately show ?thesis by simp
  qed (use 2 in simp)
qed simp

lemma pool_index_None: "pool_index p xs k = None \<longleftrightarrow> p \<notin> set xs"
  by (induction p xs k rule: pool_index.induct) auto

lemma pool_take:
  assumes "pool_ok pool filed held" and "mset filed = add_mset i (mset filed')"
  shows "pool_ok pool filed' (pool ! nat i # held)" and "0 \<le> i" and "nat i < length pool"
proof -
  have "set filed = insert i (set filed')" using arg_cong [OF assms(2), of set_mset] by simp
  with assms(1) show "0 \<le> i" "nat i < length pool" and "pool_ok pool filed' (pool ! nat i # held)"
    by (auto simp: pool_ok_def assms(2))
qed

lemma pool_give:
  assumes "pool_ok pool filed held" and "r \<in> set held"
  obtains i where "pool_index r pool 0 = Some i" "0 \<le> i" "nat i < length pool" "pool ! nat i = r"
    "\<And>filed'. mset filed' = add_mset i (mset filed) \<Longrightarrow> pool_ok pool filed' (remove1 r held)"
proof -
  have "r \<in># mset pool" using assms unfolding pool_ok_def by (metis set_mset_mset union_iff)
  then obtain i where i: "pool_index r pool 0 = Some i" using pool_index_None [of r pool 0] by (cases "pool_index r pool 0") auto
  note at = pool_index_Some [OF i]
  have "pool_ok pool filed' (remove1 r held)" if f: "mset filed' = add_mset i (mset filed)" for filed'
  proof -
    have "set filed' = insert i (set filed)" using arg_cong [OF f, of set_mset] by simp
    with assms at show ?thesis by (auto simp: pool_ok_def f)
  qed
  with at i that show ?thesis by auto
qed

lemma pool_move: "pool_ok pool filed held \<Longrightarrow> mset filed' = mset filed \<Longrightarrow> pool_ok pool filed' held"
  unfolding pool_ok_def by (metis mset_map set_mset_mset)

lemma pool_grow:
  assumes "pool_ok pool filed held" and "p \<notin> set pool"
  shows "pool_ok (pool @ [p]) filed (p # held)"
proof -
  have e: "map (\<lambda>i. (pool @ [p]) ! nat i) filed = map (\<lambda>i. pool ! nat i) filed"
    using assms(1) by (auto simp: pool_ok_def nth_append)
  show ?thesis using assms unfolding pool_ok_def e by (auto simp del: mset_map)
qed

lemma pool_ok_all: "pool_ok [n..<m] (map int [0..<m - n]) []"
proof -
  have "map ((\<lambda>i. [n..<m] ! nat i) \<circ> int) [0..<m - n] = [n..<m]" by (rule nth_equalityI) auto
  then show ?thesis by (auto simp: pool_ok_def simp flip: mset_map)
qed

text \<open>What a client relies on: nothing is in two places, and nothing is lost.\<close>

lemma pool_ok_places:
  assumes "pool_ok pool filed held"
  shows "distinct (map (\<lambda>i. pool ! nat i) filed @ held)" and "set (map (\<lambda>i. pool ! nat i) filed @ held) = set pool"
proof -
  have m: "mset (map (\<lambda>i. pool ! nat i) filed @ held) = mset pool" using assms by (simp add: pool_ok_def)
  show "set (map (\<lambda>i. pool ! nat i) filed @ held) = set pool" using arg_cong [OF m, of set_mset] by simp
  have "distinct pool" using assms by (simp add: pool_ok_def)
  then show "distinct (map (\<lambda>i. pool ! nat i) filed @ held)" using m by (metis mset_eq_imp_distinct_iff)
qed

lemma um_erase_None: "map_of m k = None \<Longrightarrow> um_erase k m = m"
  by (auto simp: um_erase_def map_of_eq_None_iff intro!: filter_True)

lemma um_erase_Some:
  "distinct (map fst m) \<Longrightarrow> map_of m k = Some v \<Longrightarrow> mset (map snd m) = add_mset v (mset (map snd (um_erase k m)))"
proof (induction m)
  case (Cons e m)
  show ?case
  proof (cases "fst e = k")
    case True
    with Cons.prems have "um_erase k m = m" by (intro um_erase_None) (simp add: map_of_eq_None_iff)
    with True Cons.prems show ?thesis by (auto simp: um_erase_def)
  qed (use Cons in \<open>auto simp: um_erase_def split: if_splits\<close>)
qed simp

lemma um_erase_gone [simp]: "map_of (um_erase k m) k = None"
  by (auto simp: um_erase_def map_of_eq_None_iff)

lemma um_emplace_erase [simp]: "um_emplace k v (um_erase k m) = (k, v) # um_erase k m"
  by (simp add: um_emplace_def)

lemma um_erase_keys [simp]: "distinct (map fst m) \<Longrightarrow> distinct (map fst (um_erase k m))"
  unfolding um_erase_def by (rule distinct_map_filter)

section \<open>Calls\<close>

text \<open>The table with the records and the buffers its clients hold: the socket thread holds a record
  between \<open>allocateRecord\<close> and \<open>processRecord\<close> or \<open>returnRecord\<close>, a sender holds a buffer between
  \<open>allocateBuffer\<close> and \<open>releaseBuffer\<close>. A client gives back only what it holds.\<close>

datatype tt_call = TtAllocate int | TtReturn int rec_ptr | TtProcess int "(t_ThreadId \<times> thread_ptr) option" rec_ptr
  | TtNext int t_ThreadId | TtComplete int t_ThreadId | TtLocate int t_ThreadId | TtIdle t_ThreadId
  | TtBuffer | TtRelease rec_ptr

type_synonym tt_sys = "DtcpThreadTable \<times> rec_ptr list \<times> rec_ptr list"

definition tt_call :: "tt_call \<Rightarrow> tt_sys \<Rightarrow> tt_sys option" where
  "tt_call c s = (case s of (t, h, b) \<Rightarrow> (case c of
       TtAllocate now \<Rightarrow> do { (r, t') \<leftarrow> allocateRecord now t; Some (t', (case r of None \<Rightarrow> h | Some p \<Rightarrow> p # h), b) }
     | TtReturn now r \<Rightarrow>
         if r \<in> set h then do { t' \<leftarrow> returnRecord now (Some r) t; Some (t', remove1 r h, b) } else Some s
     | TtProcess now spawn r \<Rightarrow>
         if r \<in> set h then do { (_, _, t') \<leftarrow> processRecord now spawn (Some r) t; Some (t', remove1 r h, b) } else Some s
     | TtNext now i \<Rightarrow> do { (_, t') \<leftarrow> getNextRecord now i t; Some (t', h, b) }
     | TtComplete now i \<Rightarrow> do { (_, t') \<leftarrow> processComplete now i t; Some (t', h, b) }
     | TtLocate now i \<Rightarrow> do { (_, t') \<leftarrow> locateRecord now i t; Some (t', h, b) }
     | TtIdle i \<Rightarrow> Some (snd (threadIdle i t), h, b)
     | TtBuffer \<Rightarrow> do { (r, t') \<leftarrow> allocateBuffer t; Some (t', h, (case r of None \<Rightarrow> b | Some p \<Rightarrow> p # b)) }
     | TtRelease p \<Rightarrow> if p \<in> set b then Some (snd (releaseBuffer (Some p) t), h, remove1 p b) else Some s))"

definition tt_step :: "tt_call \<Rightarrow> tt_sys option \<Rightarrow> tt_sys option" where
  "tt_step c s = Option.bind s (tt_call c)"

definition filed_records :: "DtcpThreadTable \<Rightarrow> int list" where
  "filed_records t = freeRecordIndices_m t @ recordQueue_m t @ map snd (activeThreadIndex_m t) @
     map snd (externalThreadIndex_m t)"

definition tt_inv :: "DtcpThreadTable \<Rightarrow> rec_ptr list \<Rightarrow> rec_ptr list \<Rightarrow> bool" where
  "tt_inv t h b \<longleftrightarrow> pool_ok (recordPool_m t) (filed_records t) h \<and> pool_ok (bufferPool_m t) (freeBufferIndices_m t) b \<and>
     length (recordLastActivity_m t) = length (recordPool_m t) \<and> (\<forall>p\<in>set (recordPool_m t @ bufferPool_m t). p < heap_m t) \<and>
     distinct (map fst (activeThreadIndex_m t)) \<and> distinct (map fst (externalThreadIndex_m t))"

lemma tt_inv_new: "tt_inv (DtcpThreadTable_new mt mr mb mc now) [] []"
  using pool_ok_all [of 0 "unat mt"] pool_ok_all [of "unat mt" "2 * unat mt"]
  by (auto simp: tt_inv_def DtcpThreadTable_new_def Let_def filed_records_def)

lemma touch_ok:
  assumes "length (recordLastActivity_m t) = length (recordPool_m t)" "0 \<le> i" "nat i < length (recordPool_m t)"
  obtains ts where "touch now i t = Some (t\<lparr>recordLastActivity_m := ts\<rparr>)" "length ts = length (recordPool_m t)"
  using assms by (auto simp: touch_def vec_set_def)

lemma last_mset: "xs \<noteq> [] \<Longrightarrow> mset xs = add_mset (last xs) (mset (butlast xs))"
  by (metis append_butlast_last_id mset_append mset_single_iff_right union_mset_add_mset_right add.right_neutral mset.simps)

lemma allocateRecord_inv:
  assumes "tt_inv t h b"
  obtains r t' where "allocateRecord now t = Some (r, t')" "tt_inv t' (case r of None \<Rightarrow> h | Some p \<Rightarrow> p # h) b"
    "r = None \<longleftrightarrow> freeRecordIndices_m t = [] \<and> unat (maxRecords_m t) \<le> length (recordPool_m t)"
    "activeThreadIndex_m t' = activeThreadIndex_m t" "externalThreadIndex_m t' = externalThreadIndex_m t"
proof (cases "freeRecordIndices_m t = []")
  case True
  show ?thesis
  proof (cases "length (recordPool_m t) < unat (maxRecords_m t)")
    case grow: True
    have "heap_m t \<notin> set (recordPool_m t)" using assms by (auto simp: tt_inv_def)
    then have "pool_ok (recordPool_m t @ [heap_m t]) (filed_records t) (heap_m t # h)"
      using assms pool_grow by (auto simp: tt_inv_def)
    with True grow assms show ?thesis
      by (intro that [of "Some (heap_m t)" "t\<lparr>recordPool_m := recordPool_m t @ [heap_m t],
            recordLastActivity_m := recordLastActivity_m t @ [now], heap_m := heap_m t + 1\<rparr>"])
        (auto simp: allocateRecord_def tt_inv_def filed_records_def less_Suc_eq)
  qed (use True assms in \<open>auto simp: allocateRecord_def evictLruRecord_def intro!: that\<close>)
next
  case False
  let ?i = "last (freeRecordIndices_m t)" and ?t = "t\<lparr>freeRecordIndices_m := butlast (freeRecordIndices_m t)\<rparr>"
  have "mset (filed_records t) = add_mset ?i (mset (filed_records ?t))"
    using last_mset [OF False] by (simp add: filed_records_def)
  note take = pool_take [OF _ this, of "recordPool_m t" h]
  have p: "pool_ok (recordPool_m t) (filed_records ?t) (recordPool_m t ! nat ?i # h)" "0 \<le> ?i" "nat ?i < length (recordPool_m t)"
    using assms take by (simp_all add: tt_inv_def)
  then obtain ts where "touch now ?i ?t = Some (?t\<lparr>recordLastActivity_m := ts\<rparr>)" "length ts = length (recordPool_m t)"
    using assms touch_ok [of ?t ?i now] by (auto simp: tt_inv_def)
  with False p assms show ?thesis
    by (intro that [of "Some (recordPool_m t ! nat ?i)" "?t\<lparr>recordLastActivity_m := ts\<rparr>"])
      (auto simp: allocateRecord_def Let_def vec_at_def tt_inv_def filed_records_def)
qed

lemma returnRecord_inv:
  assumes "tt_inv t h b" "r \<in> set h"
  obtains t' where "returnRecord now (Some r) t = Some t'" "tt_inv t' (remove1 r h) b"
proof -
  obtain i where i: "pool_index r (recordPool_m t) 0 = Some i" "0 \<le> i" "nat i < length (recordPool_m t)"
    "\<And>f. mset f = add_mset i (mset (filed_records t)) \<Longrightarrow> pool_ok (recordPool_m t) f (remove1 r h)"
    using assms pool_give [of "recordPool_m t" "filed_records t" h r] unfolding tt_inv_def by metis
  let ?t = "t\<lparr>freeRecordIndices_m := freeRecordIndices_m t @ [i]\<rparr>"
  obtain ts where ts: "touch now i ?t = Some (?t\<lparr>recordLastActivity_m := ts\<rparr>)" "length ts = length (recordPool_m t)"
    using assms i touch_ok [of ?t i now] by (auto simp: tt_inv_def)
  have "pool_ok (recordPool_m t) (filed_records ?t) (remove1 r h)" by (rule i(4)) (simp add: filed_records_def)
  with assms i ts show ?thesis
    by (intro that [of "?t\<lparr>recordLastActivity_m := ts\<rparr>"]) (auto simp: returnRecord_def tt_inv_def filed_records_def)
qed

lemma tt_inv_threads [simp]:
  "tt_inv (t\<lparr>idleThreadList_m := x\<rparr>) h b = tt_inv t h b"
  "tt_inv (t\<lparr>allThreadList_m := y, threadObjectIndex_m := z\<rparr>) h b = tt_inv t h b"
  by (simp_all add: tt_inv_def filed_records_def)

lemma enqueue_inv:
  assumes "tt_inv t h b" "r \<in> set h"
  obtains t' where "enqueue_record now r t = Some t'" "tt_inv t' (remove1 r h) b"
proof -
  obtain i where i: "pool_index r (recordPool_m t) 0 = Some i" "0 \<le> i" "nat i < length (recordPool_m t)"
    "\<And>f. mset f = add_mset i (mset (filed_records t)) \<Longrightarrow> pool_ok (recordPool_m t) f (remove1 r h)"
    using assms pool_give [of "recordPool_m t" "filed_records t" h r] unfolding tt_inv_def by metis
  obtain ts where ts: "touch now i t = Some (t\<lparr>recordLastActivity_m := ts\<rparr>)" "length ts = length (recordPool_m t)"
    using assms i touch_ok [of t i now] by (auto simp: tt_inv_def)
  have "pool_ok (recordPool_m t) (filed_records (t\<lparr>recordQueue_m := recordQueue_m t @ [i]\<rparr>)) (remove1 r h)"
    by (rule i(4)) (simp add: filed_records_def)
  with assms i ts show ?thesis
    by (intro that [of "t\<lparr>recordLastActivity_m := ts, recordQueue_m := recordQueue_m t @ [i]\<rparr>"])
      (auto simp: enqueue_record_def tt_inv_def filed_records_def)
qed

lemma processRecord_inv:
  assumes "tt_inv t h b" "r \<in> set h"
  obtains st rs t' where "processRecord now spawn (Some r) t = Some (st, rs, t')" "tt_inv t' (remove1 r h) b"
proof -
  obtain t1 where t1: "enqueue_record now r t = Some t1" "tt_inv t1 (remove1 r h) b"
    using enqueue_inv [OF assms] by metis
  have "tt_inv (snd (snd (wakeThread t1))) (remove1 r h) b" "tt_inv (snd (snd (createThread spawn t1))) (remove1 r h) b"
    using t1(2) by (auto simp: wakeThread_def createThread_def split: list.splits option.splits)
  moreover consider "processRecord now spawn (Some r) t = Some (True, snd (wakeThread t1))"
    | "processRecord now spawn (Some r) t = Some (True, snd (createThread spawn t1))"
    | "processRecord now spawn (Some r) t = Some (True, [], t1)"
    using t1(1) by (cases "idleThreadList_m t1 = []"; cases "length (allThreadList_m t1) < unat (maxThreads_m t1)")
      (simp_all add: processRecord_def)
  ultimately show ?thesis using t1(2) by cases (metis that prod.collapse)+
qed

lemma processComplete_inv:
  assumes "tt_inv t h b"
  obtains st t' where "processComplete now i t = Some (st, t')" "tt_inv t' h b"
proof (cases "map_of (activeThreadIndex_m t) i")
  case (Some k)
  let ?t = "t\<lparr>activeThreadIndex_m := um_erase i (activeThreadIndex_m t), freeRecordIndices_m := freeRecordIndices_m t @ [k]\<rparr>"
  have "mset (map snd (activeThreadIndex_m t)) = add_mset k (mset (map snd (um_erase i (activeThreadIndex_m t))))"
    using assms Some by (intro um_erase_Some) (simp_all add: tt_inv_def)
  then have m: "mset (filed_records ?t) = mset (filed_records t)"
    by (simp add: filed_records_def del: mset_map)
  have "k \<in> set (filed_records t)" using Some map_of_SomeD by (force simp: filed_records_def)
  then have "0 \<le> k" "nat k < length (recordPool_m t)" using assms by (auto simp: tt_inv_def pool_ok_def)
  then obtain ts where "touch now k ?t = Some (?t\<lparr>recordLastActivity_m := ts\<rparr>)" "length ts = length (recordPool_m t)"
    using assms touch_ok [of ?t k now] by (auto simp: tt_inv_def)
  moreover have "pool_ok (recordPool_m t) (filed_records ?t) h"
    using assms m pool_move by (auto simp: tt_inv_def)
  ultimately show ?thesis using Some assms
    by (intro that [of True "?t\<lparr>recordLastActivity_m := ts\<rparr>"])
      (auto simp: processComplete_def tt_inv_def filed_records_def)
qed (use assms in \<open>auto simp: processComplete_def intro!: that\<close>)

lemma filed_at: "tt_inv t h b \<Longrightarrow> i \<in> set (filed_records t) \<Longrightarrow> vec_at (recordPool_m t) i = Some (recordPool_m t ! nat i)"
  by (auto simp: tt_inv_def pool_ok_def vec_at_def)

lemma locateRecord_inv:
  assumes "tt_inv t h b"
  obtains r t' where "locateRecord now i t = Some (r, t')" "tt_inv t' h b"
proof -
  have at: "vec_at (recordPool_m t) k = Some (recordPool_m t ! nat k)"
    if "map_of (activeThreadIndex_m t) i = Some k \<or> map_of (externalThreadIndex_m t) i = Some k" for k
    using that map_of_SomeD filed_at [OF assms, of k] by (force simp: filed_records_def)
  show ?thesis
  proof (cases "find_record i t = Some None")
    case True
    obtain r t1 where t1: "allocateRecord now t = Some (r, t1)" "tt_inv t1 (case r of None \<Rightarrow> h | Some p \<Rightarrow> p # h) b"
      "externalThreadIndex_m t1 = externalThreadIndex_m t"
      using allocateRecord_inv [OF assms] by metis
    show ?thesis
    proof (cases r)
      case None
      with True t1 show ?thesis by (intro that [of None t1]) (auto simp: locateRecord_def)
    next
      case (Some p)
      with t1 obtain k where k: "pool_index p (recordPool_m t1) 0 = Some k"
        "\<And>f. mset f = add_mset k (mset (filed_records t1)) \<Longrightarrow> pool_ok (recordPool_m t1) f (remove1 p (p # h))"
        using pool_give [of "recordPool_m t1" "filed_records t1" "p # h" p] unfolding tt_inv_def
        by (metis list.set_intros(1) option.simps(5))
      have new: "map_of (externalThreadIndex_m t1) i = None"
        using True t1(3) by (auto simp: find_record_def split: option.splits)
      let ?t = "t1\<lparr>externalThreadIndex_m := (i, k) # externalThreadIndex_m t1\<rparr>"
      have "pool_ok (recordPool_m t1) (filed_records ?t) (remove1 p (p # h))"
        by (rule k(2)) (simp add: filed_records_def)
      then have "tt_inv ?t h b" using t1 Some new by (auto simp: tt_inv_def filed_records_def map_of_eq_None_iff)
      with Some True t1 k(1) new show ?thesis
        by (intro that [of "Some p" ?t]) (simp_all add: locateRecord_def um_emplace_def)
    qed
  next
    case False
    then obtain p where "find_record i t = Some (Some p)"
      using at by (auto simp: find_record_def split: option.splits)
    with assms show ?thesis by (intro that [of "Some p" t]) (auto simp: locateRecord_def)
  qed
qed

lemma getNextRecord_inv:
  assumes "tt_inv t h b"
  obtains r t' where "getNextRecord now i t = Some (r, t')" "tt_inv t' h b"
proof (cases "recordQueue_m t")
  case Nil
  with assms show ?thesis by (intro that [of None t]) (auto simp: getNextRecord_def)
next
  case (Cons k ks)
  let ?a = "(i, k) # um_erase i (activeThreadIndex_m t)"
  let ?t = "t\<lparr>recordQueue_m := ks, activeThreadIndex_m := ?a\<rparr>"
  have k: "0 \<le> k" "nat k < length (recordPool_m t)" and len: "length (recordLastActivity_m t) = length (recordPool_m t)"
    using assms Cons by (auto simp: tt_inv_def pool_ok_def filed_records_def)
  then obtain ts where ts: "touch now k ?t = Some (?t\<lparr>recordLastActivity_m := ts\<rparr>)" "length ts = length (recordPool_m t)"
    using touch_ok [of ?t k now] by auto
  have keys: "distinct (map fst ?a)" using assms by (auto simp: tt_inv_def um_erase_def distinct_map_filter)
  note rest = Cons k(1) ts(1) vec_at_def [of "recordPool_m t" k] k(2)
  show ?thesis
  proof (cases "map_of (activeThreadIndex_m t) i")
    case None
    then have "mset (filed_records ?t) = mset (filed_records t)"
      using Cons by (simp add: filed_records_def um_erase_None)
    then have "tt_inv (?t\<lparr>recordLastActivity_m := ts\<rparr>) h b"
      using assms pool_move [of "recordPool_m t" "filed_records t" h "filed_records ?t"] keys ts(2)
      by (simp add: tt_inv_def filed_records_def)
    with None rest show ?thesis
      by (intro that [of "Some (recordPool_m t ! nat k)" "?t\<lparr>recordLastActivity_m := ts\<rparr>"]) (simp_all add: getNextRecord_def)
  next
    case (Some old)
    let ?u = "?t\<lparr>recordLastActivity_m := ts, freeRecordIndices_m := freeRecordIndices_m t @ [old]\<rparr>"
    have "old \<in> set (filed_records t)" using Some map_of_SomeD by (force simp: filed_records_def)
    then have old: "0 \<le> old" "nat old < length (recordPool_m t)" using assms by (auto simp: tt_inv_def pool_ok_def)
    then obtain us where us: "touch now old ?u = Some (?u\<lparr>recordLastActivity_m := us\<rparr>)" "length us = length (recordPool_m t)"
      using ts(2) touch_ok [of ?u old now] by auto
    have "mset (map snd (activeThreadIndex_m t)) = add_mset old (mset (map snd (um_erase i (activeThreadIndex_m t))))"
      using assms Some by (intro um_erase_Some) (simp_all add: tt_inv_def)
    then have "mset (filed_records ?u) = mset (filed_records t)"
      using Cons by (simp add: filed_records_def del: mset_map)
    then have "tt_inv (?u\<lparr>recordLastActivity_m := us\<rparr>) h b"
      using assms pool_move [of "recordPool_m t" "filed_records t" h "filed_records ?u"] keys us(2)
      by (simp add: tt_inv_def filed_records_def)
    with Some rest old us(1) show ?thesis
      by (intro that [of "Some (recordPool_m t ! nat k)" "?u\<lparr>recordLastActivity_m := us\<rparr>"]) (simp_all add: getNextRecord_def)
  qed
qed

lemma allocateBuffer_inv:
  assumes "tt_inv t h b"
  obtains r t' where "allocateBuffer t = Some (r, t')" "tt_inv t' h (case r of None \<Rightarrow> b | Some p \<Rightarrow> p # b)"
proof (cases "freeBufferIndices_m t = []")
  case True
  have "heap_m t \<notin> set (bufferPool_m t)" using assms by (auto simp: tt_inv_def)
  then have g: "pool_ok (bufferPool_m t @ [heap_m t]) (freeBufferIndices_m t) (heap_m t # b)"
    using assms pool_grow by (auto simp: tt_inv_def)
  show ?thesis
  proof (cases "length (bufferPool_m t) < unat (maxBuffers_m t)")
    case grow: True
    with True g assms show ?thesis
      by (intro that [of "Some (heap_m t)" "t\<lparr>bufferPool_m := bufferPool_m t @ [heap_m t], heap_m := heap_m t + 1,
            freeBufferIndices_m := freeBufferIndices_m t\<rparr>"])
        (auto simp: allocateBuffer_def tt_inv_def filed_records_def less_Suc_eq)
  qed (use True assms in \<open>auto simp: allocateBuffer_def intro!: that\<close>)
next
  case False
  let ?i = "last (freeBufferIndices_m t)" and ?t = "t\<lparr>freeBufferIndices_m := butlast (freeBufferIndices_m t)\<rparr>"
  note take = pool_take [OF _ last_mset [OF False], of "bufferPool_m t" b]
  have p: "pool_ok (bufferPool_m t) (butlast (freeBufferIndices_m t)) (bufferPool_m t ! nat ?i # b)"
    "0 \<le> ?i" "nat ?i < length (bufferPool_m t)"
    using assms take by (simp_all add: tt_inv_def)
  with False assms show ?thesis
    by (intro that [of "Some (bufferPool_m t ! nat ?i)" ?t])
      (auto simp: allocateBuffer_def Let_def vec_at_def tt_inv_def filed_records_def)
qed

lemma releaseBuffer_inv:
  assumes "tt_inv t h b" "p \<in> set b"
  shows "tt_inv (snd (releaseBuffer (Some p) t)) h (remove1 p b)"
proof -
  obtain i where i: "pool_index p (bufferPool_m t) 0 = Some i"
    "\<And>f. mset f = add_mset i (mset (freeBufferIndices_m t)) \<Longrightarrow> pool_ok (bufferPool_m t) f (remove1 p b)"
    using assms pool_give [of "bufferPool_m t" "freeBufferIndices_m t" b p] unfolding tt_inv_def by metis
  have "pool_ok (bufferPool_m t) (freeBufferIndices_m t @ [i]) (remove1 p b)" by (rule i(2)) simp
  with i(1) assms show ?thesis by (simp add: releaseBuffer_def tt_inv_def filed_records_def)
qed

interpretation tt: machine tt_step "\<lambda>s. \<exists>t h b. s = Some (t, h, b) \<and> tt_inv t h b"
proof
  fix s c assume "\<exists>t h b. s = Some (t, h, b) \<and> tt_inv t h b"
  then obtain t h b where s: "s = Some (t, h, b)" and inv: "tt_inv t h b" by blast
  have "\<exists>t' h' b'. tt_call c (t, h, b) = Some (t', h', b') \<and> tt_inv t' h' b'"
  proof (cases c)
    case (TtAllocate now)
    show ?thesis by (rule allocateRecord_inv [OF inv, of now]) (simp add: TtAllocate tt_call_def)
  next
    case (TtReturn now r)
    show ?thesis
    proof (cases "r \<in> set h")
      case True
      show ?thesis by (rule returnRecord_inv [OF inv True, of now]) (simp add: TtReturn True tt_call_def)
    qed (simp add: TtReturn tt_call_def inv)
  next
    case (TtProcess now sp r)
    show ?thesis
    proof (cases "r \<in> set h")
      case True
      show ?thesis by (rule processRecord_inv [OF inv True, of now sp]) (simp add: TtProcess True tt_call_def)
    qed (simp add: TtProcess tt_call_def inv)
  next
    case (TtNext now i)
    show ?thesis by (rule getNextRecord_inv [OF inv, of now i]) (simp add: TtNext tt_call_def)
  next
    case (TtComplete now i)
    show ?thesis by (rule processComplete_inv [OF inv, of now i]) (simp add: TtComplete tt_call_def)
  next
    case (TtLocate now i)
    show ?thesis by (rule locateRecord_inv [OF inv, of now i]) (simp add: TtLocate tt_call_def)
  next
    case (TtIdle i)
    then show ?thesis using inv by (simp add: tt_call_def threadIdle_def split: option.splits)
  next
    case TtBuffer
    show ?thesis by (rule allocateBuffer_inv [OF inv]) (simp add: TtBuffer tt_call_def)
  next
    case (TtRelease p)
    then show ?thesis using inv releaseBuffer_inv [OF inv, of p] by (simp add: tt_call_def)
  qed
  with s show "\<exists>t h b. tt_step c s = Some (t, h, b) \<and> tt_inv t h b" by (simp add: tt_step_def)
qed

section \<open>Properties\<close>


end
