(* ===== verification/DtcpSendQueue.thy ===== *)
theory DtcpSendQueue
  imports DtcpPackets DtcpThreadTable
begin

text \<open>
  transport/Dtcp/DtcpSendQueue.cpp and DtcpBroadcastStates.cpp, with the data members of
  DtcpBaseConnTransport.h: the bandwidth limited queue of outgoing datagrams of a UDP transport.
  Objects that several components point to (buffers, packets of broadcasts, connection transports)
  live in \<open>dtcp_heap\<close> under their address. The clock readings of \<open>gettimeofday\<close>, and whether the socket
  accepted a datagram, are arguments; what goes to the socket or to the broadcast manager is an event.
\<close>

section \<open>State\<close>

record timeval =
  tv_sec :: int
  tv_usec :: int

definition us :: "timeval \<Rightarrow> int" where
  "us t = tv_sec t * 1000000 + tv_usec t"

record DtcpBaseConnTransport =
  ct_parentTransport_m :: bool
  ct_mux_m :: bool
  ct_transportId_m :: ulong
  ct_peerId_m :: ulong
  ct_myId_m :: ulong
  ct_peerIpAddress_m :: ulong
  ct_peerPort_m :: ushort
  ct_pendingAck_m :: bool
  ct_requestId_m :: ulong
  ct_sendSequenceNum_m :: ulong
  ct_recvSequenceNum_m :: ulong

record dtcp_heap =
  hp_buffers :: "rec_ptr \<Rightarrow> DataBuffer"
  hp_links :: "nat \<rightharpoonup> stack_link"
  hp_conns :: "nat \<rightharpoonup> DtcpBaseConnTransport"

record t_UnicastRequest =
  ur_dataBuffer :: rec_ptr
  ur_ipAddress :: ulong
  ur_port :: ushort

text \<open>\<open>broadcastStates_m\<close>: whether the pointer is set.\<close>

record DtcpSendQueue =
  transferRate_m :: ulong
  nextSendTime_m :: timeval
  priorityRequestList_m :: "t_UnicastRequest list"
  normalRequestList_m :: "t_UnicastRequest list"
  broadcastStates_m :: bool

record t_RequestData =
  rq_requestId :: ulong
  rq_packet :: nat
  rq_remainingDestinations :: "nat list"

record DtcpBroadcastStates =
  totalRequests_m :: ulong
  requestList_m :: "t_RequestData list"

datatype udp_event = UdpSend ulong ushort "byte list" | PacketSent ulong ulong

definition DtcpSendQueue_new :: "ulong \<Rightarrow> DtcpSendQueue" where
  "DtcpSendQueue_new transferRate =
     \<lparr>transferRate_m = transferRate, nextSendTime_m = \<lparr>tv_sec = 0, tv_usec = 0\<rparr>, priorityRequestList_m = [],
      normalRequestList_m = [], broadcastStates_m = False\<rparr>"

section \<open>Broadcast states\<close>

definition DtcpBroadcastStates_new :: DtcpBroadcastStates where
  "DtcpBroadcastStates_new = \<lparr>totalRequests_m = 0, requestList_m = []\<rparr>"

definition addState :: "ulong \<Rightarrow> nat \<Rightarrow> nat list \<Rightarrow> DtcpBroadcastStates \<Rightarrow> bool \<times> DtcpBroadcastStates" where
  "addState requestId packet destinations s =
     (if length destinations \<le> 0 then (False, s)
      else (True, s\<lparr>requestList_m := requestList_m s @
                     [\<lparr>rq_requestId = requestId, rq_packet = packet, rq_remainingDestinations = destinations\<rparr>],
                   totalRequests_m := totalRequests_m s + of_nat (length destinations)\<rparr>))"

fun erase_request :: "ulong \<Rightarrow> t_RequestData list \<Rightarrow> (t_RequestData \<times> t_RequestData list) option" where
  "erase_request requestId [] = None"
| "erase_request requestId (r # rs) =
     (if rq_requestId r = requestId then Some (r, rs)
      else map_option (\<lambda>(f, rs'). (f, r # rs')) (erase_request requestId rs))"

definition removeState :: "ulong \<Rightarrow> DtcpBroadcastStates \<Rightarrow> bool \<times> DtcpBroadcastStates" where
  "removeState requestId s = (case erase_request requestId (requestList_m s) of
       None \<Rightarrow> (False, s)
     | Some (r, rs) \<Rightarrow>
         (True, s\<lparr>requestList_m := rs,
                  totalRequests_m := totalRequests_m s - of_nat (length (rq_remainingDestinations r))\<rparr>))"

text \<open>The packet, the destination and the notice to the broadcast manager; no packet when there is no
  request. An empty destination list or a missing transport is a fault.\<close>

definition getCurrentRequest :: "dtcp_heap \<Rightarrow> DtcpBroadcastStates \<Rightarrow>
    ((nat \<times> nat) option \<times> udp_event list \<times> DtcpBroadcastStates) option" where
  "getCurrentRequest h s = (case requestList_m s of
       [] \<Rightarrow> Some (None, [], s)
     | currRequest # rest \<Rightarrow> (case rq_remainingDestinations currRequest of
           [] \<Rightarrow> None
         | destination # ds \<Rightarrow> do {
             let s1 = s\<lparr>requestList_m := (if ds = [] then rest
                        else rest @ [currRequest\<lparr>rq_remainingDestinations := ds\<rparr>])\<rparr>;
             transport \<leftarrow> hp_conns h destination;
             Some (Some (rq_packet currRequest, destination),
                   [PacketSent (rq_requestId currRequest) (ct_transportId_m transport)],
                   s1\<lparr>totalRequests_m := totalRequests_m s1 - 1\<rparr>)
           }))"

section \<open>The queue\<close>

definition locateBroadcastStates :: "DtcpSendQueue \<Rightarrow> bool \<times> DtcpSendQueue" where
  "locateBroadcastStates q =
     (if \<not> broadcastStates_m q then (False, q\<lparr>broadcastStates_m := True\<rparr>) else (True, q))"

text \<open>The test all operations begin with.\<close>

definition states_located :: "DtcpSendQueue \<Rightarrow> bool \<times> DtcpSendQueue" where
  "states_located q = (if broadcastStates_m q then (True, q) else locateBroadcastStates q)"

definition addRequest :: "bool \<Rightarrow> ulong \<Rightarrow> ushort \<Rightarrow> rec_ptr \<Rightarrow> DtcpSendQueue \<Rightarrow> bool \<times> DtcpSendQueue" where
  "addRequest priority ipAddress port dataBuffer q =
     (let (ok, q1) = states_located q in
      if \<not> ok then (False, q1)
      else
        let newRequest = \<lparr>ur_dataBuffer = dataBuffer, ur_ipAddress = ipAddress, ur_port = port\<rparr> in
        if priority then (True, q1\<lparr>priorityRequestList_m := priorityRequestList_m q1 @ [newRequest]\<rparr>)
        else (True, q1\<lparr>normalRequestList_m := normalRequestList_m q1 @ [newRequest]\<rparr>))"

definition setTransferRate :: "ulong \<Rightarrow> DtcpSendQueue \<Rightarrow> bool \<times> DtcpSendQueue" where
  "setTransferRate rate q =
     (if rate > 1000000 then (True, q\<lparr>transferRate_m := 0\<rparr>) else (True, q\<lparr>transferRate_m := rate\<rparr>))"

definition queueIdle :: "DtcpBroadcastStates \<Rightarrow> DtcpSendQueue \<Rightarrow> bool \<times> DtcpSendQueue" where
  "queueIdle bs q =
     (let (ok, q1) = states_located q in
      if \<not> ok then (False, q1)
      else if priorityRequestList_m q1 \<noteq> [] then (False, q1)
      else if normalRequestList_m q1 \<noteq> [] then (False, q1)
      else (totalRequests_m bs = 0, q1))"

definition requestsPending :: "DtcpBroadcastStates \<Rightarrow> DtcpSendQueue \<Rightarrow> ulong option \<times> DtcpSendQueue" where
  "requestsPending bs q =
     (let (ok, q1) = states_located q in
      if \<not> ok then (None, q1)
      else (Some (of_nat (length (priorityRequestList_m q1)) + of_nat (length (normalRequestList_m q1)) +
                  totalRequests_m bs), q1))"

text \<open>The normalising loop of the delay.\<close>

function carry :: "timeval \<Rightarrow> timeval" where
  "carry d = (if tv_usec d \<ge> 1000000 then carry (d\<lparr>tv_sec := tv_sec d + 1, tv_usec := tv_usec d - 1000000\<rparr>) else d)"
  by pat_completeness auto
termination by (relation "measure (\<lambda>d. nat (tv_usec d))") auto

declare carry.simps [simp del]

definition calculateDelay :: "ulong \<Rightarrow> ulong \<Rightarrow> timeval \<Rightarrow> bool \<times> timeval" where
  "calculateDelay transferRate dataSize delay =
     (if dataSize > 400000 then (False, delay)
      else if transferRate = 0 then (True, \<lparr>tv_sec = 0, tv_usec = 0\<rparr>)
      else
        let (firstMultiplier, secondMultiplier) = (if dataSize < 4294 then (1000000, 1) else (10000, 100));
            usDelay = ((dataSize * firstMultiplier) div transferRate) * secondMultiplier
        in (True, carry \<lparr>tv_sec = 0, tv_usec = sint usDelay\<rparr>))"

text \<open>The remaining time, when there is some.\<close>

definition waitTimeRemaining :: "timeval \<Rightarrow> timeval \<Rightarrow> timeval option" where
  "waitTimeRemaining currTime endTime =
     (if tv_sec currTime < tv_sec endTime \<or> tv_sec currTime = tv_sec endTime \<and> tv_usec currTime < tv_usec endTime
      then if tv_usec endTime < tv_usec currTime
        then Some \<lparr>tv_sec = tv_sec endTime - tv_sec currTime - 1,
                   tv_usec = tv_usec endTime + 1000000 - tv_usec currTime\<rparr>
        else Some \<lparr>tv_sec = tv_sec endTime - tv_sec currTime, tv_usec = tv_usec endTime - tv_usec currTime\<rparr>
      else None)"

text \<open>The transport's view: its buffers, its queue and the broadcasts assigned to it.\<close>

record sq_env =
  sq_table :: DtcpThreadTable
  sq_heap :: dtcp_heap
  sq_queue :: DtcpSendQueue
  sq_states :: DtcpBroadcastStates

definition getPeerLocation :: "DtcpBaseConnTransport \<Rightarrow> (ulong \<times> ushort) option" where
  "getPeerLocation c = (if ct_peerIpAddress_m c = 0 then None else Some (ct_peerIpAddress_m c, ct_peerPort_m c))"

text \<open>\<open>releaseTempDataBuffer\<close> and \<open>getTempDataBuffer\<close> of the parent transport.\<close>

definition release_temp :: "rec_ptr \<Rightarrow> sq_env \<Rightarrow> sq_env" where
  "release_temp b e = e\<lparr>sq_table := snd (releaseBuffer (Some b) (sq_table e))\<rparr>"

text \<open>A broadcast packet is written into a new buffer. The request built for it is not handed back:
  the out parameter is not assigned, and the buffer stays allocated.\<close>

definition getBroadcastRequest :: "sq_env \<Rightarrow> (bool \<times> udp_event list \<times> sq_env) option" where
  "getBroadcastRequest e =
     (if totalRequests_m (sq_states e) = 0 then Some (False, [], e)
      else do {
        (found, evs, bs) \<leftarrow> getCurrentRequest (sq_heap e) (sq_states e);
        let e1 = e\<lparr>sq_states := bs\<rparr>;
        case found of
          None \<Rightarrow> Some (False, evs, e1)
        | Some (packet, destination) \<Rightarrow> do {
            link \<leftarrow> hp_links (sq_heap e1) packet;
            transport \<leftarrow> hp_conns (sq_heap e1) destination;
            case link of
              ConnL c par \<Rightarrow> (case getPeerLocation transport of
                  None \<Rightarrow> Some (False, evs, e1)
                | Some _ \<Rightarrow> do {
                    let link1 = ConnL (snd (cp_setMyId (ct_myId_m transport) c)) par;
                    (b, t) \<leftarrow> allocateBuffer (sq_table e1);
                    let e2 = e1\<lparr>sq_table := t,
                                sq_heap := (sq_heap e1)\<lparr>hp_links := (hp_links (sq_heap e1))(packet \<mapsto> link1)\<rparr>\<rparr>;
                    case b of
                      None \<Rightarrow> Some (False, evs, e2)
                    | Some buffer \<Rightarrow> do {
                        (status, link2, db) \<leftarrow> writeData link1 (writeReset (hp_buffers (sq_heap e2) buffer));
                        let e3 = e2\<lparr>sq_heap := (sq_heap e2)
                                     \<lparr>hp_buffers := (hp_buffers (sq_heap e2))(buffer := db),
                                      hp_links := (hp_links (sq_heap e2))(packet \<mapsto> link2)\<rparr>\<rparr>;
                        if \<not> status then Some (False, evs, release_temp buffer e3)
                        else Some (True, evs, e3)
                      }
                  })
            | _ \<Rightarrow> Some (False, evs, e1)
          }
      })"

text \<open>\<open>currTime\<close> and \<open>currTime'\<close> are the clock before and after the send, \<open>sent\<close> the result of
  \<open>sendUdpPacket\<close>. With nothing to send the null request is dereferenced.\<close>

definition send_request :: "timeval \<Rightarrow> bool \<Rightarrow> timeval \<Rightarrow> t_UnicastRequest \<Rightarrow> sq_env \<Rightarrow>
    bool \<times> timeval \<times> udp_event list \<times> sq_env" where
  "send_request currTime' sent currentDelay r e =
     (let data = getData (hp_buffers (sq_heap e) (ur_dataBuffer r));
          delay = snd (calculateDelay (transferRate_m (sq_queue e)) (of_nat (length data)) currentDelay);
          next1 = \<lparr>tv_sec = tv_sec currTime' + tv_sec delay, tv_usec = tv_usec currTime' + tv_usec delay\<rparr>;
          next2 = (if tv_usec next1 \<ge> 1000000
                   then \<lparr>tv_sec = tv_sec next1 + 1, tv_usec = tv_usec next1 - 1000000\<rparr> else next1);
          e1 = release_temp (ur_dataBuffer r) e
      in (sent, delay, [UdpSend (ur_ipAddress r) (ur_port r) data],
          e1\<lparr>sq_queue := (sq_queue e1)\<lparr>nextSendTime_m := next2\<rparr>\<rparr>))"

definition sq_processEvents :: "timeval \<Rightarrow> timeval \<Rightarrow> bool \<Rightarrow> timeval \<Rightarrow> sq_env \<Rightarrow>
    (bool \<times> timeval \<times> udp_event list \<times> sq_env) option" where
  "sq_processEvents currTime currTime' sent currentDelay e =
     (let (ok, q) = states_located (sq_queue e); e1 = e\<lparr>sq_queue := q\<rparr> in
      if \<not> ok then Some (False, currentDelay, [], e1)
      else (case waitTimeRemaining currTime (nextSendTime_m q) of
          Some remaining \<Rightarrow> Some (True, remaining, [], e1)
        | None \<Rightarrow> (case priorityRequestList_m q of
            r # rs \<Rightarrow> Some (send_request currTime' sent currentDelay r
                             (e1\<lparr>sq_queue := q\<lparr>priorityRequestList_m := rs\<rparr>\<rparr>))
          | [] \<Rightarrow> (case normalRequestList_m q of
              r # rs \<Rightarrow> Some (send_request currTime' sent currentDelay r
                               (e1\<lparr>sq_queue := q\<lparr>normalRequestList_m := rs\<rparr>\<rparr>))
            | [] \<Rightarrow>
                if totalRequests_m (sq_states e1) > 0 then do {
                  (status, evs, e2) \<leftarrow> getBroadcastRequest e1;
                  Some (False, currentDelay, evs, e2)
                }
                else None))))"

text \<open>How \<open>DtcpBaseUdpTransport::processSocketEvents\<close> drives the queue, under the queue's lock.\<close>

definition serve_queue :: "timeval \<Rightarrow> timeval \<Rightarrow> bool \<Rightarrow> timeval \<Rightarrow> sq_env \<Rightarrow>
    (bool \<times> ulong \<times> timeval \<times> udp_event list \<times> sq_env) option" where
  "serve_queue currTime currTime' sent delay e =
     (let (pending, q) = requestsPending (sq_states e) (sq_queue e); e1 = e\<lparr>sq_queue := q\<rparr> in
      case pending of
        None \<Rightarrow> Some (False, 0, delay, [], e1)
      | Some n \<Rightarrow>
          if n > 0 then do {
            (status, d, evs, e2) \<leftarrow> sq_processEvents currTime currTime' sent delay e1;
            Some (status, n, d, evs, e2)
          }
          else Some (True, n, delay, [], e1))"

section \<open>The computed delay\<close>

lemma carry_us:
  "0 \<le> tv_usec d \<Longrightarrow> us (carry d) = us d \<and> 0 \<le> tv_usec (carry d) \<and> tv_usec (carry d) < 1000000"
proof (induction d rule: carry.induct)
  case (1 d)
  then show ?case
    by (cases "1000000 \<le> tv_usec d") (auto simp: carry.simps [of d] us_def)
qed

text \<open>The computed delay is the transmission time at the configured rate, rounded down by less than
  100 microseconds.\<close>

lemma unat_of_nat_small: "n < 2 ^ 64 \<Longrightarrow> unat (of_nat n :: ulong) = n"
  by (simp add: unat_of_nat take_bit_nat_eq_self)

lemma delay_word:
  assumes "m * k < 2 ^ 63" "r \<noteq> 0"
  shows "sint ((of_nat m div r) * of_nat k :: ulong) = int (m div unat r * k)"
proof -
  have d: "m div unat r * k \<le> m * k" by (simp add: div_le_dividend mult_le_mono1)
  have m: "m < 2 ^ 64 \<or> k = 0" using assms(1) by (cases k) (auto intro: le_less_trans [of m "m * k"])
  have "unat ((of_nat m div r) * of_nat k :: ulong) = m div unat r * k"
  proof (cases "k = 0")
    case False
    with m have "unat (of_nat m div r :: ulong) = m div unat r" by (simp add: unat_div unat_of_nat_small)
    then have "(of_nat m div r :: ulong) = of_nat (m div unat r)" by (metis of_nat_unat ucast_id)
    then have "(of_nat m div r) * of_nat k = (of_nat (m div unat r * k) :: ulong)" by simp
    moreover have "unat (of_nat (m div unat r * k) :: ulong) = m div unat r * k"
      using le_less_trans [OF d assms(1)] by (intro unat_of_nat_small) simp
    ultimately show ?thesis by (simp only:)
  qed simp
  then have "uint ((of_nat m div r) * of_nat k :: ulong) = int (m div unat r * k)" by (metis of_nat_unat)
  then have "sint ((of_nat m div r) * of_nat k :: ulong) = signed_take_bit 63 (int (m div unat r * k))"
    by (simp add: sint_uint)
  also have "\<dots> = int (m div unat r * k)"
    using le_less_trans [OF d assms(1)] by (intro signed_take_bit_int_eq_self) (simp_all flip: of_nat_mult)
  finally show ?thesis .
qed

lemma floor_bound: "(a :: nat) \<noteq> 0 \<Longrightarrow> n \<le> a * (n div a + 1) \<and> a * (n div a) \<le> n"
  using dividend_less_times_div [of a n] times_div_less_eq_dividend [of a n] by simp

lemma calculateDelay_bounds:
  assumes "r \<noteq> 0" "L \<le> 400000"
  obtains d' where "calculateDelay r (of_nat L) d = (True, d')" "0 \<le> us d'" "0 \<le> tv_usec d'" "tv_usec d' < 1000000"
    "1000000 * int L \<le> int (unat r) * (us d' + 100)" "int (unat r) * us d' \<le> 1000000 * int L"
proof -
  define k1 k2 :: nat where "k1 = (if L < 4294 then 1000000 else 10000)" and "k2 = (if L < 4294 then 1 else 100)"
  let ?v = "L * k1 div unat r * k2"
  have L: "unat (of_nat L :: ulong) = L" using assms(2) by (intro unat_of_nat_small) simp
  have cmp: "\<not> (of_nat L :: ulong) > 400000" "(of_nat L :: ulong) < 4294 \<longleftrightarrow> L < 4294"
    using assms(2) L by (simp_all add: word_less_nat_alt)
  have k: "k1 * k2 = 1000000" "k2 \<le> 100" by (simp_all add: k1_def k2_def)
  have "L * k1 * k2 < 2 ^ 63" using assms(2) k by (simp add: mult.assoc)
  then have v: "sint ((of_nat (L * k1) div r) * of_nat k2 :: ulong) = int ?v" using delay_word assms(1) by blast
  let ?d = "carry \<lparr>tv_sec = 0, tv_usec = int ?v\<rparr>"
  have "calculateDelay r (of_nat L) d = (True, ?d)"
    using assms(1) cmp v by (cases "L < 4294") (simp_all add: calculateDelay_def k1_def k2_def)
  moreover have us: "us ?d = int ?v" "0 \<le> tv_usec ?d" "tv_usec ?d < 1000000"
    using carry_us [of "\<lparr>tv_sec = 0, tv_usec = int ?v\<rparr>"] by (simp_all add: us_def)
  moreover have "1000000 * int L \<le> int (unat r) * (us ?d + 100)"
  proof -
    have r: "unat r \<noteq> 0" using assms(1) by (simp add: unat_eq_0)
    have "1000000 * L = L * k1 * k2" using k(1) by (simp add: mult.assoc)
    also have "\<dots> \<le> unat r * (L * k1 div unat r + 1) * k2" using floor_bound [OF r] by (intro mult_le_mono1) blast
    also have "\<dots> = unat r * (?v + k2)" by (simp add: algebra_simps)
    also have "\<dots> \<le> unat r * (?v + 100)" using k(2) by (intro mult_le_mono2) simp
    finally have "int (1000000 * L) \<le> int (unat r * (?v + 100))" by (simp only: of_nat_le_iff)
    then show ?thesis unfolding us(1) by (simp only: of_nat_mult of_nat_add of_nat_numeral)
  qed
  moreover have "int (unat r) * us ?d \<le> 1000000 * int L"
  proof -
    have r: "unat r \<noteq> 0" using assms(1) by (simp add: unat_eq_0)
    have "unat r * (L * k1 div unat r) * k2 \<le> L * k1 * k2" using floor_bound [OF r] by (intro mult_le_mono1) blast
    then have "unat r * ?v \<le> L * k1 * k2" by (simp only: mult.assoc)
    also have "\<dots> = 1000000 * L" using k(1) by (simp add: mult.assoc)
    finally have "unat r * ?v \<le> 1000000 * L" .
    then have "int (unat r * ?v) \<le> int (1000000 * L)" by (simp only: of_nat_le_iff)
    then show ?thesis unfolding us(1) by (simp only: of_nat_mult of_nat_numeral)
  qed
  ultimately show ?thesis
    by (intro that [of ?d]) (assumption | simp only: us(1) of_nat_0_le_iff)+
qed

section \<open>Runs\<close>

text \<open>Calls on one queue: requests from the senders and rounds of the socket thread.\<close>

datatype sq_op = SqAdd bool ulong ushort rec_ptr | SqServe timeval timeval bool timeval

primrec sq_do :: "sq_op \<Rightarrow> sq_env \<Rightarrow> (udp_event list \<times> sq_env) option" where
  "sq_do (SqAdd p ip port b) e = Some ([], e\<lparr>sq_queue := snd (addRequest p ip port b (sq_queue e))\<rparr>)"
| "sq_do (SqServe t t' sent d) e = map_option (\<lambda>(_, _, _, evs, e'). (evs, e')) (serve_queue t t' sent d e)"

fun sq_trace :: "sq_op list \<Rightarrow> sq_env \<Rightarrow> ((sq_op \<times> udp_event list) list \<times> sq_env) option" where
  "sq_trace [] e = Some ([], e)"
| "sq_trace (a # as) e = do {
     (evs, e1) \<leftarrow> sq_do a e;
     (tr, e2) \<leftarrow> sq_trace as e1;
     Some ((a, evs) # tr, e2)
   }"

text \<open>The time and the length of each datagram that was sent, and the requests given to one of the
  lists.\<close>

fun sent_at :: "sq_op \<times> udp_event list \<Rightarrow> (int \<times> nat) list" where
  "sent_at (SqServe t t' sent d, [UdpSend ip port data]) = [(us t', length data)]"
| "sent_at _ = []"

fun requests_of :: "bool \<Rightarrow> sq_op \<Rightarrow> t_UnicastRequest list" where
  "requests_of p (SqAdd p' ip port b) =
     (if p = p' then [\<lparr>ur_dataBuffer = b, ur_ipAddress = ip, ur_port = port\<rparr>] else [])"
| "requests_of p (SqServe t t' sent d) = []"

definition request_event :: "dtcp_heap \<Rightarrow> t_UnicastRequest \<Rightarrow> udp_event" where
  "request_event h r = UdpSend (ur_ipAddress r) (ur_port r) (getData (hp_buffers h (ur_dataBuffer r)))"

definition normal :: "timeval \<Rightarrow> bool" where
  "normal t \<longleftrightarrow> 0 \<le> tv_usec t \<and> tv_usec t < 1000000"

lemma no_wait: "normal t \<Longrightarrow> normal e \<Longrightarrow> waitTimeRemaining t e = None \<Longrightarrow> us e \<le> us t"
  by (auto simp: waitTimeRemaining_def us_def normal_def split: if_splits)

lemma send_request_eq:
  obtains tbl nxt where
    "send_request t' sent d r e =
       (sent, snd (calculateDelay (transferRate_m (sq_queue e)) (of_nat (length (getData (hp_buffers (sq_heap e) (ur_dataBuffer r))))) d),
        [request_event (sq_heap e) r], e\<lparr>sq_table := tbl, sq_queue := (sq_queue e)\<lparr>nextSendTime_m := nxt\<rparr>\<rparr>)"
    "us nxt = us t' + us (snd (calculateDelay (transferRate_m (sq_queue e))
       (of_nat (length (getData (hp_buffers (sq_heap e) (ur_dataBuffer r))))) d))"
    "normal t' \<Longrightarrow> normal (snd (calculateDelay (transferRate_m (sq_queue e)) (of_nat (length (getData (hp_buffers (sq_heap e) (ur_dataBuffer r))))) d)) \<Longrightarrow> normal nxt"
proof -
  let ?d = "snd (calculateDelay (transferRate_m (sq_queue e)) (of_nat (length (getData (hp_buffers (sq_heap e) (ur_dataBuffer r))))) d)"
  let ?n = "\<lparr>tv_sec = tv_sec t' + tv_sec ?d, tv_usec = tv_usec t' + tv_usec ?d\<rparr>"
  let ?m = "if tv_usec ?n \<ge> 1000000 then \<lparr>tv_sec = tv_sec ?n + 1, tv_usec = tv_usec ?n - 1000000\<rparr> else ?n"
  have "us ?m = us t' + us ?d" by (simp add: us_def)
  moreover have "normal ?m" if "normal t'" "normal ?d" using that by (simp add: normal_def)
  ultimately show ?thesis
    by (intro that [where tbl = "snd (releaseBuffer (Some (ur_dataBuffer r)) (sq_table e))" and nxt = ?m])
      (simp_all add: send_request_def Let_def request_event_def release_temp_def)
qed

text \<open>Without broadcasts a round returns and does one of: nothing, or send the oldest priority request,
  or send the oldest normal request when no priority request waits.\<close>

lemma serve_queue_cases:
  assumes "broadcastStates_m (sq_queue e)" and "totalRequests_m (sq_states e) = 0"
  obtains (Idle) st n d' where "serve_queue t t' sent d e = Some (st, n, d', [], e)"
  | (Send) st n d' r q tbl where
    "serve_queue t t' sent d e =
       Some (st, n, d', [request_event (sq_heap e) r], e\<lparr>sq_table := tbl, sq_queue := q\<rparr>)"
    "waitTimeRemaining t (nextSendTime_m (sq_queue e)) = None"
    "q = (sq_queue e)\<lparr>priorityRequestList_m := priorityRequestList_m q, normalRequestList_m := normalRequestList_m q,
           nextSendTime_m := nextSendTime_m q\<rparr>"
    "priorityRequestList_m (sq_queue e) = r # priorityRequestList_m q \<and>
       normalRequestList_m q = normalRequestList_m (sq_queue e) \<or>
     priorityRequestList_m (sq_queue e) = [] \<and> priorityRequestList_m q = [] \<and>
       normalRequestList_m (sq_queue e) = r # normalRequestList_m q"
    "us (nextSendTime_m q) = us t' + us (snd (calculateDelay (transferRate_m (sq_queue e))
       (of_nat (length (getData (hp_buffers (sq_heap e) (ur_dataBuffer r))))) d))"
    "normal t' \<Longrightarrow> normal (snd (calculateDelay (transferRate_m (sq_queue e)) (of_nat (length (getData (hp_buffers (sq_heap e) (ur_dataBuffer r))))) d)) \<Longrightarrow>
       normal (nextSendTime_m q)"
proof -
  let ?q = "sq_queue e"
  have e: "e\<lparr>sq_queue := ?q\<rparr> = e" by simp
  have loc: "states_located ?q = (True, ?q)" using assms(1) by (simp add: states_located_def)
  let ?n = "of_nat (length (priorityRequestList_m ?q)) + of_nat (length (normalRequestList_m ?q)) :: ulong"
  have serve: "serve_queue t t' sent d e = (if ?n > 0 then
      do { (st, d', evs, e2) \<leftarrow> sq_processEvents t t' sent d e; Some (st, ?n, d', evs, e2) } else Some (True, ?n, d, [], e))"
    using assms(2) loc by (simp add: serve_queue_def requestsPending_def)
  show ?thesis
  proof (cases "?n > 0 \<and> waitTimeRemaining t (nextSendTime_m ?q) = None")
    case False
    then show ?thesis using serve loc by (auto simp: sq_processEvents_def intro: Idle split: if_splits)
  next
    case True
    show ?thesis
    proof (cases "priorityRequestList_m ?q")
      case (Cons r rs)
      obtain tbl nxt where s: "send_request t' sent d r (e\<lparr>sq_queue := ?q\<lparr>priorityRequestList_m := rs\<rparr>\<rparr>) =
         (sent, snd (calculateDelay (transferRate_m ?q) (of_nat (length (getData (hp_buffers (sq_heap e) (ur_dataBuffer r))))) d),
          [request_event (sq_heap e) r],
          e\<lparr>sq_table := tbl, sq_queue := ?q\<lparr>priorityRequestList_m := rs, nextSendTime_m := nxt\<rparr>\<rparr>)"
         "us nxt = us t' + us (snd (calculateDelay (transferRate_m ?q) (of_nat (length (getData (hp_buffers (sq_heap e) (ur_dataBuffer r))))) d))"
         "normal t' \<Longrightarrow> normal (snd (calculateDelay (transferRate_m ?q) (of_nat (length (getData (hp_buffers (sq_heap e) (ur_dataBuffer r))))) d)) \<Longrightarrow> normal nxt"
        by (rule send_request_eq [of t' sent d r "e\<lparr>sq_queue := ?q\<lparr>priorityRequestList_m := rs\<rparr>\<rparr>"]) simp
      show ?thesis
        by (rule Send [where r = r and tbl = tbl and q = "?q\<lparr>priorityRequestList_m := rs, nextSendTime_m := nxt\<rparr>"])
          (use True Cons serve loc s in \<open>simp_all add: sq_processEvents_def\<close>)
    next
      case Nil
      with True obtain r rs where ne: "normalRequestList_m ?q = r # rs" by (cases "normalRequestList_m ?q") auto
      obtain tbl nxt where s: "send_request t' sent d r (e\<lparr>sq_queue := ?q\<lparr>normalRequestList_m := rs\<rparr>\<rparr>) =
         (sent, snd (calculateDelay (transferRate_m ?q) (of_nat (length (getData (hp_buffers (sq_heap e) (ur_dataBuffer r))))) d),
          [request_event (sq_heap e) r],
          e\<lparr>sq_table := tbl, sq_queue := ?q\<lparr>normalRequestList_m := rs, nextSendTime_m := nxt\<rparr>\<rparr>)"
         "us nxt = us t' + us (snd (calculateDelay (transferRate_m ?q) (of_nat (length (getData (hp_buffers (sq_heap e) (ur_dataBuffer r))))) d))"
         "normal t' \<Longrightarrow> normal (snd (calculateDelay (transferRate_m ?q) (of_nat (length (getData (hp_buffers (sq_heap e) (ur_dataBuffer r))))) d)) \<Longrightarrow> normal nxt"
        by (rule send_request_eq [of t' sent d r "e\<lparr>sq_queue := ?q\<lparr>normalRequestList_m := rs\<rparr>\<rparr>"]) simp
      show ?thesis
        by (rule Send [where r = r and tbl = tbl and q = "?q\<lparr>normalRequestList_m := rs, nextSendTime_m := nxt\<rparr>"])
          (use True Nil ne serve loc s in \<open>simp_all add: sq_processEvents_def\<close>)
    qed
  qed
qed

text \<open>What holds of the queue after its first call, as long as no broadcasts are assigned to it.\<close>

definition sq_ok :: "sq_env \<Rightarrow> bool" where
  "sq_ok e \<longleftrightarrow> broadcastStates_m (sq_queue e) \<and> totalRequests_m (sq_states e) = 0 \<and> normal (nextSendTime_m (sq_queue e)) \<and>
     (\<forall>b. dataSize_m (hp_buffers (sq_heap e) b) \<le> 400000)"

primrec clock_ok :: "sq_op \<Rightarrow> bool" where
  "clock_ok (SqAdd p ip port b) = True"
| "clock_ok (SqServe t t' sent d) = (normal t \<and> normal t' \<and> us t \<le> us t')"

definition delay_us :: "ulong \<Rightarrow> nat \<Rightarrow> int" where
  "delay_us r n = us (snd (calculateDelay r (of_nat n) \<lparr>tv_sec = 0, tv_usec = 0\<rparr>))"

lemma delay_any: "n \<le> 400000 \<Longrightarrow> us (snd (calculateDelay r (of_nat n) d)) = delay_us r n \<and>
    normal (snd (calculateDelay r (of_nat n) d)) \<and> 0 \<le> delay_us r n"
proof (cases "r = 0")
  case True
  assume "n \<le> 400000"
  then have "\<not> (of_nat n :: ulong) > 400000" by (simp add: word_less_nat_alt unat_of_nat_small)
  then show ?thesis by (simp add: calculateDelay_def True delay_us_def us_def normal_def)
next
  case False
  assume n: "n \<le> 400000"
  then have "\<not> (of_nat n :: ulong) > 400000" by (simp add: word_less_nat_alt unat_of_nat_small)
  with False have "calculateDelay r (of_nat n) d = calculateDelay r (of_nat n) \<lparr>tv_sec = 0, tv_usec = 0\<rparr>"
    by (simp add: calculateDelay_def)
  moreover obtain d' where "calculateDelay r (of_nat n) d = (True, d')" "0 \<le> us d'" "normal d'"
    by (rule calculateDelay_bounds [OF False n, of d]) (simp add: normal_def)
  ultimately show ?thesis by (metis delay_us_def snd_conv)
qed

lemma addRequest_located:
  "broadcastStates_m q \<Longrightarrow> snd (addRequest p ip port b q) =
     q\<lparr>priorityRequestList_m := priorityRequestList_m q @ requests_of True (SqAdd p ip port b),
       normalRequestList_m := normalRequestList_m q @ requests_of False (SqAdd p ip port b)\<rparr>"
  by (simp add: addRequest_def states_located_def Let_def)

fun paced :: "(nat \<Rightarrow> int) \<Rightarrow> int \<Rightarrow> (int \<times> nat) list \<Rightarrow> bool" where
  "paced f t [] = True"
| "paced f t ((s, n) # xs) = (t \<le> s \<and> paced f (s + f n) xs)"

text \<open>One call: what it takes from and adds to the lists, and when it may send.\<close>

lemma sq_do_step:
  assumes "sq_ok e"
  obtains evs e1 ps ns where "sq_do a e = Some (evs, e1)"
    "broadcastStates_m (sq_queue e1)" "sq_states e1 = sq_states e" "sq_heap e1 = sq_heap e"
    "transferRate_m (sq_queue e1) = transferRate_m (sq_queue e)"
    "priorityRequestList_m (sq_queue e) @ requests_of True a = ps @ priorityRequestList_m (sq_queue e1)"
    "normalRequestList_m (sq_queue e) @ requests_of False a = ns @ normalRequestList_m (sq_queue e1)"
    "evs = map (request_event (sq_heap e)) (ps @ ns)" "ps = [] \<or> ns = []"
    "clock_ok a \<Longrightarrow> sq_ok e1"
    "clock_ok a \<Longrightarrow> sent_at (a, evs) = [] \<and> nextSendTime_m (sq_queue e1) = nextSendTime_m (sq_queue e) \<or>
       (\<exists>s n. sent_at (a, evs) = [(s, n)] \<and> us (nextSendTime_m (sq_queue e)) \<le> s \<and> n \<le> 400000 \<and>
          us (nextSendTime_m (sq_queue e1)) = s + delay_us (transferRate_m (sq_queue e)) n)"
proof (cases a)
  case (SqAdd p ip port b)
  with assms addRequest_located [of "sq_queue e" p ip port b] show ?thesis
    by (intro that [of "[]" "e\<lparr>sq_queue := snd (addRequest p ip port b (sq_queue e))\<rparr>" "[]" "[]"])
      (simp_all add: sq_ok_def)
next
  case (SqServe t t' sent d)
  have loc: "broadcastStates_m (sq_queue e)" "totalRequests_m (sq_states e) = 0" using assms by (simp_all add: sq_ok_def)
  show ?thesis
  proof (rule serve_queue_cases [OF loc, of t t' sent d])
    fix st n d' assume "serve_queue t t' sent d e = Some (st, n, d', [], e)"
    with SqServe assms loc show ?thesis by (intro that [of "[]" e "[]" "[]"]) simp_all
  next
    fix st n d' and r :: t_UnicastRequest and q :: DtcpSendQueue and tbl :: DtcpThreadTable
    let ?L = "length (getData (hp_buffers (sq_heap e) (ur_dataBuffer r)))"
    let ?d = "snd (calculateDelay (transferRate_m (sq_queue e)) (of_nat ?L) d)"
    let ?e = "e\<lparr>sq_table := tbl, sq_queue := q\<rparr>"
    assume s: "serve_queue t t' sent d e = Some (st, n, d', [request_event (sq_heap e) r], ?e)"
      and w: "waitTimeRemaining t (nextSendTime_m (sq_queue e)) = None"
      and q: "q = (sq_queue e)\<lparr>priorityRequestList_m := priorityRequestList_m q,
           normalRequestList_m := normalRequestList_m q, nextSendTime_m := nextSendTime_m q\<rparr>"
      and l: "priorityRequestList_m (sq_queue e) = r # priorityRequestList_m q \<and>
           normalRequestList_m q = normalRequestList_m (sq_queue e) \<or>
         priorityRequestList_m (sq_queue e) = [] \<and> priorityRequestList_m q = [] \<and>
           normalRequestList_m (sq_queue e) = r # normalRequestList_m q"
      and u: "us (nextSendTime_m q) = us t' + us ?d" and nn: "normal t' \<Longrightarrow> normal ?d \<Longrightarrow> normal (nextSendTime_m q)"
    have L: "?L \<le> 400000" using assms by (simp add: sq_ok_def getData_def min.coboundedI2)
    note dl = delay_any [OF L, of "transferRate_m (sq_queue e)" d]
    have keep: "broadcastStates_m q" "transferRate_m q = transferRate_m (sq_queue e)" using loc by (subst q, simp)+
    obtain ps ns where pn: "priorityRequestList_m (sq_queue e) = ps @ priorityRequestList_m q"
      "normalRequestList_m (sq_queue e) = ns @ normalRequestList_m q" "ps @ ns = [r]" "ps = [] \<or> ns = []"
      using l by (metis append.right_neutral append_Cons append_Nil)
    show ?thesis
    proof (rule that [of "[request_event (sq_heap e) r]" ?e ps ns])
      show "sq_do a e = Some ([request_event (sq_heap e) r], ?e)" using SqServe s by simp
      show "[request_event (sq_heap e) r] = map (request_event (sq_heap e)) (ps @ ns)" using pn(3) by simp
      show "sq_ok ?e" if "clock_ok a" using that assms keep nn dl SqServe by (simp add: sq_ok_def)
      show "sent_at (a, [request_event (sq_heap e) r]) = [] \<and> nextSendTime_m (sq_queue ?e) = nextSendTime_m (sq_queue e) \<or>
       (\<exists>s n. sent_at (a, [request_event (sq_heap e) r]) = [(s, n)] \<and> us (nextSendTime_m (sq_queue e)) \<le> s \<and> n \<le> 400000 \<and>
          us (nextSendTime_m (sq_queue ?e)) = s + delay_us (transferRate_m (sq_queue e)) n)" if "clock_ok a"
        using that w assms u dl L SqServe no_wait [of t "nextSendTime_m (sq_queue e)"]
        by (auto simp: request_event_def sq_ok_def)
    qed (use SqServe keep pn in simp_all)
  qed
qed

lemma append_shuffles_left: "zs \<in> shuffles xs ys \<Longrightarrow> ps @ zs \<in> shuffles (ps @ xs) ys"
  by (induction ps) (auto intro: Cons_in_shuffles_leftI)

lemma append_shuffles_right: "zs \<in> shuffles xs ys \<Longrightarrow> ps @ zs \<in> shuffles xs (ps @ ys)"
  by (induction ps) (auto intro: Cons_in_shuffles_rightI)

lemma sq_trace_run:
  assumes "sq_ok e" "list_all clock_ok as"
  obtains tr e' ps ns where "sq_trace as e = Some (tr, e')" "sq_ok e'" "sq_heap e' = sq_heap e"
    "priorityRequestList_m (sq_queue e) @ concat (map (requests_of True) as) = ps @ priorityRequestList_m (sq_queue e')"
    "normalRequestList_m (sq_queue e) @ concat (map (requests_of False) as) = ns @ normalRequestList_m (sq_queue e')"
    "concat (map snd tr) \<in> shuffles (map (request_event (sq_heap e)) ps) (map (request_event (sq_heap e)) ns)"
    "paced (delay_us (transferRate_m (sq_queue e))) (us (nextSendTime_m (sq_queue e))) (concat (map sent_at tr))"
    "\<forall>x\<in>set (concat (map sent_at tr)). snd x \<le> 400000"
  using assms
proof (induction as arbitrary: e thesis)
  case Nil
  show ?case by (rule Nil(1) [of "[]" e "[]" "[]"]) (use Nil(2) in simp_all)
next
  case (Cons a as)
  have c: "clock_ok a" "list_all clock_ok as" using Cons.prems(3) by simp_all
  obtain evs e1 ps ns where st: "sq_do a e = Some (evs, e1)"
    "sq_heap e1 = sq_heap e" "transferRate_m (sq_queue e1) = transferRate_m (sq_queue e)"
    "priorityRequestList_m (sq_queue e) @ requests_of True a = ps @ priorityRequestList_m (sq_queue e1)"
    "normalRequestList_m (sq_queue e) @ requests_of False a = ns @ normalRequestList_m (sq_queue e1)"
    "evs = map (request_event (sq_heap e)) (ps @ ns)" "ps = [] \<or> ns = []" "sq_ok e1"
    "sent_at (a, evs) = [] \<and> nextSendTime_m (sq_queue e1) = nextSendTime_m (sq_queue e) \<or>
       (\<exists>s n. sent_at (a, evs) = [(s, n)] \<and> us (nextSendTime_m (sq_queue e)) \<le> s \<and> n \<le> 400000 \<and>
          us (nextSendTime_m (sq_queue e1)) = s + delay_us (transferRate_m (sq_queue e)) n)"
    using sq_do_step [OF Cons.prems(2), of a] c(1) by metis
  obtain tr e' ps' ns' where tr: "sq_trace as e1 = Some (tr, e')" "sq_ok e' \<and> sq_heap e' = sq_heap e1"
    "priorityRequestList_m (sq_queue e1) @ concat (map (requests_of True) as) = ps' @ priorityRequestList_m (sq_queue e')"
    "normalRequestList_m (sq_queue e1) @ concat (map (requests_of False) as) = ns' @ normalRequestList_m (sq_queue e')"
    "concat (map snd tr) \<in> shuffles (map (request_event (sq_heap e1)) ps') (map (request_event (sq_heap e1)) ns')"
    "paced (delay_us (transferRate_m (sq_queue e1))) (us (nextSendTime_m (sq_queue e1))) (concat (map sent_at tr))"
    "\<forall>x\<in>set (concat (map sent_at tr)). snd x \<le> 400000"
    using Cons.IH [OF _ st(8) c(2)] by metis
  show ?case
  proof (rule Cons.prems(1) [of "(a, evs) # tr" e' "ps @ ps'" "ns @ ns'"])
    show "sq_trace (a # as) e = Some ((a, evs) # tr, e')" using st(1) tr(1) by simp
    show "priorityRequestList_m (sq_queue e) @ concat (map (requests_of True) (a # as)) =
        (ps @ ps') @ priorityRequestList_m (sq_queue e')" 
      unfolding list.map concat.simps append_assoc [symmetric] st(4) by (simp add: tr(3))
    show "normalRequestList_m (sq_queue e) @ concat (map (requests_of False) (a # as)) =
        (ns @ ns') @ normalRequestList_m (sq_queue e')" 
      unfolding list.map concat.simps append_assoc [symmetric] st(5) by (simp add: tr(4))
    show "concat (map snd ((a, evs) # tr)) \<in>
        shuffles (map (request_event (sq_heap e)) (ps @ ps')) (map (request_event (sq_heap e)) (ns @ ns'))"
      using st(2,6,7) tr(5) by (auto intro: append_shuffles_left append_shuffles_right)
    show "paced (delay_us (transferRate_m (sq_queue e))) (us (nextSendTime_m (sq_queue e))) (concat (map sent_at ((a, evs) # tr)))"
      using st(3,9) tr(6) by auto
    show "\<forall>x\<in>set (concat (map sent_at ((a, evs) # tr))). snd x \<le> 400000" using st(9) tr(7) by auto
  qed (use tr(2) st(2) in simp_all)
qed

lemma paced_from:
  "paced f t xs \<Longrightarrow> i < length xs \<Longrightarrow> t + (\<Sum>k<i. f (snd (xs ! k))) \<le> fst (xs ! i)"
proof (induction f t xs arbitrary: i rule: paced.induct)
  case (2 f t s n xs)
  show ?case
  proof (cases i)
    case (Suc m)
    with 2 have "s + f n + (\<Sum>k<m. f (snd (xs ! k))) \<le> fst (xs ! m)" by simp
    with 2(2) Suc show ?thesis by (simp add: sum.lessThan_Suc_shift del: sum.lessThan_Suc)
  qed (use 2 in simp)
qed simp

lemma paced_drop: "paced f t xs \<Longrightarrow> j < length xs \<Longrightarrow> paced f (fst (xs ! j)) (drop j xs)"
proof (induction f t xs arbitrary: j rule: paced.induct)
  case (2 f t s n xs)
  then show ?case by (cases j) auto
qed simp

lemma paced_sum:
  assumes "paced f t xs" "i < length xs" "j \<le> i"
  shows "(\<Sum>k = j..<i. f (snd (xs ! k))) \<le> fst (xs ! i) - fst (xs ! j)"
proof -
  have "paced f (fst (xs ! j)) (drop j xs)" using assms paced_drop by simp
  then have "fst (xs ! j) + (\<Sum>k<i - j. f (snd (drop j xs ! k))) \<le> fst (drop j xs ! (i - j))"
    using assms by (intro paced_from) simp_all
  moreover have "(\<Sum>k<i - j. f (snd (drop j xs ! k))) = (\<Sum>k = j..<i. f (snd (xs ! k)))"
    using assms by (intro sum.reindex_bij_witness [of _ "\<lambda>k. k - j" "\<lambda>k. j + k"]) auto
  ultimately show ?thesis using assms by simp
qed

lemma rate_sum:
  assumes "r \<noteq> 0" "\<forall>x\<in>set xs. snd x \<le> 400000" "paced (delay_us r) t xs" "i < length xs" "j \<le> i"
  shows "1000000 * (\<Sum>k = j..<i. int (snd (xs ! k))) \<le> int (unat r) * (fst (xs ! i) - fst (xs ! j) + 100 * int (i - j))"
proof -
  have "1000000 * int (snd (xs ! k)) \<le> int (unat r) * (delay_us r (snd (xs ! k)) + 100)" if "k \<in> {j..<i}" for k
  proof -
    have "snd (xs ! k) \<le> 400000" using assms that by simp
    from calculateDelay_bounds [OF assms(1) this, of "\<lparr>tv_sec = 0, tv_usec = 0\<rparr>"] show ?thesis
      unfolding delay_us_def by (metis snd_conv)
  qed
  then have "(\<Sum>k = j..<i. 1000000 * int (snd (xs ! k))) \<le> (\<Sum>k = j..<i. int (unat r) * (delay_us r (snd (xs ! k)) + 100))"
    by (rule sum_mono)
  also have "\<dots> = int (unat r) * ((\<Sum>k = j..<i. delay_us r (snd (xs ! k))) + 100 * int (i - j))"
    by (simp add: sum.distrib flip: sum_distrib_left)
  also have "\<dots> \<le> int (unat r) * (fst (xs ! i) - fst (xs ! j) + 100 * int (i - j))"
    using paced_sum [OF assms(3,4,5)] by (intro mult_left_mono) simp_all
  finally show ?thesis by (simp add: sum_distrib_left)
qed

section \<open>Properties\<close>

lemma first_call:
  assumes "sq_queue e = DtcpSendQueue_new rate"
  shows "sq_do a e = Some ([], e\<lparr>sq_queue := (DtcpSendQueue_new rate)\<lparr>broadcastStates_m := True\<rparr>\<rparr>)"
  using assms by (cases a) (simp_all add: addRequest_def serve_queue_def requestsPending_def states_located_def
      locateBroadcastStates_def DtcpSendQueue_new_def Let_def)

lemma located_ok:
  assumes "totalRequests_m (sq_states e) = 0" "\<forall>b. dataSize_m (hp_buffers (sq_heap e) b) \<le> 400000"
  shows "sq_ok (e\<lparr>sq_queue := (DtcpSendQueue_new rate)\<lparr>broadcastStates_m := True\<rparr>\<rparr>)"
  using assms by (simp add: sq_ok_def DtcpSendQueue_new_def normal_def)

section \<open>Progress\<close>

definition waiting :: "sq_env \<Rightarrow> t_UnicastRequest list" where
  "waiting e = priorityRequestList_m (sq_queue e) @ normalRequestList_m (sq_queue e)"

text \<open>Rounds of the socket thread, the first not before \<open>u\<close> and each at least \<open>D\<close> microseconds after the one before.\<close>

fun rounds_due :: "int \<Rightarrow> int \<Rightarrow> sq_op list \<Rightarrow> bool" where
  "rounds_due D u [] = True"
| "rounds_due D u (SqServe t t' sent d # as) \<longleftrightarrow> clock_ok (SqServe t t' sent d) \<and> u \<le> us t \<and> rounds_due D (us t' + D) as"
| "rounds_due D u (SqAdd p ip port b # as) = False"

lemma due_no_wait: "normal t \<Longrightarrow> normal e \<Longrightarrow> us e \<le> us t \<Longrightarrow> waitTimeRemaining t e = None"
  by (auto simp: waitTimeRemaining_def us_def normal_def)

text \<open>A round sends the next request, if one waits and its time has come, and otherwise nothing.\<close>

lemma serve_exact:
  assumes "sq_ok e" "length (waiting e) < 2 ^ 64" "sq_do (SqServe t t' sent d) e = Some (evs, e1)"
  shows "evs = (if waitTimeRemaining t (nextSendTime_m (sq_queue e)) = None then map (request_event (sq_heap e)) (take 1 (waiting e)) else [])"
proof -
  let ?q = "sq_queue e"
  have loc: "states_located ?q = (True, ?q)" "totalRequests_m (sq_states e) = 0" using assms(1) by (simp_all add: sq_ok_def states_located_def)
  have n: "(of_nat (length (priorityRequestList_m ?q)) + of_nat (length (normalRequestList_m ?q)) :: ulong) = of_nat (length (waiting e))"
    by (simp add: waiting_def)
  have pos: "(0 :: ulong) < of_nat (length (waiting e)) \<longleftrightarrow> waiting e \<noteq> []"
    using assms(2) by (simp add: word_less_nat_alt unat_of_nat_small)
  show ?thesis
  proof (cases "waiting e = []")
    case True
    with assms(3) loc show ?thesis by (auto simp: serve_queue_def requestsPending_def waiting_def)
  next
    case False
    have ev: "fst (snd (snd (send_request t' sent d r e2))) = [request_event (sq_heap e2) r]" for r e2
      by (simp add: send_request_def request_event_def Let_def)
    obtain st nn d' where "serve_queue t t' sent d e = Some (st, nn, d', evs, e1)" using assms(3) by auto
    then have "\<exists>st d'. sq_processEvents t t' sent d e = Some (st, d', evs, e1)"
      using False pos loc by (auto simp: serve_queue_def requestsPending_def n split: Option.bind_splits)
    then show ?thesis using loc False ev
      by (auto simp: sq_processEvents_def waiting_def neq_Nil_conv split: option.splits list.splits) (metis fst_conv snd_conv sq_env.ext_inject sq_env.surjective sq_env.update_convs(3))+
  qed
qed

lemma serve_due:
  assumes "sq_ok e" "length (waiting e) < 2 ^ 64" "clock_ok (SqServe t t' sent d)"
    and "waitTimeRemaining t (nextSendTime_m (sq_queue e)) = None"
    and "\<And>n. n \<le> 400000 \<Longrightarrow> delay_us (transferRate_m (sq_queue e)) n \<le> D"
  obtains e1 where "sq_do (SqServe t t' sent d) e = Some (map (request_event (sq_heap e)) (take 1 (waiting e)), e1)"
    "sq_ok e1" "sq_heap e1 = sq_heap e" "transferRate_m (sq_queue e1) = transferRate_m (sq_queue e)"
    "waiting e1 = drop 1 (waiting e)" "waiting e \<noteq> [] \<Longrightarrow> us (nextSendTime_m (sq_queue e1)) \<le> us t' + D"
proof -
  have loc: "broadcastStates_m (sq_queue e)" "totalRequests_m (sq_states e) = 0" using assms(1) by (simp_all add: sq_ok_def)
  obtain evs e1 where do: "sq_do (SqServe t t' sent d) e = Some (evs, e1)" "sq_ok e1" "sq_heap e1 = sq_heap e"
    "transferRate_m (sq_queue e1) = transferRate_m (sq_queue e)"
    by (rule sq_do_step [OF assms(1), of "SqServe t t' sent d"]) (use assms(3) in blast)
  have evs: "evs = map (request_event (sq_heap e)) (take 1 (waiting e))" using serve_exact [OF assms(1,2) do(1)] assms(4) by simp
  have "waiting e1 = drop 1 (waiting e) \<and> (waiting e \<noteq> [] \<longrightarrow> us (nextSendTime_m (sq_queue e1)) \<le> us t' + D)"
  proof (rule serve_queue_cases [OF loc, of t t' sent d])
    fix st n d' assume "serve_queue t t' sent d e = Some (st, n, d', [], e)"
    with do(1) evs show ?thesis by (cases "waiting e") auto
  next
    fix st n d' and r :: t_UnicastRequest and q :: DtcpSendQueue and tbl :: DtcpThreadTable
    let ?L = "length (getData (hp_buffers (sq_heap e) (ur_dataBuffer r)))"
    assume s: "serve_queue t t' sent d e = Some (st, n, d', [request_event (sq_heap e) r], e\<lparr>sq_table := tbl, sq_queue := q\<rparr>)"
      and l: "priorityRequestList_m (sq_queue e) = r # priorityRequestList_m q \<and>
           normalRequestList_m q = normalRequestList_m (sq_queue e) \<or>
         priorityRequestList_m (sq_queue e) = [] \<and> priorityRequestList_m q = [] \<and>
           normalRequestList_m (sq_queue e) = r # normalRequestList_m q"
      and u: "us (nextSendTime_m q) = us t' + us (snd (calculateDelay (transferRate_m (sq_queue e)) (of_nat ?L) d))"
    have L: "?L \<le> 400000" using assms(1) by (simp add: sq_ok_def getData_def min.coboundedI2)
    have "us (nextSendTime_m q) \<le> us t' + D" using u delay_any [OF L] assms(5) [OF L] by simp
    with s l do(1) show ?thesis by (auto simp: waiting_def)
  qed
  with do evs show ?thesis by (intro that [of e1]) simp_all
qed

lemma idle_serve:
  assumes "sq_ok e" "waiting e = []" "clock_ok (SqServe t t' sent d)"
  obtains e1 where "sq_do (SqServe t t' sent d) e = Some ([], e1)" "sq_ok e1" "waiting e1 = []"
proof -
  obtain evs e1 where do: "sq_do (SqServe t t' sent d) e = Some (evs, e1)" "sq_ok e1" "waiting e1 = []"
    by (rule sq_do_step [OF assms(1), of "SqServe t t' sent d"]) (use assms(2,3) in \<open>simp add: waiting_def\<close>)
  have "evs = []" using serve_exact [OF assms(1) _ do(1)] assms(2) by simp
  with do show ?thesis by (intro that [of e1]) simp_all
qed

lemma drain_idle: "sq_ok e \<Longrightarrow> waiting e = [] \<Longrightarrow> rounds_due D u as \<Longrightarrow> \<exists>tr e'. sq_trace as e = Some (tr, e') \<and> concat (map snd tr) = [] \<and> waiting e' = []"
proof (induction D u as arbitrary: e rule: rounds_due.induct)
  case (2 D u t t' sent d as)
  obtain e1 where "sq_do (SqServe t t' sent d) e = Some ([], e1)" "sq_ok e1" "waiting e1 = []"
    by (rule idle_serve [OF 2(2,3), of t t' sent d]) (use 2(4) in simp_all)
  with 2(1) [of e1] 2(4) show ?case by fastforce
qed simp_all

lemma drain:
  assumes "sq_ok e" "\<And>n. n \<le> 400000 \<Longrightarrow> delay_us (transferRate_m (sq_queue e)) n \<le> D"
    and "us (nextSendTime_m (sq_queue e)) \<le> u" "rounds_due D u as" "length (waiting e) \<le> length as" "length (waiting e) < 2 ^ 64"
  shows "\<exists>tr e'. sq_trace as e = Some (tr, e') \<and> concat (map snd tr) = map (request_event (sq_heap e)) (waiting e) \<and> waiting e' = []"
  using assms
proof (induction as arbitrary: e u)
  case (Cons a as)
  show ?case
  proof (cases "waiting e = []")
    case True
    with drain_idle [OF Cons.prems(1) True Cons.prems(4)] show ?thesis by auto
  next
    case False
    obtain t t' sent d where a: "a = SqServe t t' sent d" using Cons.prems(4) by (cases a) auto
    have c: "clock_ok a" "u \<le> us t" "rounds_due D (us t' + D) as" using Cons.prems(4) a by auto
    have w: "waitTimeRemaining t (nextSendTime_m (sq_queue e)) = None"
      using Cons.prems(1,3) c a by (intro due_no_wait) (auto simp: sq_ok_def)
    obtain e1 where e1: "sq_do a e = Some (map (request_event (sq_heap e)) (take 1 (waiting e)), e1)"
      "sq_ok e1" "sq_heap e1 = sq_heap e" "transferRate_m (sq_queue e1) = transferRate_m (sq_queue e)"
      "waiting e1 = drop 1 (waiting e)" "us (nextSendTime_m (sq_queue e1)) \<le> us t' + D"
      using serve_due [OF Cons.prems(1,6) c(1) [unfolded a] w Cons.prems(2)] False a by metis
    obtain tr e' where "sq_trace as e1 = Some (tr, e')" "concat (map snd tr) = map (request_event (sq_heap e1)) (waiting e1)" "waiting e' = []"
      using Cons.IH [OF e1(2) _ e1(6) c(3)] Cons.prems(2,5,6) e1(4,5) by fastforce
    with e1 show ?thesis by (intro exI [of _ "(a, map (request_event (sq_heap e)) (take 1 (waiting e))) # tr"] exI [of _ e'])
        (cases "waiting e"; simp)
  qed
qed simp

lemma sq_trace_rate: "sq_ok e \<Longrightarrow> list_all clock_ok as \<Longrightarrow> sq_trace as e = Some (tr, e') \<Longrightarrow>
    transferRate_m (sq_queue e') = transferRate_m (sq_queue e)"
proof (induction as arbitrary: e tr)
  case (Cons a as)
  obtain evs e1 where "sq_do a e = Some (evs, e1)" "sq_ok e1" "transferRate_m (sq_queue e1) = transferRate_m (sq_queue e)"
    by (rule sq_do_step [OF Cons.prems(1), of a]) (use Cons.prems(2) in auto)
  with Cons show ?case by (fastforce split: Option.bind_splits)
qed simp

lemma requests_length: "length (concat (map (requests_of True) as)) + length (concat (map (requests_of False) as)) \<le> length as"
proof (induction as)
  case (Cons a as)
  then show ?case by (cases a) auto
qed simp

definition demo_env :: "ulong \<Rightarrow> sq_env" where
  "demo_env rate = \<lparr>sq_table = DtcpThreadTable_new 1 1 1 None 0,
     sq_heap = \<lparr>hp_buffers = (\<lambda>_. DataBuffer_of [1, 2, 3]), hp_links = Map.empty, hp_conns = Map.empty\<rparr>,
     sq_queue = DtcpSendQueue_new rate, sq_states = DtcpBroadcastStates_new\<rparr>"

lemma demo_env_ok:
  "sq_queue (demo_env rate) = DtcpSendQueue_new rate" "totalRequests_m (sq_states (demo_env rate)) = 0"
  "\<forall>b. dataSize_m (hp_buffers (sq_heap (demo_env rate)) b) \<le> 400000"
  by (simp_all add: demo_env_def DtcpBroadcastStates_new_def DataBuffer_of_def)



text \<open>The send queue keeps to its rate. Of a queue with transfer rate \<open>rate\<close> bytes per second and no
  broadcasts, whatever requests arrive and however often the socket thread asks, between any two
  datagrams it sends there are at least as many microseconds as the bytes sent from the first up to
  the second take at that rate, less a rounding of at most 100 microseconds for each of them.\<close>

lemma send_queue_rate:
  assumes "sq_queue e = DtcpSendQueue_new rate" and "totalRequests_m (sq_states e) = 0"
    and "\<forall>b. dataSize_m (hp_buffers (sq_heap e) b) \<le> 400000" and "list_all clock_ok as" and "rate \<noteq> 0"
  shows "\<exists>tr e'. sq_trace (a # as) e = Some (tr, e') \<and>
    (let sent = concat (map sent_at tr) in \<forall>i j. j \<le> i \<and> i < length sent \<longrightarrow>
       1000000 * (\<Sum>k = j..<i. int (snd (sent ! k))) \<le> int (unat rate) * (fst (sent ! i) - fst (sent ! j) + 100 * int (i - j)))"
proof -
  let ?e = "e\<lparr>sq_queue := (DtcpSendQueue_new rate)\<lparr>broadcastStates_m := True\<rparr>\<rparr>"
  obtain tr e' where tr: "sq_trace as ?e = Some (tr, e')" "\<forall>x\<in>set (concat (map sent_at tr)). snd x \<le> 400000"
    "paced (delay_us (transferRate_m (sq_queue ?e))) (us (nextSendTime_m (sq_queue ?e))) (concat (map sent_at tr))"
    using sq_trace_run [OF located_ok [OF assms(2,3)] assms(4)] by metis
  have "sq_trace (a # as) e = Some ((a, []) # tr, e')" using tr(1) first_call [OF assms(1)] by simp
  moreover have "concat (map sent_at ((a, []) # tr)) = concat (map sent_at tr)" by (cases a) simp_all
  moreover have "transferRate_m (sq_queue ?e) = rate" by (simp add: DtcpSendQueue_new_def)
  ultimately show ?thesis using rate_sum [OF assms(5) tr(2)] tr(3) by (simp add: Let_def)
qed

lemma send_queue_rate_witness:
  "\<exists>tr e'. sq_trace (SqAdd True 1 2 0 # [SqAdd True 1 2 0, SqAdd False 3 4 0,
       SqServe \<lparr>tv_sec = 9, tv_usec = 0\<rparr> \<lparr>tv_sec = 9, tv_usec = 0\<rparr> True \<lparr>tv_sec = 0, tv_usec = 0\<rparr>,
       SqServe \<lparr>tv_sec = 9, tv_usec = 3000\<rparr> \<lparr>tv_sec = 9, tv_usec = 3001\<rparr> True \<lparr>tv_sec = 0, tv_usec = 0\<rparr>]) (demo_env 1000) =
       Some (tr, e') \<and>
     (let sent = concat (map sent_at tr) in \<forall>i j. j \<le> i \<and> i < length sent \<longrightarrow>
       1000000 * (\<Sum>k = j..<i. int (snd (sent ! k))) \<le> int (unat (1000 :: ulong)) * (fst (sent ! i) - fst (sent ! j) + 100 * int (i - j)))"
proof -
  let ?as = "[SqAdd True 1 2 0, SqAdd False 3 4 0,
       SqServe \<lparr>tv_sec = 9, tv_usec = 0\<rparr> \<lparr>tv_sec = 9, tv_usec = 0\<rparr> True \<lparr>tv_sec = 0, tv_usec = 0\<rparr>,
       SqServe \<lparr>tv_sec = 9, tv_usec = 3000\<rparr> \<lparr>tv_sec = 9, tv_usec = 3001\<rparr> True \<lparr>tv_sec = 0, tv_usec = 0\<rparr>]"
  have "list_all clock_ok ?as" by (simp add: normal_def us_def)
  then show ?thesis by (rule send_queue_rate [OF demo_env_ok [where rate = 1000]]) simp
qed

end
