(* ===== verification/DtcpMaps.thy ===== *)
theory DtcpMaps
  imports Prelude
begin

text \<open>
  transport/Dtcp/DtcpConnectionMap.cpp and DtcpFilter.cpp: the connections of a multiplexor, by peer id
  and by address, with the ones still waiting for an accept, and the process-wide address bans. A
  \<open>DtcpBaseConnTransport *\<close> is a \<open>nat option\<close>, \<open>None\<close> the null pointer. An address index entry owns
  its port index, so the two levels are a map of maps. \<open>unordered_map::insert\<close> keeps an existing
  entry. An out parameter that a call leaves alone is \<open>None\<close> in its result.
\<close>

section \<open>The connection map\<close>

type_synonym conn_ptr = "nat option"

record t_IpPortPair =
  ipp_ipAddress :: ulong
  ipp_port :: int
  ipp_timestamp :: int

record DtcpConnectionMap =
  numConnections_m :: ulong
  currConnectionId_m :: ulong
  peerIndex_m :: "ulong \<rightharpoonup> conn_ptr"
  addressIndex_m :: "ulong \<rightharpoonup> (int \<rightharpoonup> conn_ptr)"
  pendingIndex_m :: "ulong \<rightharpoonup> t_IpPortPair"

text \<open>The first id is the time of the construction.\<close>

definition DtcpConnectionMap_new :: "ulong \<Rightarrow> DtcpConnectionMap" where
  "DtcpConnectionMap_new time = \<lparr>numConnections_m = 0, currConnectionId_m = time, peerIndex_m = Map.empty,
     addressIndex_m = Map.empty, pendingIndex_m = Map.empty\<rparr>"

definition map_insert :: "'k \<Rightarrow> 'v \<Rightarrow> ('k \<rightharpoonup> 'v) \<Rightarrow> ('k \<rightharpoonup> 'v)" where
  "map_insert k v m = (case m k of None \<Rightarrow> m(k \<mapsto> v) | Some _ \<Rightarrow> m)"

definition exists_address :: "ulong \<Rightarrow> int \<Rightarrow> DtcpConnectionMap \<Rightarrow> bool" where
  "exists_address ipAddress port m = (case addressIndex_m m ipAddress of
       None \<Rightarrow> False | Some portIndex \<Rightarrow> portIndex port \<noteq> None)"

definition exists_peer :: "ulong \<Rightarrow> DtcpConnectionMap \<Rightarrow> bool" where
  "exists_peer peerId m =
     (if peerIndex_m m peerId = None then if pendingIndex_m m peerId = None then False else True else True)"

definition createConnection :: "int \<Rightarrow> ulong \<Rightarrow> int \<Rightarrow> DtcpConnectionMap \<Rightarrow>
    bool \<times> ulong option \<times> DtcpConnectionMap" where
  "createConnection now ipAddress port m =
     (if exists_address ipAddress port m then (False, None, m)
      else
        let peerId = currConnectionId_m m;
            portIndex = (case addressIndex_m m ipAddress of None \<Rightarrow> Map.empty | Some pi \<Rightarrow> pi)
        in (True, Some peerId,
            m\<lparr>currConnectionId_m := currConnectionId_m m + 1, numConnections_m := numConnections_m m + 1,
              peerIndex_m := map_insert peerId None (peerIndex_m m),
              addressIndex_m := (addressIndex_m m)(ipAddress \<mapsto> map_insert port None portIndex),
              pendingIndex_m := map_insert peerId
                \<lparr>ipp_ipAddress = ipAddress, ipp_port = port, ipp_timestamp = now\<rparr> (pendingIndex_m m)\<rparr>))"

definition pendingAccept :: "ulong \<Rightarrow> DtcpConnectionMap \<Rightarrow> bool" where
  "pendingAccept peerId m \<longleftrightarrow> pendingIndex_m m peerId \<noteq> None"

definition indexConnection :: "ulong \<Rightarrow> conn_ptr \<Rightarrow> DtcpConnectionMap \<Rightarrow> bool \<times> DtcpConnectionMap" where
  "indexConnection peerId connection m = (case pendingIndex_m m peerId of
       None \<Rightarrow> (False, m)
     | Some rec \<Rightarrow>
         if peerIndex_m m peerId = None then (False, m)
         else
           let m1 = m\<lparr>peerIndex_m := (peerIndex_m m)(peerId \<mapsto> connection)\<rparr> in
           (case addressIndex_m m1 (ipp_ipAddress rec) of
              None \<Rightarrow> (False, m1)
            | Some portIndex \<Rightarrow>
                if portIndex (ipp_port rec) = None then (False, m1)
                else (True, m1\<lparr>addressIndex_m := (addressIndex_m m1)(ipp_ipAddress rec \<mapsto>
                                 portIndex(ipp_port rec \<mapsto> connection)),
                               pendingIndex_m := (pendingIndex_m m1)(peerId := None)\<rparr>)))"

definition locate_peer :: "ulong \<Rightarrow> DtcpConnectionMap \<Rightarrow> bool \<times> conn_ptr option" where
  "locate_peer peerId m = (case peerIndex_m m peerId of None \<Rightarrow> (False, None) | Some c \<Rightarrow> (True, Some c))"

definition locate_address :: "ulong \<Rightarrow> int \<Rightarrow> DtcpConnectionMap \<Rightarrow> bool \<times> conn_ptr option" where
  "locate_address ipAddress port m = (case addressIndex_m m ipAddress of
       None \<Rightarrow> (False, None)
     | Some portIndex \<Rightarrow> (case portIndex port of
           None \<Rightarrow> (False, None)
         | Some connection \<Rightarrow> (connection \<noteq> None, Some connection)))"

definition numConnections :: "ulong \<Rightarrow> DtcpConnectionMap \<Rightarrow> ulong" where
  "numConnections ipAddress m = numConnections_m m"

definition removePendingConnection :: "ulong \<Rightarrow> DtcpConnectionMap \<Rightarrow> bool \<times> DtcpConnectionMap" where
  "removePendingConnection peerId m = (True, m)"

definition removeConnection :: "conn_ptr \<Rightarrow> DtcpConnectionMap \<Rightarrow> bool \<times> DtcpConnectionMap" where
  "removeConnection connection m = (True, m)"

section \<open>The address filter\<close>

record DtcpFilter =
  ipAddressSet_s :: "ulong set"
  networkMaskSet_s :: "64 word set"
  initialized_s :: bool

definition df_start :: DtcpFilter where
  "df_start = \<lparr>ipAddressSet_s = {}, networkMaskSet_s = {}, initialized_s = False\<rparr>"

definition df_initialize :: "DtcpFilter \<Rightarrow> bool \<times> DtcpFilter" where
  "df_initialize f = (if initialized_s f then (False, f)
     else (True, f\<lparr>ipAddressSet_s := {}, networkMaskSet_s := {}, initialized_s := True\<rparr>))"

definition validAddress :: "ulong \<Rightarrow> DtcpFilter \<Rightarrow> bool" where
  "validAddress ip f = (if \<not> initialized_s f then False else if ip \<in> ipAddressSet_s f then False else True)"

definition addIpAddressBan :: "ulong \<Rightarrow> DtcpFilter \<Rightarrow> bool \<times> DtcpFilter" where
  "addIpAddressBan ip f = (if \<not> initialized_s f then (False, f)
     else if ip \<in> ipAddressSet_s f then (False, f)
     else (True, f\<lparr>ipAddressSet_s := insert ip (ipAddressSet_s f)\<rparr>))"

definition removeIpAddressBan :: "ulong \<Rightarrow> DtcpFilter \<Rightarrow> bool \<times> DtcpFilter" where
  "removeIpAddressBan ip f = (if \<not> initialized_s f then (False, f)
     else if ip \<notin> ipAddressSet_s f then (False, f)
     else (True, f\<lparr>ipAddressSet_s := ipAddressSet_s f - {ip}\<rparr>))"

definition numIpAddressFiltered :: "DtcpFilter \<Rightarrow> bool \<times> nat option" where
  "numIpAddressFiltered f = (if \<not> initialized_s f then (False, None) else (True, Some (card (ipAddressSet_s f))))"

definition getFilteredList :: "DtcpFilter \<Rightarrow> bool \<times> ulong list option" where
  "getFilteredList f = (if \<not> initialized_s f then (False, None) else (True, None))"

definition addNetworkBan :: "ulong \<Rightarrow> ulong \<Rightarrow> DtcpFilter \<Rightarrow> bool \<times> DtcpFilter" where
  "addNetworkBan network netmask f = (if \<not> initialized_s f then (False, f) else (True, f))"

definition removeNetworkBan :: "ulong \<Rightarrow> ulong \<Rightarrow> DtcpFilter \<Rightarrow> bool \<times> DtcpFilter" where
  "removeNetworkBan network netmask f = (if \<not> initialized_s f then (False, f) else (True, f))"

definition numNetworkFiltered :: "DtcpFilter \<Rightarrow> bool \<times> nat option" where
  "numNetworkFiltered f = (if \<not> initialized_s f then (False, None) else (True, None))"

section \<open>Invariant of the connection map\<close>

text \<open>Ids \<open>start .. start + k - 1\<close> have been handed out; an indexed or pending id is one of them, and the
  address of a pending connection is in the address index. A pending id is known by id, with no
  transport yet.\<close>

datatype cm_op = Create int ulong int | Index ulong conn_ptr | RemovePending ulong | RemoveConn conn_ptr

fun cm_step :: "cm_op \<Rightarrow> DtcpConnectionMap \<times> nat \<Rightarrow> DtcpConnectionMap \<times> nat" where
  "cm_step (Create now ip port) (m, k) =
     (let (ok, _, m') = createConnection now ip port m in (m', if ok then Suc k else k))"
| "cm_step (Index i c) (m, k) = (snd (indexConnection i c m), k)"
| "cm_step (RemovePending i) (m, k) = (snd (removePendingConnection i m), k)"
| "cm_step (RemoveConn c) (m, k) = (snd (removeConnection c m), k)"

definition handed_out :: "ulong \<Rightarrow> nat \<Rightarrow> ulong set" where
  "handed_out start k = (\<lambda>j. start + of_nat j) ` {..<k}"

definition cm_inv :: "ulong \<Rightarrow> DtcpConnectionMap \<times> nat \<Rightarrow> bool" where
  "cm_inv start s \<longleftrightarrow> (case s of (m, k) \<Rightarrow>
     currConnectionId_m m = start + of_nat k \<and> dom (peerIndex_m m) = handed_out start k \<and>
     dom (pendingIndex_m m) \<subseteq> dom (peerIndex_m m) \<and>
     (\<forall>i r. pendingIndex_m m i = Some r \<longrightarrow> exists_address (ipp_ipAddress r) (ipp_port r) m))"

lemma dom_map_insert [simp]: "dom (map_insert k v m) = insert k (dom m)"
  by (auto simp: map_insert_def split: option.splits)

lemma map_insert_other [simp]: "k \<noteq> j \<Longrightarrow> map_insert k v m j = m j"
  by (simp add: map_insert_def split: option.splits)

lemma map_insert_fresh [simp]: "m k = None \<Longrightarrow> map_insert k v m = m(k \<mapsto> v)"
  by (simp add: map_insert_def)

lemma handed_out_Suc: "handed_out start (Suc k) = insert (start + of_nat k) (handed_out start k)"
  by (simp add: handed_out_def lessThan_Suc)

lemma handed_out_fresh: "k < 2 ^ 64 \<Longrightarrow> start + of_nat k \<notin> handed_out start k"
proof
  assume k: "k < 2 ^ 64" and "start + of_nat k \<in> handed_out start k"
  then obtain j where j: "j < k" "(of_nat k :: ulong) = of_nat j" by (auto simp: handed_out_def)
  have "unat (of_nat k :: ulong) = k" "unat (of_nat j :: ulong) = j"
    using j(1) k by (simp_all add: unat_of_nat)
  with j show False by simp
qed

lemma exists_create:
  "exists_address i p (snd (snd (createConnection now ip port m))) \<longleftrightarrow>
     exists_address i p m \<or> (i = ip \<and> p = port)"
  by (auto simp: createConnection_def exists_address_def Let_def map_insert_def split: option.splits)

lemma exists_index:
  "exists_address i p (snd (indexConnection j c m)) = exists_address i p m"
  by (auto simp: indexConnection_def exists_address_def Let_def split: option.splits)

lemma index_frame:
  "currConnectionId_m (snd (indexConnection j c m)) = currConnectionId_m m"
  "dom (peerIndex_m (snd (indexConnection j c m))) = dom (peerIndex_m m)"
  "pendingIndex_m (snd (indexConnection j c m)) i = Some r \<Longrightarrow> pendingIndex_m m i = Some r"
  by (auto simp: indexConnection_def Let_def split: option.splits if_splits)

lemma cm_invD:
  assumes "cm_inv start (m, k)"
  shows "currConnectionId_m m = start + of_nat k" "dom (peerIndex_m m) = handed_out start k"
    "dom (pendingIndex_m m) \<subseteq> handed_out start k"
    "pendingIndex_m m i = Some r \<Longrightarrow> exists_address (ipp_ipAddress r) (ipp_port r) m"
  using assms unfolding cm_inv_def prod.case by blast+

interpretation cm: machine cm_step "cm_inv start" for start
proof
  fix s a assume inv: "cm_inv start s"
  obtain m k where s: "s = (m, k)" by (cases s)
  show "cm_inv start (cm_step a s)"
  proof (cases a)
    case (Create now ip port)
    obtain ok i m' where c: "createConnection now ip port m = (ok, i, m')" by (metis prod_cases3)
    show ?thesis
    proof (cases ok)
      case False
      then have "m' = m" using c by (auto simp: createConnection_def Let_def split: if_splits)
      with False c inv show ?thesis by (simp add: s Create)
    next
      case True
      have m': "currConnectionId_m m' = currConnectionId_m m + 1"
        "peerIndex_m m' = map_insert (currConnectionId_m m) None (peerIndex_m m)"
        "pendingIndex_m m' = map_insert (currConnectionId_m m)
           \<lparr>ipp_ipAddress = ip, ipp_port = port, ipp_timestamp = now\<rparr> (pendingIndex_m m)"
        using c True by (auto simp: createConnection_def Let_def split: if_splits)
      have ex: "exists_address x y m' \<longleftrightarrow> exists_address x y m \<or> (x = ip \<and> y = port)" for x y
        using exists_create [of x y now ip port m] c by simp
      have "exists_address (ipp_ipAddress r) (ipp_port r) m'" if "pendingIndex_m m' j = Some r" for j r
        using that inv by (auto simp: m'(3) ex map_insert_def s cm_inv_def split: option.splits if_splits)
      moreover have "dom (pendingIndex_m m') \<subseteq> dom (peerIndex_m m')"
        unfolding m' dom_map_insert using inv unfolding s cm_inv_def by (intro insert_mono) blast
      moreover have "dom (peerIndex_m m') = handed_out start (Suc k)"
        unfolding m' dom_map_insert handed_out_Suc using inv by (simp add: s cm_inv_def)
      ultimately show ?thesis
        using True c inv by (simp add: s Create cm_inv_def m'(1) ac_simps)
    qed
  next
    case (Index i c)
    let ?m = "snd (indexConnection i c m)"
    note d = cm_invD [OF inv [unfolded s]]
    have "dom (pendingIndex_m ?m) \<subseteq> dom (pendingIndex_m m)"
      using index_frame(3) [of i c m] by blast
    with d(2,3) have "dom (pendingIndex_m ?m) \<subseteq> dom (peerIndex_m ?m)"
      by (simp only: index_frame(2))
    moreover have "exists_address (ipp_ipAddress r) (ipp_port r) ?m" if "pendingIndex_m ?m j = Some r" for j r
      using d(4) [OF index_frame(3) [OF that]] by (simp add: exists_index)
    ultimately show ?thesis
      using d(1,2) by (simp add: s Index cm_inv_def index_frame(1,2))
  qed (use inv in \<open>simp_all add: s removePendingConnection_def removeConnection_def\<close>)
qed

section \<open>Properties\<close>

text \<open>The life of a connection. In a state with consistent indexes that has handed out fewer than
  \<open>2 ^ 64\<close> ids, a request for a new address gets an id that no connection has; until the accept the
  connection is known by id and address, pending, found by id without a transport and not found by
  address; indexing its transport makes it found by both and no longer pending. A second request for
  the address is refused, also after the connection was removed, since both removals change
  nothing. Other ids and addresses are not affected.\<close>

lemma connection_lifecycle:
  assumes "cm_inv start (m, k)" and "k < 2 ^ 64" and "\<not> exists_address ip port m"
  shows "\<exists>i m1 m2. createConnection now ip port m = (True, Some i, m1) \<and> \<not> exists_peer i m \<and>
    exists_peer i m1 \<and> exists_address ip port m1 \<and> pendingAccept i m1 \<and>
    locate_peer i m1 = (True, Some None) \<and> \<not> fst (locate_address ip port m1) \<and>
    indexConnection i (Some c) m1 = (True, m2) \<and> \<not> pendingAccept i m2 \<and>
    locate_peer i m2 = (True, Some (Some c)) \<and> locate_address ip port m2 = (True, Some (Some c)) \<and>
    \<not> fst (createConnection now' ip port (snd (removeConnection (Some c) (snd (removePendingConnection i m2))))) \<and>
    (\<forall>j. j \<noteq> i \<longrightarrow> locate_peer j m2 = locate_peer j m) \<and>
    (\<forall>x y. (x, y) \<noteq> (ip, port) \<longrightarrow> locate_address x y m2 = locate_address x y m)"
proof -
  let ?i = "currConnectionId_m m"
  have "?i \<notin> dom (peerIndex_m m)" "?i \<notin> dom (pendingIndex_m m)"
    using handed_out_fresh [OF assms(2), of start] cm_invD(1-3) [OF assms(1)] by (metis subsetD)+
  then have fresh: "peerIndex_m m ?i = None" "pendingIndex_m m ?i = None" by auto
  let ?pi = "case addressIndex_m m ip of None \<Rightarrow> Map.empty | Some pi \<Rightarrow> pi"
  have port: "?pi port = None" using assms(3) by (auto simp: exists_address_def split: option.splits)
  let ?m1 = "m\<lparr>currConnectionId_m := ?i + 1, numConnections_m := numConnections_m m + 1,
      peerIndex_m := (peerIndex_m m)(?i \<mapsto> None), addressIndex_m := (addressIndex_m m)(ip \<mapsto> ?pi(port \<mapsto> None)),
      pendingIndex_m := (pendingIndex_m m)(?i \<mapsto> \<lparr>ipp_ipAddress = ip, ipp_port = port, ipp_timestamp = now\<rparr>)\<rparr>"
  let ?m2 = "?m1\<lparr>peerIndex_m := (peerIndex_m m)(?i \<mapsto> Some c),
      addressIndex_m := (addressIndex_m m)(ip \<mapsto> ?pi(port \<mapsto> Some c)), pendingIndex_m := pendingIndex_m m\<rparr>"
  have 1: "createConnection now ip port m = (True, Some ?i, ?m1)"
    using assms(3) fresh port by (simp add: createConnection_def Let_def)
  have "(pendingIndex_m m)(?i := None) = pendingIndex_m m" using fresh(2) by (simp add: fun_upd_idem)
  then have 2: "indexConnection ?i (Some c) ?m1 = (True, ?m2)"
    by (simp add: indexConnection_def Let_def)
  have 3: "locate_address x y ?m2 = locate_address x y m" if "(x, y) \<noteq> (ip, port)" for x y
    using that by (auto simp: locate_address_def split: option.splits)
  show ?thesis
    by (rule exI [of _ ?i], rule exI [of _ ?m1], rule exI [of _ ?m2])
      (use 1 2 3 fresh in \<open>auto simp: exists_peer_def exists_address_def pendingAccept_def locate_peer_def
         locate_address_def createConnection_def removeConnection_def removePendingConnection_def\<close>)
qed

lemma connection_lifecycle_witness:
  "\<exists>i m1. createConnection 5 0x7F000001 9000 (DtcpConnectionMap_new 1700000000) = (True, Some i, m1) \<and>
     locate_peer i m1 = (True, Some None)"
proof -
  have "cm_inv 1700000000 (DtcpConnectionMap_new 1700000000, 0)"
    "\<not> exists_address 0x7F000001 9000 (DtcpConnectionMap_new 1700000000)"
    by (simp_all add: cm_inv_def DtcpConnectionMap_new_def handed_out_def exists_address_def)
  from connection_lifecycle [OF this(1) _ this(2), of 5 3 6] show ?thesis by auto
qed

text \<open>After any sequence of calls on a new map the indexes are consistent: every pending id is also
  known by id, the address it is pending for is in the address index, so that its accept can be
  indexed, and the ids known are exactly those handed out.\<close>

lemma connection_map_consistent:
  assumes "fold cm_step ops (DtcpConnectionMap_new start, 0) = (m, k)" and "pendingAccept i m"
  shows "fst (indexConnection i c m) \<and> exists_peer i m \<and> {i. exists_peer i m} = handed_out start k"
proof -
  have "cm_inv start (DtcpConnectionMap_new start, 0)"
    by (simp add: cm_inv_def DtcpConnectionMap_new_def handed_out_def)
  from cm.run_inv [OF this, of ops] have inv: "cm_inv start (m, k)" by (simp add: assms(1))
  obtain r where r: "pendingIndex_m m i = Some r" using assms(2) by (auto simp: pendingAccept_def)
  with inv have "exists_address (ipp_ipAddress r) (ipp_port r) m" "peerIndex_m m i \<noteq> None"
    by (auto simp: cm_inv_def)
  with r have "fst (indexConnection i c m)" "exists_peer i m"
    by (auto simp: indexConnection_def exists_address_def exists_peer_def Let_def split: option.splits)
  moreover have "exists_peer j m \<longleftrightarrow> j \<in> dom (peerIndex_m m)" for j
    using inv by (auto simp: exists_peer_def cm_inv_def)
  ultimately show ?thesis using inv by (simp add: cm_inv_def)
qed

lemma connection_map_consistent_witness:
  "\<exists>m. fold cm_step [Create 5 7 80, Create 6 7 81] (DtcpConnectionMap_new 100, 0) = (m, 2) \<and>
     fst (indexConnection 101 (Some 3) m)"
proof -
  obtain m where m: "fold cm_step [Create 5 7 80, Create 6 7 81] (DtcpConnectionMap_new 100, 0) = (m, 2)"
    and p: "pendingAccept 101 m"
    by (simp add: createConnection_def DtcpConnectionMap_new_def exists_address_def pendingAccept_def Let_def)
  from connection_map_consistent [OF m p, of "Some 3"] m show ?thesis by blast
qed

text \<open>The address filter. Once initialised, exactly the banned addresses are refused: a ban is in
  force until it is removed and touches no other address; before initialisation every address is
  refused. A network ban reports success and changes no decision.\<close>

lemma address_filter:
  assumes "initialized_s f"
  shows "\<not> validAddress ip (snd (addIpAddressBan ip f)) \<and> validAddress ip (snd (removeIpAddressBan ip f)) \<and>
    (\<forall>x. x \<noteq> ip \<longrightarrow> validAddress x (snd (addIpAddressBan ip f)) = validAddress x f \<and>
                   validAddress x (snd (removeIpAddressBan ip f)) = validAddress x f) \<and>
    fst (addIpAddressBan ip f) = validAddress ip f \<and> fst (removeIpAddressBan ip f) = (\<not> validAddress ip f) \<and>
    \<not> fst (df_initialize f) \<and> \<not> validAddress ip df_start \<and>
    fst (addNetworkBan network netmask f) \<and> (\<forall>x. validAddress x (snd (addNetworkBan network netmask f)) = validAddress x f)"
  using assms
  by (auto simp: validAddress_def addIpAddressBan_def removeIpAddressBan_def df_initialize_def df_start_def
      addNetworkBan_def)

lemma address_filter_witness:
  "\<not> validAddress 7 (snd (addIpAddressBan 7 (snd (df_initialize df_start))))"
  using address_filter [of "snd (df_initialize df_start)" 7] by (simp add: df_initialize_def df_start_def)

end
