(* ===== verification/PendingAck.thy ===== *)
theory PendingAck
  imports Complex_Main Prelude
begin

text \<open>
  transport/Dtcp/DtcpPendingAckMap.cpp: reliable transfers awaiting an acknowledgement, with
  retransmission timers, exponential backoff and a per-peer round-trip estimate. Times and durations
  are integers in nanoseconds (\<open>steady_clock\<close>); the \<open>double\<close> milliseconds of the estimate are \<open>real\<close>,
  without rounding. Clock readings are arguments. The random draws of \<open>uniform_real_distribution\<close> are
  the argument \<open>draw\<close>, a function of the number of the draw and the two bounds. The retry queue is the
  list of its entries in the order of the pushes; \<open>top\<close> is the first entry with the least time, one of
  those a \<^verbatim>\<open>std::priority_queue\<close> may deliver. Datagrams sent and failures reported to the
  requestor are a list of events. The callers hold \<open>ackMapLock_\<close> around every operation.
\<close>

section \<open>State\<close>

record t_PendingRecord =
  pr_id :: ulong
  pr_requestor :: "nat option"
  pr_data :: "byte list"
  pr_destIpAddress :: ulong
  pr_destPort :: ushort
  pr_sendTime :: int
  pr_nextRetryTime :: int
  pr_retryCount :: ushort
  pr_currentRto :: int

record t_PeerRtt =
  srtt :: real
  rttvar :: real
  initialized :: bool

type_synonym t_RetryEntry = "ulong \<times> int"

record DtcpPendingAckMap =
  recordIndex_m :: "ulong \<rightharpoonup> t_PendingRecord"
  retryQueue_m :: "t_RetryEntry list"
  peerRttIndex_m :: "ulong \<rightharpoonup> t_PeerRtt"
  currId_m :: ulong
  maxRetries_m :: ushort
  rng_m :: nat

datatype ack_event = SendData ulong ulong ushort "byte list" | SendFailure ulong "nat option"

section \<open>Round-trip estimation\<close>

definition kDefaultRtoMs :: real where "kDefaultRtoMs = 200"
definition kMaxRtoMs :: real where "kMaxRtoMs = 30000"
definition kSrttAlpha :: real where "kSrttAlpha = 1 / 8"
definition kSrttBeta :: real where "kSrttBeta = 1 / 4"
definition kJitterFraction :: real where "kJitterFraction = 1 / 4"

text \<open>\<open>duration_cast\<close> from floating milliseconds truncates towards zero.\<close>

definition ns_of_ms :: "real \<Rightarrow> int" where
  "ns_of_ms ms = (if 0 \<le> ms then \<lfloor>ms * 1000000\<rfloor> else \<lceil>ms * 1000000\<rceil>)"

definition ms_of_ns :: "int \<Rightarrow> real" where
  "ms_of_ns d = real_of_int d / 1000000"

definition computeRto :: "ulong \<Rightarrow> DtcpPendingAckMap \<Rightarrow> int" where
  "computeRto destIpAddress m = ns_of_ms
     (case peerRttIndex_m m destIpAddress of
        Some rtt \<Rightarrow> if initialized rtt then min (max (srtt rtt + 4 * rttvar rtt) 10) kMaxRtoMs else kDefaultRtoMs
      | None \<Rightarrow> kDefaultRtoMs)"

definition applyJitter :: "(nat \<Rightarrow> real \<Rightarrow> real \<Rightarrow> real) \<Rightarrow> int \<Rightarrow> DtcpPendingAckMap \<Rightarrow> int \<times> DtcpPendingAckMap" where
  "applyJitter draw base m =
     (let baseMs = ms_of_ns base;
          jitteredMs = draw (rng_m m) (baseMs * (1 - kJitterFraction)) (baseMs * (1 + kJitterFraction))
      in (ns_of_ms jitteredMs, m\<lparr>rng_m := Suc (rng_m m)\<rparr>))"

definition updateRtt :: "real \<Rightarrow> t_PeerRtt \<Rightarrow> t_PeerRtt" where
  "updateRtt sampleMs rtt =
     (if \<not> initialized rtt then \<lparr>srtt = sampleMs, rttvar = sampleMs / 2, initialized = True\<rparr>
      else rtt\<lparr>rttvar := (1 - kSrttBeta) * rttvar rtt + kSrttBeta * \<bar>srtt rtt - sampleMs\<bar>,
               srtt := (1 - kSrttAlpha) * srtt rtt + kSrttAlpha * sampleMs\<rparr>)"

definition updatePeerRtt :: "ulong \<Rightarrow> real \<Rightarrow> DtcpPendingAckMap \<Rightarrow> DtcpPendingAckMap" where
  "updatePeerRtt destIpAddress sampleMs m =
     (let rtt = (case peerRttIndex_m m destIpAddress of
                   Some r \<Rightarrow> r | None \<Rightarrow> \<lparr>srtt = 0, rttvar = 0, initialized = False\<rparr>)
      in m\<lparr>peerRttIndex_m := (peerRttIndex_m m)(destIpAddress \<mapsto> updateRtt sampleMs rtt)\<rparr>)"

section \<open>Operations\<close>

text \<open>The constructor; the argument is the configured \<open>dtcp.maxRetries\<close> as \<open>std::stoi\<close> reads it,
  \<open>None\<close> when it is absent or not a number.\<close>

definition DtcpPendingAckMap_new :: "int option \<Rightarrow> DtcpPendingAckMap" where
  "DtcpPendingAckMap_new cfg = \<lparr>recordIndex_m = Map.empty, retryQueue_m = [], peerRttIndex_m = Map.empty,
     currId_m = 1,
     maxRetries_m = (case cfg of Some val \<Rightarrow> if 0 < val \<and> val \<le> 255 then of_int val else 8 | None \<Rightarrow> 8),
     rng_m = 0\<rparr>"

definition pa_add :: "(nat \<Rightarrow> real \<Rightarrow> real \<Rightarrow> real) \<Rightarrow> int \<Rightarrow> nat option \<Rightarrow> byte list \<Rightarrow> ulong \<Rightarrow> ushort \<Rightarrow>
    DtcpPendingAckMap \<Rightarrow> ulong \<times> DtcpPendingAckMap" where
  "pa_add draw now requestor data destIpAddress destPort m =
     (let i = currId_m m;
          m1 = m\<lparr>currId_m := i + 1\<rparr>;
          rto = computeRto destIpAddress m1;
          (jit, m2) = applyJitter draw rto m1;
          nextRetry = now + jit;
          newRecord = \<lparr>pr_id = i, pr_requestor = requestor, pr_data = data, pr_destIpAddress = destIpAddress,
                       pr_destPort = destPort, pr_sendTime = now, pr_nextRetryTime = nextRetry,
                       pr_retryCount = 0, pr_currentRto = rto\<rparr>
      in (i, m2\<lparr>recordIndex_m := (if recordIndex_m m2 i = None then (recordIndex_m m2)(i \<mapsto> newRecord)
                                   else recordIndex_m m2),
                retryQueue_m := retryQueue_m m2 @ [(i, nextRetry)]\<rparr>))"

definition pa_remove :: "int \<Rightarrow> ulong \<Rightarrow> DtcpPendingAckMap \<Rightarrow> bool \<times> DtcpPendingAckMap" where
  "pa_remove now i m = (case recordIndex_m m i of
       None \<Rightarrow> (False, m)
     | Some record \<Rightarrow>
         let m1 = (if pr_retryCount record = 0
                   then updatePeerRtt (pr_destIpAddress record) (ms_of_ns (now - pr_sendTime record)) m else m)
         in (True, m1\<lparr>recordIndex_m := (recordIndex_m m1)(i := None)\<rparr>))"

text \<open>\<open>top\<close> and \<open>pop\<close> of the retry queue.\<close>

fun q_top :: "t_RetryEntry list \<Rightarrow> t_RetryEntry option" where
  "q_top [] = None"
| "q_top (e # es) = (case q_top es of
       None \<Rightarrow> Some e
     | Some e' \<Rightarrow> Some (if snd e \<le> snd e' then e else e'))"

definition kMaxRto :: int where
  "kMaxRto = ns_of_ms kMaxRtoMs"

text \<open>One turn of the loop of \<open>processTimers\<close>, for the entry that was popped.\<close>

definition process_entry :: "(nat \<Rightarrow> real \<Rightarrow> real \<Rightarrow> real) \<Rightarrow> int \<Rightarrow> t_RetryEntry \<Rightarrow> DtcpPendingAckMap \<Rightarrow>
    ack_event list \<times> DtcpPendingAckMap" where
  "process_entry draw now entry m = (case recordIndex_m m (fst entry) of
       None \<Rightarrow> ([], m)
     | Some record \<Rightarrow>
         if pr_nextRetryTime record \<noteq> snd entry then ([], m)
         else if pr_retryCount record \<ge> maxRetries_m m
         then ([SendFailure (pr_id record) (pr_requestor record)],
               m\<lparr>recordIndex_m := (recordIndex_m m)(fst entry := None)\<rparr>)
         else
           let rto = min (pr_currentRto record * 2) kMaxRto;
               (jit, m1) = applyJitter draw rto m;
               nextRetry = now + jit;
               record' = record\<lparr>pr_retryCount := pr_retryCount record + 1, pr_currentRto := rto,
                                pr_sendTime := now, pr_nextRetryTime := nextRetry\<rparr>
           in ([SendData (pr_id record) (pr_destIpAddress record) (pr_destPort record) (pr_data record)],
               m1\<lparr>recordIndex_m := (recordIndex_m m1)(fst entry \<mapsto> record'),
                  retryQueue_m := retryQueue_m m1 @ [(pr_id record, nextRetry)]\<rparr>))"

text \<open>The loop, with fuel: an entry pushed by a resend could be due at once if the jittered timeout
  were not positive.\<close>

fun process_loop :: "nat \<Rightarrow> (nat \<Rightarrow> real \<Rightarrow> real \<Rightarrow> real) \<Rightarrow> int \<Rightarrow> DtcpPendingAckMap \<Rightarrow>
    (ack_event list \<times> DtcpPendingAckMap) option" where
  "process_loop fuel draw now m = (case q_top (retryQueue_m m) of
       None \<Rightarrow> Some ([], m)
     | Some entry \<Rightarrow>
         if snd entry > now then Some ([], m)
         else (case fuel of
             0 \<Rightarrow> None
           | Suc fuel' \<Rightarrow> do {
               let (ev, m1) = process_entry draw now entry (m\<lparr>retryQueue_m := remove1 entry (retryQueue_m m)\<rparr>);
               (evs, m2) \<leftarrow> process_loop fuel' draw now m1;
               Some (ev @ evs, m2)
             }))"

declare process_loop.simps [simp del]

definition processTimers :: "(nat \<Rightarrow> real \<Rightarrow> real \<Rightarrow> real) \<Rightarrow> int \<Rightarrow> DtcpPendingAckMap \<Rightarrow>
    (ack_event list \<times> DtcpPendingAckMap) option" where
  "processTimers draw now m = process_loop (length (retryQueue_m m)) draw now m"

section \<open>The random source\<close>

text \<open>What the map relies on from \<open>uniform_real_distribution\<close>: a draw lies between the bounds.\<close>

locale uniform_source =
  fixes draw :: "nat \<Rightarrow> real \<Rightarrow> real \<Rightarrow> real"
  assumes draw_range: "a \<le> b \<Longrightarrow> a \<le> draw n a b \<and> draw n a b \<le> b"
begin

text \<open>A jittered timeout of at least 10 ms lies between 3/4 and 5/4 of it, so it is positive.\<close>

lemma jitter_range:
  assumes "0 \<le> base"
  shows "3 * base \<le> 4 * fst (applyJitter draw base m) + 3 \<and> 4 * fst (applyJitter draw base m) \<le> 5 * base"
proof -
  let ?b = "ms_of_ns base"
  let ?d = "draw (rng_m m) (?b * (1 - kJitterFraction)) (?b * (1 + kJitterFraction))"
  have b: "0 \<le> ?b" using assms by (simp add: ms_of_ns_def)
  have "?b * (1 - kJitterFraction) \<le> ?b * (1 + kJitterFraction)"
    using b by (intro mult_left_mono) (auto simp: kJitterFraction_def)
  from draw_range [OF this, of "rng_m m"] have d: "?b * (3 / 4) \<le> ?d" "?d \<le> ?b * (5 / 4)"
    by (simp_all add: kJitterFraction_def)
  have pos: "0 \<le> ?d" using b d(1) by simp
  have j: "fst (applyJitter draw base m) = \<lfloor>?d * 1000000\<rfloor>"
    using pos by (simp add: applyJitter_def Let_def ns_of_ms_def)
  have "real_of_int base * (3 / 4) \<le> ?d * 1000000" "?d * 1000000 \<le> real_of_int base * (5 / 4)"
    using d by (simp_all add: ms_of_ns_def field_simps)
  then have "3 * base \<le> 4 * \<lfloor>?d * 1000000\<rfloor> + 3" "4 * \<lfloor>?d * 1000000\<rfloor> \<le> 5 * base" by linarith+
  with j show ?thesis by simp
qed

lemma jitter_pos: "10000000 \<le> base \<Longrightarrow> 0 < fst (applyJitter draw base m)"
  using jitter_range [of base m] by linarith

end

definition mid_draw :: "nat \<Rightarrow> real \<Rightarrow> real \<Rightarrow> real" where
  "mid_draw n a b = (a + b) / 2"

interpretation mid: uniform_source mid_draw
  by unfold_locales (auto simp: mid_draw_def)

section \<open>Invariant\<close>

text \<open>Every pending record is filed under its own id, has a retry entry for its current time in the
  queue, has not been resent more than \<open>maxRetries_\<close> times and has a timeout between 10 ms and 30 s.\<close>

definition record_ok :: "DtcpPendingAckMap \<Rightarrow> ulong \<Rightarrow> t_PendingRecord \<Rightarrow> bool" where
  "record_ok m i r \<longleftrightarrow> pr_id r = i \<and> pr_retryCount r \<le> maxRetries_m m \<and>
     10000000 \<le> pr_currentRto r \<and> pr_currentRto r \<le> kMaxRto"

definition pa_inv :: "DtcpPendingAckMap \<Rightarrow> bool" where
  "pa_inv m \<longleftrightarrow> (\<forall>i r. recordIndex_m m i = Some r \<longrightarrow>
     record_ok m i r \<and> (i, pr_nextRetryTime r) \<in> set (retryQueue_m m))"

lemma kMaxRto_val [simp]: "kMaxRto = 30000000000"
  by (simp add: kMaxRto_def ns_of_ms_def kMaxRtoMs_def)

lemma rto_range: "10000000 \<le> computeRto ip m \<and> computeRto ip m \<le> 30000000000"
proof -
  have "10000000 \<le> ns_of_ms x \<and> ns_of_ms x \<le> 30000000000" if "10 \<le> x" "x \<le> 30000" for x
    using that by (simp add: ns_of_ms_def le_floor_iff floor_le_iff)
  then show ?thesis
    by (auto simp: computeRto_def kDefaultRtoMs_def kMaxRtoMs_def split: option.splits)
qed

lemma jitter_frame [simp]:
  "recordIndex_m (snd (applyJitter draw b m)) = recordIndex_m m"
  "retryQueue_m (snd (applyJitter draw b m)) = retryQueue_m m"
  "maxRetries_m (snd (applyJitter draw b m)) = maxRetries_m m"
  "currId_m (snd (applyJitter draw b m)) = currId_m m"
  "peerRttIndex_m (snd (applyJitter draw b m)) = peerRttIndex_m m"
  by (simp_all add: applyJitter_def Let_def)

lemma rtt_frame [simp]:
  "recordIndex_m (updatePeerRtt ip s m) = recordIndex_m m"
  "retryQueue_m (updatePeerRtt ip s m) = retryQueue_m m"
  "maxRetries_m (updatePeerRtt ip s m) = maxRetries_m m"
  "currId_m (updatePeerRtt ip s m) = currId_m m"
  by (simp_all add: updatePeerRtt_def Let_def)

lemma pa_inv_new: "pa_inv (DtcpPendingAckMap_new cfg)"
  by (simp add: pa_inv_def DtcpPendingAckMap_new_def)

lemma pa_inv_add: "pa_inv m \<Longrightarrow> pa_inv (snd (pa_add draw now req d ip port m))"
  using rto_range [of ip "m\<lparr>currId_m := currId_m m + 1\<rparr>"]
  by (auto simp: pa_add_def Let_def case_prod_beta pa_inv_def record_ok_def)

lemma pa_inv_remove: "pa_inv m \<Longrightarrow> pa_inv (snd (pa_remove now i m))"
  by (auto simp: pa_remove_def Let_def pa_inv_def record_ok_def split: option.splits)

lemma q_top_in: "q_top es = Some e \<Longrightarrow> e \<in> set es"
  by (induction es arbitrary: e) (auto split: option.splits if_splits)

lemma q_top_least: "q_top es = Some e \<Longrightarrow> e' \<in> set es \<Longrightarrow> snd e \<le> snd e'"
proof (induction es arbitrary: e)
  case (Cons x es)
  show ?case
  proof (cases "q_top es")
    case None
    then have "es = []" by (cases es) (auto split: option.splits)
    with Cons.prems show ?thesis by simp
  next
    case (Some y)
    with Cons.prems Cons.IH [OF Some] show ?thesis by (auto split: if_splits)
  qed
qed simp

lemma q_top_None: "q_top es = None \<longleftrightarrow> es = []"
  by (cases es) (auto split: option.splits)

section \<open>The timer loop\<close>

text \<open>Events about one transfer.\<close>

definition sends :: "ulong \<Rightarrow> ack_event list \<Rightarrow> nat" where
  "sends i evs = length (filter (\<lambda>e. case e of SendData j _ _ _ \<Rightarrow> j = i | SendFailure _ _ \<Rightarrow> False) evs)"

definition fails :: "ulong \<Rightarrow> ack_event list \<Rightarrow> nat" where
  "fails i evs = length (filter (\<lambda>e. case e of SendData _ _ _ _ \<Rightarrow> False | SendFailure j _ \<Rightarrow> j = i) evs)"

text \<open>What timers may do to one record: leave it alone, resend it and count that, or report the failure
  once after the last allowed resend.\<close>

fun effect :: "int \<Rightarrow> ushort \<Rightarrow> t_PendingRecord option \<Rightarrow> nat \<Rightarrow> nat \<Rightarrow> t_PendingRecord option \<Rightarrow> bool" where
  "effect now mx None s f r' = (s = 0 \<and> f = 0 \<and> r' = None)"
| "effect now mx (Some r) s f None = (f = 1 \<and> unat (pr_retryCount r) + s = unat mx)"
| "effect now mx (Some r) s f (Some r') =
     (f = 0 \<and> unat (pr_retryCount r') = unat (pr_retryCount r) + s \<and>
      (if s = 0 then r' = r
       else pr_nextRetryTime r' \<le> now + 37500000000 \<and> pr_currentRto r' = min (2 ^ s * pr_currentRto r) kMaxRto))"

lemma backoff_twice:
  "min (2 ^ b * min (2 ^ a * x) kMaxRto) kMaxRto = min (2 ^ (a + b) * x) (kMaxRto :: int)"
proof -
  have one: "(1 :: int) \<le> 2 ^ b" by simp
  have cap: "kMaxRto \<le> 2 ^ b * kMaxRto" using one by (simp del: one_le_numeral)
  show ?thesis
  proof (cases "2 ^ a * x \<le> kMaxRto")
    case True
    then show ?thesis by (simp add: power_add ac_simps)
  next
    case False
    then have "2 ^ b * kMaxRto \<le> 2 ^ b * (2 ^ a * x)" by (intro mult_left_mono) auto
    with cap have "kMaxRto \<le> 2 ^ b * (2 ^ a * x)" by (rule order_trans)
    with False have "min (2 ^ (a + b) * x) kMaxRto = kMaxRto" "min (2 ^ a * x) kMaxRto = kMaxRto"
      by (simp_all only: power_add min_absorb2 linorder_not_le less_imp_le mult.assoc mult.left_commute)
    then show ?thesis using cap by (simp only: min_absorb2)
  qed
qed

lemma effect_trans:
  assumes "effect now mx r s f r'" "effect now mx r' s2 f2 r''"
  shows "effect now mx r (s + s2) (f + f2) r''"
  using assms backoff_twice
  by (cases r; cases r'; cases r'') (auto split: if_splits simp del: kMaxRto_val)

lemma effect_refl: "effect now mx r 0 0 r"
  by (cases r) auto

text \<open>The invariant between the pop of an entry and the end of its turn.\<close>

definition pa_inv_popped :: "t_RetryEntry \<Rightarrow> DtcpPendingAckMap \<Rightarrow> bool" where
  "pa_inv_popped e m \<longleftrightarrow> (\<forall>i r. recordIndex_m m i = Some r \<longrightarrow>
     record_ok m i r \<and> (i, pr_nextRetryTime r) \<in> insert e (set (retryQueue_m m)))"

lemma popped_other:
  "pa_inv_popped e m \<Longrightarrow> recordIndex_m m i = Some r \<Longrightarrow> (i, pr_nextRetryTime r) \<noteq> e \<Longrightarrow>
     record_ok m i r \<and> (i, pr_nextRetryTime r) \<in> set (retryQueue_m m)"
  unfolding pa_inv_popped_def by blast

definition due :: "int \<Rightarrow> DtcpPendingAckMap \<Rightarrow> nat" where
  "due now m = length (filter (\<lambda>e. snd e \<le> now) (retryQueue_m m))"

lemma unat_inc: "(w :: ushort) < mx \<Longrightarrow> unat (w + 1) = Suc (unat w)"
proof -
  assume w: "w < mx"
  have "Suc (unat w) \<le> unat mx" using w by (simp add: word_less_nat_alt)
  also have "unat mx < 65536" using unsigned_less [of mx, where 'a = nat] by simp
  finally show ?thesis by (simp add: unat_word_ariths)
qed

lemma due_pop:
  assumes "e \<in> set q" "snd e \<le> now"
  shows "length (filter (\<lambda>e. snd e \<le> now) (remove1 e q)) < length (filter (\<lambda>e. snd e \<le> now) q)"
  using assms by (induction q) auto

lemma loop_idle:
  "\<forall>e. q_top (retryQueue_m m) = Some e \<longrightarrow> now < snd e \<Longrightarrow> process_loop fuel draw now m = Some ([], m)"
  by (subst process_loop.simps) (simp split: option.splits)

lemma loop_turn:
  assumes "q_top (retryQueue_m m) = Some e" "snd e \<le> now"
    and "process_entry draw now e (m\<lparr>retryQueue_m := remove1 e (retryQueue_m m)\<rparr>) = (ev, m1)"
    and "process_loop fuel draw now m1 = Some (evs, m2)"
  shows "process_loop (Suc fuel) draw now m = Some (ev @ evs, m2)"
  using assms by (subst process_loop.simps) simp

context uniform_source
begin

lemma process_entry_step:
  assumes "pa_inv_popped e m" "process_entry draw now e m = (ev, m')"
  shows "pa_inv m'" and "due now m' = due now m" and "maxRetries_m m' = maxRetries_m m"
    and "effect now (maxRetries_m m) (recordIndex_m m i) (sends i ev) (fails i ev) (recordIndex_m m' i)"
proof -
  have "pa_inv m' \<and> due now m' = due now m \<and> maxRetries_m m' = maxRetries_m m \<and>
    effect now (maxRetries_m m) (recordIndex_m m i) (sends i ev) (fails i ev) (recordIndex_m m' i)"
  proof (cases "recordIndex_m m (fst e)")
    case None
    then have "ev = []" "m' = m" using assms(2) by (simp_all add: process_entry_def)
    moreover have "pa_inv m"
      unfolding pa_inv_def using popped_other [OF assms(1)] None by fastforce
    ultimately show ?thesis by (simp add: sends_def fails_def effect_refl)
  next
    case (Some r)
    from assms(1) Some have ok: "record_ok m (fst e) r" by (auto simp: pa_inv_popped_def)
    consider (stale) "pr_nextRetryTime r \<noteq> snd e"
      | (dead) "pr_nextRetryTime r = snd e" "maxRetries_m m \<le> pr_retryCount r"
      | (again) "pr_nextRetryTime r = snd e" "pr_retryCount r < maxRetries_m m" by fastforce
    then show ?thesis
    proof cases
      case stale
      then have "ev = []" "m' = m" using assms(2) Some by (simp_all add: process_entry_def)
      moreover have "pa_inv m"
        unfolding pa_inv_def using popped_other [OF assms(1)] Some stale by (metis fst_conv option.inject snd_conv)
      ultimately show ?thesis by (simp add: sends_def fails_def effect_refl)
    next
      case dead
      with ok have "pr_retryCount r = maxRetries_m m" "pr_id r = fst e" by (auto simp: record_ok_def)
      note same = this
      have m': "ev = [SendFailure (pr_id r) (pr_requestor r)]"
        "m' = m\<lparr>recordIndex_m := (recordIndex_m m)(fst e := None)\<rparr>"
        using assms(2) Some dead by (simp_all add: process_entry_def)
      have "pa_inv m'"
        unfolding pa_inv_def
      proof (intro allI impI)
        fix j s assume "recordIndex_m m' j = Some s"
        then have "recordIndex_m m j = Some s" "(j, pr_nextRetryTime s) \<noteq> e"
          by (auto simp: m' split: if_splits)
        with popped_other [OF assms(1)] show "record_ok m' j s \<and> (j, pr_nextRetryTime s) \<in> set (retryQueue_m m')"
          by (simp add: m' record_ok_def)
      qed
      moreover have "effect now (maxRetries_m m) (recordIndex_m m i) (sends i ev) (fails i ev) (recordIndex_m m' i)"
        using same Some by (simp add: m' sends_def fails_def effect_refl)
      ultimately show ?thesis by (simp add: m' due_def)
    next
      case again
      let ?rto = "min (pr_currentRto r * 2) kMaxRto"
      let ?j = "fst (applyJitter draw ?rto m)"
      have rto: "10000000 \<le> ?rto" "?rto \<le> 30000000000" using ok by (auto simp: record_ok_def)
      have j: "0 < ?j" "?j \<le> 37500000000"
        using jitter_pos [OF rto(1), of m] jitter_range [of ?rto m] rto by linarith+
      let ?r = "r\<lparr>pr_retryCount := pr_retryCount r + 1, pr_currentRto := ?rto, pr_sendTime := now,
                pr_nextRetryTime := now + ?j\<rparr>"
      have m': "ev = [SendData (pr_id r) (pr_destIpAddress r) (pr_destPort r) (pr_data r)]"
        "recordIndex_m m' = (recordIndex_m m)(fst e \<mapsto> ?r)"
        "retryQueue_m m' = retryQueue_m m @ [(pr_id r, now + ?j)]" "maxRetries_m m' = maxRetries_m m"
        using assms(2) Some again(1) again(2) [folded linorder_not_le]
        by (auto simp: process_entry_def Let_def case_prod_beta)
      have cnt: "unat (pr_retryCount r + 1) = Suc (unat (pr_retryCount r))" using again(2) by (rule unat_inc)
      then have "pr_retryCount r + 1 \<le> maxRetries_m m"
        using again(2) by (simp add: word_le_nat_alt word_less_nat_alt)
      then have "record_ok m' (fst e) ?r" using ok rto m'(4) by (simp add: record_ok_def)
      note ok' = this
      have "pa_inv m'"
        unfolding pa_inv_def
      proof (intro allI impI)
        fix j s assume js: "recordIndex_m m' j = Some s"
        show "record_ok m' j s \<and> (j, pr_nextRetryTime s) \<in> set (retryQueue_m m')"
        proof (cases "j = fst e")
          case True
          with js have "s = ?r" by (simp add: m')
          with True ok ok' show ?thesis by (simp add: m' record_ok_def)
        next
          case False
          with js have "recordIndex_m m j = Some s" "(j, pr_nextRetryTime s) \<noteq> e" by (auto simp: m')
          with popped_other [OF assms(1)] show ?thesis by (simp add: m' record_ok_def)
        qed
      qed
      moreover have "due now m' = due now m" using j by (simp add: due_def m')
      moreover have "effect now (maxRetries_m m) (recordIndex_m m i) (sends i ev) (fails i ev) (recordIndex_m m' i)"
        using j cnt ok Some by (auto simp: m' sends_def fails_def record_ok_def effect_refl)
      ultimately show ?thesis using m'(4) by blast
    qed
  qed
  then show "pa_inv m'" and "due now m' = due now m" and "maxRetries_m m' = maxRetries_m m"
    and "effect now (maxRetries_m m) (recordIndex_m m i) (sends i ev) (fails i ev) (recordIndex_m m' i)"
    by blast+
qed

lemma process_loop_total:
  assumes "pa_inv m" "due now m \<le> fuel"
  shows "\<exists>evs m'. process_loop fuel draw now m = Some (evs, m') \<and> pa_inv m' \<and>
    maxRetries_m m' = maxRetries_m m \<and> (\<forall>e\<in>set (retryQueue_m m'). now < snd e) \<and>
    (\<forall>i. effect now (maxRetries_m m) (recordIndex_m m i) (sends i evs) (fails i evs) (recordIndex_m m' i))"
  using assms
proof (induction fuel arbitrary: m)
  case 0
  then have late: "\<forall>e\<in>set (retryQueue_m m). now < snd e"
    by (auto simp: due_def filter_empty_conv)
  then have "process_loop 0 draw now m = Some ([], m)"
    using q_top_in by (intro loop_idle) blast
  with 0 late show ?case by (auto simp: sends_def fails_def effect_refl)
next
  case (Suc fuel)
  show ?case
  proof (cases "\<exists>e. q_top (retryQueue_m m) = Some e \<and> snd e \<le> now")
    case False
    then have "process_loop (Suc fuel) draw now m = Some ([], m)"
      by (intro loop_idle) auto
    moreover have "\<forall>e\<in>set (retryQueue_m m). now < snd e"
    proof (cases "q_top (retryQueue_m m)")
      case None
      then show ?thesis by (simp add: q_top_None)
    next
      case (Some t)
      with False have "now < snd t" by auto
      then show ?thesis using q_top_least [OF Some] by (metis less_le_trans)
    qed
    ultimately show ?thesis using Suc.prems by (auto simp: sends_def fails_def effect_refl)
  next
    case True
    then obtain e where e: "q_top (retryQueue_m m) = Some e" "snd e \<le> now" by blast
    let ?m = "m\<lparr>retryQueue_m := remove1 e (retryQueue_m m)\<rparr>"
    obtain ev m1 where s: "process_entry draw now e ?m = (ev, m1)" by (cases "process_entry draw now e ?m")
    have sub: "set (retryQueue_m m) \<subseteq> insert e (set (remove1 e (retryQueue_m m)))"
      by (metis in_set_remove1 insert_iff subsetI)
    have pop: "pa_inv_popped e ?m"
      using Suc.prems(1) sub by (force simp: pa_inv_popped_def pa_inv_def record_ok_def)
    note st = process_entry_step [OF pop s]
    have "due now ?m < due now m"
      using due_pop [OF q_top_in [OF e(1)], of now] e(2) by (simp add: due_def)
    then have "due now m1 \<le> fuel" using st(2) Suc.prems(2) by simp
    from Suc.IH [OF st(1) this] obtain evs m2 where r: "process_loop fuel draw now m1 = Some (evs, m2)"
      "pa_inv m2" "maxRetries_m m2 = maxRetries_m m1" "\<forall>e\<in>set (retryQueue_m m2). now < snd e"
      "\<And>i. effect now (maxRetries_m m1) (recordIndex_m m1 i) (sends i evs) (fails i evs) (recordIndex_m m2 i)"
      by blast
    have "process_loop (Suc fuel) draw now m = Some (ev @ evs, m2)"
      using e s r(1) by (intro loop_turn)
    moreover have "effect now (maxRetries_m m) (recordIndex_m m i) (sends i (ev @ evs)) (fails i (ev @ evs)) (recordIndex_m m2 i)" for i
      using effect_trans [OF st(4) [of i], of "sends i evs" "fails i evs"] r(5) [of i] st(3)
      by (simp add: sends_def fails_def)
    ultimately show ?thesis using r st(3) by auto
  qed
qed

lemma timers_total:
  assumes "pa_inv m"
  shows "\<exists>evs m'. processTimers draw now m = Some (evs, m') \<and> pa_inv m' \<and>
    maxRetries_m m' = maxRetries_m m \<and> (\<forall>e\<in>set (retryQueue_m m'). now < snd e) \<and>
    (\<forall>i. effect now (maxRetries_m m) (recordIndex_m m i) (sends i evs) (fails i evs) (recordIndex_m m' i))"
  unfolding processTimers_def using assms by (intro process_loop_total) (simp_all add: due_def)

end

section \<open>Runs\<close>

datatype pa_op = Add "nat option" "byte list" ulong ushort | Remove ulong | Timers

text \<open>A call at a clock reading. \<open>Add\<close> carries the requestor, the data and the destination.\<close>

definition pa_step :: "(nat \<Rightarrow> real \<Rightarrow> real \<Rightarrow> real) \<Rightarrow> int \<times> pa_op \<Rightarrow> DtcpPendingAckMap option \<Rightarrow>
    DtcpPendingAckMap option" where
  "pa_step draw call s = do {
     m \<leftarrow> s;
     (case snd call of
        Add req d ip port \<Rightarrow> Some (snd (pa_add draw (fst call) req d ip port m))
      | Remove i \<Rightarrow> Some (snd (pa_remove (fst call) i m))
      | Timers \<Rightarrow> map_option snd (processTimers draw (fst call) m))
   }"

text \<open>Timer calls in a row, and call times that leave room for the longest jittered timeout.\<close>

fun pa_ticks :: "(nat \<Rightarrow> real \<Rightarrow> real \<Rightarrow> real) \<Rightarrow> int list \<Rightarrow> DtcpPendingAckMap \<Rightarrow>
    (ack_event list \<times> DtcpPendingAckMap) option" where
  "pa_ticks draw [] m = Some ([], m)"
| "pa_ticks draw (t # ts) m = do {
     (e1, m1) \<leftarrow> processTimers draw t m;
     (e2, m2) \<leftarrow> pa_ticks draw ts m1;
     Some (e1 @ e2, m2)
   }"

fun spaced :: "int \<Rightarrow> int list \<Rightarrow> bool" where
  "spaced t [] = True"
| "spaced t (u # us) = (t \<le> u \<and> spaced (u + 37500000000) us)"

lemma spaced_mono: "spaced t ts \<Longrightarrow> t' \<le> t \<Longrightarrow> spaced t' ts"
  by (cases ts) auto

lemma events_append [simp]:
  "sends i (a @ b) = sends i a + sends i b" "fails i (a @ b) = fails i a + fails i b"
  by (simp_all add: sends_def fails_def)

context uniform_source
begin

lemma pa_step_inv: "\<exists>m. s = Some m \<and> pa_inv m \<Longrightarrow> \<exists>m. pa_step draw call s = Some m \<and> pa_inv m"
  using timers_total [of _ "fst call"]
  by (cases "snd call") (auto simp: pa_step_def intro: pa_inv_add pa_inv_remove, metis option.simps(9) snd_conv)

lemma ticks_gone:
  assumes "pa_inv m" "recordIndex_m m i = None"
  shows "\<exists>evs m'. pa_ticks draw ts m = Some (evs, m') \<and> recordIndex_m m' i = None \<and> sends i evs = 0 \<and> fails i evs = 0"
  using assms
proof (induction ts arbitrary: m)
  case Nil
  then show ?case by (simp add: sends_def fails_def)
next
  case (Cons t ts)
  obtain e1 m1 where 1: "processTimers draw t m = Some (e1, m1)" "pa_inv m1"
    "effect t (maxRetries_m m) (recordIndex_m m i) (sends i e1) (fails i e1) (recordIndex_m m1 i)"
    using timers_total [OF Cons.prems(1), of t] by blast
  with Cons.prems(2) have "recordIndex_m m1 i = None" "sends i e1 = 0" "fails i e1 = 0" by simp_all
  with Cons.IH [OF 1(2)] 1(1) show ?case by fastforce
qed

lemma ticks_fail:
  assumes "pa_inv m" "recordIndex_m m i = Some r" "spaced (pr_nextRetryTime r) ts"
    and "unat (maxRetries_m m) < unat (pr_retryCount r) + length ts"
  shows "\<exists>evs m'. pa_ticks draw ts m = Some (evs, m') \<and> recordIndex_m m' i = None \<and> fails i evs = 1 \<and>
    unat (pr_retryCount r) + sends i evs = unat (maxRetries_m m)"
  using assms
proof (induction ts arbitrary: m r)
  case Nil
  then have "pr_retryCount r \<le> maxRetries_m m" by (auto simp: pa_inv_def record_ok_def)
  with Nil show ?case by (simp add: word_le_nat_alt)
next
  case (Cons t ts)
  obtain e1 m1 where 1: "processTimers draw t m = Some (e1, m1)" "pa_inv m1" "maxRetries_m m1 = maxRetries_m m"
    "\<forall>e\<in>set (retryQueue_m m1). t < snd e"
    "effect t (maxRetries_m m) (Some r) (sends i e1) (fails i e1) (recordIndex_m m1 i)"
    using timers_total [OF Cons.prems(1), of t] Cons.prems(2) by metis
  show ?case
  proof (cases "recordIndex_m m1 i")
    case None
    from ticks_gone [OF 1(2) None, of ts] obtain evs m' where
      "pa_ticks draw ts m1 = Some (evs, m')" "recordIndex_m m' i = None" "sends i evs = 0" "fails i evs = 0"
      by blast
    with 1(1,5) None show ?thesis by simp
  next
    case (Some r1)
    have "t < pr_nextRetryTime r1" using 1(2,4) Some by (fastforce simp: pa_inv_def)
    then have "sends i e1 \<noteq> 0" using 1(5) Some Cons.prems(3) by (auto split: if_splits)
    with 1(5) Some have r1: "fails i e1 = 0" "unat (pr_retryCount r1) = unat (pr_retryCount r) + sends i e1"
      "pr_nextRetryTime r1 \<le> t + 37500000000" "0 < sends i e1" by auto
    have "spaced (pr_nextRetryTime r1) ts" using Cons.prems(3) r1(3) by (auto intro: spaced_mono)
    moreover have "unat (maxRetries_m m1) < unat (pr_retryCount r1) + length ts"
      using Cons.prems(4) r1(2,4) 1(3) by simp
    ultimately obtain evs m' where "pa_ticks draw ts m1 = Some (evs, m')" "recordIndex_m m' i = None"
      "fails i evs = 1" "unat (pr_retryCount r1) + sends i evs = unat (maxRetries_m m1)"
      using Cons.IH [OF 1(2) Some] by blast
    with 1(1,3) r1 show ?thesis by simp
  qed
qed

end

sublocale uniform_source \<subseteq> acks: machine "pa_step draw" "\<lambda>s. \<exists>m. s = Some m \<and> pa_inv m"
  by unfold_locales (rule pa_step_inv)

context uniform_source
begin

lemma acks_run:
  "pa_inv m \<Longrightarrow> \<exists>m'. fold (pa_step draw) calls (Some m) = Some m' \<and> pa_inv m'"
  by (rule acks.run_inv) simp

end

section \<open>Properties\<close>

text \<open>C6: every sequence of calls of the map returns, and no transfer gets lost: after it each pending
  transfer is filed under its own id, is waiting in the retry queue at its current retry time, has
  been resent at most \<open>maxRetries_\<close> times, and has a timeout between 10 ms and 30 s.\<close>

theorem pending_never_lost:
  assumes "uniform_source draw"
  shows "\<exists>m. fold (pa_step draw) calls (Some (DtcpPendingAckMap_new cfg)) = Some m \<and>
    (\<forall>i r. recordIndex_m m i = Some r \<longrightarrow>
       pr_id r = i \<and> (i, pr_nextRetryTime r) \<in> set (retryQueue_m m) \<and> pr_retryCount r \<le> maxRetries_m m \<and>
       10000000 \<le> pr_currentRto r \<and> pr_currentRto r \<le> 30000000000)"
proof -
  have "\<exists>m. fold (pa_step draw) calls (Some (DtcpPendingAckMap_new cfg)) = Some m \<and> pa_inv m"
    by (rule uniform_source.acks_run [OF assms pa_inv_new])
  then show ?thesis by (fastforce simp: pa_inv_def record_ok_def)
qed

theorem pending_never_lost_witness:
  "\<exists>m. fold (pa_step mid_draw) [(0, Add None [1, 2] 7 9), (1000000000, Timers), (1500000000, Remove 1)]
     (Some (DtcpPendingAckMap_new (Some 3))) = Some m"
  using pending_never_lost [OF mid.uniform_source_axioms] by blast

text \<open>One call of the timers returns after at most one turn per queued entry, leaves nothing due, and
  does to every transfer one of three things: nothing; resend it, counting each resend, doubling the
  timeout for each up to 30 s and scheduling the next retry within 37.5 s; or, when the allowed
  resends are used up, report its failure once and forget it.\<close>

lemma timers_effect:
  assumes "uniform_source draw" and "pa_inv m"
  shows "\<exists>evs m'. processTimers draw now m = Some (evs, m') \<and> (\<forall>e\<in>set (retryQueue_m m'). now < snd e) \<and>
    (\<forall>i. (case recordIndex_m m i of
        None \<Rightarrow> sends i evs = 0 \<and> fails i evs = 0 \<and> recordIndex_m m' i = None
      | Some r \<Rightarrow> (case recordIndex_m m' i of
            None \<Rightarrow> fails i evs = 1 \<and> unat (pr_retryCount r) + sends i evs = unat (maxRetries_m m)
          | Some r' \<Rightarrow> fails i evs = 0 \<and> unat (pr_retryCount r') = unat (pr_retryCount r) + sends i evs \<and>
              (if sends i evs = 0 then r' = r
               else pr_nextRetryTime r' \<le> now + 37500000000 \<and>
                    pr_currentRto r' = min (2 ^ sends i evs * pr_currentRto r) 30000000000))))"
proof -
  obtain evs m' where t: "processTimers draw now m = Some (evs, m')" "\<forall>e\<in>set (retryQueue_m m'). now < snd e"
    "\<And>i. effect now (maxRetries_m m) (recordIndex_m m i) (sends i evs) (fails i evs) (recordIndex_m m' i)"
    using uniform_source.timers_total [OF assms, of now] by blast
  have eff: "case r0 of None \<Rightarrow> s = 0 \<and> f = 0 \<and> r1 = None
      | Some r \<Rightarrow> (case r1 of None \<Rightarrow> f = 1 \<and> unat (pr_retryCount r) + s = unat mx
          | Some r' \<Rightarrow> f = 0 \<and> unat (pr_retryCount r') = unat (pr_retryCount r) + s \<and>
              (if s = 0 then r' = r else pr_nextRetryTime r' \<le> now + 37500000000 \<and>
                 pr_currentRto r' = min (2 ^ s * pr_currentRto r) 30000000000))"
    if "effect now mx r0 s f r1" for mx r0 s f r1
    using that by (cases r0; cases r1) (auto split: if_splits)
  show ?thesis using t(1,2) eff [OF t(3)] by blast
qed

definition demo_acks :: DtcpPendingAckMap where
  "demo_acks = snd (pa_add mid_draw 0 None [1, 2] 7 9 (DtcpPendingAckMap_new (Some 1)))"

lemma demo_acks_inv: "pa_inv demo_acks"
  unfolding demo_acks_def by (intro pa_inv_add pa_inv_new)

lemma demo_acks_record:
  "recordIndex_m demo_acks 1 = Some \<lparr>pr_id = 1, pr_requestor = None, pr_data = [1, 2], pr_destIpAddress = 7,
     pr_destPort = 9, pr_sendTime = 0, pr_nextRetryTime = 200000000, pr_retryCount = 0,
     pr_currentRto = 200000000\<rparr>" "maxRetries_m demo_acks = 1"
  by (simp_all add: demo_acks_def pa_add_def DtcpPendingAckMap_new_def computeRto_def applyJitter_def Let_def
      mid_draw_def ns_of_ms_def ms_of_ns_def kDefaultRtoMs_def kJitterFraction_def)

lemma timers_effect_witness:
  "\<exists>evs m'. processTimers mid_draw 200000000 demo_acks = Some (evs, m') \<and>
     (\<forall>e\<in>set (retryQueue_m m'). 200000000 < snd e)"
  using timers_effect [OF mid.uniform_source_axioms demo_acks_inv, of 200000000] by blast



text \<open>The round-trip estimate stays within its samples: after any non-empty row of samples between
  \<open>lo\<close> and \<open>hi\<close> the smoothed value lies between them and the variance between 0 and \<open>hi\<close>, so the
  timeout computed from it is at most five times the largest sample, clamped to 10 ms .. 30 s.\<close>

lemma rtt_estimate_bounds:
  assumes "ss \<noteq> []" and "\<forall>s\<in>set ss. lo \<le> s \<and> s \<le> hi" and "0 \<le> lo"
    and "rtt = fold updateRtt ss \<lparr>srtt = 0, rttvar = 0, initialized = False\<rparr>"
    and "peerRttIndex_m m ip = Some rtt"
  shows "initialized rtt \<and> lo \<le> srtt rtt \<and> srtt rtt \<le> hi \<and> 0 \<le> rttvar rtt \<and> rttvar rtt \<le> hi \<and>
    10000000 \<le> computeRto ip m \<and> computeRto ip m \<le> 30000000000 \<and>
    ms_of_ns (computeRto ip m) \<le> max 10 (5 * hi)"
proof -
  have step: "initialized (updateRtt s x) \<and> lo \<le> srtt (updateRtt s x) \<and> srtt (updateRtt s x) \<le> hi \<and>
      0 \<le> rttvar (updateRtt s x) \<and> rttvar (updateRtt s x) \<le> hi"
    if "lo \<le> s" "s \<le> hi" "initialized x \<longrightarrow> lo \<le> srtt x \<and> srtt x \<le> hi \<and> 0 \<le> rttvar x \<and> rttvar x \<le> hi" for s x
  proof (cases "initialized x")
    case False
    with that assms(3) show ?thesis by (simp add: updateRtt_def)
  next
    case True
    have "\<bar>srtt x - s\<bar> \<le> hi" using True that assms(3) by linarith
    moreover have "0 \<le> \<bar>srtt x - s\<bar>" by simp
    ultimately show ?thesis using True that
      by (simp add: updateRtt_def kSrttAlpha_def kSrttBeta_def)
  qed
  have run: "initialized (fold updateRtt xs x) \<and> lo \<le> srtt (fold updateRtt xs x) \<and> srtt (fold updateRtt xs x) \<le> hi \<and>
      0 \<le> rttvar (fold updateRtt xs x) \<and> rttvar (fold updateRtt xs x) \<le> hi"
    if "\<forall>s\<in>set xs. lo \<le> s \<and> s \<le> hi"
      "initialized x" "lo \<le> srtt x \<and> srtt x \<le> hi \<and> 0 \<le> rttvar x \<and> rttvar x \<le> hi" for xs x
    using that
  proof (induction xs arbitrary: x)
    case (Cons s xs)
    from step [of s x] Cons.prems have "initialized (updateRtt s x)" "lo \<le> srtt (updateRtt s x) \<and>
        srtt (updateRtt s x) \<le> hi \<and> 0 \<le> rttvar (updateRtt s x) \<and> rttvar (updateRtt s x) \<le> hi" by auto
    with Cons show ?case by simp
  qed simp
  obtain s xs where ss: "ss = s # xs" using assms(1) by (cases ss) auto
  let ?x = "updateRtt s \<lparr>srtt = 0, rttvar = 0, initialized = False\<rparr>"
  have "initialized ?x" "lo \<le> srtt ?x \<and> srtt ?x \<le> hi \<and> 0 \<le> rttvar ?x \<and> rttvar ?x \<le> hi"
    using step [of s "\<lparr>srtt = 0, rttvar = 0, initialized = False\<rparr>"] assms(2) ss by auto
  from run [OF _ this, of xs] assms(2,4) ss
  have r: "initialized rtt" "lo \<le> srtt rtt" "srtt rtt \<le> hi" "0 \<le> rttvar rtt" "rttvar rtt \<le> hi" by auto
  let ?y = "min (max (srtt rtt + 4 * rttvar rtt) 10) kMaxRtoMs"
  have "computeRto ip m = ns_of_ms ?y" using assms(5) r(1) by (simp add: computeRto_def)
  moreover have "0 \<le> ?y" "?y \<le> max 10 (5 * hi)" using r assms(3) by (auto simp: kMaxRtoMs_def)
  moreover have "ms_of_ns (ns_of_ms z) \<le> z" if "0 \<le> z" for z
    using that of_int_floor_le [of "z * 1000000"] by (simp add: ns_of_ms_def ms_of_ns_def field_simps)
  ultimately have "ms_of_ns (computeRto ip m) \<le> max 10 (5 * hi)" by (metis order_trans)
  with r rto_range [of ip m] show ?thesis by simp
qed

lemma rtt_estimate_bounds_witness:
  "computeRto 7 ((DtcpPendingAckMap_new None)\<lparr>peerRttIndex_m :=
     [7 \<mapsto> fold updateRtt [20, 40] \<lparr>srtt = 0, rttvar = 0, initialized = False\<rparr>]\<rparr>) \<le> 30000000000"
  using rtt_estimate_bounds [OF _ _ _ refl, of "[20, 40]" 20 40 "(DtcpPendingAckMap_new None)\<lparr>peerRttIndex_m :=
     [7 \<mapsto> fold updateRtt [20, 40] \<lparr>srtt = 0, rttvar = 0, initialized = False\<rparr>]\<rparr>" 7] by simp

end
