(* ===== verification/DtcpUdpTransport.thy ===== *)
theory DtcpUdpTransport
  imports DtcpSendQueue DtcpMaps PendingAck
begin

text \<open>
  transport/Dtcp/DtcpBaseUdpTransport.cpp and DtcpBaseConnTransport.cpp: the UDP transport that owns the
  send queue, the acknowledgement map and the record pool, and the connection transports above it.
  \<open>dtcp_node\<close> is the state of one transport with its multiplexor (DtcpBaseConnMux.h). What a call takes
  from outside is the record \<open>node_env\<close>: the clock, the calling thread, random draws, memory that was
  never initialised, and the answers of the pure virtual methods that the derived classes implement;
  each invocation of such a method is logged. \<open>None\<close> is a fault: a null or dangling pointer, or the use
  of a pointer that was never set.
\<close>

section \<open>State\<close>

record t_ConnRequestRecord =
  crr_requestor :: nat
  crr_transport :: nat
  crr_tempPeerId :: ulong

record t_PendingAcceptRecord =
  par_myId :: ulong
  par_tempPeerId :: ulong

record t_PendingTransportRecord =
  ptr_netId :: ulong
  ptr_transport :: nat
  ptr_requestor :: nat

record t_PendingAckRecord =
  pak_netId :: ulong
  pak_msgType :: dtcp_type
  pak_requestId :: ulong

datatype node_event = HandleData nat "byte list" | HandleRaw "byte list" | AcceptorReceive nat
  | ConnectorReceive nat nat | SendReceived nat | SendFailed nat

text \<open>An accept record that was deleted while the index still points to it is \<open>None\<close>.\<close>

record dtcp_node =
  nd_active :: bool
  nd_initialized :: bool
  nd_env :: sq_env
  nd_ackMap :: DtcpPendingAckMap
  nd_muxInitialized :: bool
  nd_connectionMap :: DtcpConnectionMap
  nd_connRequestIndex :: "ulong \<rightharpoonup> t_ConnRequestRecord"
  nd_pendingAcceptIndex :: "ulong \<rightharpoonup> t_PendingAcceptRecord option"
  nd_pendingTransportIndex :: "ulong \<rightharpoonup> t_PendingTransportRecord"
  nd_pendingAckIndex :: "ulong \<rightharpoonup> t_PendingAckRecord"
  nd_currSequenceNum :: ulong
  nd_log :: "node_event list"

record node_env =
  me_draw :: "nat \<Rightarrow> real \<Rightarrow> real \<Rightarrow> real"
  me_now :: int
  me_thread :: t_ThreadId
  me_raw :: DtcpConnPacket
  me_garbage :: "ulong \<times> ushort"
  me_accept :: "ulong \<Rightarrow> ushort \<Rightarrow> bool"
  me_newTransport :: "(nat \<times> DtcpBaseConnTransport) option"
  me_receive :: "nat \<Rightarrow> bool"
  me_handler :: bool

definition nd_table :: "dtcp_node \<Rightarrow> DtcpThreadTable" where
  "nd_table nd = sq_table (nd_env nd)"

definition nd_buffer :: "dtcp_node \<Rightarrow> rec_ptr \<Rightarrow> DataBuffer" where
  "nd_buffer nd = hp_buffers (sq_heap (nd_env nd))"

definition set_table :: "DtcpThreadTable \<Rightarrow> dtcp_node \<Rightarrow> dtcp_node" where
  "set_table t nd = nd\<lparr>nd_env := (nd_env nd)\<lparr>sq_table := t\<rparr>\<rparr>"

definition put_buffer :: "rec_ptr \<Rightarrow> DataBuffer \<Rightarrow> dtcp_node \<Rightarrow> dtcp_node" where
  "put_buffer b db nd = nd\<lparr>nd_env := (nd_env nd)\<lparr>sq_heap := (sq_heap (nd_env nd))
     \<lparr>hp_buffers := (hp_buffers (sq_heap (nd_env nd)))(b := db)\<rparr>\<rparr>\<rparr>"

definition set_queue :: "DtcpSendQueue \<Rightarrow> dtcp_node \<Rightarrow> dtcp_node" where
  "set_queue q nd = nd\<lparr>nd_env := (nd_env nd)\<lparr>sq_queue := q\<rparr>\<rparr>"

definition put_conn :: "nat \<Rightarrow> DtcpBaseConnTransport \<Rightarrow> dtcp_node \<Rightarrow> dtcp_node" where
  "put_conn p c nd = nd\<lparr>nd_env := (nd_env nd)\<lparr>sq_heap := (sq_heap (nd_env nd))
     \<lparr>hp_conns := (hp_conns (sq_heap (nd_env nd)))(p \<mapsto> c)\<rparr>\<rparr>\<rparr>"

definition log_event :: "node_event \<Rightarrow> dtcp_node \<Rightarrow> dtcp_node" where
  "log_event x nd = nd\<lparr>nd_log := nd_log nd @ [x]\<rparr>"

text \<open>Following a \<open>DtcpBaseConnTransport *\<close>.\<close>

definition deref :: "conn_ptr \<Rightarrow> dtcp_node \<Rightarrow> (nat \<times> DtcpBaseConnTransport) option" where
  "deref c nd = do { p \<leftarrow> c; t \<leftarrow> hp_conns (sq_heap (nd_env nd)) p; Some (p, t) }"

section \<open>The UDP transport\<close>

definition getTempDataBuffer :: "dtcp_node \<Rightarrow> (rec_ptr option \<times> dtcp_node) option" where
  "getTempDataBuffer nd = do { (b, t) \<leftarrow> allocateBuffer (nd_table nd); Some (b, set_table t nd) }"

definition releaseTempDataBuffer :: "rec_ptr \<Rightarrow> dtcp_node \<Rightarrow> bool \<times> dtcp_node" where
  "releaseTempDataBuffer b nd = (let (ok, t) = releaseBuffer (Some b) (nd_table nd) in (ok, set_table t nd))"

definition getDataBuffer :: "node_env \<Rightarrow> dtcp_node \<Rightarrow> (rec_ptr option \<times> dtcp_node) option" where
  "getDataBuffer env nd =
     (if \<not> nd_active nd then Some (None, nd)
      else do {
        (r, t) \<leftarrow> locateRecord (me_now env) (me_thread env) (nd_table nd);
        Some (r, set_table t nd)
      })"

text \<open>The common part of the two send methods: a buffer with the packet written into it and the
  destination, or failure with the buffer given back.\<close>

definition write_packet :: "stack_link \<Rightarrow> dtcp_node \<Rightarrow> ((rec_ptr \<times> ulong \<times> ushort) option \<times> dtcp_node) option" where
  "write_packet packet nd = do {
     (buffer, nd1) \<leftarrow> getTempDataBuffer nd;
     case buffer of
       None \<Rightarrow> Some (None, nd1)
     | Some b \<Rightarrow> do {
         (status, packet1, db) \<leftarrow> writeData packet (writeReset (nd_buffer nd1 b));
         let nd2 = put_buffer b db nd1;
         let failed = Some (None, snd (releaseTempDataBuffer b nd2));
         if \<not> status then failed
         else (case packet1 of
             DtcpL p par \<Rightarrow> (case dp_getPeerLocation p of
                 None \<Rightarrow> failed
               | Some (destIpAddress, destPort) \<Rightarrow> Some (Some (b, destIpAddress, destPort), nd2))
           | _ \<Rightarrow> failed)
       }
   }"

definition queue_buffer :: "bool \<Rightarrow> ulong \<Rightarrow> ushort \<Rightarrow> rec_ptr \<Rightarrow> dtcp_node \<Rightarrow> bool \<times> dtcp_node" where
  "queue_buffer priority ipAddress port b nd =
     (let (ok, q) = addRequest priority ipAddress port b (sq_queue (nd_env nd)); nd1 = set_queue q nd in
      if \<not> ok then (False, snd (releaseTempDataBuffer b nd1)) else (True, nd1))"

definition ut_sendPacket :: "stack_link \<Rightarrow> dtcp_node \<Rightarrow> (bool \<times> dtcp_node) option" where
  "ut_sendPacket packet nd =
     (if \<not> nd_initialized nd then Some (False, nd)
      else do {
        (dest, nd1) \<leftarrow> write_packet packet nd;
        case dest of
          None \<Rightarrow> Some (False, nd1)
        | Some (b, ip, port) \<Rightarrow> Some (queue_buffer False ip port b nd1)
      })"

text \<open>The request id is set only on success.\<close>

definition add_ack :: "node_env \<Rightarrow> nat option \<Rightarrow> byte list \<Rightarrow> ulong \<Rightarrow> ushort \<Rightarrow> dtcp_node \<Rightarrow> ulong \<times> dtcp_node" where
  "add_ack env requestor data ip port nd =
     (let (i, m) = pa_add (me_draw env) (me_now env) requestor data ip port (nd_ackMap nd) in (i, nd\<lparr>nd_ackMap := m\<rparr>))"

definition ut_sendReliablePacket :: "node_env \<Rightarrow> stack_link \<Rightarrow> nat option \<Rightarrow> dtcp_node \<Rightarrow>
    (ulong option \<times> dtcp_node) option" where
  "ut_sendReliablePacket env packet requestor nd =
     (if \<not> nd_initialized nd then Some (None, nd)
      else do {
        (dest, nd1) \<leftarrow> write_packet packet nd;
        case dest of
          None \<Rightarrow> Some (None, nd1)
        | Some (b, ip, port) \<Rightarrow>
            let data = getData (nd_buffer nd1 b); (ok, nd2) = queue_buffer True ip port b nd1 in
            if \<not> ok then Some (None, nd2)
            else let (i, nd3) = add_ack env requestor data ip port nd2 in Some (Some i, nd3)
      })"

definition ut_sendData :: "ulong \<Rightarrow> ushort \<Rightarrow> byte list \<Rightarrow> dtcp_node \<Rightarrow> (bool \<times> dtcp_node) option" where
  "ut_sendData ipAddress port data nd = do {
     (buffer, nd1) \<leftarrow> getTempDataBuffer nd;
     case buffer of
       None \<Rightarrow> Some (False, nd1)
     | Some b \<Rightarrow> Some (queue_buffer False ipAddress port b (put_buffer b (snd (setData data (nd_buffer nd1 b))) nd1))
   }"

definition ut_sendReliableData :: "node_env \<Rightarrow> ulong \<Rightarrow> ushort \<Rightarrow> byte list \<Rightarrow> nat option \<Rightarrow> dtcp_node \<Rightarrow>
    (ulong option \<times> dtcp_node) option" where
  "ut_sendReliableData env ipAddress port data requestor nd = do {
     (buffer, nd1) \<leftarrow> getTempDataBuffer nd;
     case buffer of
       None \<Rightarrow> Some (None, nd1)
     | Some b \<Rightarrow>
         let (ok, nd2) = queue_buffer True ipAddress port b (put_buffer b (snd (setData data (nd_buffer nd1 b))) nd1) in
         if \<not> ok then Some (None, nd2)
         else let (i, nd3) = add_ack env requestor data ipAddress port nd2 in Some (Some i, nd3)
   }"

definition reliableRequestComplete :: "node_env \<Rightarrow> ulong \<Rightarrow> dtcp_node \<Rightarrow> bool \<times> dtcp_node" where
  "reliableRequestComplete env requestId nd =
     (let (ok, m) = pa_remove (me_now env) requestId (nd_ackMap nd) in (ok, nd\<lparr>nd_ackMap := m\<rparr>))"

text \<open>\<open>received\<close> are the bytes and the source the socket delivered, \<open>None\<close> when \<open>receiveData\<close> failed; the
  connection stores at most the size it is given.\<close>

definition readSocketData :: "(byte list \<times> ulong \<times> ushort) option \<Rightarrow> rec_ptr \<Rightarrow> dtcp_node \<Rightarrow>
    ((ulong \<times> ushort) option \<times> dtcp_node) option" where
  "readSocketData received b nd =
     (if \<not> nd_active nd then Some (None, nd)
      else
        let db = writeReset (nd_buffer nd b); nd1 = put_buffer b db nd in
        (case getWriteBuffer db of
           None \<Rightarrow> Some (None, nd1)
         | Some (p, n) \<Rightarrow> (case received of
             None \<Rightarrow> Some (None, nd1)
           | Some (bytes, ip, port) \<Rightarrow> do {
               db1 \<leftarrow> store p (take n bytes) db;
               let (ok, db2) = addWriteBytes (length (take n bytes)) db1;
               Some (if ok then Some (ip, port) else None, put_buffer b db2 nd)
             })))"

section \<open>Connection transports\<close>

definition DtcpBaseConnTransport_new :: "ulong \<Rightarrow> DtcpBaseConnTransport" where
  "DtcpBaseConnTransport_new rawId = \<lparr>ct_parentTransport_m = False, ct_mux_m = False, ct_transportId_m = rawId,
     ct_peerId_m = 0, ct_myId_m = 0, ct_peerIpAddress_m = 0, ct_peerPort_m = 0, ct_pendingAck_m = False,
     ct_requestId_m = 0, ct_sendSequenceNum_m = 0, ct_recvSequenceNum_m = 0\<rparr>"

text \<open>A data packet is handed to the derived class. With nothing left in the buffer, or no buffer, the
  pointer that is handed over was never set.\<close>

definition ct_processPacket :: "node_env \<Rightarrow> conn_ptr \<Rightarrow> DtcpConnPacket \<Rightarrow> dtcp_node \<Rightarrow> (bool \<times> dtcp_node) option" where
  "ct_processPacket env c packet nd = do {
     (p, t) \<leftarrow> deref c nd;
     if \<not> ct_parentTransport_m t then None
     else do {
       (b, nd1) \<leftarrow> getDataBuffer env nd;
       if cp_packetType_m packet = t_connData \<or> cp_packetType_m packet = t_connReliableData
       then do {
         buf \<leftarrow> b;
         (pos, n) \<leftarrow> getReadBuffer (nd_buffer nd1 buf);
         data \<leftarrow> load pos n (nd_buffer nd1 buf);
         Some (True, log_event (HandleData p data) nd1)
       }
       else Some (False, nd1)
     }
   }"

definition conn_link :: "node_env \<Rightarrow> DtcpBaseConnTransport \<Rightarrow> dtcp_type \<Rightarrow> ulong \<Rightarrow> stack_link \<Rightarrow> stack_link" where
  "conn_link env t ty sequenceNum packet =
     DtcpL DtcpPacket_new
       (ConnL ((DtcpConnPacket_new (me_raw env))
                 \<lparr>cp_peerIpAddress_m := ct_peerIpAddress_m t, cp_peerPort_m := ct_peerPort_m t,
                  cp_myId_m := ct_myId_m t, cp_packetType_m := ty, cp_sequenceNum_m := sequenceNum\<rparr>) packet)"

definition ct_sendPacket :: "node_env \<Rightarrow> nat \<Rightarrow> stack_link \<Rightarrow> dtcp_node \<Rightarrow> (bool \<times> dtcp_node) option" where
  "ct_sendPacket env p packet nd = do {
     (_, t) \<leftarrow> deref (Some p) nd;
     if \<not> ct_parentTransport_m t then None
     else ut_sendPacket (conn_link env t t_connData 0 packet) nd
   }"

definition ct_sendReliablePacket :: "node_env \<Rightarrow> nat \<Rightarrow> stack_link \<Rightarrow> dtcp_node \<Rightarrow> (bool \<times> dtcp_node) option" where
  "ct_sendReliablePacket env p packet nd = do {
     (_, t) \<leftarrow> deref (Some p) nd;
     if ct_pendingAck_m t then Some (False, nd)
     else do {
       let s1 = nd_currSequenceNum nd + 1;
       let s2 = (if s1 = 0 then s1 + 1 else s1);
       let t1 = t\<lparr>ct_sendSequenceNum_m := s1\<rparr>;
       let nd1 = (put_conn p t1 nd)\<lparr>nd_currSequenceNum := s2\<rparr>;
       if \<not> ct_parentTransport_m t then None
       else do {
         (i, nd2) \<leftarrow> ut_sendReliablePacket env (conn_link env t1 t_connReliableData (ct_sendSequenceNum_m t1) packet) (Some p) nd1;
         case i of
           None \<Rightarrow> Some (False, nd2)
         | Some requestId \<Rightarrow> Some (True, put_conn p (t1\<lparr>ct_requestId_m := requestId, ct_pendingAck_m := True\<rparr>) nd2)
       }
     }
   }"

definition ct_sendData :: "node_env \<Rightarrow> nat \<Rightarrow> byte list \<Rightarrow> dtcp_node \<Rightarrow> (bool \<times> dtcp_node) option" where
  "ct_sendData env p data nd = ct_sendPacket env p (DataL (snd (da_setPacketData data DtcpDataPacket_new)) NullLink) nd"

definition ct_sendReliableData :: "node_env \<Rightarrow> nat \<Rightarrow> byte list \<Rightarrow> dtcp_node \<Rightarrow> (bool \<times> dtcp_node) option" where
  "ct_sendReliableData env p data nd =
     ct_sendReliablePacket env p (DataL (snd (da_setPacketData data DtcpDataPacket_new)) NullLink) nd"

definition ct_handleSendFailure :: "node_env \<Rightarrow> nat \<Rightarrow> ulong \<Rightarrow> dtcp_node \<Rightarrow> (bool \<times> dtcp_node) option" where
  "ct_handleSendFailure env p i nd = do {
     (_, t) \<leftarrow> deref (Some p) nd;
     if i \<noteq> ct_requestId_m t then Some (False, nd)
     else Some (me_handler env, log_event (SendFailed p) (put_conn p (t\<lparr>ct_pendingAck_m := False\<rparr>) nd))
   }"

definition ct_handleSendReceived :: "node_env \<Rightarrow> nat \<Rightarrow> ulong \<Rightarrow> dtcp_node \<Rightarrow> (bool \<times> dtcp_node) option" where
  "ct_handleSendReceived env p i nd = do {
     (_, t) \<leftarrow> deref (Some p) nd;
     if i \<noteq> ct_requestId_m t then Some (False, nd)
     else Some (me_handler env, log_event (SendReceived p) (put_conn p (t\<lparr>ct_pendingAck_m := False\<rparr>) nd))
   }"

end
