(* ===== verification/DtcpConnMux.thy ===== *)
theory DtcpConnMux
  imports DtcpUdpTransport
begin

text \<open>
  transport/Dtcp/DtcpBaseConnMux.cpp: the connection multiplexor. It dispatches each received packet by
  its type, runs the handshake (request, offer, accept, ack) over the connection map and its four
  indexes, and routes data to the connection transports; with \<open>processRecord\<close> of
  DtcpBaseUdpTransport.cpp, through which every datagram enters, and \<open>requestTransport\<close>, with which a
  connector opens a connection.
\<close>

section \<open>Requests in flight\<close>

record t_IncomingMessage =
  im_dataBuffer :: rec_ptr
  im_packet :: DtcpPacket
  im_ipAddress :: ulong
  im_port :: ushort
  im_id :: ulong

definition getPendingAckRecord :: "ulong \<Rightarrow> dtcp_node \<Rightarrow> t_PendingAckRecord option" where
  "getPendingAckRecord i nd = nd_pendingAckIndex nd i"

definition removePendingAckRecord :: "node_env \<Rightarrow> t_PendingAckRecord \<Rightarrow> dtcp_node \<Rightarrow> bool \<times> dtcp_node" where
  "removePendingAckRecord env record nd =
     (let nd1 = nd\<lparr>nd_pendingAckIndex := (nd_pendingAckIndex nd)(pak_netId record := None)\<rparr>;
          (ok, nd2) = reliableRequestComplete env (pak_requestId record) nd1
      in (ok, nd2))"

text \<open>\<open>emplace\<close> keeps an existing record.\<close>

definition add_pending :: "ulong \<Rightarrow> ushort \<Rightarrow> dtcp_type \<Rightarrow> ulong \<Rightarrow> dtcp_node \<Rightarrow> dtcp_node" where
  "add_pending ip port ty requestId nd =
     (let i = ipPortToNetId ip port in
      nd\<lparr>nd_pendingAckIndex := map_insert i \<lparr>pak_netId = i, pak_msgType = ty, pak_requestId = requestId\<rparr> (nd_pendingAckIndex nd)\<rparr>)"

text \<open>The location of a transport; without one the variables stay as they were.\<close>

definition ct_location :: "node_env \<Rightarrow> DtcpBaseConnTransport \<Rightarrow> ulong \<times> ushort" where
  "ct_location env t = (case getPeerLocation t of None \<Rightarrow> me_garbage env | Some l \<Rightarrow> l)"

definition new_conn_packet :: "node_env \<Rightarrow> ulong \<times> ushort \<Rightarrow> dtcp_type \<Rightarrow> DtcpConnPacket" where
  "new_conn_packet env loc ty =
     (cp_setPeerLocation (fst loc) (snd loc) (DtcpConnPacket_new (me_raw env)))\<lparr>cp_packetType_m := ty\<rparr>"

definition send_reliable :: "node_env \<Rightarrow> DtcpConnPacket \<Rightarrow> ulong \<times> ushort \<Rightarrow> dtcp_type \<Rightarrow> dtcp_node \<Rightarrow>
    (bool \<times> dtcp_node) option" where
  "send_reliable env packet loc ty nd = do {
     (i, nd1) \<leftarrow> ut_sendReliablePacket env (DtcpL DtcpPacket_new (ConnL packet NullLink)) None nd;
     case i of
       None \<Rightarrow> Some (False, nd1)
     | Some requestId \<Rightarrow> Some (True, add_pending (fst loc) (snd loc) ty requestId nd1)
   }"

definition sendConnectionRequest :: "node_env \<Rightarrow> conn_ptr \<Rightarrow> dtcp_node \<Rightarrow> (bool \<times> dtcp_node) option" where
  "sendConnectionRequest env c nd = do {
     (_, t) \<leftarrow> deref c nd;
     let loc = ct_location env t;
     send_reliable env ((new_conn_packet env loc t_connRequest)\<lparr>cp_peerId_m := ct_peerId_m t\<rparr>) loc t_connRequest nd
   }"

definition sendConnectionOffer :: "node_env \<Rightarrow> DtcpConnPacket \<Rightarrow> dtcp_node \<Rightarrow> (bool \<times> dtcp_node) option" where
  "sendConnectionOffer env packet nd =
     (let loc = (case cp_getPeerLocation packet of None \<Rightarrow> me_garbage env | Some l \<Rightarrow> l) in
      send_reliable env (packet\<lparr>cp_packetType_m := t_connOffer\<rparr>) loc t_connOffer nd)"

definition sendConnectionAccept :: "node_env \<Rightarrow> conn_ptr \<Rightarrow> dtcp_node \<Rightarrow> (bool \<times> dtcp_node) option" where
  "sendConnectionAccept env c nd = do {
     (_, t) \<leftarrow> deref c nd;
     let loc = ct_location env t;
     send_reliable env ((new_conn_packet env loc t_connAccept)\<lparr>cp_myId_m := ct_myId_m t\<rparr>) loc t_connAccept nd
   }"

definition sendAck :: "node_env \<Rightarrow> conn_ptr \<Rightarrow> dtcp_node \<Rightarrow> (bool \<times> dtcp_node) option" where
  "sendAck env c nd = do {
     (_, t) \<leftarrow> deref c nd;
     ut_sendPacket (DtcpL DtcpPacket_new
       (ConnL ((new_conn_packet env (ct_location env t) t_ack)\<lparr>cp_myId_m := ct_myId_m t\<rparr>) NullLink)) nd
   }"

definition sendDataAck :: "node_env \<Rightarrow> conn_ptr \<Rightarrow> dtcp_node \<Rightarrow> (bool \<times> dtcp_node) option" where
  "sendDataAck env c nd = do {
     (_, t) \<leftarrow> deref c nd;
     ut_sendPacket (DtcpL DtcpPacket_new
       (ConnL ((new_conn_packet env (ct_location env t) t_connDataAck)
                 \<lparr>cp_myId_m := ct_myId_m t, cp_sequenceNum_m := ct_recvSequenceNum_m t\<rparr>) NullLink)) nd
   }"

section \<open>Opening connections\<close>

definition createConnectionAcceptEntry :: "node_env \<Rightarrow> DtcpConnPacket \<Rightarrow> ulong \<Rightarrow> ushort \<Rightarrow> dtcp_node \<Rightarrow>
    bool \<times> DtcpConnPacket \<times> dtcp_node" where
  "createConnectionAcceptEntry env packet ip port nd =
     (case createConnection (me_now env) ip (uint port) (nd_connectionMap nd) of
        (True, Some peerId, m) \<Rightarrow>
          (True, packet\<lparr>cp_peerId_m := peerId\<rparr>,
           nd\<lparr>nd_connectionMap := m,
              nd_pendingAcceptIndex := map_insert peerId
                (Some \<lparr>par_myId = cp_myId_m packet, par_tempPeerId = peerId\<rparr>) (nd_pendingAcceptIndex nd)\<rparr>)
      | (_, _, m) \<Rightarrow> (False, packet, nd\<lparr>nd_connectionMap := m\<rparr>))"

definition createConnectionRequestEntry :: "node_env \<Rightarrow> nat \<Rightarrow> nat \<Rightarrow> dtcp_node \<Rightarrow> (bool \<times> dtcp_node) option" where
  "createConnectionRequestEntry env requestor p nd = do {
     (_, t) \<leftarrow> deref (Some p) nd;
     let (ip, port) = ct_location env t;
     case createConnection (me_now env) ip (uint port) (nd_connectionMap nd) of
       (True, Some peerId, m) \<Rightarrow>
         let nd1 = put_conn p (t\<lparr>ct_peerId_m := peerId\<rparr>) (nd\<lparr>nd_connectionMap := m\<rparr>) in
         Some (True, nd1\<lparr>nd_connRequestIndex := map_insert peerId
           \<lparr>crr_requestor = requestor, crr_transport = p, crr_tempPeerId = peerId\<rparr> (nd_connRequestIndex nd1)\<rparr>)
     | (_, _, m) \<Rightarrow> Some (False, nd\<lparr>nd_connectionMap := m\<rparr>)
   }"

definition requestTransport :: "node_env \<Rightarrow> nat \<Rightarrow> nat \<Rightarrow> dtcp_node \<Rightarrow> (bool \<times> dtcp_node) option" where
  "requestTransport env requestor p nd =
     (if \<not> nd_muxInitialized nd then Some (False, nd)
      else do {
        (ok, nd1) \<leftarrow> createConnectionRequestEntry env requestor p nd;
        if \<not> ok then Some (False, nd1) else sendConnectionRequest env (Some p) nd1
      })"

text \<open>DtcpBaseConnConnector.cpp: \<open>created\<close> is the transport that the derived class creates.\<close>

record DtcpBaseConnConnector =
  cn_destIpAddress_m :: ulong
  cn_destPort_m :: int

definition setDestination :: "ulong \<Rightarrow> int \<Rightarrow> DtcpBaseConnConnector \<Rightarrow> DtcpBaseConnConnector" where
  "setDestination ipAddress port cn = cn\<lparr>cn_destIpAddress_m := ipAddress, cn_destPort_m := port\<rparr>"

definition requestConnection :: "node_env \<Rightarrow> nat \<Rightarrow> DtcpBaseConnConnector \<Rightarrow> (nat \<times> DtcpBaseConnTransport) option \<Rightarrow>
    dtcp_node \<Rightarrow> (bool \<times> dtcp_node) option" where
  "requestConnection env requestor cn created nd =
     (if cn_destIpAddress_m cn = 0 then Some (False, nd)
      else (case created of
          None \<Rightarrow> Some (False, nd)
        | Some (p, t) \<Rightarrow>
            requestTransport env requestor p (put_conn p
              (t\<lparr>ct_parentTransport_m := True, ct_peerIpAddress_m := cn_destIpAddress_m cn,
                 ct_peerPort_m := word_of_int (cn_destPort_m cn)\<rparr>) nd)))"

definition requestConnection_to :: "node_env \<Rightarrow> nat \<Rightarrow> ulong \<Rightarrow> int \<Rightarrow> DtcpBaseConnConnector \<Rightarrow>
    (nat \<times> DtcpBaseConnTransport) option \<Rightarrow> dtcp_node \<Rightarrow> (bool \<times> dtcp_node) option" where
  "requestConnection_to env requestor ipAddress port cn created nd =
     requestConnection env requestor (setDestination ipAddress port cn) created nd"

section \<open>Handlers\<close>

text \<open>Every handler that needs the connection fields reads them into a new packet.\<close>

definition read_conn :: "node_env \<Rightarrow> t_IncomingMessage \<Rightarrow> dtcp_node \<Rightarrow> (DtcpConnPacket option \<times> dtcp_node) option" where
  "read_conn env request nd = do {
     (status, l, db) \<leftarrow> readData (ConnL ((DtcpConnPacket_new (me_raw env))
         \<lparr>cp_packetType_m := dp_packetType_m (im_packet request)\<rparr>) NullLink) (nd_buffer nd (im_dataBuffer request));
     let nd1 = put_buffer (im_dataBuffer request) db nd;
     case l of
       ConnL c par \<Rightarrow> Some (if status then Some c else None, nd1)
     | _ \<Rightarrow> None
   }"

definition handleConnRequestPacket :: "node_env \<Rightarrow> t_IncomingMessage \<Rightarrow> dtcp_node \<Rightarrow> (bool \<times> dtcp_node) option" where
  "handleConnRequestPacket env request nd =
     (if exists_address (im_ipAddress request) (uint (im_port request)) (nd_connectionMap nd) then Some (True, nd)
      else if getPendingAckRecord (im_id request) nd \<noteq> None then Some (True, nd)
      else do {
        (packet, nd1) \<leftarrow> read_conn env request nd;
        case packet of
          None \<Rightarrow> Some (False, nd1)
        | Some c \<Rightarrow>
            if dp_getPeerLocation (im_packet request) = None \<or>
               \<not> me_accept env (im_ipAddress request) (im_port request) then Some (True, nd1)
            else
              let (ok, c1, nd2) = createConnectionAcceptEntry env
                    (cp_setPeerLocation (im_ipAddress request) (im_port request) c)
                    (im_ipAddress request) (im_port request) nd1
              in if \<not> ok then Some (False, nd2) else sendConnectionOffer env c1 nd2
      })"

definition handleConnOfferPacket :: "node_env \<Rightarrow> t_IncomingMessage \<Rightarrow> dtcp_node \<Rightarrow> (bool \<times> dtcp_node) option" where
  "handleConnOfferPacket env request nd = (case getPendingAckRecord (im_id request) nd of
       None \<Rightarrow> Some (True, nd)
     | Some ackRecord \<Rightarrow>
         if pak_msgType ackRecord \<noteq> t_connRequest then Some (True, nd)
         else do {
           (packet, nd1) \<leftarrow> read_conn env request (snd (removePendingAckRecord env ackRecord nd));
           case packet of
             None \<Rightarrow> Some (False, nd1)
           | Some c \<Rightarrow> (case nd_connRequestIndex nd1 (cp_peerId_m c) of
               None \<Rightarrow> Some (False, nd1)
             | Some record \<Rightarrow> do {
                 (p, t) \<leftarrow> deref (Some (crr_transport record)) nd1;
                 let nd2 = (put_conn p (t\<lparr>ct_myId_m := cp_myId_m c\<rparr>) nd1)
                   \<lparr>nd_connRequestIndex := (nd_connRequestIndex nd1)(cp_peerId_m c := None)\<rparr>;
                 let (ok, m) = indexConnection (cp_peerId_m c) (Some p) (nd_connectionMap nd2);
                 let nd3 = nd2\<lparr>nd_connectionMap := m\<rparr>;
                 if \<not> ok then Some (False, nd3)
                 else do {
                   (sent, nd4) \<leftarrow> sendConnectionAccept env (Some p) nd3;
                   if \<not> sent then Some (False, nd4)
                   else Some (True, nd4\<lparr>nd_pendingTransportIndex := map_insert (im_id request)
                     \<lparr>ptr_netId = im_id request, ptr_transport = p, ptr_requestor = crr_requestor record\<rparr>
                     (nd_pendingTransportIndex nd4)\<rparr>)
                 }
               })
         })"

definition checkAcceptAckRetry :: "node_env \<Rightarrow> t_IncomingMessage \<Rightarrow> dtcp_node \<Rightarrow> (bool \<times> dtcp_node) option" where
  "checkAcceptAckRetry env request nd = do {
     (packet, nd1) \<leftarrow> read_conn env request nd;
     case packet of
       None \<Rightarrow> Some (False, nd1)
     | Some c \<Rightarrow> (case locate_peer (cp_peerId_m c) (nd_connectionMap nd1) of
         (True, Some transport) \<Rightarrow> sendAck env transport nd1
       | _ \<Rightarrow> Some (True, nd1))
   }"

text \<open>The accept record is deleted but stays in its index; the erased index is the other one.\<close>

definition handleConnAcceptPacket :: "node_env \<Rightarrow> t_IncomingMessage \<Rightarrow> dtcp_node \<Rightarrow> (bool \<times> dtcp_node) option" where
  "handleConnAcceptPacket env request nd = (case getPendingAckRecord (im_id request) nd of
       None \<Rightarrow> checkAcceptAckRetry env request nd
     | Some ackRecord \<Rightarrow>
         if pak_msgType ackRecord \<noteq> t_connOffer then Some (True, nd)
         else do {
           (packet, nd1) \<leftarrow> read_conn env request (snd (removePendingAckRecord env ackRecord nd));
           case packet of
             None \<Rightarrow> Some (False, nd1)
           | Some c \<Rightarrow> (case nd_pendingAcceptIndex nd1 (cp_peerId_m c) of
               None \<Rightarrow> Some (False, nd1)
             | Some acceptRecord \<Rightarrow> (case me_newTransport env of
                 None \<Rightarrow> Some (False, nd1\<lparr>nd_connectionMap := snd (removePendingConnection (cp_peerId_m c) (nd_connectionMap nd1))\<rparr>)
               | Some (p, t) \<Rightarrow> do {
                   record \<leftarrow> acceptRecord;
                   let t1 = t\<lparr>ct_parentTransport_m := True, ct_mux_m := True, ct_myId_m := par_myId record,
                              ct_peerId_m := cp_peerId_m c, ct_peerIpAddress_m := im_ipAddress request,
                              ct_peerPort_m := im_port request\<rparr>;
                   let nd2 = put_conn p t1 nd1;
                   let (ok, m) = indexConnection (cp_peerId_m c) (Some p) (nd_connectionMap nd2);
                   let nd3 = nd2\<lparr>nd_connectionMap := m\<rparr>;
                   if \<not> ok then Some (False, nd3\<lparr>nd_connectionMap := snd (removePendingConnection (cp_peerId_m c) m)\<rparr>)
                   else do {
                     let nd4 = nd3\<lparr>nd_connRequestIndex := (nd_connRequestIndex nd3)(cp_peerId_m c := None),
                                   nd_pendingAcceptIndex := (nd_pendingAcceptIndex nd3)(cp_peerId_m c \<mapsto> None)\<rparr>;
                     (sent, nd5) \<leftarrow> sendAck env (Some p) nd4;
                     if \<not> sent then Some (False, nd5) else Some (me_receive env p, log_event (AcceptorReceive p) nd5)
                   }
                 }))
         })"

definition handleConnDataPacket :: "node_env \<Rightarrow> t_IncomingMessage \<Rightarrow> dtcp_node \<Rightarrow> (bool \<times> dtcp_node) option" where
  "handleConnDataPacket env request nd = do {
     (packet, nd1) \<leftarrow> read_conn env request nd;
     case packet of
       None \<Rightarrow> Some (False, nd1)
     | Some c \<Rightarrow> (case locate_peer (cp_peerId_m c) (nd_connectionMap nd1) of
         (True, Some transport) \<Rightarrow> ct_processPacket env transport c nd1
       | _ \<Rightarrow> Some (False, nd1))
   }"

definition handleConnReliableDataPacket :: "node_env \<Rightarrow> t_IncomingMessage \<Rightarrow> dtcp_node \<Rightarrow> (bool \<times> dtcp_node) option" where
  "handleConnReliableDataPacket env request nd = do {
     (packet, nd1) \<leftarrow> read_conn env request nd;
     case packet of
       None \<Rightarrow> Some (False, nd1)
     | Some c \<Rightarrow> (case locate_peer (cp_peerId_m c) (nd_connectionMap nd1) of
         (True, Some transport) \<Rightarrow> do {
           (p, t) \<leftarrow> deref transport nd1;
           if ct_recvSequenceNum_m t = cp_sequenceNum_m c then sendDataAck env transport nd1
           else do {
             let nd2 = put_conn p (t\<lparr>ct_recvSequenceNum_m := cp_sequenceNum_m c\<rparr>) nd1;
             (_, nd3) \<leftarrow> sendDataAck env transport nd2;
             (_, nd4) \<leftarrow> ct_processPacket env transport c nd3;
             Some (True, nd4)
           }
         }
       | _ \<Rightarrow> Some (False, nd1))
   }"

definition handleConnDataAckPacket :: "node_env \<Rightarrow> t_IncomingMessage \<Rightarrow> dtcp_node \<Rightarrow> (bool \<times> dtcp_node) option" where
  "handleConnDataAckPacket env request nd = do {
     (packet, nd1) \<leftarrow> read_conn env request nd;
     case packet of
       None \<Rightarrow> Some (False, nd1)
     | Some c \<Rightarrow> (case locate_peer (cp_peerId_m c) (nd_connectionMap nd1) of
         (True, Some transport) \<Rightarrow> do {
           (p, t) \<leftarrow> deref transport nd1;
           if \<not> ct_pendingAck_m t then Some (True, nd1)
           else do {
             let (ok, nd2) = reliableRequestComplete env (ct_requestId_m t) nd1;
             if \<not> ok then Some (False, nd2) else ct_handleSendReceived env p (ct_requestId_m t) nd2
           }
         }
       | _ \<Rightarrow> Some (False, nd1))
   }"

definition pendingConnAcceptComplete :: "node_env \<Rightarrow> t_PendingAckRecord \<Rightarrow> dtcp_node \<Rightarrow> bool \<times> dtcp_node" where
  "pendingConnAcceptComplete env ackRecord nd =
     (let nd1 = snd (removePendingAckRecord env ackRecord nd) in
      case nd_pendingTransportIndex nd1 (pak_netId ackRecord) of
        None \<Rightarrow> (False, nd1)
      | Some record \<Rightarrow>
          (me_receive env (ptr_transport record),
           log_event (ConnectorReceive (ptr_requestor record) (ptr_transport record))
             (nd1\<lparr>nd_pendingTransportIndex := (nd_pendingTransportIndex nd1)(pak_netId ackRecord := None)\<rparr>)))"

text \<open>\<open>pendingConnCloseComplete\<close>, \<open>pendingConnSuspendComplete\<close> and \<open>pendingPollComplete\<close> have one body.\<close>

definition pendingComplete :: "node_env \<Rightarrow> t_PendingAckRecord \<Rightarrow> dtcp_node \<Rightarrow> bool \<times> dtcp_node" where
  "pendingComplete env ackRecord nd = (True, snd (removePendingAckRecord env ackRecord nd))"

definition handleAckPacket :: "node_env \<Rightarrow> t_IncomingMessage \<Rightarrow> dtcp_node \<Rightarrow> bool \<times> dtcp_node" where
  "handleAckPacket env request nd = (case getPendingAckRecord (im_id request) nd of
       None \<Rightarrow> (True, nd)
     | Some ackRecord \<Rightarrow>
         if pak_msgType ackRecord = t_connAccept then pendingConnAcceptComplete env ackRecord nd
         else if pak_msgType ackRecord = t_connClose \<or> pak_msgType ackRecord = t_connSuspend \<or>
                 pak_msgType ackRecord = t_poll then pendingComplete env ackRecord nd
         else (True, nd))"

text \<open>The handlers of suspend, resume, close, poll, error, NAT and transaction packets return true and
  change nothing.\<close>

definition handle_ignored :: "dtcp_node \<Rightarrow> bool \<times> dtcp_node" where
  "handle_ignored nd = (True, nd)"

definition mux_processPacket :: "node_env \<Rightarrow> DtcpPacket \<Rightarrow> dtcp_node \<Rightarrow> (bool \<times> dtcp_node) option" where
  "mux_processPacket env packet nd =
     (if \<not> nd_muxInitialized nd then Some (False, nd)
      else do {
        (buffer, nd1) \<leftarrow> getDataBuffer env nd;
        b \<leftarrow> buffer;
        let (ip, port) = (case dp_getPeerLocation packet of None \<Rightarrow> me_garbage env | Some l \<Rightarrow> l);
        let request = \<lparr>im_dataBuffer = b, im_packet = packet, im_ipAddress = ip, im_port = port, im_id = ipPortToNetId ip port\<rparr>;
        case dp_packetType_m packet of
          t_connRequest \<Rightarrow> handleConnRequestPacket env request nd1
        | t_connOffer \<Rightarrow> handleConnOfferPacket env request nd1
        | t_connAccept \<Rightarrow> handleConnAcceptPacket env request nd1
        | t_connSuspend \<Rightarrow> Some (handle_ignored nd1)
        | t_connResume \<Rightarrow> Some (handle_ignored nd1)
        | t_connData \<Rightarrow> handleConnDataPacket env request nd1
        | t_connReliableData \<Rightarrow> handleConnReliableDataPacket env request nd1
        | t_connDataAck \<Rightarrow> handleConnDataAckPacket env request nd1
        | t_connClose \<Rightarrow> Some (handle_ignored nd1)
        | t_poll \<Rightarrow> Some (handle_ignored nd1)
        | t_ack \<Rightarrow> Some (handleAckPacket env request nd1)
        | t_error \<Rightarrow> Some (handle_ignored nd1)
        | t_natDiscover \<Rightarrow> Some (handle_ignored nd1)
        | t_natSource \<Rightarrow> Some (handle_ignored nd1)
        | t_txnData \<Rightarrow> Some (handle_ignored nd1)
        | _ \<Rightarrow> Some (False, nd1)
      })"

definition mux_acknowledgeTransfer :: "node_env \<Rightarrow> conn_ptr \<Rightarrow> dtcp_node \<Rightarrow> (bool \<times> dtcp_node) option" where
  "mux_acknowledgeTransfer env c nd = do {
     (_, t) \<leftarrow> deref c nd;
     if \<not> ct_pendingAck_m t then Some (False, nd)
     else Some (reliableRequestComplete env (ct_requestId_m t) nd)
   }"

text \<open>The transport clears its flag before it asks the multiplexor, which then refuses.\<close>

definition ct_acknowledgeTransfer :: "node_env \<Rightarrow> nat \<Rightarrow> dtcp_node \<Rightarrow> (bool \<times> dtcp_node) option" where
  "ct_acknowledgeTransfer env p nd = do {
     (_, t) \<leftarrow> deref (Some p) nd;
     if \<not> ct_pendingAck_m t then Some (False, nd)
     else if \<not> ct_mux_m t then None
     else do {
       (_, nd1) \<leftarrow> mux_acknowledgeTransfer env (Some p) (put_conn p (t\<lparr>ct_pendingAck_m := False\<rparr>) nd);
       Some (True, nd1)
     }
   }"

text \<open>A datagram in the record \<open>r\<close> of the calling thread, from \<open>source\<close>; \<open>p0\<close> is the packet object of the
  record. What is not a DTCP packet goes to the derived class.\<close>

definition ut_processRecord :: "node_env \<Rightarrow> rec_ptr \<Rightarrow> ulong \<times> ushort \<Rightarrow> DtcpPacket \<Rightarrow> dtcp_node \<Rightarrow>
    (bool \<times> dtcp_node) option" where
  "ut_processRecord env r source p0 nd = do {
     (status, l, db) \<leftarrow> readData (DtcpL p0 NullLink) (readReset (nd_buffer nd r));
     let nd1 = put_buffer r db nd;
     if \<not> status then
       (case getReadBuffer db of
          None \<Rightarrow> Some (False, nd1)
        | Some (pos, n) \<Rightarrow>
            if \<not> nd_initialized nd1 then Some (False, nd1)
            else do { data \<leftarrow> load pos n db; Some (me_handler env, log_event (HandleRaw data) nd1) })
     else (case l of
         DtcpL p par \<Rightarrow> mux_processPacket env (dp_setPeerLocation (fst source) (snd source) p) nd1
       | _ \<Rightarrow> None)
   }"

section \<open>What every operation of the transport keeps\<close>

text \<open>The record pools are consistent and every buffer is.\<close>

definition node_base :: "dtcp_node \<Rightarrow> rec_ptr list \<Rightarrow> rec_ptr list \<Rightarrow> bool" where
  "node_base nd h b \<longleftrightarrow> tt_inv (nd_table nd) h b \<and> (\<forall>x. db_inv (nd_buffer nd x))"

text \<open>\<open>nd'\<close> is \<open>nd\<close> after work in its buffers and its record table.\<close>

definition quiet :: "dtcp_node \<Rightarrow> dtcp_node \<Rightarrow> bool" where
  "quiet nd nd' \<longleftrightarrow> nd_connectionMap nd' = nd_connectionMap nd \<and> nd_pendingAckIndex nd' = nd_pendingAckIndex nd \<and>
     nd_pendingTransportIndex nd' = nd_pendingTransportIndex nd \<and> nd_log nd' = nd_log nd \<and>
     sq_queue (nd_env nd') = sq_queue (nd_env nd) \<and> nd_ackMap nd' = nd_ackMap nd \<and>
     hp_conns (sq_heap (nd_env nd')) = hp_conns (sq_heap (nd_env nd)) \<and> nd_active nd' = nd_active nd \<and>
     nd_initialized nd' = nd_initialized nd \<and> nd_muxInitialized nd' = nd_muxInitialized nd"

lemma quiet_refl [simp]: "quiet nd nd"
  by (simp add: quiet_def)

lemma quiet_trans [trans]: "quiet nd nd1 \<Longrightarrow> quiet nd1 nd2 \<Longrightarrow> quiet nd nd2"
  by (simp add: quiet_def)

lemma node_simps [simp]:
  "nd_table (set_table t nd) = t" "nd_buffer (set_table t nd) = nd_buffer nd"
  "nd_table (put_buffer x db nd) = nd_table nd" "nd_buffer (put_buffer x db nd) = (nd_buffer nd)(x := db)"
  "quiet nd (set_table t nd')  = quiet nd nd'" "quiet nd (put_buffer x db nd') = quiet nd nd'"
  by (simp_all add: nd_table_def nd_buffer_def set_table_def put_buffer_def quiet_def)

lemma writeReset_inv [simp]: "db_inv db \<Longrightarrow> db_inv (writeReset db)"
  by (simp add: db_inv_def writeReset_def)

lemma readReset_inv [simp]: "db_inv db \<Longrightarrow> db_inv (readReset db)"
  by (simp add: db_inv_def readReset_def)

lemma put_buffer_base [simp]: "node_base nd h b \<Longrightarrow> db_inv db \<Longrightarrow> node_base (put_buffer x db nd) h b"
  by (simp add: node_base_def)

text \<open>A packet with a parent cannot be sent: its \<open>writeData\<close> reports failure, and the buffer is given back.\<close>

lemma writeData_with_parent:
  "writeData (DtcpL p par) db = Some (st, l, db') \<Longrightarrow> par \<noteq> NullLink \<Longrightarrow> \<not> st"
  by (auto simp: Let_def split: option.splits if_splits prod.splits bind_splits)

lemma write_packet_fails:
  assumes "node_base nd h b" "par \<noteq> NullLink"
  obtains nd' where "write_packet (DtcpL p par) nd = Some (None, nd')" "quiet nd nd'" "node_base nd' h b"
proof (rule allocateBuffer_inv [of "nd_table nd" h b])
  show "tt_inv (nd_table nd) h b" using assms by (simp add: node_base_def)
  fix r t assume a: "allocateBuffer (nd_table nd) = Some (r, t)" "tt_inv t h (case r of None \<Rightarrow> b | Some p \<Rightarrow> p # b)"
  show ?thesis
  proof (cases r)
    case None
    with a assms show ?thesis
      by (intro that [of "set_table t nd"]) (simp_all add: write_packet_def getTempDataBuffer_def node_base_def)
  next
    case (Some x)
    have "db_inv (writeReset (nd_buffer nd x))" using assms by (simp add: node_base_def)
    then obtain st l db where w: "writeData (DtcpL p par) (writeReset (nd_buffer nd x)) = Some (st, l, db)" "db_inv db"
      using writeData_safe by blast
    then have "\<not> st" using writeData_with_parent assms(2) by blast
    moreover have "tt_inv (snd (releaseBuffer (Some x) t)) h (remove1 x (x # b))"
      using a(2) Some by (intro releaseBuffer_inv) simp_all
    ultimately show ?thesis using a Some w assms
      by (intro that [of "snd (releaseTempDataBuffer x (put_buffer x db (set_table t nd)))"])
        (simp_all add: write_packet_def getTempDataBuffer_def releaseTempDataBuffer_def node_base_def case_prod_beta Let_def
           del: writeData.simps)
  qed
qed

lemma sends_fail:
  assumes "node_base nd h b" "par \<noteq> NullLink"
  shows "\<exists>nd'. ut_sendPacket (DtcpL p par) nd = Some (False, nd') \<and> quiet nd nd' \<and> node_base nd' h b"
    and "\<exists>nd'. ut_sendReliablePacket env (DtcpL p par) q nd = Some (None, nd') \<and> quiet nd nd' \<and> node_base nd' h b"
  by (rule write_packet_fails [OF assms, of p];
      use assms in \<open>simp add: ut_sendPacket_def ut_sendReliablePacket_def\<close>)+

lemma send_reliable_fails:
  assumes "node_base nd h b"
  obtains nd' where "send_reliable env c loc ty nd = Some (False, nd')" "quiet nd nd'" "node_base nd' h b"
  using sends_fail(2) [OF assms, of "ConnL c NullLink" env DtcpPacket_new None] by (auto simp: send_reliable_def)

lemma getDataBuffer_quiet:
  assumes "node_base nd h b"
  obtains r nd' where "getDataBuffer env nd = Some (r, nd')" "quiet nd nd'" "node_base nd' h b" "nd_buffer nd' = nd_buffer nd"
proof (rule locateRecord_inv [of "nd_table nd" h b "me_now env" "me_thread env"])
  show "tt_inv (nd_table nd) h b" using assms by (simp add: node_base_def)
  fix r t assume "locateRecord (me_now env) (me_thread env) (nd_table nd) = Some (r, t)" "tt_inv t h b"
  with assms show ?thesis
    by (cases "nd_active nd") (auto simp: getDataBuffer_def node_base_def intro: that [of r "set_table t nd"] that [of None nd])
qed

text \<open>Reading the connection fields: a packet when the unread bytes decode, with its identifiers.\<close>

definition blank_conn :: "node_env \<Rightarrow> t_IncomingMessage \<Rightarrow> DtcpConnPacket" where
  "blank_conn env request = (DtcpConnPacket_new (me_raw env))\<lparr>cp_packetType_m := dp_packetType_m (im_packet request)\<rparr>"

lemma readData_conn_None:
  assumes "db_inv db" "conn_dec (cp_packetType_m c) (unread db) = None"
  shows "\<exists>c'. readData (ConnL c NullLink) db = Some (False, ConnL c' NullLink, db)"
  using cp_read_fields_dec [OF assms(1), of c] assms(2)
  by (cases "readRemaining_m db = 0") (auto simp: getReadBuffer_def)

lemma read_conn_cases:
  assumes "node_base nd h b"
  obtains nd' where "read_conn env request nd =
      Some (map_option (\<lambda>(m, r). conn_apply m (blank_conn env request))
        (conn_dec (dp_packetType_m (im_packet request)) (unread (nd_buffer nd (im_dataBuffer request)))), nd')"
    "quiet nd nd'" "node_base nd' h b"
proof -
  let ?db = "nd_buffer nd (im_dataBuffer request)" and ?c = "blank_conn env request"
  have inv: "db_inv ?db" using assms by (simp add: node_base_def)
  have ty: "cp_packetType_m ?c = dp_packetType_m (im_packet request)" by (simp add: blank_conn_def)
  show ?thesis
  proof (cases "conn_dec (cp_packetType_m ?c) (unread ?db)")
    case None
    then obtain c' where "readData (ConnL ?c NullLink) ?db = Some (False, ConnL c' NullLink, ?db)"
      using readData_conn_None [OF inv] by blast
    with None assms inv show ?thesis
      by (intro that [of "put_buffer (im_dataBuffer request) ?db nd"])
        (simp_all add: read_conn_def blank_conn_def del: readData.simps)
  next
    case (Some mr)
    then obtain m r where mr: "conn_dec (cp_packetType_m ?c) (unread ?db) = Some (m, r)" by (cases mr) auto
    have read: "readData (ConnL ?c NullLink) ?db =
        Some (True, ConnL (conn_apply m ?c) NullLink, db_consume (readRemaining_m ?db - length r) ?db)"
      by (rule readData_conn [OF inv mr])
    moreover have "db_inv (db_consume (readRemaining_m ?db - length r) ?db)"
      using readData_safe [OF inv, of "ConnL ?c NullLink"] read by auto
    ultimately show ?thesis using assms mr
      by (intro that [of "put_buffer (im_dataBuffer request) (db_consume (readRemaining_m ?db - length r) ?db) nd"])
        (simp_all add: read_conn_def ty del: readData.simps flip: blank_conn_def)
  qed
qed


section \<open>The handshake cannot proceed\<close>

definition node_ok :: "DtcpSendQueue \<Rightarrow> DtcpPendingAckMap \<Rightarrow> ulong set \<Rightarrow> dtcp_node \<Rightarrow> rec_ptr list \<Rightarrow> rec_ptr list \<Rightarrow> bool" where
  "node_ok q m D nd h b \<longleftrightarrow> node_base nd h b \<and> sq_queue (nd_env nd) = q \<and> nd_ackMap nd = m \<and>
     nd_pendingAckIndex nd = Map.empty \<and> nd_pendingTransportIndex nd = Map.empty \<and>
     (\<forall>i c. peerIndex_m (nd_connectionMap nd) i = Some c \<longrightarrow> c = None) \<and> D \<subseteq> dom (peerIndex_m (nd_connectionMap nd)) \<and>
     (\<forall>x\<in>set (nd_log nd). \<exists>d. x = HandleRaw d)"

lemma node_ok_base: "node_ok q m D nd h b \<Longrightarrow> node_base nd h b"
  by (simp add: node_ok_def)

lemma node_ok_quiet: "node_ok q m D nd h b \<Longrightarrow> quiet nd nd' \<Longrightarrow> node_base nd' h b \<Longrightarrow> node_ok q m D nd' h b"
  by (simp add: node_ok_def quiet_def)

fun msg_sender :: "conn_msg \<Rightarrow> ulong" where
  "msg_sender (MRequest a) = 0"
| "msg_sender (MOffer s a) = s"
| "msg_sender (MResume s ip port) = s"
| "msg_sender (MReliable s q) = s"
| "msg_sender (MPlain s) = s"

definition sender_of :: "dtcp_type \<Rightarrow> byte list \<Rightarrow> ulong option" where
  "sender_of t u = map_option (\<lambda>(m, r). msg_sender m) (conn_dec t u)"

lemma conn_apply_sender:
  "conn_dec t u = Some (m, r) \<Longrightarrow> t \<noteq> t_connRequest \<Longrightarrow> cp_peerId_m (conn_apply m c) = msg_sender m"
  by (auto simp: conn_dec_def Let_def split: if_splits)

text \<open>The packet names a connection that the map knows; all of those are still null.\<close>

definition names_pending :: "t_IncomingMessage \<Rightarrow> dtcp_node \<Rightarrow> bool" where
  "names_pending request nd = (case sender_of (dp_packetType_m (im_packet request)) (unread (nd_buffer nd (im_dataBuffer request))) of
       None \<Rightarrow> False | Some i \<Rightarrow> peerIndex_m (nd_connectionMap nd) i \<noteq> None)"

definition safe_or_pending :: "DtcpSendQueue \<Rightarrow> DtcpPendingAckMap \<Rightarrow> ulong set \<Rightarrow> rec_ptr list \<Rightarrow> rec_ptr list \<Rightarrow> bool \<Rightarrow>
    (bool \<times> dtcp_node) option \<Rightarrow> bool" where
  "safe_or_pending q m D h b pending res \<longleftrightarrow>
     (if pending then res = None else \<exists>st nd'. res = Some (st, nd') \<and> node_ok q m D nd' h b)"

lemma deref_null [simp]: "deref None nd = None"
  by (simp add: deref_def)

text \<open>The four handlers that look a connection up follow the null pointer of a pending one.\<close>

lemma located:
  assumes "node_ok q m D nd h b" "dp_packetType_m (im_packet request) \<noteq> t_connRequest"
  obtains nd' where "node_ok q m D nd' h b" "quiet nd nd'"
    "names_pending request nd \<Longrightarrow> \<exists>c. read_conn env request nd = Some (Some c, nd') \<and>
       locate_peer (cp_peerId_m c) (nd_connectionMap nd') = (True, Some None)"
    "\<not> names_pending request nd \<Longrightarrow> read_conn env request nd = Some (None, nd') \<or>
       (\<exists>c. read_conn env request nd = Some (Some c, nd') \<and>
          locate_peer (cp_peerId_m c) (nd_connectionMap nd') = (False, None))"
proof (rule read_conn_cases [OF node_ok_base [OF assms(1)], of env request])
  let ?dec = "conn_dec (dp_packetType_m (im_packet request)) (unread (nd_buffer nd (im_dataBuffer request)))"
  fix nd' assume r: "read_conn env request nd = Some (map_option (\<lambda>(m, r). conn_apply m (blank_conn env request)) ?dec, nd')"
    and q: "quiet nd nd'" and b: "node_base nd' h b"
  have ok: "node_ok q m D nd' h b" using node_ok_quiet [OF assms(1) q b] .
  have map: "nd_connectionMap nd' = nd_connectionMap nd" using q by (simp add: quiet_def)
  have null: "\<And>i c. peerIndex_m (nd_connectionMap nd) i = Some c \<Longrightarrow> c = None" using assms(1) by (simp add: node_ok_def)
  show ?thesis
  proof (rule that [OF ok q])
    assume p: "names_pending request nd"
    then obtain m' r' where d: "?dec = Some (m', r')" by (auto simp: names_pending_def sender_of_def split: option.splits)
    with p r null show "\<exists>c. read_conn env request nd = Some (Some c, nd') \<and>
       locate_peer (cp_peerId_m c) (nd_connectionMap nd') = (True, Some None)"
      using conn_apply_sender [OF d assms(2)] by (auto simp: names_pending_def sender_of_def map locate_peer_def)
  next
    assume p: "\<not> names_pending request nd"
    then show "read_conn env request nd = Some (None, nd') \<or> (\<exists>c. read_conn env request nd = Some (Some c, nd') \<and>
          locate_peer (cp_peerId_m c) (nd_connectionMap nd') = (False, None))"
      using r conn_apply_sender [OF _ assms(2)]
      by (cases ?dec) (auto simp: names_pending_def sender_of_def map locate_peer_def)
  qed
qed

lemma lookup_handlers:
  assumes "node_ok q m D nd h b" "dp_packetType_m (im_packet request) \<noteq> t_connRequest"
  shows "safe_or_pending q m D h b (names_pending request nd) (handleConnDataPacket env request nd)"
    and "safe_or_pending q m D h b (names_pending request nd) (handleConnReliableDataPacket env request nd)"
    and "safe_or_pending q m D h b (names_pending request nd) (handleConnDataAckPacket env request nd)"
    and "safe_or_pending q m D h b (names_pending request nd) (handleConnAcceptPacket env request nd)"
proof -
  have ack: "getPendingAckRecord (im_id request) nd = None" using assms(1) by (simp add: node_ok_def getPendingAckRecord_def)
  note defs = safe_or_pending_def handleConnDataPacket_def handleConnReliableDataPacket_def handleConnDataAckPacket_def
    handleConnAcceptPacket_def checkAcceptAckRetry_def ack ct_processPacket_def sendAck_def
  show "safe_or_pending q m D h b (names_pending request nd) (handleConnDataPacket env request nd)"
    by (rule located [OF assms, of env], cases "names_pending request nd") (auto simp: defs)
  show "safe_or_pending q m D h b (names_pending request nd) (handleConnReliableDataPacket env request nd)"
    by (rule located [OF assms, of env], cases "names_pending request nd") (auto simp: defs)
  show "safe_or_pending q m D h b (names_pending request nd) (handleConnDataAckPacket env request nd)"
    by (rule located [OF assms, of env], cases "names_pending request nd") (auto simp: defs)
  show "safe_or_pending q m D h b (names_pending request nd) (handleConnAcceptPacket env request nd)"
    by (rule located [OF assms, of env], cases "names_pending request nd") (auto simp: defs)
qed


lemma createConnection_null:
  assumes "createConnection now ip port m = (ok, i, m')" "\<forall>j c. peerIndex_m m j = Some c \<longrightarrow> c = None"
  shows "\<forall>j c. peerIndex_m m' j = Some c \<longrightarrow> c = None" "ok \<longleftrightarrow> i \<noteq> None"
    "dom (peerIndex_m m) \<subseteq> dom (peerIndex_m m')"
  using assms by (auto simp: createConnection_def Let_def map_insert_def split: if_splits option.splits)

lemma create_ok:
  assumes "node_ok q m D nd h b" "createConnection now ip port (nd_connectionMap nd) = (ok, i, m')"
  shows "node_ok q m D (nd\<lparr>nd_connectionMap := m'\<rparr>) h b" "ok \<longleftrightarrow> i \<noteq> None"
proof -
  have "\<forall>j c. peerIndex_m (nd_connectionMap nd) j = Some c \<longrightarrow> c = None" using assms(1) by (simp add: node_ok_def)
  note n = createConnection_null [OF assms(2) this]
  have "D \<subseteq> dom (peerIndex_m (nd_connectionMap nd))" using assms(1) by (simp add: node_ok_def)
  then have "D \<subseteq> dom (peerIndex_m m')" using n(3) by (rule order_trans)
  with assms(1) n show "node_ok q m D (nd\<lparr>nd_connectionMap := m'\<rparr>) h b" "ok \<longleftrightarrow> i \<noteq> None"
    by (simp_all add: node_ok_def node_base_def nd_table_def nd_buffer_def)
qed

lemma index_update_ok [simp]:
  "node_ok q m D (nd\<lparr>nd_pendingAcceptIndex := x\<rparr>) h b = node_ok q m D nd h b"
  "node_ok q m D (nd\<lparr>nd_connRequestIndex := y\<rparr>) h b = node_ok q m D nd h b"
  "node_ok q m D (put_conn p c nd) h b = node_ok q m D nd h b"
  by (simp_all add: node_ok_def node_base_def put_conn_def nd_table_def nd_buffer_def)

lemma accept_entry_ok:
  assumes "node_ok q m D nd h b" "createConnectionAcceptEntry env c ip port nd = (ok, c', nd')"
  shows "node_ok q m D nd' h b"
proof -
  obtain st i m' where cc: "createConnection (me_now env) ip (uint port) (nd_connectionMap nd) = (st, i, m')" by (metis prod_cases3)
  show ?thesis using assms(2) cc create_ok [OF assms(1) cc]
    by (cases st; cases i) (auto simp: createConnectionAcceptEntry_def)
qed

lemma handleConnRequest_ok:
  assumes "node_ok q m D nd h b"
  shows "\<exists>st nd'. handleConnRequestPacket env request nd = Some (st, nd') \<and> node_ok q m D nd' h b"
proof (rule read_conn_cases [OF node_ok_base [OF assms], of env request])
  fix nd1 assume r: "read_conn env request nd = Some (map_option (\<lambda>(m, r). conn_apply m (blank_conn env request))
      (conn_dec (dp_packetType_m (im_packet request)) (unread (nd_buffer nd (im_dataBuffer request)))), nd1)"
    and "quiet nd nd1" "node_base nd1 h b"
  then have ok1: "node_ok q m D nd1 h b" using node_ok_quiet assms by blast
  obtain pk where pk: "read_conn env request nd = Some (pk, nd1)" using r by blast
  have offer: "\<exists>st nd'. (let (ok, c1, nd2) = createConnectionAcceptEntry env c ip port nd1
      in if \<not> ok then Some (False, nd2) else sendConnectionOffer env c1 nd2) = Some (st, nd') \<and> node_ok q m D nd' h b" for c ip port
  proof -
    obtain ok c1 nd2 where ce: "createConnectionAcceptEntry env c ip port nd1 = (ok, c1, nd2)" by (metis prod_cases3)
    then have ok2: "node_ok q m D nd2 h b" using accept_entry_ok ok1 by blast
    obtain nd3 where "sendConnectionOffer env c1 nd2 = Some (False, nd3)" "quiet nd2 nd3" "node_base nd3 h b"
      unfolding sendConnectionOffer_def Let_def by (rule send_reliable_fails [OF node_ok_base [OF ok2]])
    with ok2 ce show ?thesis using node_ok_quiet by auto
  qed
  show ?thesis
    using assms ok1 pk offer by (cases pk) (auto simp: handleConnRequestPacket_def)
qed

definition owns :: "node_env \<Rightarrow> rec_ptr \<Rightarrow> dtcp_node \<Rightarrow> bool" where
  "owns env r nd \<longleftrightarrow> nd_active nd \<and> (case map_of (activeThreadIndex_m (nd_table nd)) (me_thread env) of
       None \<Rightarrow> False | Some k \<Rightarrow> vec_at (recordPool_m (nd_table nd)) k = Some r)"

lemma set_table_same [simp]: "set_table (nd_table nd) nd = nd"
  by (simp add: set_table_def nd_table_def)

lemma put_buffer_frame [simp]:
  "nd_active (put_buffer x db nd) = nd_active nd" "nd_muxInitialized (put_buffer x db nd) = nd_muxInitialized nd"
  "owns env r (put_buffer x db nd) = owns env r nd" "nd_connectionMap (put_buffer x db nd) = nd_connectionMap nd"
  by (simp_all add: owns_def cong: option.case_cong) (simp_all add: put_buffer_def)

lemma getDataBuffer_owns: "owns env r nd \<Longrightarrow> getDataBuffer env nd = Some (Some r, nd)"
  by (auto simp: owns_def getDataBuffer_def locateRecord_def find_record_def split: option.splits)

definition lookup_types :: "dtcp_type set" where
  "lookup_types = {t_connAccept, t_connData, t_connReliableData, t_connDataAck}"

lemma mux_processPacket_ok:
  assumes "node_ok q m D nd h b" "owns env r nd" "nd_muxInitialized nd"
  shows "safe_or_pending q m D h b (dp_packetType_m p \<in> lookup_types \<and>
      (case sender_of (dp_packetType_m p) (unread (nd_buffer nd r)) of None \<Rightarrow> False
       | Some i \<Rightarrow> peerIndex_m (nd_connectionMap nd) i \<noteq> None)) (mux_processPacket env p nd)"
proof -
  obtain ip port where l: "(case dp_getPeerLocation p of None \<Rightarrow> me_garbage env | Some l \<Rightarrow> l) = (ip, port)" by (metis surj_pair)
  let ?rq = "\<lparr>im_dataBuffer = r, im_packet = p, im_ipAddress = ip, im_port = port, im_id = ipPortToNetId ip port\<rparr>"
  have ack: "getPendingAckRecord i nd = None" for i using assms(1) by (simp add: node_ok_def getPendingAckRecord_def)
  have step: "mux_processPacket env p nd = (case dp_packetType_m p of
          t_connRequest \<Rightarrow> handleConnRequestPacket env ?rq nd
        | t_connOffer \<Rightarrow> handleConnOfferPacket env ?rq nd
        | t_connAccept \<Rightarrow> handleConnAcceptPacket env ?rq nd
        | t_connData \<Rightarrow> handleConnDataPacket env ?rq nd
        | t_connReliableData \<Rightarrow> handleConnReliableDataPacket env ?rq nd
        | t_connDataAck \<Rightarrow> handleConnDataAckPacket env ?rq nd
        | t_ack \<Rightarrow> Some (handleAckPacket env ?rq nd)
        | t_none \<Rightarrow> Some (False, nd)
        | t_unlisted w \<Rightarrow> Some (False, nd)
        | _ \<Rightarrow> Some (True, nd))"
    using assms(3) getDataBuffer_owns [OF assms(2)] l
    by (simp add: mux_processPacket_def handle_ignored_def split: dtcp_type.splits)
  have np: "names_pending ?rq nd = (case sender_of (dp_packetType_m p) (unread (nd_buffer nd r)) of None \<Rightarrow> False
       | Some i \<Rightarrow> peerIndex_m (nd_connectionMap nd) i \<noteq> None)" by (simp add: names_pending_def)
  have request: "safe_or_pending q m D h b False (handleConnRequestPacket env ?rq nd)"
    using handleConnRequest_ok [OF assms(1), of env ?rq] by (simp add: safe_or_pending_def)
  have plain: "safe_or_pending q m D h b False (Some (st, nd))" for st using assms(1) by (simp add: safe_or_pending_def)
  have "safe_or_pending q m D h b (dp_packetType_m p \<in> lookup_types \<and> names_pending ?rq nd) (mux_processPacket env p nd)"
    using lookup_handlers [OF assms(1), of ?rq env] request plain
    by (cases "dp_packetType_m p")
      (simp_all add: step lookup_types_def handleConnOfferPacket_def handleAckPacket_def ack)
  then show ?thesis unfolding np .
qed

text \<open>The type of a DTCP datagram and the connection it names.\<close>

definition dtcp_parse :: "byte list \<Rightarrow> dtcp_type option" where
  "dtcp_parse u = (if 12 \<le> length u \<and> get_ulong (take 8 u) = magicCookie_s \<and> get_ushort (take 2 (drop 8 u)) = version_s
     then Some (dtcp_of_code (get_ushort (take 2 (drop 10 u)))) else None)"

definition names_connection :: "byte list \<Rightarrow> ulong option" where
  "names_connection u = (case dtcp_parse u of
       None \<Rightarrow> None
     | Some t \<Rightarrow> if t \<in> lookup_types then sender_of t (drop 12 u) else None)"

lemma readData_header:
  assumes "db_inv db"
  shows "readData (DtcpL p NullLink) db = (case dtcp_parse (unread db) of
      None \<Rightarrow> Some (False, DtcpL p NullLink, db)
    | Some t \<Rightarrow> Some (True, DtcpL (p\<lparr>dp_packetType_m := t\<rparr>) NullLink, db_consume 12 db))"
proof (cases "readRemaining_m db = 0")
  case True
  then show ?thesis using length_unread [OF assms] by (simp add: getReadBuffer_def dtcp_parse_def)
next
  case False
  then show ?thesis using length_unread [OF assms]
    by (simp add: getReadBuffer_data dp_read_header_dec [OF assms] dtcp_parse_def Let_def addReadBytes_consume)
qed

lemma processRecord_ok:
  assumes "node_ok q m D nd h b" "owns env r nd" "nd_muxInitialized nd"
  shows "safe_or_pending q m D h b (case names_connection (unread (readReset (nd_buffer nd r))) of None \<Rightarrow> False
     | Some i \<Rightarrow> peerIndex_m (nd_connectionMap nd) i \<noteq> None) (ut_processRecord env r source p0 nd)"
proof -
  let ?db = "readReset (nd_buffer nd r)"
  have inv: "db_inv ?db" using assms(1) by (simp add: node_ok_def node_base_def)
  note read = readData_header [OF inv, of p0]
  show ?thesis
  proof (cases "dtcp_parse (unread ?db)")
    case None
    let ?nd = "put_buffer r ?db nd"
    have ok: "node_ok q m D ?nd h b" using node_ok_quiet [OF assms(1)] inv node_ok_base [OF assms(1)] by simp
    have "node_ok q m D (log_event (HandleRaw d) ?nd) h b" for d
      using ok by (auto simp: log_event_def node_ok_def node_base_def nd_table_def nd_buffer_def)
    moreover have "load (readOffset_m ?db) (readRemaining_m ?db) ?db \<noteq> None" using load_unread_0 [OF inv] by simp
    ultimately show ?thesis using ok read None
      by (auto simp: ut_processRecord_def safe_or_pending_def names_connection_def getReadBuffer_def Let_def simp del: readData.simps)
  next
    case (Some t)
    let ?c = "db_consume 12 ?db" and ?p = "dp_setPeerLocation (fst source) (snd source) (p0\<lparr>dp_packetType_m := t\<rparr>)"
    let ?nd = "put_buffer r ?c nd"
    have "db_inv ?c" using readData_safe [OF inv, of "DtcpL p0 NullLink"] read Some by (simp del: readData.simps)
    then have ok: "node_ok q m D ?nd h b" using node_ok_quiet [OF assms(1)] node_ok_base [OF assms(1)] by simp
    have o: "owns env r ?nd" "nd_muxInitialized ?nd" using assms(2,3) by simp_all
    have "ut_processRecord env r source p0 nd = mux_processPacket env ?p ?nd"
      using read Some by (simp add: ut_processRecord_def del: readData.simps)
    then show ?thesis using mux_processPacket_ok [OF ok o, of ?p] Some
      by (cases "t \<in> lookup_types") (simp_all add: names_connection_def dp_setPeerLocation_def cong: option.case_cong)
  qed
qed


lemma requestTransport_ok:
  assumes "node_ok q m D nd h b" "deref (Some p) nd \<noteq> None"
  shows "\<exists>nd'. requestTransport env requestor p nd = Some (False, nd') \<and> node_ok q m D nd' h b"
proof -
  obtain t where t: "hp_conns (sq_heap (nd_env nd)) p = Some t" using assms(2) by (cases "hp_conns (sq_heap (nd_env nd)) p") (auto simp: deref_def)
  obtain ip port where l: "ct_location env t = (ip, port)" by (metis surj_pair)
  obtain st i m' where cc: "createConnection (me_now env) ip (uint port) (nd_connectionMap nd) = (st, i, m')" by (metis prod_cases3)
  note n = create_ok [OF assms(1) cc]
  note ok1 = n(1)
  show ?thesis
  proof (cases i)
    case None
    with n(2) cc t l ok1 assms(1) show ?thesis
      by (cases "nd_muxInitialized nd") (auto simp: requestTransport_def createConnectionRequestEntry_def deref_def)
  next
    case (Some peerId)
    let ?nd = "(put_conn p (t\<lparr>ct_peerId_m := peerId\<rparr>) (nd\<lparr>nd_connectionMap := m'\<rparr>))"
    let ?nd2 = "?nd\<lparr>nd_connRequestIndex := map_insert peerId
           \<lparr>crr_requestor = requestor, crr_transport = p, crr_tempPeerId = peerId\<rparr> (nd_connRequestIndex ?nd)\<rparr>"
    have ok2: "node_ok q m D ?nd2 h b" using ok1 by simp
    have entry: "createConnectionRequestEntry env requestor p nd = Some (True, ?nd2)"
      using n(2) cc t l Some by (simp add: createConnectionRequestEntry_def deref_def Let_def)
    have "\<exists>nd3. sendConnectionRequest env (Some p) ?nd2 = Some (False, nd3) \<and> node_ok q m D nd3 h b"
    proof -
      let ?t = "t\<lparr>ct_peerId_m := peerId\<rparr>"
      have d: "deref (Some p) ?nd2 = Some (p, ?t)" by (simp add: deref_def put_conn_def)
      obtain nd3 where s: "send_reliable env ((new_conn_packet env (ct_location env ?t) t_connRequest)\<lparr>cp_peerId_m := ct_peerId_m ?t\<rparr>)
          (ct_location env ?t) t_connRequest ?nd2 = Some (False, nd3)" "quiet ?nd2 nd3" "node_base nd3 h b"
        by (rule send_reliable_fails [OF node_ok_base [OF ok2]])
      have "node_ok q m D nd3 h b" by (rule node_ok_quiet [OF ok2 s(2,3)])
      with d s(1) show ?thesis by (simp add: sendConnectionRequest_def)
    qed
    with entry assms(1) show ?thesis by (auto simp: requestTransport_def)
  qed
qed

text \<open>One step of the node: the socket fills a record, a worker processes the record it owns, a connector
  asks for a connection, or some thread calls the record table.\<close>

datatype node_call = NdSocket "(byte list \<times> ulong \<times> ushort) option" rec_ptr
  | NdDatagram node_env rec_ptr "ulong \<times> ushort" DtcpPacket
  | NdConnect node_env nat DtcpBaseConnConnector "(nat \<times> DtcpBaseConnTransport) option"
  | NdTable tt_call

type_synonym node_sys = "dtcp_node \<times> rec_ptr list \<times> rec_ptr list"

definition node_step :: "node_call \<Rightarrow> node_sys \<Rightarrow> node_sys option" where
  "node_step a s = (case s of (nd, h, b) \<Rightarrow> (case a of
       NdSocket received r \<Rightarrow> do { (_, nd') \<leftarrow> readSocketData received r nd; Some (nd', h, b) }
     | NdDatagram env r source p0 \<Rightarrow>
         if owns env r nd \<and> nd_muxInitialized nd then do { (_, nd') \<leftarrow> ut_processRecord env r source p0 nd; Some (nd', h, b) }
         else Some s
     | NdConnect env requestor cn created \<Rightarrow> do { (_, nd') \<leftarrow> requestConnection env requestor cn created nd; Some (nd', h, b) }
     | NdTable c \<Rightarrow> do { (t, h', b') \<leftarrow> tt_call c (nd_table nd, h, b); Some (set_table t nd, h', b') }))"

fun node_run :: "node_call list \<Rightarrow> node_sys \<Rightarrow> node_sys option" where
  "node_run [] s = Some s"
| "node_run (a # as) s = Option.bind (node_step a s) (node_run as)"

lemma receive_inv:
  assumes "db_inv db" "getWriteBuffer db = Some (p, n)"
  obtains db1 where "store p (take n bs) db = Some db1" "db_inv (snd (addWriteBytes (length (take n bs)) db1))"
proof -
  have "p + length (take n bs) \<le> length (buffer_m db)"
    using assms by (auto simp: getWriteBuffer_def db_inv_def split: if_splits)
  then show ?thesis using assms(1)
    by (intro that [of "db\<lparr>buffer_m := overwrite p (take n bs) (buffer_m db)\<rparr>"] addWriteBytes_inv)
      (simp_all add: store_def db_inv_def)
qed

lemma readSocketData_ok:
  assumes "node_ok q m D nd h b"
  shows "\<exists>res nd'. readSocketData received r nd = Some (res, nd') \<and> node_ok q m D nd' h b"
proof -
  let ?db = "writeReset (nd_buffer nd r)"
  have inv: "db_inv ?db" using assms by (simp add: node_ok_def node_base_def)
  have put: "node_ok q m D (put_buffer r db nd) h b" if "db_inv db" for db
    using node_ok_quiet [OF assms] node_ok_base [OF assms] that by simp
  show ?thesis
  proof (cases "\<exists>p n bs ip port. nd_active nd \<and> getWriteBuffer ?db = Some (p, n) \<and> received = Some (bs, ip, port)")
    case False
    then show ?thesis using assms put [OF inv] by (auto simp: readSocketData_def Let_def split: option.splits)
  next
    case True
    then obtain p n bs ip port where e: "nd_active nd" "getWriteBuffer ?db = Some (p, n)" "received = Some (bs, ip, port)" by blast
    obtain db1 where "store p (take n bs) ?db = Some db1" "db_inv (snd (addWriteBytes (length (take n bs)) db1))"
      by (rule receive_inv [OF inv e(2)])
    with e put show ?thesis by (simp add: readSocketData_def Let_def case_prod_beta)
  qed
qed

lemma requestConnection_ok:
  assumes "node_ok q m D nd h b"
  shows "\<exists>nd'. requestConnection env requestor cn created nd = Some (False, nd') \<and> node_ok q m D nd' h b"
proof (cases created)
  case (Some pt)
  obtain p t where pt: "pt = (p, t)" by (cases pt)
  let ?t = "t\<lparr>ct_parentTransport_m := True, ct_peerIpAddress_m := cn_destIpAddress_m cn, ct_peerPort_m := word_of_int (cn_destPort_m cn)\<rparr>"
  have "deref (Some p) (put_conn p ?t nd) \<noteq> None" by (simp add: deref_def put_conn_def)
  from requestTransport_ok [OF _ this, of q m D h b env requestor] assms Some pt show ?thesis
    by (simp add: requestConnection_def)
qed (use assms in \<open>simp add: requestConnection_def\<close>)

lemma tt_call_ok:
  assumes "node_ok q m D nd h b"
  shows "\<exists>t h' b'. tt_call c (nd_table nd, h, b) = Some (t, h', b') \<and> node_ok q m D (set_table t nd) h' b'"
proof -
  have "\<exists>t' h' b'. tt_step c (Some (nd_table nd, h, b)) = Some (t', h', b') \<and> tt_inv t' h' b'"
    using assms by (intro tt.step_inv) (simp add: node_ok_def node_base_def)
  then show ?thesis using assms by (auto simp: tt_step_def node_ok_def node_base_def set_table_def nd_table_def nd_buffer_def)
qed

text \<open>A call faults exactly when it processes a datagram that names a connection of the map.\<close>

fun hits_pending :: "node_call \<Rightarrow> dtcp_node \<Rightarrow> bool" where
  "hits_pending (NdDatagram env r source p0) nd =
     (owns env r nd \<and> nd_muxInitialized nd \<and>
      (case names_connection (getData (nd_buffer nd r)) of None \<Rightarrow> False
       | Some i \<Rightarrow> peerIndex_m (nd_connectionMap nd) i \<noteq> None))"
| "hits_pending a nd = False"

lemma unread_datagram [simp]: "unread (readReset db) = getData db"
  by (simp add: unread_def readReset_def getData_def)

lemma node_step_ok:
  assumes "node_ok q m D nd h b"
  shows "if hits_pending a nd then node_step a (nd, h, b) = None
    else \<exists>nd' h' b'. node_step a (nd, h, b) = Some (nd', h', b') \<and> node_ok q m D nd' h' b'"
proof (cases a)
  case (NdSocket received r)
  then show ?thesis using readSocketData_ok [OF assms, of received r] by (auto simp: node_step_def)
next
  case (NdDatagram env r source p0)
  then show ?thesis
    using processRecord_ok [OF assms, of env r source p0] assms
    by (cases "owns env r nd \<and> nd_muxInitialized nd") (auto simp: node_step_def safe_or_pending_def split: if_splits)
next
  case (NdConnect env requestor cn created)
  then show ?thesis using requestConnection_ok [OF assms, of env requestor cn created] by (auto simp: node_step_def)
next
  case (NdTable c)
  then show ?thesis using tt_call_ok [OF assms, of c] by (auto simp: node_step_def)
qed

lemma node_run_ok:
  "node_ok q m D nd h b \<Longrightarrow> node_run as (nd, h, b) = Some (nd', h', b') \<Longrightarrow> node_ok q m D nd' h' b'"
proof (induction as arbitrary: nd h b)
  case (Cons a as)
  from Cons.prems(2) obtain s where s: "node_step a (nd, h, b) = Some s" "node_run as s = Some (nd', h', b')"
    by (auto simp: bind_eq_Some_conv)
  then show ?case using Cons.IH node_step_ok [OF Cons.prems(1), of a] by (auto split: if_splits)
qed simp

lemma createConnection_registers:
  assumes "\<not> exists_address ip port m"
  obtains m' where "createConnection now ip port m = (True, Some (currConnectionId_m m), m')"
    "peerIndex_m m' (currConnectionId_m m) \<noteq> None"
  using assms by (simp add: createConnection_def Let_def map_insert_def split: option.splits)

lemma handleConnRequest_registers:
  assumes "node_ok q m D nd h b" "dp_packetType_m (im_packet request) = t_connRequest"
    "8 \<le> length (unread (nd_buffer nd (im_dataBuffer request)))"
    "\<not> exists_address (im_ipAddress request) (uint (im_port request)) (nd_connectionMap nd)"
    "dp_getPeerLocation (im_packet request) \<noteq> None" "me_accept env (im_ipAddress request) (im_port request)"
  shows "\<exists>nd'. handleConnRequestPacket env request nd = Some (False, nd') \<and>
    node_ok q m (insert (currConnectionId_m (nd_connectionMap nd)) D) nd' h b"
proof (rule read_conn_cases [OF node_ok_base [OF assms(1)], of env request])
  let ?i = "currConnectionId_m (nd_connectionMap nd)"
  fix nd1 assume r: "read_conn env request nd = Some (map_option (\<lambda>(m, r). conn_apply m (blank_conn env request))
      (conn_dec (dp_packetType_m (im_packet request)) (unread (nd_buffer nd (im_dataBuffer request)))), nd1)"
    and qt: "quiet nd nd1" and b1: "node_base nd1 h b"
  have ok1: "node_ok q m D nd1 h b" by (rule node_ok_quiet [OF assms(1) qt b1])
  have map: "nd_connectionMap nd1 = nd_connectionMap nd" using qt by (simp add: quiet_def)
  obtain c where c: "read_conn env request nd = Some (Some c, nd1)"
    using r assms(2,3) by (simp add: conn_dec_def Let_def)
  let ?c = "cp_setPeerLocation (im_ipAddress request) (im_port request) c"
  obtain m' where cc: "createConnection (me_now env) (im_ipAddress request) (uint (im_port request)) (nd_connectionMap nd1) =
      (True, Some ?i, m')" "peerIndex_m m' ?i \<noteq> None"
    by (rule createConnection_registers [OF assms(4)]) (simp add: map)
  let ?nd2 = "nd1\<lparr>nd_connectionMap := m', nd_pendingAcceptIndex := map_insert ?i
      (Some \<lparr>par_myId = cp_myId_m ?c, par_tempPeerId = ?i\<rparr>) (nd_pendingAcceptIndex nd1)\<rparr>"
  have entry: "createConnectionAcceptEntry env ?c (im_ipAddress request) (im_port request) nd1 =
      (True, ?c\<lparr>cp_peerId_m := ?i\<rparr>, ?nd2)" using cc(1) by (simp add: createConnectionAcceptEntry_def)
  have "node_ok q m D ?nd2 h b" by (rule accept_entry_ok [OF ok1 entry])
  with cc(2) have ok2: "node_ok q m (insert ?i D) ?nd2 h b" by (auto simp: node_ok_def node_base_def nd_table_def nd_buffer_def)
  obtain nd3 where s: "sendConnectionOffer env (?c\<lparr>cp_peerId_m := ?i\<rparr>) ?nd2 = Some (False, nd3)" "quiet ?nd2 nd3" "node_base nd3 h b"
    unfolding sendConnectionOffer_def Let_def by (rule send_reliable_fails [OF node_ok_base [OF ok2]])
  have "node_ok q m (insert ?i D) nd3 h b" by (rule node_ok_quiet [OF ok2 s(2,3)])
  moreover have "getPendingAckRecord (im_id request) nd = None" using assms(1) by (simp add: node_ok_def getPendingAckRecord_def)
  ultimately show ?thesis using assms(4,5,6) c entry s(1) by (simp add: handleConnRequestPacket_def)
qed

lemma processRecord_registers:
  assumes "node_ok q m D nd h b" "owns env r nd" "nd_muxInitialized nd"
    "dtcp_parse (getData (nd_buffer nd r)) = Some t_connRequest" "20 \<le> length (getData (nd_buffer nd r))"
    "\<not> exists_address ip (uint port) (nd_connectionMap nd)" "ip \<noteq> 0" "me_accept env ip port"
  shows "\<exists>nd'. ut_processRecord env r (ip, port) p0 nd = Some (False, nd') \<and>
    node_ok q m (insert (currConnectionId_m (nd_connectionMap nd)) D) nd' h b"
proof -
  let ?db = "readReset (nd_buffer nd r)" and ?c = "db_consume 12 (readReset (nd_buffer nd r))"
  let ?p = "dp_setPeerLocation ip port (p0\<lparr>dp_packetType_m := t_connRequest\<rparr>)"
  let ?rq = "\<lparr>im_dataBuffer = r, im_packet = ?p, im_ipAddress = ip, im_port = port, im_id = ipPortToNetId ip port\<rparr>"
  have inv: "db_inv ?db" using assms(1) by (simp add: node_ok_def node_base_def)
  have read: "readData (DtcpL p0 NullLink) ?db = Some (True, DtcpL (p0\<lparr>dp_packetType_m := t_connRequest\<rparr>) NullLink, ?c)"
    using readData_header [OF inv, of p0] assms(4) by simp
  have "db_inv ?c" using readData_safe [OF inv, of "DtcpL p0 NullLink"] read by (simp del: readData.simps)
  then have ok: "node_ok q m D (put_buffer r ?c nd) h b" using node_ok_quiet [OF assms(1)] node_ok_base [OF assms(1)] by simp
  have "ut_processRecord env r (ip, port) p0 nd = handleConnRequestPacket env ?rq (put_buffer r ?c nd)"
    using read assms(3,7) getDataBuffer_owns [of env r "put_buffer r ?c nd"] assms(2)
    by (simp add: ut_processRecord_def mux_processPacket_def dp_getPeerLocation_def dp_setPeerLocation_def del: readData.simps)
  moreover have "\<exists>nd'. handleConnRequestPacket env ?rq (put_buffer r ?c nd) = Some (False, nd') \<and>
      node_ok q m (insert (currConnectionId_m (nd_connectionMap (put_buffer r ?c nd))) D) nd' h b"
    using assms(5-8) by (intro handleConnRequest_registers [OF ok]) (simp_all add: dp_getPeerLocation_def dp_setPeerLocation_def)
  ultimately show ?thesis by simp
qed

section \<open>Properties\<close>

text \<open>A node after \<open>initialize\<close> and \<open>activate\<close>: pools of 25 records and buffers of 5 KB, throttling off.\<close>

definition node_start :: "uint option \<Rightarrow> int option \<Rightarrow> int \<Rightarrow> ulong \<Rightarrow> dtcp_node" where
  "node_start maxConnections maxRetries now time =
     \<lparr>nd_active = True, nd_initialized = True,
      nd_env = \<lparr>sq_table = DtcpThreadTable_new 25 100 10000 maxConnections now,
        sq_heap = \<lparr>hp_buffers = (\<lambda>_. DataBuffer_new 5120), hp_links = Map.empty, hp_conns = Map.empty\<rparr>,
        sq_queue = DtcpSendQueue_new 0, sq_states = DtcpBroadcastStates_new\<rparr>,
      nd_ackMap = DtcpPendingAckMap_new maxRetries, nd_muxInitialized = True, nd_connectionMap = DtcpConnectionMap_new time,
      nd_connRequestIndex = Map.empty, nd_pendingAcceptIndex = Map.empty, nd_pendingTransportIndex = Map.empty,
      nd_pendingAckIndex = Map.empty, nd_currSequenceNum = 0, nd_log = []\<rparr>"

lemma node_start_ok: "node_ok (DtcpSendQueue_new 0) (DtcpPendingAckMap_new mr) {} (node_start mc mr now time) [] []"
  using tt_inv_new [of 25 100 10000 mc now]
  by (simp add: node_ok_def node_base_def node_start_def nd_table_def nd_buffer_def DtcpConnectionMap_new_def db_inv_new)

text \<open>A received datagram is the contents of the buffer it was received into.\<close>

lemma readSocketData_delivers:
  assumes "nd_active nd" "bs \<noteq> []" "length bs \<le> length (buffer_m (nd_buffer nd r))"
  obtains db where "readSocketData (Some (bs, ip, port)) r nd = Some (Some (ip, port), put_buffer r db nd)" "getData db = bs"
    "db_inv db"
proof -
  let ?db = "(writeReset (nd_buffer nd r))\<lparr>buffer_m := overwrite 0 bs (buffer_m (nd_buffer nd r)),
    writeRemaining_m := length (buffer_m (nd_buffer nd r)) - length bs, writeOffset_m := length bs, dataSize_m := length bs\<rparr>"
  have n: "0 < length (buffer_m (nd_buffer nd r))" using assms by (cases bs) auto
  have "readSocketData (Some (bs, ip, port)) r nd = Some (Some (ip, port), put_buffer r ?db nd)"
    using assms n by (simp add: readSocketData_def Let_def getWriteBuffer_def writeReset_def store_def addWriteBytes_def)
  moreover have "getData ?db = bs" using assms(3) by (simp add: getData_def overwrite_def)
  moreover have "db_inv ?db" using assms(3) by (simp add: db_inv_def writeReset_def)
  ultimately show ?thesis by (rule that)
qed

text \<open>A run: a connection request from address 7, port 9 is received into record 24, and thread 1 gets it.\<close>

definition demo_node_env :: node_env where
  "demo_node_env = \<lparr>me_draw = (\<lambda>_ x _. x), me_now = 0, me_thread = 1,
     me_raw = \<lparr>cp_peerId_m = 0, cp_myId_m = 0, cp_peerIpAddress_m = 0, cp_peerPort_m = 0, cp_prevIpAddress_m = 0,
       cp_prevPort_m = 0, cp_sequenceNum_m = 0, cp_packetType_m = t_connRequest\<rparr>,
     me_garbage = (0, 0), me_accept = (\<lambda>_ _. True), me_newTransport = None, me_receive = (\<lambda>_. True), me_handler = True\<rparr>"

definition demo_node_calls :: "node_call list" where
  "demo_node_calls = [NdTable (TtAllocate 0), NdSocket (Some (dtcp_header t_connRequest @ put_ulong 5, 7, 9)) 24,
     NdTable (TtProcess 0 None 24), NdTable (TtNext 0 1)]"

lemma demo_node_table:
  "\<exists>t1 t2 t3. tt_call (TtAllocate 0) (DtcpThreadTable_new 25 100 10000 None 0, [], []) = Some (t1, [24], []) \<and>
     tt_call (TtProcess 0 None 24) (t1, [24], []) = Some (t2, [], []) \<and>
     tt_call (TtNext 0 1) (t2, [], []) = Some (t3, [], []) \<and> map_of (activeThreadIndex_m t3) 1 = Some 24 \<and>
     vec_at (recordPool_m t3) 24 = Some 24"
  by (simp add: tt_call_def DtcpThreadTable_new_def allocateRecord_def processRecord_def
        enqueue_record_def createThread_def getNextRecord_def touch_def vec_at_def vec_set_def um_emplace_def um_erase_def
        upt_rec Let_def)

lemma set_table_frame [simp]:
  "nd_active (set_table t nd) = nd_active nd" "nd_muxInitialized (set_table t nd) = nd_muxInitialized nd"
  "nd_connectionMap (set_table t nd) = nd_connectionMap nd"
  by (simp_all add: set_table_def)

lemma node_start_simps [simp]:
  "nd_table (node_start mc mr now time) = DtcpThreadTable_new 25 100 10000 mc now" "nd_active (node_start mc mr now time)"
  "nd_buffer (node_start mc mr now time) r = DataBuffer_new 5120" "nd_muxInitialized (node_start mc mr now time)"
  "nd_connectionMap (node_start mc mr now time) = DtcpConnectionMap_new time"
  by (simp_all add: node_start_def nd_table_def nd_buffer_def)

lemma demo_node_run:
  obtains nd where "node_run demo_node_calls (node_start None None 0 100, [], []) = Some (nd, [], [])"
    "owns demo_node_env 24 nd" "nd_muxInitialized nd" "nd_connectionMap nd = DtcpConnectionMap_new 100"
    "getData (nd_buffer nd 24) = dtcp_header t_connRequest @ put_ulong 5"
proof -
  obtain t1 t2 t3 where t: "tt_call (TtAllocate 0) (DtcpThreadTable_new 25 100 10000 None 0, [], []) = Some (t1, [24], [])"
    "tt_call (TtProcess 0 None 24) (t1, [24], []) = Some (t2, [], [])" "tt_call (TtNext 0 1) (t2, [], []) = Some (t3, [], [])"
    "map_of (activeThreadIndex_m t3) 1 = Some 24" "vec_at (recordPool_m t3) 24 = Some 24"
    using demo_node_table by blast
  let ?bs = "dtcp_header t_connRequest @ put_ulong 5" and ?nd1 = "set_table t1 (node_start None None 0 100)"
  have room: "length ?bs \<le> length (buffer_m (nd_buffer ?nd1 24))" by (simp add: DataBuffer_new_def)
  have "?bs \<noteq> []" by (simp add: dtcp_header_def flip: length_greater_0_conv)
  then obtain db where db: "readSocketData (Some (?bs, 7, 9)) 24 ?nd1 = Some (Some (7, 9), put_buffer 24 db ?nd1)" "getData db = ?bs"
    using readSocketData_delivers [OF _ _ room] by (metis node_start_simps(2) set_table_frame(1))
  show ?thesis
  proof (rule that)
    show "node_run demo_node_calls (node_start None None 0 100, [], []) =
        Some (set_table t3 (set_table t2 (put_buffer 24 db ?nd1)), [], [])"
      using t(1-3) db(1) by (simp add: demo_node_calls_def node_step_def)
  qed (use t(4,5) db(2) in \<open>simp_all add: owns_def demo_node_env_def\<close>)
qed

text \<open>No connection is ever established. After any interleaving of received datagrams, connection
  requests and work of other threads, nothing was queued for sending, no transfer awaits an
  acknowledgement, no handshake message is pending, every connection in the map is still the null
  pointer, and neither a connector nor an acceptor nor a data handler has been called; every further
  connection request reports failure.\<close>

lemma handshake_never_completes:
  assumes "node_run as (node_start mc mr now time, [], []) = Some (nd, h, b)"
  shows "sq_queue (nd_env nd) = DtcpSendQueue_new 0 \<and> nd_ackMap nd = DtcpPendingAckMap_new mr \<and>
    nd_pendingAckIndex nd = Map.empty \<and> nd_pendingTransportIndex nd = Map.empty \<and>
    (\<forall>i c. peerIndex_m (nd_connectionMap nd) i = Some c \<longrightarrow> c = None) \<and> (\<forall>x\<in>set (nd_log nd). \<exists>d. x = HandleRaw d) \<and>
    (\<forall>env requestor cn created. \<exists>nd'. requestConnection env requestor cn created nd = Some (False, nd'))"
proof -
  have ok: "node_ok (DtcpSendQueue_new 0) (DtcpPendingAckMap_new mr) {} nd h b"
    by (rule node_run_ok [OF node_start_ok assms])
  with requestConnection_ok [OF ok] show ?thesis by (simp add: node_ok_def) blast
qed

lemma handshake_never_completes_witness:
  "\<exists>nd. node_run demo_node_calls (node_start None None 0 100, [], []) = Some (nd, [], []) \<and>
     nd_pendingAckIndex nd = Map.empty \<and> sq_queue (nd_env nd) = DtcpSendQueue_new 0 \<and>
     (\<exists>nd'. requestConnection demo_node_env 3 \<lparr>cn_destIpAddress_m = 7, cn_destPort_m = 9\<rparr>
        (Some (5, DtcpBaseConnTransport_new 1)) nd = Some (False, nd'))"
proof (rule demo_node_run)
  fix nd assume "node_run demo_node_calls (node_start None None 0 100, [], []) = Some (nd, [], [])"
  with handshake_never_completes [OF this] show ?thesis by blast
qed

text \<open>C11: what brings a node down. In every reached state a call returns, with all its buffers and
  pools intact, unless it processes a data, reliable data, data acknowledgement or accept datagram that
  names a connection of the map: then the multiplexor follows the null pointer of that connection.\<close>

theorem mux_faults_iff:
  assumes "node_run as (node_start mc mr now time, [], []) = Some (nd, h, b)"
  shows "node_step a (nd, h, b) = None \<longleftrightarrow> hits_pending a nd"
  using node_step_ok [OF node_run_ok [OF node_start_ok assms], of a] by (auto split: if_splits)

theorem mux_faults_iff_witness:
  "\<exists>nd. node_run demo_node_calls (node_start None None 0 100, [], []) = Some (nd, [], []) \<and>
     node_step (NdDatagram demo_node_env 24 (7, 9) DtcpPacket_new) (nd, [], []) \<noteq> None"
proof (rule demo_node_run)
  fix nd assume r: "node_run demo_node_calls (node_start None None 0 100, [], []) = Some (nd, [], [])"
    "nd_connectionMap nd = DtcpConnectionMap_new 100"
  then have "\<not> hits_pending (NdDatagram demo_node_env 24 (7, 9) DtcpPacket_new) nd"
    by (simp add: DtcpConnectionMap_new_def split: option.splits)
  with mux_faults_iff [OF r(1)] r(1) show ?thesis by blast
qed

text \<open>A connection request from an address that is let in poisons the node. The offer cannot be sent
  and the request is reported as failed, but the connection identifier that was reserved for it stays in
  the map as a null pointer: after any further calls, a data, reliable data, data acknowledgement or
  accept datagram that names this identifier makes the node follow it.\<close>

lemma mux_request_poisons:
  assumes "node_run as (node_start mc mr now time, [], []) = Some (nd, h, b)"
    and "owns env r nd" and "nd_muxInitialized nd" and "dtcp_parse (getData (nd_buffer nd r)) = Some t_connRequest"
    and "20 \<le> length (getData (nd_buffer nd r))" and "\<not> exists_address ip (uint port) (nd_connectionMap nd)"
    and "ip \<noteq> 0" and "me_accept env ip port"
  shows "\<exists>nd1. ut_processRecord env r (ip, port) p0 nd = Some (False, nd1) \<and>
    (\<forall>as' nd2 h2 b2 env' r' src' p'. node_run as' (nd1, h, b) = Some (nd2, h2, b2) \<and> owns env' r' nd2 \<and> nd_muxInitialized nd2 \<and>
       names_connection (getData (nd_buffer nd2 r')) = Some (currConnectionId_m (nd_connectionMap nd)) \<longrightarrow>
       node_step (NdDatagram env' r' src' p') (nd2, h2, b2) = None)"
proof -
  let ?i = "currConnectionId_m (nd_connectionMap nd)" and ?q = "DtcpSendQueue_new 0" and ?m = "DtcpPendingAckMap_new mr"
  have "node_ok ?q ?m {} nd h b" by (rule node_run_ok [OF node_start_ok assms(1)])
  from processRecord_registers [OF this assms(2-8), of p0] obtain nd1
    where nd1: "ut_processRecord env r (ip, port) p0 nd = Some (False, nd1)" "node_ok ?q ?m {?i} nd1 h b" by blast
  have "node_step (NdDatagram env' r' src' p') (nd2, h2, b2) = None"
    if run: "node_run as' (nd1, h, b) = Some (nd2, h2, b2)" and o: "owns env' r' nd2" "nd_muxInitialized nd2"
      and n: "names_connection (getData (nd_buffer nd2 r')) = Some ?i" for as' nd2 h2 b2 env' r' src' p'
  proof -
    have ok2: "node_ok ?q ?m {?i} nd2 h2 b2" by (rule node_run_ok [OF nd1(2) run])
    then have "peerIndex_m (nd_connectionMap nd2) ?i \<noteq> None" by (auto simp: node_ok_def)
    with o n have "hits_pending (NdDatagram env' r' src' p') nd2" by simp
    with node_step_ok [OF ok2, of "NdDatagram env' r' src' p'"] show ?thesis by simp
  qed
  with nd1(1) show ?thesis by blast
qed

lemma mux_request_poisons_witness:
  "\<exists>nd nd1. node_run demo_node_calls (node_start None None 0 100, [], []) = Some (nd, [], []) \<and>
     ut_processRecord demo_node_env 24 (7, 9) DtcpPacket_new nd = Some (False, nd1)"
proof (rule demo_node_run)
  fix nd assume r: "node_run demo_node_calls (node_start None None 0 100, [], []) = Some (nd, [], [])"
    "owns demo_node_env 24 nd" "nd_muxInitialized nd" "nd_connectionMap nd = DtcpConnectionMap_new 100"
    "getData (nd_buffer nd 24) = dtcp_header t_connRequest @ put_ulong 5"
  have parse: "dtcp_parse (getData (nd_buffer nd 24)) = Some t_connRequest"
    by (simp add: r(5) dtcp_parse_def dtcp_header_def dtcp_of_code_def dtcp_listed_def)
  have new: "\<not> exists_address 7 (uint (9 :: ushort)) (nd_connectionMap nd)"
    by (simp add: r(4) exists_address_def DtcpConnectionMap_new_def)
  show ?thesis using mux_request_poisons [OF r(1-3) parse _ new, of DtcpPacket_new] r(1,5) by (auto simp: demo_node_env_def)
qed

end
