(* ===== verification/AlpineTypes.thy ===== *)
theory AlpineTypes
  imports DataBuffer
begin

text \<open>
  What the packet classes of protocols/Alpine share: the packet types of AlpinePacket.h, the interface
  of protocol extensions (AlpineBaseOptionData and AlpineExtensionIndex, whose classes are pure virtual
  and implemented by modules loaded at run time, so they are a record of functions that the packet
  operations take as an argument), the virtual call of a parent link, and the helpers for null
  terminated strings in a buffer.
\<close>

section \<open>Packet types\<close>

datatype alpine_type = a_none | queryDiscover | queryOffer | queryRequest | queryReply
  | peerListRequest | peerListOffer | peerListGet | peerListData | proxyRequest | proxyAccepted
  | proxyHalt | versionHandshake | versionAccept | queryCancellation | a_unlisted ushort

primrec alpine_code :: "alpine_type \<Rightarrow> ushort" where
  "alpine_code a_none = 0"
| "alpine_code queryDiscover = 1"
| "alpine_code queryOffer = 2"
| "alpine_code queryRequest = 3"
| "alpine_code queryReply = 4"
| "alpine_code peerListRequest = 5"
| "alpine_code peerListOffer = 6"
| "alpine_code peerListGet = 7"
| "alpine_code peerListData = 8"
| "alpine_code proxyRequest = 9"
| "alpine_code proxyAccepted = 10"
| "alpine_code proxyHalt = 11"
| "alpine_code versionHandshake = 12"
| "alpine_code versionAccept = 13"
| "alpine_code queryCancellation = 14"
| "alpine_code (a_unlisted w) = w"

definition alpine_listed :: "alpine_type list" where
  "alpine_listed = [a_none, queryDiscover, queryOffer, queryRequest, queryReply, peerListRequest,
     peerListOffer, peerListGet, peerListData, proxyRequest, proxyAccepted, proxyHalt,
     versionHandshake, versionAccept, queryCancellation]"

definition alpine_of_code :: "ushort \<Rightarrow> alpine_type" where
  "alpine_of_code w =
     (case find (\<lambda>t. alpine_code t = w) alpine_listed of Some t \<Rightarrow> t | None \<Rightarrow> a_unlisted w)"

fun alpine_typeAsString :: "alpine_type \<Rightarrow> string option" where
  "alpine_typeAsString a_none = Some ''no type set''"
| "alpine_typeAsString queryDiscover = Some ''query discover''"
| "alpine_typeAsString queryOffer = Some ''query offer''"
| "alpine_typeAsString queryRequest = Some ''query request''"
| "alpine_typeAsString queryReply = Some ''query reply''"
| "alpine_typeAsString peerListRequest = Some ''peer list request''"
| "alpine_typeAsString peerListOffer = Some ''peer list offer''"
| "alpine_typeAsString peerListGet = Some ''peer list get''"
| "alpine_typeAsString peerListData = Some ''peer list data''"
| "alpine_typeAsString proxyRequest = Some ''proxy request''"
| "alpine_typeAsString proxyAccepted = Some ''proxy accepted''"
| "alpine_typeAsString proxyHalt = Some ''proxy halt/denied''"
| "alpine_typeAsString versionHandshake = Some ''version handshake''"
| "alpine_typeAsString versionAccept = Some ''version accept''"
| "alpine_typeAsString queryCancellation = Some ''query cancellation''"
| "alpine_typeAsString (a_unlisted _) = None"

lemma alpine_code_of_code [simp]: "alpine_code (alpine_of_code w) = w"
proof (cases "find (\<lambda>t. alpine_code t = w) alpine_listed")
  case None
  then show ?thesis by (simp add: alpine_of_code_def)
next
  case (Some t)
  then have "alpine_code t = w" by (auto simp: find_Some_iff)
  with Some show ?thesis by (simp add: alpine_of_code_def)
qed

lemma alpine_of_code_code: "t \<in> set alpine_listed \<Longrightarrow> alpine_of_code (alpine_code t) = t"
  by (auto simp: alpine_listed_def alpine_of_code_def)

section \<open>Protocol extensions\<close>

text \<open>\<open>opt_ext\<close> is \<open>AlpineExtensionIndex::get...OptionExt\<close>: a new option object for a registered
  identifier. The virtual calls may fault (\<open>None\<close>).\<close>

record 'o option_api =
  opt_id :: "'o \<Rightarrow> ulong"
  opt_len :: "'o \<Rightarrow> nat"
  opt_write :: "'o \<Rightarrow> DataBuffer \<Rightarrow> (bool \<times> DataBuffer) option"
  opt_read :: "'o \<Rightarrow> DataBuffer \<Rightarrow> (bool \<times> 'o \<times> DataBuffer) option"
  opt_ext :: "ulong \<Rightarrow> 'o option"

text \<open>The parent link of a packet, as its virtual \<open>writeData\<close>; \<open>None\<close> is the null pointer.\<close>

type_synonym parent_write = "(DataBuffer \<Rightarrow> (bool \<times> DataBuffer) option) option"

text \<open>The tail all four packet classes share: with a parent set the result is false either way.\<close>

definition call_parent_write :: "parent_write \<Rightarrow> DataBuffer \<Rightarrow> (bool \<times> DataBuffer) option" where
  "call_parent_write parent db = (case parent of
       Some pw \<Rightarrow> do { (status, db') \<leftarrow> pw db; if \<not> status then Some (False, db') else Some (False, db') }
     | None \<Rightarrow> Some (True, db))"

text \<open>The write of the option object behind a packet, when there is one.\<close>

definition write_option :: "'o option_api \<Rightarrow> ulong \<Rightarrow> 'o option \<Rightarrow> DataBuffer \<Rightarrow> (bool \<times> DataBuffer) option" where
  "write_option api optionId optionData db = (case optionData of
       Some opt \<Rightarrow> if optionId \<noteq> 0 then opt_write api opt db else Some (True, db)
     | None \<Rightarrow> Some (True, db))"

definition option_length :: "'o option_api \<Rightarrow> ulong \<Rightarrow> 'o option \<Rightarrow> nat" where
  "option_length api optionId optionData = (case optionData of
       Some opt \<Rightarrow> if optionId \<noteq> 0 then opt_len api opt else 0
     | None \<Rightarrow> 0)"

text \<open>The read of an option object: its pointer afterwards, and whether the caller goes on.\<close>

definition read_option :: "'o option_api \<Rightarrow> ulong \<Rightarrow> 'o option \<Rightarrow> DataBuffer \<Rightarrow>
    (bool \<times> 'o option \<times> DataBuffer) option" where
  "read_option api optionId optionData db =
     (if optionId = 0 then Some (True, optionData, db)
      else case opt_ext api optionId of
        None \<Rightarrow> Some (False, None, db)
      | Some opt0 \<Rightarrow> do {
          (status, opt, db') \<leftarrow> opt_read api opt0 db;
          Some (status, Some opt, db')
        })"

lemma write_option_none [simp]: "write_option api 0 od db = Some (True, db)" "option_length api 0 od = 0"
  by (simp_all add: write_option_def option_length_def split: option.splits)

lemma read_option_none [simp]: "read_option api 0 od db = Some (True, od, db)"
  by (simp add: read_option_def)

section \<open>Strings in a buffer\<close>

text \<open>\<open>verifyStringData\<close>: a terminator within the first \<open>dataLength\<close> bytes, of which at most
  \<open>MAX_STRING_LEN\<close> are scanned.\<close>

definition MAX_STRING_LEN :: nat where
  "MAX_STRING_LEN = 65536"

fun scan_nul :: "nat \<Rightarrow> nat \<Rightarrow> DataBuffer \<Rightarrow> bool option" where
  "scan_nul p 0 db = Some False"
| "scan_nul p (Suc n) db = do {
     b \<leftarrow> load p 1 db;
     if b = [0] then Some True else scan_nul (p + 1) n db
   }"

definition verifyStringData :: "nat \<Rightarrow> nat \<Rightarrow> DataBuffer \<Rightarrow> bool option" where
  "verifyStringData p dataLength db =
     (if dataLength = 0 then Some False
      else scan_nul p (if dataLength < MAX_STRING_LEN then dataLength else MAX_STRING_LEN) db)"

lemma load_one:
  assumes "db_inv db" "k < readRemaining_m db"
  shows "load (readOffset_m db + k) 1 db = Some [unread db ! k]"
proof -
  have "load (readOffset_m db + k) 1 db = Some (take 1 (drop k (unread db)))"
    using assms by (intro load_unread) auto
  moreover have "k < length (unread db)" using assms by (simp add: length_unread)
  ultimately show ?thesis by (simp add: take_Suc_conv_app_nth Cons_nth_drop_Suc [symmetric])
qed

lemma scan_nul_unread:
  assumes "db_inv db" "k + n \<le> readRemaining_m db"
  shows "scan_nul (readOffset_m db + k) n db = Some (0 \<in> set (take n (drop k (unread db))))"
  using assms
proof (induction n arbitrary: k)
  case 0
  then show ?case by simp
next
  case (Suc n)
  have k: "k < length (unread db)" using Suc.prems by (simp add: length_unread)
  have "drop k (unread db) = unread db ! k # drop (Suc k) (unread db)"
    using k by (simp add: Cons_nth_drop_Suc)
  with Suc.IH [of "Suc k"] Suc.prems load_one [of db k] show ?case
    by (auto simp: add.assoc)
qed

lemma verifyStringData_unread:
  assumes "db_inv db" "k + n \<le> readRemaining_m db"
  shows "verifyStringData (readOffset_m db + k) n db =
    Some (0 \<in> set (take (min n MAX_STRING_LEN) (drop k (unread db))))"
  using assms scan_nul_unread [of db k "min n MAX_STRING_LEN"]
  by (auto simp: verifyStringData_def min_def)

lemma load_cstr_unread:
  assumes "db_inv db" "k \<le> readRemaining_m db" "0 \<in> set (drop k (unread db))"
  shows "load_cstr (readOffset_m db + k) db = Some (c_str (drop k (unread db)))"
proof -
  obtain r where "drop (readOffset_m db) (buffer_m db) = unread db @ r"
    unfolding unread_def by (metis append_take_drop_id)
  then have d: "drop (readOffset_m db + k) (buffer_m db) = drop k (unread db) @ r"
    using assms(1,2) by (simp add: drop_drop [symmetric] add.commute length_unread)
  then have "c_str (drop k (unread db) @ r) = c_str (drop k (unread db))"
    using assms(3) by (simp add: c_str_def takeWhile_append1)
  with d assms(3) show ?thesis by (simp add: load_cstr_def)
qed

text \<open>A verified string is read without leaving the data and is shorter than what is left.\<close>

lemma verified_string:
  assumes "db_inv db" "k + n \<le> readRemaining_m db"
    and "verifyStringData (readOffset_m db + k) n db = Some True"
  shows "load_cstr (readOffset_m db + k) db = Some (c_str (drop k (unread db)))"
    and "length (c_str (drop k (unread db))) < n"
proof -
  let ?u = "drop k (unread db)"
  have z: "0 \<in> set (take (min n MAX_STRING_LEN) ?u)"
    using assms(3) verifyStringData_unread [OF assms(1,2)] by simp
  then have z': "0 \<in> set (take n ?u)" by (meson min.cobounded1 set_take_subset_set_take subsetD)
  then have "0 \<in> set ?u" by (meson in_set_takeD)
  then show "load_cstr (readOffset_m db + k) db = Some (c_str ?u)"
    using assms by (intro load_cstr_unread) auto
  have "c_str (take n ?u @ drop n ?u) = c_str (take n ?u)"
    using z' unfolding c_str_def by (intro takeWhile_append1) auto
  then have "c_str ?u = c_str (take n ?u)" by (simp only: append_take_drop_id)
  then show "length (c_str ?u) < n"
    using length_c_str [OF z'] by simp
qed

text \<open>Stores of a row of strings by \<open>strcpy\<close>, each advancing by its \<open>size() + 1\<close>.\<close>

fun store_strings :: "nat \<Rightarrow> byte list list \<Rightarrow> DataBuffer \<Rightarrow> DataBuffer option" where
  "store_strings p [] db = Some db"
| "store_strings p (s # ss) db = do {
     db1 \<leftarrow> store p (strcpy_bytes s) db;
     store_strings (p + length s + 1) ss db1
   }"

definition strings_size :: "byte list list \<Rightarrow> nat" where
  "strings_size ss = sum_list (map (\<lambda>s. length s + 1) ss)"

definition strings_bytes :: "byte list list \<Rightarrow> byte list" where
  "strings_bytes ss = concat (map strcpy_bytes ss)"

lemma length_strings_bytes: "\<forall>s\<in>set ss. 0 \<notin> set s \<Longrightarrow> length (strings_bytes ss) = strings_size ss"
  by (induction ss) (auto simp: strings_bytes_def strings_size_def strcpy_bytes_def)

lemma length_strcpy [simp]: "0 \<notin> set s \<Longrightarrow> length (strcpy_bytes s) = Suc (length s)"
  by (simp add: strcpy_bytes_def)

lemma store_nil: "p \<le> length (buffer_m db) \<Longrightarrow> store p [] db = Some db"
  by (simp add: store_def overwrite_def)

lemma store_strings_fuse:
  assumes "\<forall>s\<in>set ss. 0 \<notin> set s" and "p' = p + length a"
  shows "store p a db \<bind> (\<lambda>d. store_strings p' ss d \<bind> k) = store p (a @ strings_bytes ss) db \<bind> k"
  using assms
proof (induction ss arbitrary: a p')
  case Nil
  then show ?case by (simp add: strings_bytes_def)
next
  case (Cons s ss)
  have "store p a db \<bind> (\<lambda>d. store_strings p' (s # ss) d \<bind> k) =
      store p (a @ strcpy_bytes s) db \<bind> (\<lambda>d. store_strings (p' + length s + 1) ss d \<bind> k)"
    using Cons.prems by (simp add: store_fuse)
  also have "\<dots> = store p ((a @ strcpy_bytes s) @ strings_bytes ss) db \<bind> k"
    using Cons.prems by (intro Cons.IH) (auto simp: strcpy_bytes_def)
  finally show ?case by (simp add: strings_bytes_def)
qed

text \<open>A string in the unread data is verified and read.\<close>

lemma string_at:
  assumes "db_inv db" "drop k (unread db) = s @ 0 # rest" "0 \<notin> set s" "length s < MAX_STRING_LEN"
  shows "verifyStringData (readOffset_m db + k) (readRemaining_m db - k) db = Some True"
    and "load_cstr (readOffset_m db + k) db = Some s"
proof -
  have "length (drop k (unread db)) > 0" unfolding assms(2) by simp
  then have k: "k < readRemaining_m db" using assms(1) by (simp add: length_unread)
  have len: "readRemaining_m db - k = Suc (length s + length rest)"
    using arg_cong [OF assms(2), of length] assms(1) by (simp add: length_unread)
  have "0 \<in> set (take (min (readRemaining_m db - k) MAX_STRING_LEN) (s @ 0 # rest))"
    unfolding len using assms(4) by (cases "min (Suc (length s + length rest)) MAX_STRING_LEN - length s") auto
  then show "verifyStringData (readOffset_m db + k) (readRemaining_m db - k) db = Some True"
    using verifyStringData_unread [OF assms(1), of k "readRemaining_m db - k"] k by (simp add: assms(2))
  show "load_cstr (readOffset_m db + k) db = Some s"
    using load_cstr_unread [OF assms(1), of k] k assms(3) by (simp add: assms(2))
qed

lemma load_at:
  assumes "db_inv db" "drop k (unread db) = bs @ rest" "length bs = n" "0 < n"
  shows "load (readOffset_m db + k) n db = Some bs"
proof -
  have "length (drop k (unread db)) \<ge> n" unfolding assms(2) using assms(3) by simp
  then have "k + n \<le> readRemaining_m db" using assms(1,4) by (simp add: length_unread)
  from load_unread [OF assms(1) this] show ?thesis by (simp add: assms(2,3))
qed

lemma getReadBuffer_some:
  "0 < readRemaining_m db \<Longrightarrow> getReadBuffer db = Some (readOffset_m db, readRemaining_m db)"
  by (simp add: getReadBuffer_def)

lemma getWriteBuffer_some:
  "0 < writeRemaining_m db \<Longrightarrow> getWriteBuffer db = Some (writeOffset_m db, writeRemaining_m db)"
  by (simp add: getWriteBuffer_def)

lemma db_append_two:
  "db_inv db \<Longrightarrow> length a + length b \<le> writeRemaining_m db \<Longrightarrow>
     db_append b (db_append a db) = db_append (a @ b) db"
  by (auto simp: db_append_def overwrite_overwrite db_inv_def ac_simps)

text \<open>A row of stores at the write cursor followed by its \<open>addWriteBytes\<close> is one append.\<close>

lemma store_advance:
  assumes "db_inv db" "length bs \<le> writeRemaining_m db" "n = length bs"
  shows "store (writeOffset_m db) bs db \<bind> (\<lambda>d. k (snd (addWriteBytes n d))) = k (db_append bs db)"
  using store_then_advance [OF assms(1,2)] assms(3) by simp

end
