(* ===== verification/AlpineQueryPacket.thy ===== *)
theory AlpineQueryPacket
  imports AlpineTypes
begin

text \<open>
  protocols/Alpine/AlpineQueryPacket.cpp with AlpineResourceDesc.cpp: the query discover, offer,
  request and reply messages. The operations take the extension interface \<open>api\<close>, return \<open>None\<close> when an
  access leaves the buffer (or goes through an uninitialised option pointer), and otherwise the status
  the C++ function returns with the packet and the buffer as they are then. Lengths are \<open>nat\<close>;
  strings are the bytes of the \<^verbatim>\<open>std::string\<close>.
\<close>

section \<open>Resource descriptors\<close>

record 'o AlpineResourceDesc =
  rd_matchId_m :: ulong
  rd_size_m :: ulong
  rd_locatorList_m :: "byte list list"
  rd_description_m :: "byte list"
  rd_optionId_m :: ulong
  rd_optionData_m :: "'o option"

definition AlpineResourceDesc_new :: "'o AlpineResourceDesc" where
  "AlpineResourceDesc_new = \<lparr>rd_matchId_m = 0, rd_size_m = 0, rd_locatorList_m = [], rd_description_m = [],
                            rd_optionId_m = 0, rd_optionData_m = None\<rparr>"

definition rd_setOptionId :: "ulong \<Rightarrow> 'o AlpineResourceDesc \<Rightarrow> bool \<times> 'o AlpineResourceDesc" where
  "rd_setOptionId optionId d = (if optionId \<noteq> 0 then (False, d) else (True, d\<lparr>rd_optionId_m := optionId\<rparr>))"

definition rd_setOptionData :: "'o option_api \<Rightarrow> 'o \<Rightarrow> 'o AlpineResourceDesc \<Rightarrow> 'o AlpineResourceDesc" where
  "rd_setOptionData api opt d = d\<lparr>rd_optionId_m := opt_id api opt, rd_optionData_m := Some opt\<rparr>"

definition rd_getOptionData :: "'o AlpineResourceDesc \<Rightarrow> 'o option" where
  "rd_getOptionData d = (if rd_optionId_m d = 0 \<or> rd_optionData_m d = None then None else rd_optionData_m d)"

definition rd_setMatchId :: "ulong \<Rightarrow> 'o AlpineResourceDesc \<Rightarrow> 'o AlpineResourceDesc" where
  "rd_setMatchId matchId d = d\<lparr>rd_matchId_m := matchId\<rparr>"

definition rd_setSize :: "ulong \<Rightarrow> 'o AlpineResourceDesc \<Rightarrow> 'o AlpineResourceDesc" where
  "rd_setSize sz d = d\<lparr>rd_size_m := sz\<rparr>"

definition rd_setLocatorList :: "byte list list \<Rightarrow> 'o AlpineResourceDesc \<Rightarrow> 'o AlpineResourceDesc" where
  "rd_setLocatorList locatorList d = d\<lparr>rd_locatorList_m := locatorList\<rparr>"

definition rd_setDescription :: "byte list \<Rightarrow> 'o AlpineResourceDesc \<Rightarrow> 'o AlpineResourceDesc" where
  "rd_setDescription description d = d\<lparr>rd_description_m := description\<rparr>"

section \<open>The packet and its accessors\<close>

record 'o AlpineQueryPacket =
  q_packetType_m :: alpine_type
  q_queryId_m :: ulong
  q_optionId_m :: ulong
  q_optionData_m :: "'o option"
  q_queryString_m :: "byte list"
  q_numHits_m :: ulong
  q_uploadSlots_m :: ushort
  q_offset_m :: ulong
  q_replySetSize_m :: ushort
  q_priority_m :: byte
  q_traceContext_m :: "byte list"
  q_resourceList_m :: "'o AlpineResourceDesc list option"

definition AlpineQueryPacket_new :: "'o AlpineQueryPacket" where
  "AlpineQueryPacket_new = \<lparr>q_packetType_m = a_none, q_queryId_m = 0, q_optionId_m = 0,
     q_optionData_m = None, q_queryString_m = [], q_numHits_m = 0, q_uploadSlots_m = 0, q_offset_m = 0,
     q_replySetSize_m = 0, q_priority_m = 128, q_traceContext_m = [], q_resourceList_m = None\<rparr>"

definition q_setPacketType :: "alpine_type \<Rightarrow> 'o AlpineQueryPacket \<Rightarrow> bool \<times> 'o AlpineQueryPacket" where
  "q_setPacketType t q =
     (if t \<noteq> queryDiscover \<and> t \<noteq> queryOffer \<and> t \<noteq> queryRequest \<and> t \<noteq> queryReply then (False, q)
      else (True, q\<lparr>q_packetType_m := t\<rparr>))"

definition q_setQueryId :: "ulong \<Rightarrow> 'o AlpineQueryPacket \<Rightarrow> bool \<times> 'o AlpineQueryPacket" where
  "q_setQueryId queryId q = (True, q\<lparr>q_queryId_m := queryId\<rparr>)"

text \<open>The getter stores its reference argument into the packet; the argument is not written.\<close>

definition q_getQueryId :: "ulong \<Rightarrow> 'o AlpineQueryPacket \<Rightarrow> bool \<times> ulong \<times> 'o AlpineQueryPacket" where
  "q_getQueryId queryId q = (True, queryId, q\<lparr>q_queryId_m := queryId\<rparr>)"

definition q_setOptionId :: "ulong \<Rightarrow> 'o AlpineQueryPacket \<Rightarrow> bool \<times> 'o AlpineQueryPacket" where
  "q_setOptionId optionId q = (if optionId \<noteq> 0 then (False, q) else (True, q\<lparr>q_optionId_m := optionId\<rparr>))"

definition q_setOptionData :: "'o option_api \<Rightarrow> 'o \<Rightarrow> 'o AlpineQueryPacket \<Rightarrow> bool \<times> 'o AlpineQueryPacket" where
  "q_setOptionData api opt q = (True, q\<lparr>q_optionId_m := opt_id api opt, q_optionData_m := Some opt\<rparr>)"

definition q_getOptionData :: "'o AlpineQueryPacket \<Rightarrow> 'o option" where
  "q_getOptionData q = (if q_optionId_m q = 0 \<or> q_optionData_m q = None then None else q_optionData_m q)"

definition q_setQueryString :: "byte list \<Rightarrow> 'o AlpineQueryPacket \<Rightarrow> bool \<times> 'o AlpineQueryPacket" where
  "q_setQueryString queryString p = (True, p\<lparr>q_queryString_m := queryString\<rparr>)"

definition q_getQueryString :: "'o AlpineQueryPacket \<Rightarrow> byte list" where
  "q_getQueryString p = q_queryString_m p"

definition q_setNumHits :: "ulong \<Rightarrow> 'o AlpineQueryPacket \<Rightarrow> bool \<times> 'o AlpineQueryPacket" where
  "q_setNumHits numHits p = (True, p\<lparr>q_numHits_m := numHits\<rparr>)"

definition q_getNumHits :: "'o AlpineQueryPacket \<Rightarrow> ulong" where
  "q_getNumHits p = q_numHits_m p"

definition q_setUploadSlots :: "ushort \<Rightarrow> 'o AlpineQueryPacket \<Rightarrow> bool \<times> 'o AlpineQueryPacket" where
  "q_setUploadSlots uploadSlots p = (True, p\<lparr>q_uploadSlots_m := uploadSlots\<rparr>)"

definition q_getUploadSlots :: "'o AlpineQueryPacket \<Rightarrow> ushort" where
  "q_getUploadSlots p = q_uploadSlots_m p"

definition q_setOffset :: "ulong \<Rightarrow> 'o AlpineQueryPacket \<Rightarrow> bool \<times> 'o AlpineQueryPacket" where
  "q_setOffset offset p = (True, p\<lparr>q_offset_m := offset\<rparr>)"

definition q_getOffset :: "'o AlpineQueryPacket \<Rightarrow> ulong" where
  "q_getOffset p = q_offset_m p"

definition q_setReplySetSize :: "ushort \<Rightarrow> 'o AlpineQueryPacket \<Rightarrow> bool \<times> 'o AlpineQueryPacket" where
  "q_setReplySetSize setSize p = (True, p\<lparr>q_replySetSize_m := setSize\<rparr>)"

definition q_getReplySetSize :: "'o AlpineQueryPacket \<Rightarrow> ushort" where
  "q_getReplySetSize p = q_replySetSize_m p"

definition q_setPriority :: "byte \<Rightarrow> 'o AlpineQueryPacket \<Rightarrow> bool \<times> 'o AlpineQueryPacket" where
  "q_setPriority priority p = (True, p\<lparr>q_priority_m := priority\<rparr>)"

definition q_getPriority :: "'o AlpineQueryPacket \<Rightarrow> byte" where
  "q_getPriority p = q_priority_m p"

definition q_setTraceContext :: "byte list \<Rightarrow> 'o AlpineQueryPacket \<Rightarrow> bool \<times> 'o AlpineQueryPacket" where
  "q_setTraceContext traceContext p = (True, p\<lparr>q_traceContext_m := traceContext\<rparr>)"

definition q_getTraceContext :: "'o AlpineQueryPacket \<Rightarrow> byte list" where
  "q_getTraceContext p = q_traceContext_m p"

definition q_setResourceDescList :: "'o AlpineResourceDesc list \<Rightarrow> 'o AlpineQueryPacket \<Rightarrow>
    bool \<times> 'o AlpineQueryPacket" where
  "q_setResourceDescList ds q = (True, q\<lparr>q_resourceList_m := Some ds\<rparr>)"

definition q_getResourceDescList :: "'o AlpineQueryPacket \<Rightarrow> 'o AlpineResourceDesc list option" where
  "q_getResourceDescList q = q_resourceList_m q"

section \<open>Writing\<close>

text \<open>\<open>getOptionData\<close> leaves the caller's local pointer uninitialised when it fails, and the callers
  below use it all the same: \<open>None\<close>.\<close>

definition rd_option_length :: "'o option_api \<Rightarrow> 'o AlpineResourceDesc \<Rightarrow> nat option" where
  "rd_option_length api d =
     (if rd_optionId_m d \<noteq> 0 then map_option (opt_len api) (rd_getOptionData d) else Some 0)"

primrec calculateResourceListSize :: "'o option_api \<Rightarrow> 'o AlpineResourceDesc list \<Rightarrow> nat option" where
  "calculateResourceListSize api [] = Some 0"
| "calculateResourceListSize api (d # ds) = do {
     optLen \<leftarrow> rd_option_length api d;
     rest \<leftarrow> calculateResourceListSize api ds;
     Some (8 + 8 + 2 + strings_size (rd_locatorList_m d) + (length (rd_description_m d) + 1) + 8 + optLen + rest)
   }"

text \<open>One turn of the loop of \<open>writeResourceListData\<close>.\<close>

definition write_desc :: "'o option_api \<Rightarrow> 'o AlpineResourceDesc \<Rightarrow> DataBuffer \<Rightarrow> (bool \<times> DataBuffer) option" where
  "write_desc api d db = (case getWriteBuffer db of
       None \<Rightarrow> Some (False, db)
     | Some (buf, bufferSize) \<Rightarrow>
         if 8 > bufferSize then Some (False, db)
         else do {
           db1 \<leftarrow> store buf (put_ulong (rd_matchId_m d)) db;
           if 16 > bufferSize then Some (False, db1)
           else do {
             db2 \<leftarrow> store (buf + 8) (put_ulong (rd_size_m d)) db1;
             if 18 > bufferSize then Some (False, db2)
             else do {
               db3 \<leftarrow> store (buf + 16) (put_ushort (of_nat (length (rd_locatorList_m d)))) db2;
               let n1 = 18 + strings_size (rd_locatorList_m d);
               if n1 > bufferSize then Some (False, db3)
               else do {
                 db4 \<leftarrow> store_strings (buf + 18) (rd_locatorList_m d) db3;
                 let n2 = n1 + length (rd_description_m d) + 1;
                 if n2 > bufferSize then Some (False, db4)
                 else do {
                   db5 \<leftarrow> store (buf + n1) (strcpy_bytes (rd_description_m d)) db4;
                   if n2 + 8 > bufferSize then Some (False, db5)
                   else do {
                     db6 \<leftarrow> store (buf + n2) (put_ulong (rd_optionId_m d)) db5;
                     let db7 = snd (addWriteBytes (n2 + 8) db6);
                     if rd_optionId_m d \<noteq> 0
                     then (case rd_getOptionData d of
                             None \<Rightarrow> None
                           | Some opt \<Rightarrow> opt_write api opt db7)
                     else Some (True, db7)
                   }
                 }
               }
             }
           }
         })"

primrec write_descs :: "'o option_api \<Rightarrow> 'o AlpineResourceDesc list \<Rightarrow> DataBuffer \<Rightarrow>
    (bool \<times> DataBuffer) option" where
  "write_descs api [] db = Some (True, db)"
| "write_descs api (d # ds) db = do {
     (status, db1) \<leftarrow> write_desc api d db;
     if \<not> status then Some (False, db1) else write_descs api ds db1
   }"

definition writeResourceListData :: "'o option_api \<Rightarrow> 'o AlpineQueryPacket \<Rightarrow> DataBuffer \<Rightarrow>
    (bool \<times> DataBuffer) option" where
  "writeResourceListData api q db = (case q_resourceList_m q of
       None \<Rightarrow> Some (False, db)
     | Some ds \<Rightarrow> if ds = [] then Some (False, db) else write_descs api ds db)"

text \<open>The length that \<open>writeData\<close> checks against the buffer; \<open>Some None\<close> is its early return for a
  reply without a list. A type outside the four leaves it 0.\<close>

definition q_write_length :: "'o option_api \<Rightarrow> 'o AlpineQueryPacket \<Rightarrow> nat option option" where
  "q_write_length api q =
     (let opt = option_length api (q_optionId_m q) (q_optionData_m q) in
      if q_packetType_m q = queryDiscover then Some (Some (8 + 8 + length (q_queryString_m q) + 1 + opt))
      else if q_packetType_m q = queryOffer then Some (Some (8 + 8 + 2 + 8 + opt))
      else if q_packetType_m q = queryRequest
        then Some (Some (8 + 8 + 2 + 8 + length (q_queryString_m q) + 1 + opt))
      else if q_packetType_m q = queryReply then
        (case q_resourceList_m q of
           None \<Rightarrow> Some None
         | Some ds \<Rightarrow> map_option (\<lambda>n. Some (n + 8 + 2)) (calculateResourceListSize api ds))
      else Some (Some 0))"

text \<open>The fields between the query identifier and the priority.\<close>

definition q_write_body :: "'o option_api \<Rightarrow> 'o AlpineQueryPacket \<Rightarrow> nat \<Rightarrow> DataBuffer \<Rightarrow>
    (bool \<times> DataBuffer) option" where
  "q_write_body api q buf db =
     (let slen = length (q_queryString_m q) + 1 in
      if q_packetType_m q = queryDiscover then do {
        db1 \<leftarrow> store (buf + 8) (strcpy_bytes (q_queryString_m q)) db;
        db2 \<leftarrow> store (buf + 8 + slen) (put_ulong (q_optionId_m q)) db1;
        write_option api (q_optionId_m q) (q_optionData_m q) (snd (addWriteBytes (8 + slen + 8) db2))
      }
      else if q_packetType_m q = queryOffer then do {
        db1 \<leftarrow> store (buf + 8) (put_ulong (q_numHits_m q)) db;
        db2 \<leftarrow> store (buf + 16) (put_ushort (q_uploadSlots_m q)) db1;
        db3 \<leftarrow> store (buf + 18) (put_ulong (q_optionId_m q)) db2;
        write_option api (q_optionId_m q) (q_optionData_m q) (snd (addWriteBytes 26 db3))
      }
      else if q_packetType_m q = queryRequest then do {
        db1 \<leftarrow> store (buf + 8) (put_ulong (q_offset_m q)) db;
        db2 \<leftarrow> store (buf + 16) (put_ushort (q_replySetSize_m q)) db1;
        db3 \<leftarrow> store (buf + 18) (strcpy_bytes (q_queryString_m q)) db2;
        db4 \<leftarrow> store (buf + 18 + slen) (put_ulong (q_optionId_m q)) db3;
        write_option api (q_optionId_m q) (q_optionData_m q) (snd (addWriteBytes (18 + slen + 8) db4))
      }
      else if q_packetType_m q = queryReply then do {
        db1 \<leftarrow> store (buf + 8) (put_ushort (q_replySetSize_m q)) db;
        writeResourceListData api q (snd (addWriteBytes 10 db1))
      }
      else Some (True, db))"

definition q_write_priority :: "'o AlpineQueryPacket \<Rightarrow> DataBuffer \<Rightarrow> (bool \<times> DataBuffer) option" where
  "q_write_priority q db = (case getWriteBuffer db of
       None \<Rightarrow> Some (False, db)
     | Some (priBuf, priBufSize) \<Rightarrow>
         if priBufSize < 1 then Some (False, db)
         else do { db1 \<leftarrow> store priBuf [q_priority_m q] db; Some (True, snd (addWriteBytes 1 db1)) })"

definition q_writeData :: "'o option_api \<Rightarrow> parent_write \<Rightarrow> 'o AlpineQueryPacket \<Rightarrow> DataBuffer \<Rightarrow>
    (bool \<times> DataBuffer) option" where
  "q_writeData api parent q db = (case getWriteBuffer db of
       None \<Rightarrow> Some (False, db)
     | Some (buf, bufferSize) \<Rightarrow> do {
         len \<leftarrow> q_write_length api q;
         case len of
           None \<Rightarrow> Some (False, db)
         | Some writeLength \<Rightarrow>
             if bufferSize < writeLength then Some (False, db)
             else do {
               db1 \<leftarrow> store buf (put_ulong (q_queryId_m q)) db;
               (status, db2) \<leftarrow> q_write_body api q buf db1;
               if \<not> status then Some (False, db2)
               else do {
                 (status2, db3) \<leftarrow> q_write_priority q db2;
                 if \<not> status2 then Some (False, db3) else call_parent_write parent db3
               }
             }
       })"

section \<open>Reading\<close>

text \<open>\<^verbatim>\<open>static_cast<short>(ntohl(*(short *)p))\<close>: the short is sign-extended to 32 bits, swapped, and
  truncated again.\<close>

definition get_short_ntohl :: "byte list \<Rightarrow> ushort" where
  "get_short_ntohl bs = ucast (bswap32 (scast (of_le bs :: ushort)))"

definition MAX_HITS :: ulong where
  "MAX_HITS = 10000"

definition MAX_REPLY_SET_SIZE :: ushort where
  "MAX_REPLY_SET_SIZE = 10000"

text \<open>The locator loop of \<open>readResourceListData\<close>: the strings read and the bytes read so far.\<close>

fun read_locators :: "nat \<Rightarrow> nat \<Rightarrow> nat \<Rightarrow> nat \<Rightarrow> DataBuffer \<Rightarrow> (byte list list \<times> nat) option option" where
  "read_locators 0 buf bufferSize readLength db = Some (Some ([], readLength))"
| "read_locators (Suc n) buf bufferSize readLength db =
     (if readLength > bufferSize then Some None
      else do {
        ok \<leftarrow> verifyStringData (buf + readLength) (bufferSize - readLength) db;
        if \<not> ok then Some None
        else do {
          s \<leftarrow> load_cstr (buf + readLength) db;
          r \<leftarrow> read_locators n buf bufferSize (readLength + length s + 1) db;
          Some (map_option (\<lambda>(ss, len). (s # ss, len)) r)
        }
      })"

text \<open>One turn of its outer loop: the descriptor, which keeps what an earlier turn left in it.\<close>

definition read_desc :: "'o option_api \<Rightarrow> 'o AlpineResourceDesc \<Rightarrow> DataBuffer \<Rightarrow>
    ('o AlpineResourceDesc option \<times> DataBuffer) option" where
  "read_desc api cur db = (case getReadBuffer db of
       None \<Rightarrow> Some (None, db)
     | Some (buf, bufferSize) \<Rightarrow>
         if 8 > bufferSize then Some (None, db)
         else do {
           m \<leftarrow> load buf 8 db;
           if 16 > bufferSize then Some (None, db)
           else do {
             sz \<leftarrow> load (buf + 8) 8 db;
             if 18 > bufferSize then Some (None, db)
             else do {
               cnt \<leftarrow> load (buf + 16) 2 db;
               locs \<leftarrow> read_locators (unat (get_ushort cnt)) buf bufferSize 18 db;
               case locs of
                 None \<Rightarrow> Some (None, db)
               | Some (ls, n1) \<Rightarrow>
                   if n1 > bufferSize then Some (None, db)
                   else do {
                     ok \<leftarrow> verifyStringData (buf + n1) (bufferSize - n1) db;
                     if \<not> ok then Some (None, db)
                     else do {
                       s \<leftarrow> load_cstr (buf + n1) db;
                       let n2 = n1 + length s + 1 + 8;
                       if n2 > bufferSize then Some (None, db)
                       else do {
                         o8 \<leftarrow> load (buf + n1 + length s + 1) 8 db;
                         let optionId = get_ulong o8;
                         let d0 = rd_setDescription s (rd_setLocatorList ls
                           (rd_setSize (get_ulong sz) (rd_setMatchId (get_ulong m) cur)));
                         let d1 = (if optionId = 0 then snd (rd_setOptionId optionId d0) else d0);
                         let db1 = snd (addReadBytes n2 db);
                         if optionId = 0 then Some (Some d1, db1)
                         else (case opt_ext api optionId of
                             None \<Rightarrow> Some (None, db1)
                           | Some opt0 \<Rightarrow> do {
                               (status, opt, db2) \<leftarrow> opt_read api opt0 db1;
                               if \<not> status then Some (None, db2)
                               else Some (Some (rd_setOptionData api opt d1), db2)
                             })
                       }
                     }
                   }
             }
           }
         })"

text \<open>The \<open>while (!finished)\<close> loop. It stops when the list has the announced size or the data runs
  out; an extension that hands bytes back could keep it running, so it takes fuel.\<close>

fun read_descs :: "nat \<Rightarrow> 'o option_api \<Rightarrow> nat \<Rightarrow> 'o AlpineResourceDesc \<Rightarrow> 'o AlpineResourceDesc list \<Rightarrow>
    DataBuffer \<Rightarrow> (bool \<times> 'o AlpineResourceDesc list \<times> DataBuffer) option" where
  "read_descs 0 api want cur acc db = None"
| "read_descs (Suc fuel) api want cur acc db = do {
     (d, db1) \<leftarrow> read_desc api cur db;
     case d of
       None \<Rightarrow> Some (False, acc, db1)
     | Some desc \<Rightarrow>
         let acc1 = acc @ [desc] in
         if length acc1 = want then Some (True, acc1, db1)
         else read_descs fuel api want desc acc1 db1
   }"

definition readResourceListData :: "nat \<Rightarrow> 'o option_api \<Rightarrow> 'o AlpineQueryPacket \<Rightarrow> DataBuffer \<Rightarrow>
    (bool \<times> 'o AlpineQueryPacket \<times> DataBuffer) option" where
  "readResourceListData fuel api q db = do {
     (status, ds, db1) \<leftarrow> read_descs fuel api (unat (q_replySetSize_m q)) AlpineResourceDesc_new [] db;
     let q1 = q\<lparr>q_resourceList_m := Some ds\<rparr>;
     if \<not> status then Some (False, q1, db1)
     else if length ds \<noteq> unat (q_replySetSize_m q) then Some (False, q1, db1)
     else Some (True, q1, db1)
   }"

definition q_min_length :: "alpine_type \<Rightarrow> nat" where
  "q_min_length t = (if t = queryDiscover then 8 + 8 + 2
     else if t = queryOffer then 8 + 8 + 2 + 8
     else if t = queryRequest then 8 + 8 + 2 + 8 + 2
     else if t = queryReply then 8 + 2 + 8 * 3 + 2 + 2
     else 0)"

text \<open>A query string and the option identifier behind it, from offset \<open>readLength\<close>: the tail of
  discover and request messages.\<close>

definition q_read_string_option :: "'o option_api \<Rightarrow> 'o AlpineQueryPacket \<Rightarrow> nat \<Rightarrow> nat \<Rightarrow> nat \<Rightarrow> DataBuffer \<Rightarrow>
    (bool \<times> 'o AlpineQueryPacket \<times> DataBuffer) option" where
  "q_read_string_option api q buf bufferSize readLength db =
     (if readLength > bufferSize then Some (False, q, db)
      else do {
        ok \<leftarrow> verifyStringData (buf + readLength) (bufferSize - readLength) db;
        if \<not> ok then Some (False, q, db)
        else do {
          s \<leftarrow> load_cstr (buf + readLength) db;
          let q1 = q\<lparr>q_queryString_m := s\<rparr>;
          let n = readLength + length s + 1;
          if n + 8 > bufferSize then Some (False, q1, db)
          else do {
            o8 \<leftarrow> load (buf + n) 8 db;
            let optionId = get_ulong o8;
            (status, od, db1) \<leftarrow> read_option api optionId (q_optionData_m q1) (snd (addReadBytes (n + 8) db));
            Some (status, q1\<lparr>q_optionId_m := optionId, q_optionData_m := od\<rparr>, db1)
          }
        }
      })"

definition q_read_offer :: "'o option_api \<Rightarrow> 'o AlpineQueryPacket \<Rightarrow> nat \<Rightarrow> DataBuffer \<Rightarrow>
    (bool \<times> 'o AlpineQueryPacket \<times> DataBuffer) option" where
  "q_read_offer api q buf db = do {
     h \<leftarrow> load (buf + 8) 8 db;
     let q1 = q\<lparr>q_numHits_m := get_ulong h\<rparr>;
     if q_numHits_m q1 > MAX_HITS then Some (False, q1, db)
     else do {
       u \<leftarrow> load (buf + 16) 2 db;
       o8 \<leftarrow> load (buf + 18) 8 db;
       let optionId = get_ulong o8;
       let q2 = q1\<lparr>q_uploadSlots_m := get_short_ntohl u, q_optionId_m := optionId\<rparr>;
       (status, od, db1) \<leftarrow> read_option api optionId (q_optionData_m q2) (snd (addReadBytes 26 db));
       Some (status, q2\<lparr>q_optionData_m := od\<rparr>, db1)
     }
   }"

definition q_read_request :: "'o option_api \<Rightarrow> 'o AlpineQueryPacket \<Rightarrow> nat \<Rightarrow> nat \<Rightarrow> DataBuffer \<Rightarrow>
    (bool \<times> 'o AlpineQueryPacket \<times> DataBuffer) option" where
  "q_read_request api q buf bufferSize db = do {
     f \<leftarrow> load (buf + 8) 8 db;
     u \<leftarrow> load (buf + 16) 2 db;
     let q1 = q\<lparr>q_offset_m := get_ulong f, q_replySetSize_m := get_short_ntohl u\<rparr>;
     if q_replySetSize_m q1 > MAX_REPLY_SET_SIZE then Some (False, q1, db)
     else q_read_string_option api q1 buf bufferSize 18 db
   }"

definition q_read_reply :: "nat \<Rightarrow> 'o option_api \<Rightarrow> 'o AlpineQueryPacket \<Rightarrow> nat \<Rightarrow> DataBuffer \<Rightarrow>
    (bool \<times> 'o AlpineQueryPacket \<times> DataBuffer) option" where
  "q_read_reply fuel api q buf db = do {
     u \<leftarrow> load (buf + 8) 2 db;
     let q1 = q\<lparr>q_replySetSize_m := get_short_ntohl u\<rparr>;
     if q_replySetSize_m q1 > MAX_REPLY_SET_SIZE then Some (False, q1, db)
     else
       let q2 = (if q_resourceList_m q1 = None then q1\<lparr>q_resourceList_m := Some []\<rparr> else q1) in
       readResourceListData fuel api q2 (snd (addReadBytes 10 db))
   }"

definition q_read_body :: "nat \<Rightarrow> 'o option_api \<Rightarrow> 'o AlpineQueryPacket \<Rightarrow> nat \<Rightarrow> nat \<Rightarrow> DataBuffer \<Rightarrow>
    (bool \<times> 'o AlpineQueryPacket \<times> DataBuffer) option" where
  "q_read_body fuel api q buf bufferSize db =
     (if q_packetType_m q = queryDiscover then q_read_string_option api q buf bufferSize 8 db
      else if q_packetType_m q = queryOffer then q_read_offer api q buf db
      else if q_packetType_m q = queryRequest then q_read_request api q buf bufferSize db
      else if q_packetType_m q = queryReply then q_read_reply fuel api q buf db
      else Some (True, q, db))"

definition q_read_priority :: "'o AlpineQueryPacket \<Rightarrow> DataBuffer \<Rightarrow> ('o AlpineQueryPacket \<times> DataBuffer) option" where
  "q_read_priority q db = (case getReadBuffer db of
       Some (priBuf, priBufSize) \<Rightarrow>
         if priBufSize \<ge> 1
         then do { b \<leftarrow> load priBuf 1 db; Some (q\<lparr>q_priority_m := hd b\<rparr>, snd (addReadBytes 1 db)) }
         else Some (q\<lparr>q_priority_m := 128\<rparr>, db)
     | None \<Rightarrow> Some (q\<lparr>q_priority_m := 128\<rparr>, db))"

definition q_readData :: "nat \<Rightarrow> 'o option_api \<Rightarrow> 'o AlpineQueryPacket \<Rightarrow> DataBuffer \<Rightarrow>
    (bool \<times> 'o AlpineQueryPacket \<times> DataBuffer) option" where
  "q_readData fuel api q db = (case getReadBuffer db of
       None \<Rightarrow> Some (False, q, db)
     | Some (buf, bufferSize) \<Rightarrow>
         if bufferSize < q_min_length (q_packetType_m q) then Some (False, q, db)
         else do {
           w \<leftarrow> load buf 8 db;
           (status, q1, db1) \<leftarrow> q_read_body fuel api (q\<lparr>q_queryId_m := get_ulong w\<rparr>) buf bufferSize db;
           if \<not> status then Some (False, q1, db1)
           else do { (q2, db2) \<leftarrow> q_read_priority q1 db1; Some (True, q2, db2) }
         })"

section \<open>What is written\<close>

definition desc_plain :: "'o AlpineResourceDesc \<Rightarrow> bool" where
  "desc_plain d \<longleftrightarrow> rd_optionId_m d = 0 \<and> (\<forall>s\<in>set (rd_description_m d # rd_locatorList_m d). 0 \<notin> set s)"

definition desc_wire :: "'o AlpineResourceDesc \<Rightarrow> byte list" where
  "desc_wire d = put_ulong (rd_matchId_m d) @ put_ulong (rd_size_m d) @
     put_ushort (of_nat (length (rd_locatorList_m d))) @ strings_bytes (rd_locatorList_m d) @
     strcpy_bytes (rd_description_m d) @ put_ulong (rd_optionId_m d)"

definition q_wire :: "'o AlpineQueryPacket \<Rightarrow> byte list" where
  "q_wire q = put_ulong (q_queryId_m q) @
     (if q_packetType_m q = queryDiscover then strcpy_bytes (q_queryString_m q) @ put_ulong (q_optionId_m q)
      else if q_packetType_m q = queryOffer
        then put_ulong (q_numHits_m q) @ put_ushort (q_uploadSlots_m q) @ put_ulong (q_optionId_m q)
      else if q_packetType_m q = queryRequest
        then put_ulong (q_offset_m q) @ put_ushort (q_replySetSize_m q) @ strcpy_bytes (q_queryString_m q) @
             put_ulong (q_optionId_m q)
      else put_ushort (q_replySetSize_m q) @ concat (map desc_wire (the (q_resourceList_m q)))) @
     [q_priority_m q]"

text \<open>Packets without extensions, as the node itself builds them.\<close>

definition q_plain :: "'o AlpineQueryPacket \<Rightarrow> bool" where
  "q_plain q \<longleftrightarrow> q_packetType_m q \<in> {queryDiscover, queryOffer, queryRequest, queryReply} \<and>
     q_optionId_m q = 0 \<and> 0 \<notin> set (q_queryString_m q) \<and>
     (q_packetType_m q = queryReply \<longrightarrow>
        (\<exists>ds. q_resourceList_m q = Some ds \<and> ds \<noteq> [] \<and> (\<forall>d\<in>set ds. desc_plain d)))"

lemma length_desc_wire:
  "desc_plain d \<Longrightarrow> length (desc_wire d) = 8 + 8 + 2 + strings_size (rd_locatorList_m d) +
     (length (rd_description_m d) + 1) + 8"
  by (simp add: desc_wire_def desc_plain_def length_strings_bytes)

lemma write_desc_room:
  assumes "db_inv db" "desc_plain d" "length (desc_wire d) \<le> writeRemaining_m db"
  shows "write_desc api d db = Some (True, db_append (desc_wire d) db)"
proof -
  let ?n = "18 + strings_size (rd_locatorList_m d) + length (rd_description_m d) + 1 + 8"
  have room: "?n \<le> writeRemaining_m db" and len: "?n = length (desc_wire d)"
    using assms(3) by (simp_all add: length_desc_wire [OF assms(2)])
  have plain: "rd_optionId_m d = 0" "0 \<notin> set (rd_description_m d)" "\<forall>s\<in>set (rd_locatorList_m d). 0 \<notin> set s"
    using assms(2) by (auto simp: desc_plain_def)
  have "write_desc api d db = store (writeOffset_m db) (desc_wire d) db \<bind>
      (\<lambda>db6. Some (True, snd (addWriteBytes ?n db6)))"
    using room plain
    by (simp add: write_desc_def getWriteBuffer_some Let_def store_fuse store_strings_fuse desc_wire_def
        length_strings_bytes)
  also have "\<dots> = Some (True, db_append (desc_wire d) db)"
    using assms len by (intro store_advance [where k = "\<lambda>d. Some (True, d)"])
  finally show ?thesis .
qed

lemma write_descs_room:
  assumes "db_inv db" "\<forall>d\<in>set ds. desc_plain d" "length (concat (map desc_wire ds)) \<le> writeRemaining_m db"
  shows "write_descs api ds db = Some (True, db_append (concat (map desc_wire ds)) db)"
  using assms
proof (induction ds arbitrary: db)
  case Nil
  then show ?case by (simp add: db_append_def overwrite_def)
next
  case (Cons d ds)
  let ?db = "db_append (desc_wire d) db"
  have "write_desc api d db = Some (True, ?db)" using Cons.prems by (intro write_desc_room) auto
  moreover have "db_inv ?db" "writeRemaining_m ?db = writeRemaining_m db - length (desc_wire d)"
    using sink.ok_append [of db "desc_wire d"] sink.room_append [of db "desc_wire d"] Cons.prems by auto
  ultimately show ?case using Cons by (simp add: db_append_two)
qed

lemma calculate_plain:
  "\<forall>d\<in>set ds. desc_plain d \<Longrightarrow>
     calculateResourceListSize api ds = Some (length (concat (map desc_wire ds)))"
  by (induction ds) (auto simp: length_desc_wire rd_option_length_def desc_plain_def)

lemma priority_room:
  assumes "db_inv db" "0 < writeRemaining_m db"
  shows "q_write_priority q db = Some (True, db_append [q_priority_m q] db)"
  using assms store_advance [OF assms(1), of "[q_priority_m q]" 1 "\<lambda>d. Some (True, d)"]
  by (simp add: q_write_priority_def getWriteBuffer_some)

definition q_wire_fields :: "'o AlpineQueryPacket \<Rightarrow> byte list" where
  "q_wire_fields q = butlast (q_wire q)"

lemma q_wire_split: "q_wire q = q_wire_fields q @ [q_priority_m q]"
  by (simp add: q_wire_fields_def q_wire_def butlast_append)

text \<open>Identifier and body go out as one append.\<close>

lemma body_room:
  assumes "db_inv db" "q_plain q" "length (q_wire_fields q) \<le> writeRemaining_m db"
  shows "store (writeOffset_m db) (put_ulong (q_queryId_m q)) db \<bind>
      (\<lambda>db1. q_write_body api q (writeOffset_m db) db1 \<bind> k) = k (True, db_append (q_wire_fields q) db)"
proof -
  have no: "q_optionId_m q = 0" "0 \<notin> set (q_queryString_m q)" using assms(2) by (auto simp: q_plain_def)
  note adv = store_advance [OF assms(1), where k = "\<lambda>d. k (True, d)"]
  consider "q_packetType_m q = queryDiscover" | "q_packetType_m q = queryOffer"
    | "q_packetType_m q = queryRequest" | "q_packetType_m q = queryReply"
    using assms(2) by (auto simp: q_plain_def)
  then show ?thesis
  proof cases
    case 1
    with no assms(3) show ?thesis
      by (simp add: q_write_body_def Let_def store_fuse q_wire_fields_def q_wire_def butlast_append adv)
  next
    case 2
    with no assms(3) show ?thesis
      by (simp add: q_write_body_def Let_def store_fuse q_wire_fields_def q_wire_def butlast_append adv)
  next
    case 3
    with no assms(3) show ?thesis
      by (simp add: q_write_body_def Let_def store_fuse q_wire_fields_def q_wire_def butlast_append adv)
  next
    case 4
    then obtain ds where ds: "q_resourceList_m q = Some ds" "ds \<noteq> []" "\<forall>d\<in>set ds. desc_plain d"
      using assms(2) by (auto simp: q_plain_def)
    let ?h = "put_ulong (q_queryId_m q) @ put_ushort (q_replySetSize_m q)"
    let ?db = "db_append ?h db"
    have w: "q_wire_fields q = ?h @ concat (map desc_wire ds)"
      using 4 ds by (simp add: q_wire_fields_def q_wire_def butlast_append)
    have "store (writeOffset_m db) (put_ulong (q_queryId_m q)) db \<bind>
        (\<lambda>db1. q_write_body api q (writeOffset_m db) db1 \<bind> k) =
        store (writeOffset_m db) ?h db \<bind> (\<lambda>d. write_descs api ds (snd (addWriteBytes 10 d)) \<bind> k)"
      using 4 ds by (simp add: q_write_body_def Let_def store_fuse writeResourceListData_def)
    also have "\<dots> = write_descs api ds ?db \<bind> k"
      using assms(1,3) w by (intro store_advance [where k = "\<lambda>d. write_descs api ds d \<bind> k"]) auto
    also have "write_descs api ds ?db = Some (True, db_append (concat (map desc_wire ds)) ?db)"
      using assms(1,3) w ds sink.ok_append [of db ?h] sink.room_append [of db ?h]
      by (intro write_descs_room) auto
    finally show ?thesis using assms(1,3) by (simp add: w db_append_two)
  qed
qed

lemma q_write_length_plain:
  "q_plain q \<Longrightarrow> \<exists>n\<le>length (q_wire_fields q). q_write_length api q = Some (Some n)"
  by (auto simp: q_plain_def q_write_length_def Let_def q_wire_fields_def q_wire_def butlast_append
      calculate_plain)

lemma q_write_room:
  assumes "db_inv db" "q_plain q" "length (q_wire q) \<le> writeRemaining_m db"
  shows "q_writeData api None q db = Some (True, db_append (q_wire q) db)"
proof -
  let ?f = "q_wire_fields q"
  let ?db = "db_append ?f db"
  have room: "Suc (length ?f) \<le> writeRemaining_m db" using assms(3) by (simp add: q_wire_split)
  obtain n where n: "q_write_length api q = Some (Some n)" "n \<le> length ?f"
    using q_write_length_plain [OF assms(2)] by blast
  have db: "db_inv ?db" "0 < writeRemaining_m ?db"
    using sink.ok_append [OF assms(1), of ?f] sink.room_append [OF assms(1), of ?f] room by auto
  have "q_writeData api None q db = store (writeOffset_m db) (put_ulong (q_queryId_m q)) db \<bind>
      (\<lambda>db1. q_write_body api q (writeOffset_m db) db1 \<bind> (\<lambda>(status, db2).
         if \<not> status then Some (False, db2)
         else q_write_priority q db2 \<bind> (\<lambda>(status2, db3).
           if \<not> status2 then Some (False, db3) else call_parent_write None db3)))"
    using room n by (simp add: q_writeData_def getWriteBuffer_some)
  also have "\<dots> = Some (True, db_append [q_priority_m q] ?db)"
    using assms room db by (simp add: body_room priority_room call_parent_write_def)
  finally show ?thesis using assms(1) room by (simp add: q_wire_split db_append_two)
qed

section \<open>Memory safety of the read path\<close>

text \<open>What is relied on of an extension: reading it returns, stays in the buffer and hands no bytes back.\<close>

definition option_safe :: "'o option_api \<Rightarrow> bool" where
  "option_safe api \<longleftrightarrow> (\<forall>i x db. opt_ext api i = Some x \<and> db_inv db \<longrightarrow>
     (\<exists>st x' db'. opt_read api x db = Some (st, x', db') \<and> db_inv db' \<and> readRemaining_m db' \<le> readRemaining_m db))"

lemma option_safe_read:
  assumes "option_safe api" "opt_ext api i = Some x" "db_inv db"
  obtains st x' db' where "opt_read api x db = Some (st, x', db')" "db_inv db'" "readRemaining_m db' \<le> readRemaining_m db"
  using assms unfolding option_safe_def by metis

lemma read_option_safe:
  assumes "option_safe api" "db_inv db"
  shows "\<exists>st od' db'. read_option api i od db = Some (st, od', db') \<and> db_inv db'"
proof (cases "opt_ext api i")
  case (Some x)
  from option_safe_read [OF assms(1) Some assms(2)] obtain st x' db' where "opt_read api x db = Some (st, x', db')" "db_inv db'" .
  then show ?thesis using Some assms(2) by (cases st) (simp_all add: read_option_def Let_def)
qed (use assms in \<open>simp add: read_option_def\<close>)

lemma string_option_safe:
  assumes "db_inv db" "option_safe api"
  shows "\<exists>st q' db'. q_read_string_option api q (readOffset_m db) (readRemaining_m db) k db = Some (st, q', db') \<and>
    db_inv db'"
proof (cases "k \<le> readRemaining_m db")
  case False
  then show ?thesis using assms(1) by (simp add: q_read_string_option_def)
next
  case True
  let ?u = "drop k (unread db)"
  obtain ok where ok: "verifyStringData (readOffset_m db + k) (readRemaining_m db - k) db = Some ok"
    using verifyStringData_unread [OF assms(1), of k "readRemaining_m db - k"] True by auto
  show ?thesis
  proof (cases ok)
    case False
    with ok True assms(1) show ?thesis by (simp add: q_read_string_option_def)
  next
    case ok': True
    have s: "load_cstr (readOffset_m db + k) db = Some (c_str ?u)"
      using verified_string [OF assms(1), of k "readRemaining_m db - k"] ok ok' True by auto
    let ?n = "k + length (c_str ?u) + 1"
    show ?thesis
    proof (cases "?n + 8 > readRemaining_m db")
      case True
      with ok ok' s \<open>k \<le> readRemaining_m db\<close> assms(1) show ?thesis by (simp add: q_read_string_option_def)
    next
      case False
      then have l: "load (readOffset_m db + ?n) 8 db = Some (take 8 (drop ?n (unread db)))"
        using assms(1) by (intro load_unread) auto
      have c: "snd (addReadBytes (?n + 8) db) = db_consume (?n + 8) db" "db_inv (db_consume (?n + 8) db)"
        using False assms(1) addReadBytes_consume [of "?n + 8" db] by (auto intro: db_inv_consume)
      show ?thesis
        using False ok ok' s l c \<open>k \<le> readRemaining_m db\<close>
          read_option_safe [OF assms(2) c(2), of "get_ulong (take 8 (drop ?n (unread db)))" "q_optionData_m q"]
        by (auto simp: q_read_string_option_def Let_def add.assoc)
    qed
  qed
qed

lemma read_locators_safe:
  assumes "db_inv db" "r \<le> readRemaining_m db"
  shows "\<exists>x. read_locators n (readOffset_m db) (readRemaining_m db) r db = Some x \<and>
    (\<forall>ss len. x = Some (ss, len) \<longrightarrow> r \<le> len \<and> len \<le> readRemaining_m db)"
  using assms(2)
proof (induction n arbitrary: r)
  case 0
  then show ?case by simp
next
  case (Suc n)
  obtain ok where ok: "verifyStringData (readOffset_m db + r) (readRemaining_m db - r) db = Some ok"
    using verifyStringData_unread [OF assms(1), of r "readRemaining_m db - r"] Suc.prems by auto
  show ?case
  proof (cases ok)
    case False
    with ok Suc.prems show ?thesis by simp
  next
    case True
    let ?s = "c_str (drop r (unread db))"
    have s: "load_cstr (readOffset_m db + r) db = Some ?s" "length ?s < readRemaining_m db - r"
      using verified_string [OF assms(1), of r "readRemaining_m db - r"] ok True Suc.prems by auto
    then have "r + length ?s + 1 \<le> readRemaining_m db" by linarith
    then obtain x where x: "read_locators n (readOffset_m db) (readRemaining_m db) (r + length ?s + 1) db = Some x"
      "\<And>ss len. x = Some (ss, len) \<Longrightarrow> r + length ?s + 1 \<le> len \<and> len \<le> readRemaining_m db"
      using Suc.IH by blast
    have "read_locators (Suc n) (readOffset_m db) (readRemaining_m db) r db =
        Some (map_option (\<lambda>(ss, len). (?s # ss, len)) x)"
      using Suc.prems ok True s x(1) by simp
    then show ?thesis using x(2) by fastforce
  qed
qed

lemma read_desc_safe:
  assumes "db_inv db" "option_safe api"
  shows "\<exists>x db'. read_desc api cur db = Some (x, db') \<and> db_inv db' \<and>
    (x \<noteq> None \<longrightarrow> readRemaining_m db' < readRemaining_m db)"
proof (cases "readRemaining_m db < 18")
  case True
  then show ?thesis
    using assms(1) load_unread_0 [OF assms(1), of 8] load_unread [OF assms(1), of 8 8]
    by (cases "readRemaining_m db < 8"; cases "readRemaining_m db < 16")
      (auto simp: read_desc_def getReadBuffer_def)
next
  case False
  note loads = load_unread_0 [OF assms(1), of 8] load_unread [OF assms(1), of 8 8]
    load_unread [OF assms(1), of 16 2]
  let ?n = "unat (get_ushort (take 2 (drop 16 (unread db))))"
  obtain x where x: "read_locators ?n (readOffset_m db) (readRemaining_m db) 18 db = Some x"
    "\<And>ss len. x = Some (ss, len) \<Longrightarrow> 18 \<le> len \<and> len \<le> readRemaining_m db"
    using read_locators_safe [OF assms(1), of 18 ?n] False by auto
  show ?thesis
  proof (cases x)
    case None
    with False x loads assms(1) show ?thesis by (simp add: read_desc_def getReadBuffer_def)
  next
    case (Some y)
    obtain ls n1 where y: "y = (ls, n1)" by (cases y)
    with x(2) Some have n1: "18 \<le> n1" "n1 \<le> readRemaining_m db" by auto
    obtain ok where ok: "verifyStringData (readOffset_m db + n1) (readRemaining_m db - n1) db = Some ok"
      using verifyStringData_unread [OF assms(1), of n1 "readRemaining_m db - n1"] n1 by auto
    show ?thesis
    proof (cases ok)
      case False
      with \<open>\<not> readRemaining_m db < 18\<close> x(1) loads assms(1) Some y n1 ok show ?thesis
        by (simp add: read_desc_def getReadBuffer_def)
    next
      case True
      let ?s = "c_str (drop n1 (unread db))"
      have s: "load_cstr (readOffset_m db + n1) db = Some ?s"
        using verified_string [OF assms(1), of n1 "readRemaining_m db - n1"] ok True n1 by auto
      let ?n2 = "n1 + length ?s + 1"
      show ?thesis
      proof (cases "?n2 + 8 > readRemaining_m db")
        case True
        with \<open>\<not> readRemaining_m db < 18\<close> \<open>ok\<close> x(1) loads assms(1) Some y n1 ok s show ?thesis
          by (simp add: read_desc_def getReadBuffer_def)
      next
        case fits: False
        then have l: "load (readOffset_m db + ?n2) 8 db = Some (take 8 (drop ?n2 (unread db)))"
          using assms(1) by (intro load_unread) auto
        have c: "snd (addReadBytes (?n2 + 8) db) = db_consume (?n2 + 8) db" "db_inv (db_consume (?n2 + 8) db)"
          "readRemaining_m (db_consume (?n2 + 8) db) < readRemaining_m db"
          using fits assms(1) addReadBytes_consume [of "?n2 + 8" db] n1
            db_inv_consume [of db "?n2 + 8"] by (auto simp: db_consume_def)
        let ?i = "get_ulong (take 8 (drop ?n2 (unread db)))"
        show ?thesis
        proof (cases "?i = 0 \<or> opt_ext api ?i = None")
          case True
          then show ?thesis
            using fits False \<open>ok\<close> x(1) loads Some y n1 ok s l c
            by (auto simp: read_desc_def getReadBuffer_def Let_def add.assoc)
        next
          case ext: False
          then obtain o0 where o0: "opt_ext api ?i = Some o0" by auto
          from option_safe_read [OF assms(2) o0 c(2)] obtain st x' db' where r: "opt_read api o0 (db_consume (?n2 + 8) db) = Some (st, x', db')"
            "db_inv db'" "readRemaining_m db' \<le> readRemaining_m (db_consume (?n2 + 8) db)" .
          then show ?thesis
            using fits False \<open>ok\<close> x(1) loads Some y n1 ok s l c ext o0
            by (cases st) (simp_all add: read_desc_def getReadBuffer_def Let_def add.assoc)
        qed
      qed
    qed
  qed
qed

text \<open>Each turn consumes data, so as much fuel as there are unread bytes is enough.\<close>

lemma read_descs_safe:
  assumes "db_inv db" "option_safe api" "readRemaining_m db < fuel"
  shows "\<exists>st ds db'. read_descs fuel api want cur acc db = Some (st, ds, db') \<and> db_inv db'"
  using assms(1,3)
proof (induction fuel arbitrary: cur acc db)
  case 0
  then show ?case by simp
next
  case (Suc fuel)
  obtain x db1 where x: "read_desc api cur db = Some (x, db1)" "db_inv db1"
    "x \<noteq> None \<Longrightarrow> readRemaining_m db1 < readRemaining_m db"
    using read_desc_safe [OF Suc.prems(1) assms(2)] by blast
  show ?case
  proof (cases x)
    case None
    with x show ?thesis by simp
  next
    case (Some d)
    with x Suc.prems have "readRemaining_m db1 < fuel" by simp
    with Suc.IH [OF x(2) this] x Some show ?thesis by (simp add: Let_def)
  qed
qed

lemma priority_read_safe:
  "db_inv db \<Longrightarrow> \<exists>q' db'. q_read_priority q db = Some (q', db') \<and> db_inv db'"
  using load_unread_0 [of db 1] addReadBytes_consume [of 1 db] db_inv_consume [of db 1]
  by (auto simp: q_read_priority_def getReadBuffer_def)

lemma body_safe:
  assumes "db_inv db" "option_safe api" "readRemaining_m db < fuel"
    and "q_packetType_m q \<in> {queryDiscover, queryOffer, queryRequest, queryReply}"
    and "q_min_length (q_packetType_m q) \<le> readRemaining_m db"
  shows "\<exists>st q' db'. q_read_body fuel api q (readOffset_m db) (readRemaining_m db) db = Some (st, q', db') \<and>
    db_inv db'"
proof -
  have l: "load (readOffset_m db + k) n db = Some (take n (drop k (unread db)))"
    if "k + n \<le> readRemaining_m db" for k n using load_unread [OF assms(1) that] .
  have c: "snd (addReadBytes n db) = db_consume n db" "db_inv (db_consume n db)"
    "readRemaining_m (db_consume n db) < fuel"
    if "n \<le> readRemaining_m db" for n
    using addReadBytes_consume [OF that] db_inv_consume [OF assms(1) that] assms(3)
    by (auto simp: db_consume_def)
  consider "q_packetType_m q = queryDiscover" | "q_packetType_m q = queryOffer"
    | "q_packetType_m q = queryRequest" | "q_packetType_m q = queryReply" using assms(4) by auto
  then show ?thesis
  proof cases
    case 1
    then show ?thesis
      using string_option_safe [OF assms(1,2), of q 8] by (simp add: q_read_body_def)
  next
    case 2
    with assms(5) have n: "26 \<le> readRemaining_m db" by (simp add: q_min_length_def)
    then show ?thesis
      using 2 l [of 8 8] l [of 16 2] l [of 18 8] c [of 26] assms(1)
        read_option_safe [OF assms(2) c(2) [OF n], of "get_ulong (take 8 (drop 18 (unread db)))" "q_optionData_m q"]
      by (auto simp: q_read_body_def q_read_offer_def Let_def)
  next
    case 3
    with assms(1,2,5) show ?thesis
      using l [of 8 8] l [of 16 2] string_option_safe [OF assms(1,2)]
      by (simp add: q_read_body_def q_read_request_def q_min_length_def Let_def)
  next
    case 4
    with assms(5) have n: "10 \<le> readRemaining_m db" by (simp add: q_min_length_def)
    have "\<exists>st q' db'. readResourceListData fuel api r (db_consume 10 db) = Some (st, q', db') \<and> db_inv db'" for r
      using read_descs_safe [OF c(2) [OF n] assms(2) c(3) [OF n], of "unat (q_replySetSize_m r)"
          AlpineResourceDesc_new "[]"] by (auto simp: readResourceListData_def Let_def)
    with 4 n show ?thesis
      using l [of 8 2] c [of 10] assms(1)
      by (simp add: q_read_body_def q_read_reply_def Let_def)
  qed
qed

lemma q_read_safe:
  assumes "db_inv db" "option_safe api" "readRemaining_m db < fuel"
    and "q_packetType_m q \<in> {queryDiscover, queryOffer, queryRequest, queryReply}"
  shows "\<exists>st q' db'. q_readData fuel api q db = Some (st, q', db') \<and> db_inv db'"
proof (cases "readRemaining_m db < q_min_length (q_packetType_m q)")
  case True
  with assms(1) show ?thesis by (simp add: q_readData_def getReadBuffer_def)
next
  case False
  then have n: "8 \<le> readRemaining_m db" using assms(4) by (auto simp: q_min_length_def)
  let ?q = "q\<lparr>q_queryId_m := get_ulong (take 8 (unread db))\<rparr>"
  obtain st q1 db1 where b: "q_read_body fuel api ?q (readOffset_m db) (readRemaining_m db) db = Some (st, q1, db1)"
    "db_inv db1"
    using body_safe [OF assms(1-3), of ?q] assms(4) False by auto
  obtain q2 db2 where p: "q_read_priority q1 db1 = Some (q2, db2)" "db_inv db2"
    using priority_read_safe [OF b(2)] by blast
  have "q_readData fuel api q db = (if st then Some (True, q2, db2) else Some (False, q1, db1))"
    using False n b p load_unread_0 [OF assms(1) n] by (simp add: q_readData_def getReadBuffer_some)
  with b p show ?thesis by (cases st) auto
qed

section \<open>The short fields\<close>

lemma bit_bswap32: "i < 32 \<Longrightarrow> bit (bswap32 w) i \<longleftrightarrow> bit w (8 * (3 - i div 8) + i mod 8)"
proof -
  assume i: "i < 32"
  then have d: "i div 8 < 4" by auto
  have "bit (bswap32 w) i \<longleftrightarrow> bit (rev (le_bytes 4 w) ! (i div 8)) (i mod 8)"
    using i d by (simp add: bswap32_def bit_of_le)
  also have "rev (le_bytes 4 w) ! (i div 8) = le_bytes 4 w ! (3 - i div 8)"
    using d by (simp add: rev_nth)
  also have "bit (le_bytes 4 w ! (3 - i div 8)) (i mod 8) \<longleftrightarrow> bit w (8 * (3 - i div 8) + i mod 8)"
    by (subst bit_le_bytes) auto
  finally show ?thesis .
qed

lemma get_short_ntohl_sign: "get_short_ntohl bs = (if bit (of_le bs :: ushort) 15 then -1 else 0)"
proof (rule bit_word_eqI)
  fix i assume "i < LENGTH(16)"
  then have i: "i < 16" by simp
  then have "i div 8 < 2" by auto
  then have j: "16 \<le> 8 * (3 - i div 8) + i mod 8" "8 * (3 - i div 8) + i mod 8 < 32" by auto
  have "bit (get_short_ntohl bs) i \<longleftrightarrow> bit (scast (of_le bs :: ushort) :: 32 word) (8 * (3 - i div 8) + i mod 8)"
    using i by (simp add: get_short_ntohl_def bit_ucast_iff bit_bswap32)
  also have "\<dots> \<longleftrightarrow> bit (of_le bs :: ushort) 15"
    using j by (simp add: bit_signed_iff min_absorb1)
  finally show "bit (get_short_ntohl bs) i \<longleftrightarrow> bit (if bit (of_le bs :: ushort) 15 then -1 else 0 :: ushort) i"
    using i by simp
qed

lemma get_short_put: "get_short_ntohl (put_ushort x) = (if bit x 7 then -1 else 0)"
proof -
  have "bit (bswap16 x) 15 \<longleftrightarrow> bit x 7"
    by (simp add: bswap16_def bit_of_le rev_nth bit_le_bytes)
  then show ?thesis by (simp add: get_short_ntohl_sign put_ushort_def of_le_le_bytes)
qed

lemma read_descs_zero: "read_descs fuel api 0 cur acc db \<noteq> Some (True, ds, db')"
proof (induction fuel arbitrary: cur acc db)
  case (Suc fuel)
  then show ?case by (auto split: bind_splits option.splits simp: Let_def)
qed simp

section \<open>What is read back\<close>

lemma consume_consume: "db_consume m (db_consume n db) = db_consume (n + m) db"
  by (simp add: db_consume_def)

lemma priority_at:
  assumes "db_inv db" "unread db = p # rest"
  shows "q_read_priority q db = Some (q\<lparr>q_priority_m := p\<rparr>, db_consume 1 db)"
proof -
  have "0 < readRemaining_m db" using length_unread [OF assms(1)] assms(2) by simp
  then show ?thesis
    using load_unread_0 [OF assms(1), of 1] addReadBytes_consume [of 1 db] assms(2)
    by (simp add: q_read_priority_def getReadBuffer_some)
qed

lemma string_option_at:
  assumes "db_inv db" "drop k (unread db) = s @ 0 # put_ulong 0 @ rest" "0 \<notin> set s" "length s < MAX_STRING_LEN"
  shows "q_read_string_option api q (readOffset_m db) (readRemaining_m db) k db =
    Some (True, q\<lparr>q_queryString_m := s, q_optionId_m := 0\<rparr>, db_consume (k + length s + 9) db)"
proof -
  have "length (drop k (unread db)) = length s + 9 + length rest" unfolding assms(2) by simp
  then have len: "k + length s + 9 \<le> readRemaining_m db" using assms(1) by (simp add: length_unread)
  have d: "drop (k + length s + 1) (unread db) = put_ulong 0 @ rest"
  proof -
    have "drop (Suc (length s)) (drop k (unread db)) = put_ulong 0 @ rest"
      unfolding assms(2) by simp
    then show ?thesis by (simp add: add.commute)
  qed
  have l: "load (readOffset_m db + (k + length s + 1)) 8 db = Some (put_ulong 0)"
    using load_at [OF assms(1) d, of 8] by simp
  have z: "get_ulong (put_ulong 0) = 0" by simp
  have o: "q\<lparr>q_queryString_m := s, q_optionId_m := 0, q_optionData_m := q_optionData_m q\<rparr> =
      q\<lparr>q_queryString_m := s, q_optionId_m := 0\<rparr>" by simp
  show ?thesis
    using string_at [OF assms] len l z addReadBytes_consume [OF len] o
    by (simp add: q_read_string_option_def Let_def add.assoc numeral_eq_Suc)
qed

text \<open>What a reader of the same type holds after reading a packet: identifiers modulo \<open>2 ^ 32\<close>, and
  the two short fields as the sign of the swapped short.\<close>

definition short_read :: "ushort \<Rightarrow> ushort" where
  "short_read x = (if bit x 7 then 65535 else 0)"

definition q_received :: "'o AlpineQueryPacket \<Rightarrow> 'o AlpineQueryPacket \<Rightarrow> 'o AlpineQueryPacket" where
  "q_received q r =
     (let r1 = r\<lparr>q_queryId_m := take_bit 32 (q_queryId_m q), q_optionId_m := 0, q_priority_m := q_priority_m q\<rparr> in
      if q_packetType_m q = queryDiscover then r1\<lparr>q_queryString_m := q_queryString_m q\<rparr>
      else if q_packetType_m q = queryOffer
        then r1\<lparr>q_numHits_m := take_bit 32 (q_numHits_m q), q_uploadSlots_m := short_read (q_uploadSlots_m q)\<rparr>
      else r1\<lparr>q_offset_m := take_bit 32 (q_offset_m q), q_replySetSize_m := short_read (q_replySetSize_m q),
              q_queryString_m := q_queryString_m q\<rparr>)"

text \<open>The packets whose bytes a reader accepts.\<close>

definition q_readable :: "'o AlpineQueryPacket \<Rightarrow> bool" where
  "q_readable q \<longleftrightarrow> length (q_queryString_m q) < MAX_STRING_LEN \<and>
     (q_packetType_m q = queryDiscover \<or>
      q_packetType_m q = queryOffer \<and> take_bit 32 (q_numHits_m q) \<le> MAX_HITS \<or>
      q_packetType_m q = queryRequest \<and> \<not> bit (q_replySetSize_m q) 7)"

lemma get_short_read: "get_short_ntohl (put_ushort x) = short_read x"
  by (simp add: get_short_put short_read_def)

lemma q_wire_discover:
  "q_packetType_m q = queryDiscover \<Longrightarrow> q_plain q \<Longrightarrow> q_wire q = put_ulong (q_queryId_m q) @
     q_queryString_m q @ 0 # put_ulong 0 @ [q_priority_m q]"
  by (simp add: q_wire_def q_plain_def strcpy_bytes_def)

lemma q_wire_request:
  "q_packetType_m q = queryRequest \<Longrightarrow> q_plain q \<Longrightarrow> q_wire q = put_ulong (q_queryId_m q) @
     put_ulong (q_offset_m q) @ put_ushort (q_replySetSize_m q) @
     q_queryString_m q @ 0 # put_ulong 0 @ [q_priority_m q]"
  by (simp add: q_wire_def q_plain_def strcpy_bytes_def)

lemma q_wire_offer:
  "q_packetType_m q = queryOffer \<Longrightarrow> q_plain q \<Longrightarrow> q_wire q = put_ulong (q_queryId_m q) @
     put_ulong (q_numHits_m q) @ put_ushort (q_uploadSlots_m q) @ put_ulong 0 @ [q_priority_m q]"
  by (simp add: q_wire_def q_plain_def)

lemma q_read_back:
  assumes "db_inv db" "unread db = q_wire q" "q_plain q" "q_readable q"
    and "q_packetType_m r = q_packetType_m q"
  shows "q_readData fuel api r db = Some (True, q_received q r, db_consume (length (q_wire q)) db)"
proof -
  have rem: "readRemaining_m db = length (q_wire q)" using length_unread [OF assms(1)] assms(2) by simp
  have s: "0 \<notin> set (q_queryString_m q)" "length (q_queryString_m q) < MAX_STRING_LEN"
    using assms(3,4) by (auto simp: q_plain_def q_readable_def)
  have id: "load (readOffset_m db + 0) 8 db = Some (put_ulong (q_queryId_m q))"
    using assms(2) by (intro load_at [OF assms(1)]) (auto simp: q_wire_def)
  have last: "unread (db_consume (length (q_wire_fields q)) db) = [q_priority_m q]"
    using assms(2) by (simp add: q_wire_split)
  have inv: "db_inv (db_consume (length (q_wire_fields q)) db)"
    using assms(1) rem by (intro db_inv_consume) (auto simp: q_wire_split)
  have fin: "q_read_priority x (db_consume (length (q_wire_fields q)) db) =
      Some (x\<lparr>q_priority_m := q_priority_m q\<rparr>, db_consume (length (q_wire q)) db)" for x :: "'a AlpineQueryPacket"
    using priority_at [OF inv last, of x] by (simp add: consume_consume q_wire_split)
  let ?r = "r\<lparr>q_queryId_m := take_bit 32 (q_queryId_m q)\<rparr>"
  have body: "q_read_body fuel api ?r (readOffset_m db) (readRemaining_m db) db =
      Some (True, (q_received q r)\<lparr>q_priority_m := q_priority_m r\<rparr>, db_consume (length (q_wire_fields q)) db) \<and>
    q_min_length (q_packetType_m q) \<le> readRemaining_m db"
  proof -
    consider (d) "q_packetType_m q = queryDiscover" | (o) "q_packetType_m q = queryOffer"
      | (q) "q_packetType_m q = queryRequest" using assms(4) by (auto simp: q_readable_def)
    then show ?thesis
    proof cases
      case d
      have w: "drop 8 (unread db) = q_queryString_m q @ 0 # put_ulong 0 @ [q_priority_m q]"
        using assms(2) q_wire_discover [OF d assms(3)] by simp
      have "length (q_wire_fields q) = 8 + length (q_queryString_m q) + 9"
        using q_wire_discover [OF d assms(3)] by (simp add: q_wire_fields_def butlast_append)
      with string_option_at [OF assms(1) w s, of api ?r] d assms(5) rem show ?thesis
        by (simp add: q_read_body_def q_received_def Let_def q_min_length_def q_wire_split)
    next
      case o
      have w: "unread db = put_ulong (q_queryId_m q) @ put_ulong (q_numHits_m q) @
          put_ushort (q_uploadSlots_m q) @ put_ulong 0 @ [q_priority_m q]"
        using assms(2) q_wire_offer [OF o assms(3)] by simp
      have l: "load (readOffset_m db + 8) 8 db = Some (put_ulong (q_numHits_m q))"
        "load (readOffset_m db + 16) 2 db = Some (put_ushort (q_uploadSlots_m q))"
        "load (readOffset_m db + 18) 8 db = Some (put_ulong 0)"
        by (rule load_at [OF assms(1)]; simp add: w)+
      have n: "length (q_wire_fields q) = 26"
        using q_wire_offer [OF o assms(3)] by (simp add: q_wire_fields_def butlast_append)
      have "\<not> MAX_HITS < take_bit 32 (q_numHits_m q)" using assms(4) o by (auto simp: q_readable_def)
      moreover have "snd (addReadBytes 26 db) = db_consume 26 db"
        using rem n by (simp add: addReadBytes_consume q_wire_split)
      ultimately show ?thesis using o assms(5) rem n l
        by (simp add: q_read_body_def q_read_offer_def q_received_def Let_def q_min_length_def q_wire_split
            get_short_read)
    next
      case q
      have w: "unread db = put_ulong (q_queryId_m q) @ put_ulong (q_offset_m q) @
          put_ushort (q_replySetSize_m q) @ q_queryString_m q @ 0 # put_ulong 0 @ [q_priority_m q]"
        using assms(2) q_wire_request [OF q assms(3)] by simp
      have l: "load (readOffset_m db + 8) 8 db = Some (put_ulong (q_offset_m q))"
        "load (readOffset_m db + 16) 2 db = Some (put_ushort (q_replySetSize_m q))"
        by (rule load_at [OF assms(1)]; simp add: w)+
      have w': "drop 18 (unread db) = q_queryString_m q @ 0 # put_ulong 0 @ [q_priority_m q]"
        by (simp add: w)
      have n: "length (q_wire_fields q) = 18 + length (q_queryString_m q) + 9"
        using q_wire_request [OF q assms(3)] by (simp add: q_wire_fields_def butlast_append)
      have "short_read (q_replySetSize_m q) = 0"
        using assms(4) q by (auto simp: q_readable_def short_read_def)
      with q assms(5) rem n l show ?thesis
        using string_option_at [OF assms(1) w' s, of api "r\<lparr>q_queryId_m := take_bit 32 (q_queryId_m q),
            q_offset_m := take_bit 32 (q_offset_m q), q_replySetSize_m := 0\<rparr>"]
        by (simp add: q_read_body_def q_read_request_def q_received_def Let_def q_min_length_def q_wire_split
            get_short_read MAX_REPLY_SET_SIZE_def)
    qed
  qed
  have "(q_received q r)\<lparr>q_priority_m := q_priority_m r\<rparr>\<lparr>q_priority_m := q_priority_m q\<rparr> = q_received q r"
    by (simp add: q_received_def Let_def)
  moreover have "0 < readRemaining_m db" using rem by (simp add: q_wire_def)
  ultimately show ?thesis
    using id body fin assms(5) by (simp add: q_readData_def getReadBuffer_some)
qed

lemma fresh_write_read:
  "length w \<le> n \<Longrightarrow> db_inv (readReset (db_append w (DataBuffer_new n))) \<and>
     unread (readReset (db_append w (DataBuffer_new n))) = w"
  by (simp add: db_append_def DataBuffer_new_def readReset_def unread_def overwrite_def db_inv_def)

section \<open>Properties\<close>


definition demo_api :: "unit option_api" where
  "demo_api = \<lparr>opt_id = \<lambda>_. 0, opt_len = \<lambda>_. 0, opt_write = \<lambda>_ db. Some (True, db),
              opt_read = \<lambda>u db. Some (True, u, db), opt_ext = \<lambda>_. None\<rparr>"

definition demo_query :: "unit AlpineQueryPacket" where
  "demo_query = AlpineQueryPacket_new\<lparr>q_packetType_m := queryOffer, q_queryId_m := 7, q_numHits_m := 3,
                 q_uploadSlots_m := 200\<rparr>"



text \<open>An extension of one byte, under the id 5.\<close>

definition byte_api :: "byte option_api" where
  "byte_api = \<lparr>opt_id = \<lambda>_. 5, opt_len = \<lambda>_. 1, opt_write = \<lambda>_ db. Some (True, db),
     opt_read = \<lambda>x db. (if readRemaining_m db = 0 then Some (False, x, db)
       else map_option (\<lambda>bs. (True, hd bs, snd (addReadBytes 1 db))) (load (readOffset_m db) 1 db)),
     opt_ext = \<lambda>i. if i = 5 then Some 0 else None\<rparr>"

lemma byte_api_safe: "option_safe byte_api"
proof -
  have "\<exists>st x' db'. opt_read byte_api x db = Some (st, x', db') \<and> db_inv db' \<and> readRemaining_m db' \<le> readRemaining_m db" if "db_inv db" for x db
    using that load_unread_0 [OF that, of 1] addReadBytes_consume [of 1 db] db_inv_consume [OF that, of 1]
    by (cases "readRemaining_m db") (auto simp: byte_api_def db_consume_def)
  then show ?thesis by (simp add: option_safe_def)
qed


text \<open>No query reply is ever accepted: whatever the bytes, the extensions and the fuel, \<open>readData\<close>
  of a packet of type \<open>queryReply\<close> does not return true, because its set size is read through
  \<open>ntohl\<close> of a short and is 0 or 65535.\<close>

lemma query_reply_never_accepted:
  assumes "q_packetType_m q = queryReply"
  shows "q_readData fuel api q db \<noteq> Some (True, q', db')"
proof -
  have "q_read_reply fuel api r buf d \<noteq> Some (True, x, y)" for r :: "'a AlpineQueryPacket" and buf d x y
  proof -
    have "get_short_ntohl u = 0" if "\<not> MAX_REPLY_SET_SIZE < get_short_ntohl u" for u
      using that by (auto simp: get_short_ntohl_sign MAX_REPLY_SET_SIZE_def split: if_splits)
    moreover have "readResourceListData fuel api p e \<noteq> Some (True, x, y)"
      if "q_replySetSize_m p = 0" for p :: "'a AlpineQueryPacket" and e
      using that read_descs_zero [of fuel api AlpineResourceDesc_new "[]" e]
      by (auto simp: readResourceListData_def Let_def split: bind_splits if_splits)
    ultimately show ?thesis
      by (auto simp: q_read_reply_def Let_def split: bind_splits if_splits)
  qed
  with assms show ?thesis
    by (auto simp: q_readData_def q_read_body_def split: option.splits bind_splits if_splits)
qed

lemma query_reply_never_accepted_witness:
  "\<forall>q' db'. q_readData 100 demo_api (AlpineQueryPacket_new\<lparr>q_packetType_m := queryReply\<rparr>)
     (DataBuffer_of (replicate 64 0)) \<noteq> Some (True, q', db')"
  using query_reply_never_accepted [of "AlpineQueryPacket_new\<lparr>q_packetType_m := queryReply\<rparr>" 100 demo_api] by simp

text \<open>A query packet whose type was never set (or whose \<open>setPacketType\<close> refused the received type,
  which callers ignore) is read and written without a length check: with one to seven bytes left the
  access to the query identifier leaves the buffer.\<close>

lemma query_untyped_overrun:
  assumes "q_packetType_m q \<notin> {queryDiscover, queryOffer, queryRequest, queryReply}"
    and "0 < length bs" and "length bs < 8"
  shows "q_readData fuel api q (DataBuffer_of bs) = None \<and>
    q_writeData api parent q (DataBuffer_new (length bs)) = None \<and>
    (\<forall>t. t \<notin> {queryDiscover, queryOffer, queryRequest, queryReply} \<longrightarrow> snd (q_setPacketType t q) = q)"
  using assms
  by (auto simp: q_readData_def q_writeData_def q_min_length_def q_write_length_def getReadBuffer_def
      getWriteBuffer_def DataBuffer_of_def DataBuffer_new_def load_def store_def q_setPacketType_def Let_def)

lemma query_untyped_overrun_witness:
  "q_readData 9 demo_api AlpineQueryPacket_new (DataBuffer_of [1, 2, 3]) = None"
  using query_untyped_overrun [of "AlpineQueryPacket_new :: unit AlpineQueryPacket" "[1, 2, 3]" 9 demo_api]
  by (simp add: AlpineQueryPacket_new_def)

end
