(* ===== verification/AlpinePeerPacket.thy ===== *)
theory AlpinePeerPacket
  imports AlpineTypes
begin

text \<open>
  protocols/Alpine/AlpinePeerPacket.cpp and AlpineProxyPacket.cpp, with AlpinePeerLocation.cpp: the
  peer list messages (request, offer, get, data) and the proxy messages. Conventions as for the query
  packet: \<open>api\<close> is the extension interface, \<open>None\<close> a memory fault, and otherwise the status with the
  packet and the buffer.
\<close>

section \<open>Peer locations\<close>

record 'o AlpinePeerLocation =
  pl_ipAddress_m :: ulong
  pl_port_m :: ushort
  pl_optionId_m :: ulong
  pl_optionData_m :: "'o option"

definition AlpinePeerLocation_new :: "'o AlpinePeerLocation" where
  "AlpinePeerLocation_new = \<lparr>pl_ipAddress_m = 0, pl_port_m = 0, pl_optionId_m = 0, pl_optionData_m = None\<rparr>"

definition pl_setOptionId :: "ulong \<Rightarrow> 'o AlpinePeerLocation \<Rightarrow> bool \<times> 'o AlpinePeerLocation" where
  "pl_setOptionId optionId l = (if optionId \<noteq> 0 then (False, l) else (True, l\<lparr>pl_optionId_m := optionId\<rparr>))"

definition pl_setOptionData :: "'o option_api \<Rightarrow> 'o \<Rightarrow> 'o AlpinePeerLocation \<Rightarrow> 'o AlpinePeerLocation" where
  "pl_setOptionData api opt l = l\<lparr>pl_optionId_m := opt_id api opt, pl_optionData_m := Some opt\<rparr>"

definition pl_getOptionData :: "'o AlpinePeerLocation \<Rightarrow> 'o option" where
  "pl_getOptionData l = (if pl_optionId_m l = 0 \<or> pl_optionData_m l = None then None else pl_optionData_m l)"

section \<open>The peer packet\<close>

record 'o AlpinePeerPacket =
  pp_packetType_m :: alpine_type
  pp_optionId_m :: ulong
  pp_optionData_m :: "'o option"
  pp_numPeersAvailable_m :: ulong
  pp_offerId_m :: ulong
  pp_offset_m :: ulong
  pp_setSize_m :: ushort
  pp_peerLocationList_m :: "'o AlpinePeerLocation list option"

definition AlpinePeerPacket_new :: "'o AlpinePeerPacket" where
  "AlpinePeerPacket_new = \<lparr>pp_packetType_m = a_none, pp_optionId_m = 0, pp_optionData_m = None,
     pp_numPeersAvailable_m = 0, pp_offerId_m = 0, pp_offset_m = 0, pp_setSize_m = 0,
     pp_peerLocationList_m = None\<rparr>"

definition pp_setPacketType :: "alpine_type \<Rightarrow> 'o AlpinePeerPacket \<Rightarrow> bool \<times> 'o AlpinePeerPacket" where
  "pp_setPacketType t p =
     (if t \<noteq> peerListRequest \<and> t \<noteq> peerListOffer \<and> t \<noteq> peerListGet \<and> t \<noteq> peerListData then (False, p)
      else (True, p\<lparr>pp_packetType_m := t\<rparr>))"

definition pp_setOptionId :: "ulong \<Rightarrow> 'o AlpinePeerPacket \<Rightarrow> bool \<times> 'o AlpinePeerPacket" where
  "pp_setOptionId optionId p = (if optionId \<noteq> 0 then (False, p) else (True, p\<lparr>pp_optionId_m := optionId\<rparr>))"

definition pp_setOptionData :: "'o option_api \<Rightarrow> 'o \<Rightarrow> 'o AlpinePeerPacket \<Rightarrow> bool \<times> 'o AlpinePeerPacket" where
  "pp_setOptionData api opt p = (True, p\<lparr>pp_optionId_m := opt_id api opt, pp_optionData_m := Some opt\<rparr>)"

definition pp_setPeersAvailable :: "ulong \<Rightarrow> 'o AlpinePeerPacket \<Rightarrow> bool \<times> 'o AlpinePeerPacket" where
  "pp_setPeersAvailable numAvailable p = (True, p\<lparr>pp_numPeersAvailable_m := numAvailable\<rparr>)"

definition pp_getPeersAvailable :: "'o AlpinePeerPacket \<Rightarrow> ulong" where
  "pp_getPeersAvailable p = pp_numPeersAvailable_m p"

definition pp_setOfferId :: "ulong \<Rightarrow> 'o AlpinePeerPacket \<Rightarrow> bool \<times> 'o AlpinePeerPacket" where
  "pp_setOfferId offerId p = (True, p\<lparr>pp_offerId_m := offerId\<rparr>)"

definition pp_getOfferId :: "'o AlpinePeerPacket \<Rightarrow> ulong" where
  "pp_getOfferId p = pp_offerId_m p"

definition pp_setOffset :: "ulong \<Rightarrow> 'o AlpinePeerPacket \<Rightarrow> bool \<times> 'o AlpinePeerPacket" where
  "pp_setOffset offset p = (True, p\<lparr>pp_offset_m := offset\<rparr>)"

definition pp_getOffset :: "'o AlpinePeerPacket \<Rightarrow> ulong" where
  "pp_getOffset p = pp_offset_m p"

definition pp_setReplySetSize :: "ushort \<Rightarrow> 'o AlpinePeerPacket \<Rightarrow> bool \<times> 'o AlpinePeerPacket" where
  "pp_setReplySetSize setSize p = (True, p\<lparr>pp_setSize_m := setSize\<rparr>)"

definition pp_getReplySetSize :: "'o AlpinePeerPacket \<Rightarrow> ushort" where
  "pp_getReplySetSize p = pp_setSize_m p"

definition pp_setPeerLocationList :: "'o AlpinePeerLocation list \<Rightarrow> 'o AlpinePeerPacket \<Rightarrow>
    bool \<times> 'o AlpinePeerPacket" where
  "pp_setPeerLocationList ls p = (True, p\<lparr>pp_peerLocationList_m := Some ls\<rparr>)"

definition pp_getPeerLocationList :: "'o AlpinePeerPacket \<Rightarrow> 'o AlpinePeerLocation list option" where
  "pp_getPeerLocationList p = pp_peerLocationList_m p"

text \<open>The list size; the option pointer of a location that has none is used uninitialised.\<close>

primrec calculatePeerListSize :: "'o option_api \<Rightarrow> 'o AlpinePeerLocation list \<Rightarrow> nat option" where
  "calculatePeerListSize api [] = Some 0"
| "calculatePeerListSize api (l # ls) = do {
     optLen \<leftarrow> (if pl_optionId_m l \<noteq> 0 then map_option (opt_len api) (pl_getOptionData l) else Some 0);
     rest \<leftarrow> calculatePeerListSize api ls;
     Some (8 + 2 + 8 + optLen + rest)
   }"

text \<open>One turn of the loop of \<open>writePeerListData\<close>: no bounds are checked here.\<close>

definition write_location :: "'o option_api \<Rightarrow> 'o AlpinePeerLocation \<Rightarrow> DataBuffer \<Rightarrow>
    (bool \<times> DataBuffer) option" where
  "write_location api l db = (case getWriteBuffer db of
       None \<Rightarrow> Some (False, db)
     | Some (buf, bufferSize) \<Rightarrow> do {
         db1 \<leftarrow> store buf (put_ulong (pl_ipAddress_m l)) db;
         db2 \<leftarrow> store (buf + 8) (put_ushort (pl_port_m l)) db1;
         db3 \<leftarrow> store (buf + 10) (put_ulong (pl_optionId_m l)) db2;
         let db4 = snd (addWriteBytes 18 db3);
         if pl_optionId_m l \<noteq> 0
         then (case pl_getOptionData l of None \<Rightarrow> None | Some opt \<Rightarrow> opt_write api opt db4)
         else Some (True, db4)
       })"

primrec write_locations :: "'o option_api \<Rightarrow> 'o AlpinePeerLocation list \<Rightarrow> DataBuffer \<Rightarrow>
    (bool \<times> DataBuffer) option" where
  "write_locations api [] db = Some (True, db)"
| "write_locations api (l # ls) db = do {
     (status, db1) \<leftarrow> write_location api l db;
     if \<not> status then Some (False, db1) else write_locations api ls db1
   }"

definition writePeerListData :: "'o option_api \<Rightarrow> 'o AlpinePeerPacket \<Rightarrow> DataBuffer \<Rightarrow>
    (bool \<times> DataBuffer) option" where
  "writePeerListData api p db = (case pp_peerLocationList_m p of
       None \<Rightarrow> Some (False, db)
     | Some ls \<Rightarrow> if ls = [] then Some (False, db) else write_locations api ls db)"

definition pp_write_length :: "'o option_api \<Rightarrow> 'o AlpinePeerPacket \<Rightarrow> nat option option" where
  "pp_write_length api p =
     (let opt = option_length api (pp_optionId_m p) (pp_optionData_m p) in
      if pp_packetType_m p = peerListRequest then Some (Some (8 + opt))
      else if pp_packetType_m p = peerListOffer then Some (Some (8 + 8 + 8 + opt))
      else if pp_packetType_m p = peerListGet then Some (Some (8 + 8 + 2))
      else if pp_packetType_m p = peerListData then
        (case pp_peerLocationList_m p of
           None \<Rightarrow> Some None
         | Some ls \<Rightarrow> map_option (\<lambda>n. Some (n + 8 + 2)) (calculatePeerListSize api ls))
      else Some (Some 0))"

definition pp_write_body :: "'o option_api \<Rightarrow> 'o AlpinePeerPacket \<Rightarrow> nat \<Rightarrow> DataBuffer \<Rightarrow>
    (bool \<times> DataBuffer) option" where
  "pp_write_body api p buf db =
     (if pp_packetType_m p = peerListRequest then do {
        db1 \<leftarrow> store buf (put_ulong (pp_optionId_m p)) db;
        write_option api (pp_optionId_m p) (pp_optionData_m p) (snd (addWriteBytes 8 db1))
      }
      else if pp_packetType_m p = peerListOffer then do {
        db1 \<leftarrow> store buf (put_ulong (pp_numPeersAvailable_m p)) db;
        db2 \<leftarrow> store (buf + 8) (put_ulong (pp_offerId_m p)) db1;
        db3 \<leftarrow> store (buf + 16) (put_ulong (pp_optionId_m p)) db2;
        write_option api (pp_optionId_m p) (pp_optionData_m p) (snd (addWriteBytes 24 db3))
      }
      else if pp_packetType_m p = peerListGet then do {
        db1 \<leftarrow> store buf (put_ulong (pp_offerId_m p)) db;
        db2 \<leftarrow> store (buf + 8) (put_ulong (pp_offset_m p)) db1;
        db3 \<leftarrow> store (buf + 16) (put_ushort (pp_setSize_m p)) db2;
        Some (True, snd (addWriteBytes 18 db3))
      }
      else if pp_packetType_m p = peerListData then do {
        db1 \<leftarrow> store buf (put_ulong (pp_offerId_m p)) db;
        db2 \<leftarrow> store (buf + 8) (put_ushort (pp_setSize_m p)) db1;
        writePeerListData api p (snd (addWriteBytes 10 db2))
      }
      else Some (True, db))"

definition pp_writeData :: "'o option_api \<Rightarrow> parent_write \<Rightarrow> 'o AlpinePeerPacket \<Rightarrow> DataBuffer \<Rightarrow>
    (bool \<times> DataBuffer) option" where
  "pp_writeData api parent p db = (case getWriteBuffer db of
       None \<Rightarrow> Some (False, db)
     | Some (buf, bufferSize) \<Rightarrow> do {
         len \<leftarrow> pp_write_length api p;
         case len of
           None \<Rightarrow> Some (False, db)
         | Some writeLength \<Rightarrow>
             if bufferSize < writeLength then Some (False, db)
             else do {
               (status, db1) \<leftarrow> pp_write_body api p buf db;
               if \<not> status then Some (False, db1) else call_parent_write parent db1
             }
       })"

text \<open>One turn of the loop of \<open>readPeerListData\<close>.\<close>

definition read_location :: "'o option_api \<Rightarrow> 'o AlpinePeerLocation \<Rightarrow> DataBuffer \<Rightarrow>
    ('o AlpinePeerLocation option \<times> DataBuffer) option" where
  "read_location api cur db = (case getReadBuffer db of
       None \<Rightarrow> Some (None, db)
     | Some (buf, bufferSize) \<Rightarrow>
         if 8 > bufferSize then Some (None, db)
         else do {
           ip \<leftarrow> load buf 8 db;
           if 10 > bufferSize then Some (None, db)
           else do {
             port \<leftarrow> load (buf + 8) 2 db;
             if 18 > bufferSize then Some (None, db)
             else do {
               o8 \<leftarrow> load (buf + 10) 8 db;
               let optionId = get_ulong o8;
               let l0 = cur\<lparr>pl_ipAddress_m := get_ulong ip, pl_port_m := get_ushort port\<rparr>;
               let l1 = (if optionId = 0 then snd (pl_setOptionId optionId l0) else l0);
               let db1 = snd (addReadBytes 18 db);
               if optionId = 0 then Some (Some l1, db1)
               else (case opt_ext api optionId of
                   None \<Rightarrow> Some (None, db1)
                 | Some opt0 \<Rightarrow> do {
                     (status, opt, db2) \<leftarrow> opt_read api opt0 db1;
                     if \<not> status then Some (None, db2)
                     else Some (Some (pl_setOptionData api opt l1), db2)
                   })
             }
           }
         })"

fun read_locations :: "nat \<Rightarrow> 'o option_api \<Rightarrow> nat \<Rightarrow> 'o AlpinePeerLocation \<Rightarrow> 'o AlpinePeerLocation list \<Rightarrow>
    DataBuffer \<Rightarrow> (bool \<times> 'o AlpinePeerLocation list \<times> DataBuffer) option" where
  "read_locations 0 api want cur acc db = None"
| "read_locations (Suc fuel) api want cur acc db = do {
     (l, db1) \<leftarrow> read_location api cur db;
     case l of
       None \<Rightarrow> Some (False, acc, db1)
     | Some loc \<Rightarrow>
         let acc1 = acc @ [loc] in
         if length acc1 = want then Some (True, acc1, db1)
         else read_locations fuel api want loc acc1 db1
   }"

definition readPeerListData :: "nat \<Rightarrow> 'o option_api \<Rightarrow> 'o AlpinePeerPacket \<Rightarrow> DataBuffer \<Rightarrow>
    (bool \<times> 'o AlpinePeerPacket \<times> DataBuffer) option" where
  "readPeerListData fuel api p db = do {
     (status, ls, db1) \<leftarrow> read_locations fuel api (unat (pp_setSize_m p)) AlpinePeerLocation_new [] db;
     let p1 = p\<lparr>pp_peerLocationList_m := Some ls\<rparr>;
     if \<not> status then Some (False, p1, db1)
     else if length ls \<noteq> unat (pp_setSize_m p) then Some (False, p1, db1)
     else Some (True, p1, db1)
   }"

definition pp_min_length :: "alpine_type \<Rightarrow> nat" where
  "pp_min_length t = (if t = peerListRequest then 8
     else if t = peerListOffer then 8 + 8 + 8
     else if t = peerListGet then 8 + 8 + 2
     else if t = peerListData then 8 + 2
     else 0)"

text \<open>A data message whose reader has no list yet creates one and fails.\<close>

definition pp_read_data :: "nat \<Rightarrow> 'o option_api \<Rightarrow> 'o AlpinePeerPacket \<Rightarrow> nat \<Rightarrow> DataBuffer \<Rightarrow>
    (bool \<times> 'o AlpinePeerPacket \<times> DataBuffer) option" where
  "pp_read_data fuel api p buf db = do {
     w \<leftarrow> load buf 8 db;
     u \<leftarrow> load (buf + 8) 2 db;
     let p1 = p\<lparr>pp_offerId_m := get_ulong w, pp_setSize_m := get_ushort u\<rparr>;
     let db1 = snd (addReadBytes 10 db);
     if pp_peerLocationList_m p1 = None then Some (False, p1\<lparr>pp_peerLocationList_m := Some []\<rparr>, db1)
     else readPeerListData fuel api p1 db1
   }"

definition pp_readData :: "nat \<Rightarrow> 'o option_api \<Rightarrow> 'o AlpinePeerPacket \<Rightarrow> DataBuffer \<Rightarrow>
    (bool \<times> 'o AlpinePeerPacket \<times> DataBuffer) option" where
  "pp_readData fuel api p db = (case getReadBuffer db of
       None \<Rightarrow> Some (False, p, db)
     | Some (buf, bufferSize) \<Rightarrow>
         if bufferSize < pp_min_length (pp_packetType_m p) then Some (False, p, db)
         else if pp_packetType_m p = peerListRequest then do {
           w \<leftarrow> load buf 8 db;
           (status, od, db1) \<leftarrow> read_option api (get_ulong w) (pp_optionData_m p) (snd (addReadBytes 8 db));
           Some (status, p\<lparr>pp_optionId_m := get_ulong w, pp_optionData_m := od\<rparr>, db1)
         }
         else if pp_packetType_m p = peerListOffer then do {
           n \<leftarrow> load buf 8 db;
           i \<leftarrow> load (buf + 8) 8 db;
           w \<leftarrow> load (buf + 16) 8 db;
           (status, od, db1) \<leftarrow> read_option api (get_ulong w) (pp_optionData_m p) (snd (addReadBytes 24 db));
           Some (status, p\<lparr>pp_numPeersAvailable_m := get_ulong n, pp_offerId_m := get_ulong i,
                           pp_optionId_m := get_ulong w, pp_optionData_m := od\<rparr>, db1)
         }
         else if pp_packetType_m p = peerListGet then do {
           i \<leftarrow> load buf 8 db;
           f \<leftarrow> load (buf + 8) 8 db;
           u \<leftarrow> load (buf + 16) 2 db;
           Some (True, p\<lparr>pp_offerId_m := get_ulong i, pp_offset_m := get_ulong f,
                         pp_setSize_m := get_ushort u\<rparr>, snd (addReadBytes 18 db))
         }
         else if pp_packetType_m p = peerListData then pp_read_data fuel api p buf db
         else Some (True, p, db))"

section \<open>The proxy packet\<close>

record 'o AlpineProxyPacket =
  px_packetType_m :: alpine_type
  px_optionId_m :: ulong
  px_optionData_m :: "'o option"

definition AlpineProxyPacket_new :: "'o AlpineProxyPacket" where
  "AlpineProxyPacket_new = \<lparr>px_packetType_m = a_none, px_optionId_m = 0, px_optionData_m = None\<rparr>"

definition px_setPacketType :: "alpine_type \<Rightarrow> 'o AlpineProxyPacket \<Rightarrow> bool \<times> 'o AlpineProxyPacket" where
  "px_setPacketType t p =
     (if t \<noteq> proxyRequest \<and> t \<noteq> proxyAccepted \<and> t \<noteq> proxyHalt then (False, p)
      else (True, p\<lparr>px_packetType_m := t\<rparr>))"

definition px_setOptionId :: "ulong \<Rightarrow> 'o AlpineProxyPacket \<Rightarrow> bool \<times> 'o AlpineProxyPacket" where
  "px_setOptionId optionId p = (if optionId \<noteq> 0 then (False, p) else (True, p\<lparr>px_optionId_m := optionId\<rparr>))"

definition px_setOptionData :: "'o option_api \<Rightarrow> 'o \<Rightarrow> 'o AlpineProxyPacket \<Rightarrow> bool \<times> 'o AlpineProxyPacket" where
  "px_setOptionData api opt p = (True, p\<lparr>px_optionId_m := opt_id api opt, px_optionData_m := Some opt\<rparr>)"

text \<open>The cursor advances over the option's bytes before the option writes them.\<close>

definition px_writeData :: "'o option_api \<Rightarrow> parent_write \<Rightarrow> 'o AlpineProxyPacket \<Rightarrow> DataBuffer \<Rightarrow>
    (bool \<times> DataBuffer) option" where
  "px_writeData api parent p db =
     (if px_packetType_m p = proxyHalt then Some (True, db)
      else case getWriteBuffer db of
        None \<Rightarrow> Some (False, db)
      | Some (buf, bufferSize) \<Rightarrow>
          let writeLength = 8 + option_length api (px_optionId_m p) (px_optionData_m p) in
          if bufferSize < writeLength then Some (False, db)
          else do {
            db1 \<leftarrow> store buf (put_ulong (px_optionId_m p)) db;
            (status, db2) \<leftarrow>
              write_option api (px_optionId_m p) (px_optionData_m p) (snd (addWriteBytes writeLength db1));
            if \<not> status then Some (False, db2) else call_parent_write parent db2
          })"

definition px_readData :: "'o option_api \<Rightarrow> 'o AlpineProxyPacket \<Rightarrow> DataBuffer \<Rightarrow>
    (bool \<times> 'o AlpineProxyPacket \<times> DataBuffer) option" where
  "px_readData api p db =
     (if px_packetType_m p = proxyHalt then Some (True, p, db)
      else case getReadBuffer db of
        None \<Rightarrow> Some (False, p, db)
      | Some (buf, bufferSize) \<Rightarrow>
          if bufferSize < 8 then Some (False, p, db)
          else do {
            w \<leftarrow> load buf 8 db;
            (status, od, db1) \<leftarrow> read_option api (get_ulong w) (px_optionData_m p) (snd (addReadBytes 8 db));
            Some (status, p\<lparr>px_optionId_m := get_ulong w, px_optionData_m := od\<rparr>, db1)
          })"

section \<open>Peer lists on the wire\<close>

definition loc_wire :: "'o AlpinePeerLocation \<Rightarrow> byte list" where
  "loc_wire l = put_ulong (pl_ipAddress_m l) @ put_ushort (pl_port_m l) @ put_ulong (pl_optionId_m l)"

lemma length_loc_wire [simp]: "length (loc_wire l) = 18"
  by (simp add: loc_wire_def)

lemma length_locs_wire [simp]: "length (concat (map loc_wire ls)) = 18 * length ls"
  by (induction ls) auto

lemma write_location_room:
  assumes "db_inv db" "pl_optionId_m l = 0" "18 \<le> writeRemaining_m db"
  shows "write_location api l db = Some (True, db_append (loc_wire l) db)"
proof -
  have "write_location api l db = store (writeOffset_m db) (loc_wire l) db \<bind>
      (\<lambda>d. Some (True, snd (addWriteBytes 18 d)))"
    using assms by (simp add: write_location_def getWriteBuffer_some Let_def store_fuse loc_wire_def)
  also have "\<dots> = Some (True, db_append (loc_wire l) db)"
    using assms by (intro store_advance [where k = "\<lambda>d. Some (True, d)"]) auto
  finally show ?thesis .
qed

lemma write_locations_room:
  assumes "db_inv db" "\<forall>l\<in>set ls. pl_optionId_m l = 0" "18 * length ls \<le> writeRemaining_m db"
  shows "write_locations api ls db = Some (True, db_append (concat (map loc_wire ls)) db)"
  using assms
proof (induction ls arbitrary: db)
  case Nil
  then show ?case by (simp add: db_append_def overwrite_def)
next
  case (Cons l ls)
  let ?db = "db_append (loc_wire l) db"
  have "write_location api l db = Some (True, ?db)" using Cons.prems by (intro write_location_room) auto
  moreover have "db_inv ?db" "writeRemaining_m ?db = writeRemaining_m db - 18"
    using sink.ok_append [of db "loc_wire l"] sink.room_append [of db "loc_wire l"] Cons.prems by auto
  ultimately show ?case using Cons by (simp add: db_append_two)
qed

lemma calculate_plain_list:
  "\<forall>l\<in>set ls. pl_optionId_m l = 0 \<Longrightarrow> calculatePeerListSize api ls = Some (18 * length ls)"
  by (induction ls) auto

definition data_wire :: "'o AlpinePeerPacket \<Rightarrow> 'o AlpinePeerLocation list \<Rightarrow> byte list" where
  "data_wire p ls = put_ulong (pp_offerId_m p) @ put_ushort (pp_setSize_m p) @ concat (map loc_wire ls)"

lemma pp_write_data_room:
  assumes "db_inv db" "pp_packetType_m p = peerListData" "pp_peerLocationList_m p = Some ls" "ls \<noteq> []"
    and "\<forall>l\<in>set ls. pl_optionId_m l = 0" "10 + 18 * length ls \<le> writeRemaining_m db"
  shows "pp_writeData api None p db = Some (True, db_append (data_wire p ls) db)"
proof -
  let ?h = "put_ulong (pp_offerId_m p) @ put_ushort (pp_setSize_m p)"
  let ?db = "db_append ?h db"
  let ?k = "\<lambda>d. write_locations api ls d \<bind> (\<lambda>(status, db1).
      if \<not> status then Some (False, db1) else call_parent_write None db1)"
  have h: "db_inv ?db" "writeRemaining_m ?db = writeRemaining_m db - 10"
    using sink.ok_append [OF assms(1), of ?h] sink.room_append [OF assms(1), of ?h] assms(6) by auto
  have "pp_writeData api None p db =
      store (writeOffset_m db) ?h db \<bind> (\<lambda>d. ?k (snd (addWriteBytes 10 d)))"
    using assms by (simp add: pp_writeData_def getWriteBuffer_some pp_write_length_def calculate_plain_list
        pp_write_body_def store_fuse writePeerListData_def)
  also have "\<dots> = ?k ?db" using assms(1,6) by (intro store_advance [where k = ?k]) auto
  also have "\<dots> = Some (True, db_append (concat (map loc_wire ls)) ?db)"
    using write_locations_room [OF h(1) assms(5), of api] h(2) assms(6) by (simp add: call_parent_write_def)
  finally show ?thesis using assms(1,6) by (simp add: data_wire_def db_append_two)
qed

text \<open>What a reader holds of a location: the address modulo \<open>2 ^ 32\<close>, the port, no option.\<close>

definition loc_received :: "'o AlpinePeerLocation \<Rightarrow> 'o AlpinePeerLocation" where
  "loc_received l = AlpinePeerLocation_new\<lparr>pl_ipAddress_m := take_bit 32 (pl_ipAddress_m l), pl_port_m := pl_port_m l\<rparr>"

lemma read_location_at:
  assumes "db_inv db" "unread db = loc_wire l @ rest" "pl_optionId_m l = 0"
    and "pl_optionId_m cur = 0" "pl_optionData_m cur = None"
  shows "read_location api cur db = Some (Some (loc_received l), db_consume 18 db)"
proof -
  have rem: "18 \<le> readRemaining_m db" using length_unread [OF assms(1)] assms(2) by simp
  have "load (readOffset_m db + 0) 8 db = Some (put_ulong (pl_ipAddress_m l))"
    "load (readOffset_m db + 8) 2 db = Some (put_ushort (pl_port_m l))"
    "load (readOffset_m db + 10) 8 db = Some (put_ulong (pl_optionId_m l))"
    by (rule load_at [OF assms(1)]; simp add: assms(2) loc_wire_def)+
  with rem assms(3-) show ?thesis
    by (simp add: read_location_def getReadBuffer_some Let_def addReadBytes_consume pl_setOptionId_def
        loc_received_def AlpinePeerLocation_new_def)
qed

lemma read_locations_at:
  assumes "db_inv db" "unread db = concat (map loc_wire ls) @ rest" "\<forall>l\<in>set ls. pl_optionId_m l = 0"
    and "ls \<noteq> []" "want = length acc + length ls" "length ls \<le> fuel"
    and "pl_optionId_m cur = 0" "pl_optionData_m cur = None"
  shows "read_locations fuel api want cur acc db =
    Some (True, acc @ map loc_received ls, db_consume (18 * length ls) db)"
  using assms
proof (induction ls arbitrary: fuel cur acc db)
  case Nil
  then show ?case by simp
next
  case (Cons l ls)
  obtain f where f: "fuel = Suc f" using Cons.prems(6) by (cases fuel) auto
  have r: "read_location api cur db = Some (Some (loc_received l), db_consume 18 db)"
    using Cons.prems by (intro read_location_at [where rest = "concat (map loc_wire ls) @ rest"]) auto
  have "18 \<le> readRemaining_m db" using length_unread [OF Cons.prems(1)] Cons.prems(2) by simp
  then have inv: "db_inv (db_consume 18 db)" using Cons.prems(1) by (rule db_inv_consume [rotated])
  have new: "pl_optionId_m (loc_received l) = 0" "pl_optionData_m (loc_received l) = None"
    by (simp_all add: loc_received_def AlpinePeerLocation_new_def)
  show ?case
  proof (cases ls)
    case Nil
    with Cons.prems f r show ?thesis by (simp add: Let_def)
  next
    case (Cons l' ls')
    have "read_locations f api want (loc_received l) (acc @ [loc_received l]) (db_consume 18 db) =
        Some (True, (acc @ [loc_received l]) @ map loc_received ls, db_consume (18 * length ls) (db_consume 18 db))"
      using Cons.prems f inv new Cons
      by (intro Cons.IH) auto
    with Cons.prems f r Cons show ?thesis by (simp add: Let_def db_consume_def)
  qed
qed

section \<open>Memory safety of the read path\<close>

lemma read_location_safe:
  assumes "db_inv db" "\<forall>i. opt_ext api i = None"
  shows "\<exists>x db'. read_location api cur db = Some (x, db') \<and> db_inv db' \<and>
    (x \<noteq> None \<longrightarrow> readRemaining_m db' < readRemaining_m db)"
  using assms load_unread_0 [OF assms(1), of 8] load_unread [OF assms(1), of 8 2]
    load_unread [OF assms(1), of 10 8] addReadBytes_consume [of 18 db] db_inv_consume [OF assms(1), of 18]
  by (cases "readRemaining_m db < 8"; cases "readRemaining_m db < 10"; cases "readRemaining_m db < 18")
    (auto simp: read_location_def getReadBuffer_def Let_def db_consume_def)

lemma read_locations_safe:
  assumes "db_inv db" "\<forall>i. opt_ext api i = None" "readRemaining_m db < fuel"
  shows "\<exists>st ls db'. read_locations fuel api want cur acc db = Some (st, ls, db') \<and> db_inv db'"
  using assms(1,3)
proof (induction fuel arbitrary: cur acc db)
  case 0
  then show ?case by simp
next
  case (Suc fuel)
  obtain x db1 where x: "read_location api cur db = Some (x, db1)" "db_inv db1"
    "x \<noteq> None \<Longrightarrow> readRemaining_m db1 < readRemaining_m db"
    using read_location_safe [OF Suc.prems(1) assms(2)] by blast
  show ?case
  proof (cases x)
    case None
    with x show ?thesis by simp
  next
    case (Some l)
    with x Suc.prems have "readRemaining_m db1 < fuel" by simp
    with Suc.IH [OF x(2) this] x Some show ?thesis by (simp add: Let_def)
  qed
qed

lemma pp_read_data_safe:
  assumes "db_inv db" "\<forall>i. opt_ext api i = None" "readRemaining_m db < fuel" "10 \<le> readRemaining_m db"
  shows "\<exists>st p' db'. pp_read_data fuel api p (readOffset_m db) db = Some (st, p', db') \<and> db_inv db'"
proof -
  have c: "snd (addReadBytes 10 db) = db_consume 10 db" "db_inv (db_consume 10 db)"
    "readRemaining_m (db_consume 10 db) < fuel"
    using addReadBytes_consume [OF assms(4)] db_inv_consume [OF assms(1,4)] assms(3)
    by (auto simp: db_consume_def)
  have "\<exists>st p' db'. readPeerListData fuel api r (db_consume 10 db) = Some (st, p', db') \<and> db_inv db'" for r
    using read_locations_safe [OF c(2) assms(2) c(3), of "unat (pp_setSize_m r)" AlpinePeerLocation_new "[]"]
    by (auto simp: readPeerListData_def Let_def)
  then show ?thesis
    using load_unread_0 [OF assms(1), of 8] load_unread [OF assms(1), of 8 2] assms(4) c
    by (simp add: pp_read_data_def Let_def)
qed

section \<open>Properties\<close>

text \<open>A peer list survives the wire. A data message with a non-empty list of locations without
  extensions, whose announced size is the length of the list, is written to an empty buffer that
  holds it; a reader of the same type that already owns a list then reads every location, in order,
  with its address modulo \<open>2 ^ 32\<close> and its port, and consumes exactly the written bytes. A reader
  without a list fails.\<close>

lemma peer_list_roundtrip:
  assumes "pp_packetType_m p = peerListData" and "pp_peerLocationList_m p = Some ls" and "ls \<noteq> []"
    and "\<forall>l\<in>set ls. pl_optionId_m l = 0" and "unat (pp_setSize_m p) = length ls"
    and "10 + 18 * length ls \<le> n" and "pp_packetType_m r = peerListData" and "length ls \<le> fuel"
  shows "\<exists>db db'. pp_writeData api None p (DataBuffer_new n) = Some (True, db) \<and>
    (pp_peerLocationList_m r \<noteq> None \<longrightarrow>
      pp_readData fuel api r (readReset db) =
        Some (True, r\<lparr>pp_offerId_m := take_bit 32 (pp_offerId_m p), pp_setSize_m := pp_setSize_m p,
                      pp_peerLocationList_m := Some (map loc_received ls)\<rparr>, db') \<and> unread db' = []) \<and>
    (pp_peerLocationList_m r = None \<longrightarrow> (\<exists>r' db''. pp_readData fuel api r (readReset db) = Some (False, r', db'')))"
proof -
  let ?w = "data_wire p ls"
  let ?db = "db_append ?w (DataBuffer_new n)"
  let ?rd = "readReset ?db"
  have len: "length ?w = 10 + 18 * length ls" by (simp add: data_wire_def)
  have w: "pp_writeData api None p (DataBuffer_new n) = Some (True, ?db)"
    using assms(1-4,6) by (intro pp_write_data_room db_inv_new) (auto simp: DataBuffer_new_def)
  have "length ?w \<le> n" using len assms(6) by simp
  then have rd: "db_inv ?rd" "unread ?rd = ?w" "readRemaining_m ?rd = 10 + 18 * length ls"
    using len by (simp_all add: db_append_def DataBuffer_new_def readReset_def unread_def overwrite_def db_inv_def)
  have l: "load (readOffset_m ?rd + 0) 8 ?rd = Some (put_ulong (pp_offerId_m p))"
    "load (readOffset_m ?rd + 8) 2 ?rd = Some (put_ushort (pp_setSize_m p))"
    by (rule load_at [OF rd(1)]; (subst rd(2))?; simp add: data_wire_def)+
  have c: "snd (addReadBytes 10 ?rd) = db_consume 10 ?rd" "db_inv (db_consume 10 ?rd)"
    "unread (db_consume 10 ?rd) = concat (map loc_wire ls) @ []"
    using rd by (auto simp: addReadBytes_consume data_wire_def intro: db_inv_consume)
  have "read_locations fuel api (length ls) AlpinePeerLocation_new [] (db_consume 10 ?rd) =
      Some (True, [] @ map loc_received ls, db_consume (18 * length ls) (db_consume 10 ?rd))"
    using assms c by (intro read_locations_at) (auto simp: AlpinePeerLocation_new_def)
  with w rd(3) l c assms(5,7) show ?thesis
    by (auto simp: pp_readData_def getReadBuffer_some pp_min_length_def pp_read_data_def readPeerListData_def Let_def)
qed

definition peer_api :: "unit option_api" where
  "peer_api = \<lparr>opt_id = \<lambda>_. 9, opt_len = \<lambda>_. 2, opt_write = \<lambda>_ db. Some (True, db_append [1, 2] db),
              opt_read = \<lambda>u db. Some (True, u, db), opt_ext = \<lambda>_. None\<rparr>"

definition demo_peers :: "unit AlpinePeerPacket" where
  "demo_peers = AlpinePeerPacket_new\<lparr>pp_packetType_m := peerListData, pp_offerId_m := 5, pp_setSize_m := 1,
     pp_peerLocationList_m := Some [AlpinePeerLocation_new\<lparr>pl_ipAddress_m := 0x0A000001, pl_port_m := 8080\<rparr>]\<rparr>"

lemma peer_list_roundtrip_witness:
  "\<exists>db db' r'. pp_writeData peer_api None demo_peers (DataBuffer_new 64) = Some (True, db) \<and>
     pp_readData 3 peer_api (AlpinePeerPacket_new\<lparr>pp_packetType_m := peerListData, pp_peerLocationList_m := Some []\<rparr>)
       (readReset db) = Some (True, r', db') \<and>
     pp_peerLocationList_m r' = Some [AlpinePeerLocation_new\<lparr>pl_ipAddress_m := 0x0A000001, pl_port_m := 8080\<rparr>]"
  using peer_list_roundtrip [of demo_peers "[AlpinePeerLocation_new\<lparr>pl_ipAddress_m := 0x0A000001, pl_port_m := 8080\<rparr>]"
      64 "AlpinePeerPacket_new\<lparr>pp_packetType_m := peerListData, pp_peerLocationList_m := Some []\<rparr>" 3 peer_api]
  by (fastforce simp: demo_peers_def AlpinePeerLocation_new_def loc_received_def)

text \<open>The read path of peer and proxy packets, of any type, stays inside the buffer on any bytes and
  returns: with no extension registered, fuel for each unread byte is enough.\<close>

lemma peer_read_memory_safe:
  assumes "db_inv db" and "\<forall>i. opt_ext api i = None" and "readRemaining_m db < fuel"
  shows "(\<exists>st p' db'. pp_readData fuel api p db = Some (st, p', db') \<and> db_inv db') \<and>
    (\<exists>st x' db'. px_readData api x db = Some (st, x', db') \<and> db_inv db')"
proof -
  have l: "load (readOffset_m db + k) n db = Some (take n (drop k (unread db)))"
    if "k + n \<le> readRemaining_m db" for k n using load_unread [OF assms(1) that] .
  have c: "snd (addReadBytes n db) = db_consume n db" "db_inv (db_consume n db)"
    if "n \<le> readRemaining_m db" for n
    using addReadBytes_consume [OF that] db_inv_consume [OF assms(1) that] by auto
  have "\<exists>st p' db'. pp_readData fuel api p db = Some (st, p', db') \<and> db_inv db'"
  proof (cases "readRemaining_m db < pp_min_length (pp_packetType_m p) \<or> readRemaining_m db = 0")
    case True
    with assms(1) show ?thesis by (auto simp: pp_readData_def getReadBuffer_def)
  next
    case False
    consider "pp_packetType_m p = peerListRequest" | "pp_packetType_m p = peerListOffer"
      | "pp_packetType_m p = peerListGet" | "pp_packetType_m p = peerListData"
      | "pp_packetType_m p \<notin> {peerListRequest, peerListOffer, peerListGet, peerListData}" by auto
    then show ?thesis
    proof cases
      case 4
      with False pp_read_data_safe [OF assms, of p] show ?thesis
        by (simp add: pp_readData_def getReadBuffer_some pp_min_length_def)
    qed (use False assms(1,2) l [of 0 8] l [of 8 8] l [of 16 8] l [of 16 2] c [of 8] c [of 24] c [of 18] in
        \<open>simp_all add: pp_readData_def getReadBuffer_some pp_min_length_def read_option_def\<close>)
  qed
  moreover have "\<exists>st x' db'. px_readData api x db = Some (st, x', db') \<and> db_inv db'"
    using assms(1,2) l [of 0 8] c [of 8]
    by (cases "readRemaining_m db < 8") (auto simp: px_readData_def getReadBuffer_def read_option_def)
  ultimately show ?thesis by blast
qed

lemma peer_read_memory_safe_witness:
  "\<exists>st p' db'. pp_readData 50 peer_api demo_peers (DataBuffer_of (replicate 30 255)) = Some (st, p', db') \<and> db_inv db'"
proof -
  have "\<forall>i. opt_ext peer_api i = None" "readRemaining_m (DataBuffer_of (replicate 30 255)) < 50"
    by (simp_all add: peer_api_def DataBuffer_of_def)
  from peer_read_memory_safe [OF db_inv_new(2) this, of demo_peers AlpineProxyPacket_new]
  show ?thesis by blast
qed

text \<open>A proxy packet with an extension is written with a gap: the write cursor has already moved over
  the option's length when the option object writes itself, so the option's bytes follow as many
  stale bytes as it has, and the packet counts them twice.\<close>

lemma proxy_option_gap:
  assumes "db_inv db" and "px_packetType_m x \<noteq> proxyHalt" and "px_optionId_m x \<noteq> 0"
    and "px_optionData_m x = Some opt" and "opt_len api opt = length w"
    and "\<forall>d. db_inv d \<and> length w \<le> writeRemaining_m d \<longrightarrow> opt_write api opt d = Some (True, db_append w d)"
    and "8 + 2 * length w \<le> writeRemaining_m db"
  shows "\<exists>db' stale. px_writeData api None x db = Some (True, db') \<and> length stale = length w \<and>
    stale = take (length w) (drop (writeOffset_m db + 8) (buffer_m db)) \<and>
    written db' = written db @ put_ulong (px_optionId_m x) @ stale @ w"
proof -
  let ?id = "put_ulong (px_optionId_m x)"
  let ?stale = "take (length w) (drop (writeOffset_m db + 8) (buffer_m db))"
  let ?db1 = "db\<lparr>buffer_m := overwrite (writeOffset_m db) ?id (buffer_m db)\<rparr>"
  let ?db2 = "snd (addWriteBytes (8 + length w) ?db1)"
  have size: "writeOffset_m db + writeRemaining_m db = length (buffer_m db)"
    using assms(1) by (simp add: db_inv_def)
  have st: "store (writeOffset_m db) ?id db = Some ?db1"
    using size assms(7) by (simp add: store_def)
  have inv: "db_inv ?db2" "writeRemaining_m ?db2 = writeRemaining_m db - (8 + length w)"
    using assms(1,7) size by (simp_all add: addWriteBytes_def db_inv_def)
  then have ow: "opt_write api opt ?db2 = Some (True, db_append w ?db2)"
    using assms(6,7) by simp
  have "px_writeData api None x db = Some (True, db_append w ?db2)"
    using assms st ow
    by (simp add: px_writeData_def getWriteBuffer_some option_length_def write_option_def Let_def
        call_parent_write_def)
  moreover have "written (db_append w ?db2) = written ?db2 @ w"
    using inv assms(7) by (intro sink.out_append) auto
  moreover have "written ?db2 = written db @ ?id @ ?stale"
    using assms(7) size by (simp add: addWriteBytes_def written_def overwrite_def take_add [symmetric] min_absorb2)
  ultimately show ?thesis using size assms(7) by auto
qed

lemma proxy_option_gap_witness:
  "\<exists>db'. px_writeData peer_api None
       (AlpineProxyPacket_new\<lparr>px_packetType_m := proxyRequest, px_optionId_m := 9, px_optionData_m := Some ()\<rparr>)
       (DataBuffer_new 12) = Some (True, db') \<and>
     written db' = put_ulong 9 @ [0, 0] @ [1, 2]"
  using proxy_option_gap [of "DataBuffer_new 12"
      "AlpineProxyPacket_new\<lparr>px_packetType_m := proxyRequest, px_optionId_m := 9, px_optionData_m := Some ()\<rparr>"
      "()" peer_api "[1, 2]"]
  by (simp add: db_inv_new peer_api_def) (simp add: DataBuffer_new_def written_def numeral_eq_Suc)

end
