(* ===== verification/AlpinePacket.thy ===== *)
theory AlpinePacket
  imports AlpineQueryPacket AlpinePeerPacket
begin

text \<open>
  protocols/Alpine/AlpinePacket.cpp: the outermost layer of an Alpine message. It writes a version
  marker, the protocol version and the type of the packet above it, reads the versioned and the
  legacy form, and hands the type to that packet. The classes that the two \<open>dynamic_cast\<close> chains
  look for are the constructors of \<open>alpine_parent\<close>; each carries the packet and its own parent link.
\<close>

section \<open>State and operations\<close>

record AlpinePacket =
  ap_packetType_m :: alpine_type
  ap_protocolVersion_m :: ushort

datatype ('q, 'p, 'x) alpine_parent = NoParent
  | QueryP "'q AlpineQueryPacket" parent_write
  | PeerP "'p AlpinePeerPacket" parent_write
  | ProxyP "'x AlpineProxyPacket" parent_write

record ('q, 'p, 'x) extensions =
  query_api :: "'q option_api"
  peer_opt_api :: "'p option_api"
  proxy_api :: "'x option_api"

definition PROTOCOL_VERSION :: ushort where
  "PROTOCOL_VERSION = 1"

definition AlpinePacket_new :: AlpinePacket where
  "AlpinePacket_new = \<lparr>ap_packetType_m = a_none, ap_protocolVersion_m = PROTOCOL_VERSION\<rparr>"

definition ap_setPacketType :: "alpine_type \<Rightarrow> AlpinePacket \<Rightarrow> bool \<times> AlpinePacket" where
  "ap_setPacketType t p = (True, p\<lparr>ap_packetType_m := t\<rparr>)"

text \<open>The first chain of casts: the type is taken from the packet above.\<close>

definition ap_update_from :: "('q, 'p, 'x) alpine_parent \<Rightarrow> AlpinePacket \<Rightarrow> AlpinePacket" where
  "ap_update_from parent p = (case parent of
       NoParent \<Rightarrow> p
     | QueryP q _ \<Rightarrow> p\<lparr>ap_packetType_m := q_packetType_m q\<rparr>
     | PeerP r _ \<Rightarrow> p\<lparr>ap_packetType_m := pp_packetType_m r\<rparr>
     | ProxyP x _ \<Rightarrow> p\<lparr>ap_packetType_m := px_packetType_m x\<rparr>)"

text \<open>The virtual \<open>writeData\<close> of the parent link.\<close>

definition parent_writeData :: "('q, 'p, 'x) extensions \<Rightarrow> ('q, 'p, 'x) alpine_parent \<Rightarrow> parent_write" where
  "parent_writeData ext parent = (case parent of
       NoParent \<Rightarrow> None
     | QueryP q pw \<Rightarrow> Some (q_writeData (query_api ext) pw q)
     | PeerP r pw \<Rightarrow> Some (pp_writeData (peer_opt_api ext) pw r)
     | ProxyP x pw \<Rightarrow> Some (px_writeData (proxy_api ext) pw x))"

definition ap_writeData :: "('q, 'p, 'x) extensions \<Rightarrow> ('q, 'p, 'x) alpine_parent \<Rightarrow> AlpinePacket \<Rightarrow> DataBuffer \<Rightarrow>
    (bool \<times> AlpinePacket \<times> DataBuffer) option" where
  "ap_writeData ext parent p db = (case getWriteBuffer db of
       None \<Rightarrow> Some (False, p, db)
     | Some (buf, bufferSize) \<Rightarrow>
         let p1 = ap_update_from parent p in
         if bufferSize < 6 then Some (False, p1, db)
         else do {
           db1 \<leftarrow> store buf (put_ushort 0) db;
           db2 \<leftarrow> store (buf + 2) (put_ushort (ap_protocolVersion_m p1)) db1;
           db3 \<leftarrow> store (buf + 4) (put_ushort (alpine_code (ap_packetType_m p1))) db2;
           (status, db4) \<leftarrow> call_parent_write (parent_writeData ext parent) (snd (addWriteBytes 6 db3));
           Some (status, p1, db4)
         })"

text \<open>The second chain of casts, and the virtual \<open>readData\<close>; a refused \<open>setPacketType\<close> is ignored.\<close>

definition parent_setType :: "alpine_type \<Rightarrow> ('q, 'p, 'x) alpine_parent \<Rightarrow> ('q, 'p, 'x) alpine_parent" where
  "parent_setType t parent = (case parent of
       NoParent \<Rightarrow> NoParent
     | QueryP q pw \<Rightarrow> QueryP (snd (q_setPacketType t q)) pw
     | PeerP r pw \<Rightarrow> PeerP (snd (pp_setPacketType t r)) pw
     | ProxyP x pw \<Rightarrow> ProxyP (snd (px_setPacketType t x)) pw)"

definition parent_readData :: "nat \<Rightarrow> ('q, 'p, 'x) extensions \<Rightarrow> ('q, 'p, 'x) alpine_parent \<Rightarrow> DataBuffer \<Rightarrow>
    (bool \<times> ('q, 'p, 'x) alpine_parent \<times> DataBuffer) option" where
  "parent_readData fuel ext parent db = (case parent of
       NoParent \<Rightarrow> None
     | QueryP q pw \<Rightarrow> do {
         (st, q', db') \<leftarrow> q_readData fuel (query_api ext) q db; Some (st, QueryP q' pw, db') }
     | PeerP r pw \<Rightarrow> do {
         (st, r', db') \<leftarrow> pp_readData fuel (peer_opt_api ext) r db; Some (st, PeerP r' pw, db') }
     | ProxyP x pw \<Rightarrow> do {
         (st, x', db') \<leftarrow> px_readData (proxy_api ext) x db; Some (st, ProxyP x' pw, db') })"

text \<open>The header: its length and the packet, \<open>None\<close> inside when the data is too short.\<close>

definition ap_read_header :: "AlpinePacket \<Rightarrow> nat \<Rightarrow> nat \<Rightarrow> DataBuffer \<Rightarrow> (nat \<times> AlpinePacket) option option" where
  "ap_read_header p buf bufferSize db =
     (if bufferSize < 2 then Some None
      else do {
        f \<leftarrow> load buf 2 db;
        let firstWord = get_ushort f;
        if firstWord \<noteq> 0
        then Some (Some (2, p\<lparr>ap_protocolVersion_m := 0, ap_packetType_m := alpine_of_code firstWord\<rparr>))
        else if bufferSize < 6 then Some None
        else do {
          v \<leftarrow> load (buf + 2) 2 db;
          t \<leftarrow> load (buf + 4) 2 db;
          Some (Some (6, p\<lparr>ap_protocolVersion_m := get_ushort v,
                           ap_packetType_m := alpine_of_code (get_ushort t)\<rparr>))
        }
      })"

definition ap_readData :: "nat \<Rightarrow> ('q, 'p, 'x) extensions \<Rightarrow> ('q, 'p, 'x) alpine_parent \<Rightarrow> AlpinePacket \<Rightarrow> DataBuffer \<Rightarrow>
    (bool \<times> AlpinePacket \<times> ('q, 'p, 'x) alpine_parent \<times> DataBuffer) option" where
  "ap_readData fuel ext parent p db = (case getReadBuffer db of
       None \<Rightarrow> Some (False, p, parent, db)
     | Some (buf, bufferSize) \<Rightarrow> do {
         h \<leftarrow> ap_read_header p buf bufferSize db;
         case h of
           None \<Rightarrow> Some (False, p, parent, db)
         | Some (readLength, p1) \<Rightarrow>
             let db1 = snd (addReadBytes readLength db) in
             (case parent of
                NoParent \<Rightarrow> Some (True, p1, parent, db1)
              | _ \<Rightarrow> do {
                  (status, parent1, db2) \<leftarrow>
                    parent_readData fuel ext (parent_setType (ap_packetType_m p1) parent) db1;
                  if \<not> status then Some (False, p1, parent1, db2) else Some (False, p1, parent1, db2)
                })
       })"

section \<open>Header lemmas\<close>

definition ap_header :: "AlpinePacket \<Rightarrow> byte list" where
  "ap_header p = put_ushort 0 @ put_ushort (ap_protocolVersion_m p) @ put_ushort (alpine_code (ap_packetType_m p))"

lemma length_ap_header [simp]: "length (ap_header p) = 6"
  by (simp add: ap_header_def)

lemma ap_write_room:
  assumes "db_inv db" "6 \<le> writeRemaining_m db"
  shows "ap_writeData ext parent p db =
    call_parent_write (parent_writeData ext parent) (db_append (ap_header (ap_update_from parent p)) db) \<bind>
      (\<lambda>(status, db4). Some (status, ap_update_from parent p, db4))"
proof -
  let ?h = "ap_header (ap_update_from parent p)"
  let ?k = "\<lambda>d. call_parent_write (parent_writeData ext parent) d \<bind>
      (\<lambda>(status, db4). Some (status, ap_update_from parent p, db4))"
  have "ap_writeData ext parent p db = store (writeOffset_m db) ?h db \<bind> (\<lambda>d. ?k (snd (addWriteBytes 6 d)))"
    using assms by (simp add: ap_writeData_def getWriteBuffer_some Let_def store_fuse ap_header_def)
  also have "\<dots> = ?k (db_append ?h db)"
    using assms by (intro store_advance [where k = ?k]) auto
  finally show ?thesis .
qed

lemma get_ushort_zero [simp]: "get_ushort (put_ushort 0) = 0"
  by simp

lemma ap_read_header_at:
  assumes "db_inv db" "unread db = ap_header p @ rest"
  shows "ap_read_header r (readOffset_m db) (readRemaining_m db) db =
    Some (Some (6, r\<lparr>ap_protocolVersion_m := ap_protocolVersion_m p,
                     ap_packetType_m := alpine_of_code (alpine_code (ap_packetType_m p))\<rparr>))"
proof -
  have "6 \<le> readRemaining_m db" using length_unread [OF assms(1)] assms(2) by simp
  moreover have "load (readOffset_m db + 0) 2 db = Some (put_ushort 0)"
    "load (readOffset_m db + 2) 2 db = Some (put_ushort (ap_protocolVersion_m p))"
    "load (readOffset_m db + 4) 2 db = Some (put_ushort (alpine_code (ap_packetType_m p)))"
    by (rule load_at [OF assms(1)]; simp add: assms(2) ap_header_def)+
  ultimately show ?thesis by (simp add: ap_read_header_def)
qed

section \<open>Properties\<close>

text \<open>Version negotiation of the header. A packet without a parent writes the versioned header and a
  reader gets back its version and its type; data that starts with a word other than the zero marker
  is a legacy packet, of which the reader takes that word as the type, sets version 0 and consumes two
  bytes; data that starts with the marker but is shorter than six bytes is refused and nothing is
  consumed.\<close>

lemma alpine_header_roundtrip:
  assumes "ap_packetType_m p \<in> set alpine_listed" and "6 \<le> n" and "db_inv db" and "unread db = put_ushort w @ rest"
  shows "(\<exists>d d'. ap_writeData ext NoParent p (DataBuffer_new n) = Some (True, p, d) \<and>
      ap_readData fuel ext NoParent r (readReset d) = Some (True, p, NoParent, d') \<and> unread d' = []) \<and>
    (w \<noteq> 0 \<longrightarrow> ap_readData fuel ext NoParent r db =
       Some (True, \<lparr>ap_packetType_m = alpine_of_code w, ap_protocolVersion_m = 0\<rparr>, NoParent, db_consume 2 db)) \<and>
    (w = 0 \<and> length rest < 4 \<longrightarrow> ap_readData fuel ext NoParent r db = Some (False, r, NoParent, db))"
proof -
  let ?d = "db_append (ap_header p) (DataBuffer_new n)"
  have w: "ap_writeData ext NoParent p (DataBuffer_new n) = Some (True, p, ?d)"
    using ap_write_room [OF db_inv_new(1), of n ext NoParent p] assms(2)
    by (simp add: DataBuffer_new_def ap_update_from_def parent_writeData_def call_parent_write_def)
  have rd: "db_inv (readReset ?d)" "unread (readReset ?d) = ap_header p @ []"
    using fresh_write_read [of "ap_header p" n] assms(2) by auto
  have "6 \<le> readRemaining_m (readReset ?d)" using length_unread [OF rd(1)] rd(2) by simp
  moreover have "r\<lparr>ap_protocolVersion_m := ap_protocolVersion_m p, ap_packetType_m := ap_packetType_m p\<rparr> = p"
    by simp
  ultimately have rt: "ap_readData fuel ext NoParent r (readReset ?d) = Some (True, p, NoParent, db_consume 6 (readReset ?d))"
    using ap_read_header_at [OF rd, of r] alpine_of_code_code [OF assms(1)]
    by (simp add: ap_readData_def getReadBuffer_some addReadBytes_consume)
  have rem: "readRemaining_m db = 2 + length rest" using length_unread [OF assms(3)] assms(4) by simp
  have "load (readOffset_m db + 0) 2 db = Some (put_ushort w)"
    using assms(4) by (intro load_at [OF assms(3)]) auto
  then have "w \<noteq> 0 \<Longrightarrow> ap_readData fuel ext NoParent r db =
      Some (True, \<lparr>ap_packetType_m = alpine_of_code w, ap_protocolVersion_m = 0\<rparr>, NoParent, db_consume 2 db)"
    "w = 0 \<Longrightarrow> length rest < 4 \<Longrightarrow> ap_readData fuel ext NoParent r db = Some (False, r, NoParent, db)"
    using rem by (auto simp: ap_readData_def getReadBuffer_some ap_read_header_def addReadBytes_consume)
  with w rt rd show ?thesis by auto
qed

definition demo_ext :: "(unit, unit, unit) extensions" where
  "demo_ext = \<lparr>query_api = demo_api, peer_opt_api = demo_api, proxy_api = demo_api\<rparr>"

lemma alpine_header_roundtrip_witness:
  "ap_readData 0 demo_ext NoParent AlpinePacket_new (DataBuffer_of (put_ushort 3)) =
     Some (True, \<lparr>ap_packetType_m = queryRequest, ap_protocolVersion_m = 0\<rparr>, NoParent,
           db_consume 2 (DataBuffer_of (put_ushort 3)))"
proof -
  have "unread (DataBuffer_of (put_ushort 3)) = put_ushort 3 @ []"
    by (simp add: unread_def DataBuffer_of_def)
  from alpine_header_roundtrip [OF _ _ db_inv_new(2) this, of AlpinePacket_new 6 demo_ext 0 AlpinePacket_new]
  show ?thesis by (simp add: AlpinePacket_new_def alpine_listed_def alpine_of_code_def)
qed

text \<open>An Alpine packet above which a query packet is set carries the whole message, and the receiver's
  query packet, whatever type it had, takes the type from the header and then the sender's fields; but
  the write and the read of the outer packet both report failure, although every byte was written and
  read.\<close>

lemma alpine_query_stack:
  assumes "q_plain q" and "q_readable q" and "6 + length (q_wire q) \<le> n"
  shows "\<exists>p1 db p2 db'.
    ap_writeData ext (QueryP q None) p (DataBuffer_new n) = Some (False, p1, db) \<and>
    ap_readData fuel ext (QueryP r pw) s (readReset db) =
      Some (False, p2, QueryP (q_received q (r\<lparr>q_packetType_m := q_packetType_m q\<rparr>)) pw, db') \<and>
    unread db' = [] \<and> ap_packetType_m p2 = q_packetType_m q"
proof -
  let ?p = "p\<lparr>ap_packetType_m := q_packetType_m q\<rparr>"
  let ?w = "ap_header ?p @ q_wire q"
  let ?db1 = "db_append (ap_header ?p) (DataBuffer_new n)"
  let ?db = "db_append ?w (DataBuffer_new n)"
  have ty: "q_packetType_m q \<in> {queryDiscover, queryOffer, queryRequest}"
    using assms(2) by (auto simp: q_readable_def)
  have room: "writeRemaining_m (DataBuffer_new n) = n" by (simp add: DataBuffer_new_def)
  have d1: "db_inv ?db1" "writeRemaining_m ?db1 = n - 6"
    using sink.ok_append [OF db_inv_new(1), of "ap_header ?p" n] sink.room_append [OF db_inv_new(1), of "ap_header ?p" n]
      assms(3) room by auto
  have "q_writeData (query_api ext) None q ?db1 = Some (True, db_append (q_wire q) ?db1)"
    using assms d1 by (intro q_write_room) auto
  moreover have "db_append (q_wire q) ?db1 = ?db"
    using assms(3) room by (intro db_append_two db_inv_new) auto
  ultimately have w: "ap_writeData ext (QueryP q None) p (DataBuffer_new n) = Some (False, ?p, ?db)"
    using ap_write_room [OF db_inv_new(1), of n ext "QueryP q None" p] assms(3) room
    by (simp add: parent_writeData_def call_parent_write_def ap_update_from_def)
  have rd: "db_inv (readReset ?db)" "unread (readReset ?db) = ap_header ?p @ q_wire q"
    using fresh_write_read [of ?w n] assms(3) by auto
  have rem: "readRemaining_m (readReset ?db) = 6 + length (q_wire q)"
    using length_unread [OF rd(1)] rd(2) by simp
  let ?d2 = "db_consume 6 (readReset ?db)"
  have d2: "db_inv ?d2" "unread ?d2 = q_wire q"
    using rd rem by (auto intro!: db_inv_consume)
  have t: "alpine_of_code (alpine_code (q_packetType_m q)) = q_packetType_m q"
    using ty by (intro alpine_of_code_code) (auto simp: alpine_listed_def)
  have h: "ap_read_header s (readOffset_m (readReset ?db)) (readRemaining_m (readReset ?db)) (readReset ?db) =
      Some (Some (6, s\<lparr>ap_protocolVersion_m := ap_protocolVersion_m p, ap_packetType_m := q_packetType_m q\<rparr>))"
    using ap_read_header_at [OF rd, of s] by (simp add: t)
  have set: "snd (q_setPacketType (q_packetType_m q) r) = r\<lparr>q_packetType_m := q_packetType_m q\<rparr>"
    using ty by (auto simp: q_setPacketType_def)
  have "q_readData fuel (query_api ext) (r\<lparr>q_packetType_m := q_packetType_m q\<rparr>) ?d2 =
      Some (True, q_received q (r\<lparr>q_packetType_m := q_packetType_m q\<rparr>), db_consume (length (q_wire q)) ?d2)"
    using assms by (intro q_read_back d2) auto
  with h set rem have "ap_readData fuel ext (QueryP r pw) s (readReset ?db) =
      Some (False, s\<lparr>ap_protocolVersion_m := ap_protocolVersion_m p, ap_packetType_m := q_packetType_m q\<rparr>,
        QueryP (q_received q (r\<lparr>q_packetType_m := q_packetType_m q\<rparr>)) pw, db_consume (length (q_wire q)) ?d2)"
    by (simp add: ap_readData_def getReadBuffer_some addReadBytes_consume parent_setType_def parent_readData_def)
  with w d2 show ?thesis by auto
qed

lemma alpine_query_stack_witness:
  "\<exists>p1 db p2 q' db'.
     ap_writeData demo_ext (QueryP demo_query None) AlpinePacket_new (DataBuffer_new 64) = Some (False, p1, db) \<and>
     ap_readData 0 demo_ext (QueryP AlpineQueryPacket_new None) AlpinePacket_new (readReset db) =
       Some (False, p2, QueryP q' None, db') \<and> q_queryId_m q' = 7"
proof -
  have p: "q_plain demo_query" "q_readable demo_query" "6 + length (q_wire demo_query) \<le> 64"
    by (simp_all add: q_plain_def q_readable_def demo_query_def AlpineQueryPacket_new_def MAX_STRING_LEN_def
        MAX_HITS_def q_wire_def)
  have r: "q_queryId_m (q_received demo_query r) = 7" for r
    by (simp add: q_received_def demo_query_def AlpineQueryPacket_new_def Let_def)
  show ?thesis
    using alpine_query_stack [OF p, of demo_ext AlpinePacket_new 0 AlpineQueryPacket_new None AlpinePacket_new] r
    by blast
qed

end
