(* ===== verification/CircuitBreaker.thy ===== *)
theory CircuitBreaker
  imports Prelude
begin

text \<open>
  protocols/Alpine/CircuitBreaker.cpp: the per-peer circuit (Closed, Open, HalfOpen) that decides
  whether a query may be sent to a peer. The static members are the record \<open>CircuitBreaker\<close>; each
  call of the monotonic clock is an argument, in nanoseconds (\<open>recordFailure\<close> reads the clock twice).
  The counters are C++ \<open>int\<close>; they are modelled as \<open>int\<close> without a width.
\<close>

section \<open>State and operations\<close>

datatype State = Closed | Open | HalfOpen

record PeerCircuit =
  state :: State
  failureCount :: int
  halfOpenProbes :: int
  openedAt :: int

record CircuitBreaker =
  circuitIndex_s :: "ulong \<rightharpoonup> PeerCircuit"
  failureThreshold_s :: int
  halfOpenMaxProbes_s :: int
  openDurationSecs_s :: int

definition PeerCircuit_new :: PeerCircuit where
  "PeerCircuit_new = \<lparr>state = Closed, failureCount = 0, halfOpenProbes = 0, openedAt = 0\<rparr>"

definition cb_init :: CircuitBreaker where
  "cb_init = \<lparr>circuitIndex_s = Map.empty, failureThreshold_s = 5, halfOpenMaxProbes_s = 2,
              openDurationSecs_s = 30\<rparr>"

definition evaluateState :: "CircuitBreaker \<Rightarrow> int \<Rightarrow> PeerCircuit \<Rightarrow> PeerCircuit" where
  "evaluateState cb now circuit =
     (if state circuit \<noteq> Open then circuit
      else if now - openedAt circuit \<ge> openDurationSecs_s cb * 1000000000
      then circuit\<lparr>state := HalfOpen, halfOpenProbes := 0\<rparr>
      else circuit)"

definition set_circuit :: "ulong \<Rightarrow> PeerCircuit \<Rightarrow> CircuitBreaker \<Rightarrow> CircuitBreaker" where
  "set_circuit peerId circuit cb = cb\<lparr>circuitIndex_s := (circuitIndex_s cb)(peerId \<mapsto> circuit)\<rparr>"

definition allowRequest :: "int \<Rightarrow> ulong \<Rightarrow> CircuitBreaker \<Rightarrow> bool \<times> CircuitBreaker" where
  "allowRequest now peerId cb = (case circuitIndex_s cb peerId of
       None \<Rightarrow> (True, cb)
     | Some circuit0 \<Rightarrow>
         let circuit = evaluateState cb now circuit0 in
         if state circuit = Closed then (True, set_circuit peerId circuit cb)
         else if state circuit = HalfOpen then
           if halfOpenProbes circuit < halfOpenMaxProbes_s cb
           then (True, set_circuit peerId (circuit\<lparr>halfOpenProbes := halfOpenProbes circuit + 1\<rparr>) cb)
           else (False, set_circuit peerId circuit cb)
         else (False, set_circuit peerId circuit cb))"

definition recordSuccess :: "ulong \<Rightarrow> CircuitBreaker \<Rightarrow> CircuitBreaker" where
  "recordSuccess peerId cb = (case circuitIndex_s cb peerId of
       None \<Rightarrow> cb
     | Some circuit \<Rightarrow>
         set_circuit peerId (circuit\<lparr>state := Closed, failureCount := 0, halfOpenProbes := 0\<rparr>) cb)"

definition recordFailure :: "int \<Rightarrow> int \<Rightarrow> ulong \<Rightarrow> CircuitBreaker \<Rightarrow> CircuitBreaker" where
  "recordFailure now now' peerId cb =
     (let circuit0 = (case circuitIndex_s cb peerId of None \<Rightarrow> PeerCircuit_new | Some c \<Rightarrow> c);
          circuit = evaluateState cb now circuit0 in
      if state circuit = HalfOpen
      then set_circuit peerId (circuit\<lparr>state := Open, openedAt := now'\<rparr>) cb
      else
        let c1 = circuit\<lparr>failureCount := failureCount circuit + 1\<rparr> in
        if failureCount c1 \<ge> failureThreshold_s cb \<and> state c1 = Closed
        then set_circuit peerId (c1\<lparr>state := Open, openedAt := now'\<rparr>) cb
        else set_circuit peerId c1 cb)"

definition getState :: "int \<Rightarrow> ulong \<Rightarrow> CircuitBreaker \<Rightarrow> State \<times> CircuitBreaker" where
  "getState now peerId cb = (case circuitIndex_s cb peerId of
       None \<Rightarrow> (Closed, cb)
     | Some circuit0 \<Rightarrow>
         let circuit = evaluateState cb now circuit0 in (state circuit, set_circuit peerId circuit cb))"

definition cb_configure :: "int \<Rightarrow> int \<Rightarrow> CircuitBreaker \<Rightarrow> CircuitBreaker" where
  "cb_configure failureThreshold openDurationSecs cb =
     cb\<lparr>failureThreshold_s := failureThreshold, openDurationSecs_s := openDurationSecs\<rparr>"

definition cb_reset :: "CircuitBreaker \<Rightarrow> CircuitBreaker" where
  "cb_reset cb = cb\<lparr>circuitIndex_s := Map.empty, failureThreshold_s := 5, halfOpenMaxProbes_s := 2,
                    openDurationSecs_s := 30\<rparr>"

lemmas cb_defs = allowRequest_def recordSuccess_def recordFailure_def getState_def
  evaluateState_def set_circuit_def PeerCircuit_new_def Let_def

section \<open>Runs\<close>

text \<open>A run interleaves the calls of all threads (each holds the write lock) at clock readings that
  never go back.\<close>

inductive cb_step :: "int \<Rightarrow> CircuitBreaker \<Rightarrow> int \<Rightarrow> CircuitBreaker \<Rightarrow> bool" where
  allow: "t \<le> now \<Longrightarrow> cb_step t cb now (snd (allowRequest now p cb))"
| success: "cb_step t cb t (recordSuccess p cb)"
| failure: "t \<le> now \<Longrightarrow> now \<le> now' \<Longrightarrow> cb_step t cb now' (recordFailure now now' p cb)"
| get: "t \<le> now \<Longrightarrow> cb_step t cb now (snd (getState now p cb))"
| resets: "cb_step t cb t (cb_reset cb)"

inductive cb_reach :: "int \<Rightarrow> CircuitBreaker \<Rightarrow> bool" where
  start: "0 \<le> t \<Longrightarrow> cb_reach t cb_init"
| configured: "0 \<le> t \<Longrightarrow> 0 < n \<Longrightarrow> cb_reach t (cb_configure n secs cb_init)"
| step: "cb_reach t cb \<Longrightarrow> cb_step t cb t' cb' \<Longrightarrow> cb_reach t' cb'"

inductive_cases cb_stepE: "cb_step t cb t' cb'"

text \<open>What holds of a circuit between calls: a closed circuit has fewer failures than the threshold,
  a half-open one has granted at most the configured number of probes, and no circuit was opened in
  the future.\<close>

definition circuit_inv :: "CircuitBreaker \<Rightarrow> int \<Rightarrow> PeerCircuit \<Rightarrow> bool" where
  "circuit_inv cb t c \<longleftrightarrow>
     0 \<le> failureCount c \<and> (state c = Closed \<longrightarrow> failureCount c < failureThreshold_s cb) \<and>
     (state c = HalfOpen \<longrightarrow> 0 \<le> halfOpenProbes c \<and> halfOpenProbes c \<le> halfOpenMaxProbes_s cb) \<and>
     openedAt c \<le> t"

definition cb_inv :: "int \<Rightarrow> CircuitBreaker \<Rightarrow> bool" where
  "cb_inv t cb \<longleftrightarrow>
     0 \<le> t \<and> 0 < failureThreshold_s cb \<and> halfOpenMaxProbes_s cb = 2 \<and>
     (\<forall>p c. circuitIndex_s cb p = Some c \<longrightarrow> circuit_inv cb t c)"

lemma circuit_inv_mono: "circuit_inv cb t c \<Longrightarrow> t \<le> t' \<Longrightarrow> circuit_inv cb t' c"
  by (auto simp: circuit_inv_def)

lemma circuit_inv_evaluate:
  "circuit_inv cb t c \<Longrightarrow> 0 \<le> halfOpenMaxProbes_s cb \<Longrightarrow> circuit_inv cb t (evaluateState cb now c)"
  by (auto simp: circuit_inv_def evaluateState_def)

lemma cb_inv_set:
  "cb_inv t cb \<Longrightarrow> circuit_inv cb t c \<Longrightarrow> cb_inv t (set_circuit p c cb)"
  by (auto simp: cb_inv_def set_circuit_def circuit_inv_def)

lemma cb_inv_mono: "cb_inv t cb \<Longrightarrow> t \<le> t' \<Longrightarrow> cb_inv t' cb"
  by (fastforce simp: cb_inv_def circuit_inv_def)

lemma cb_inv_lookup: "cb_inv t cb \<Longrightarrow> circuitIndex_s cb p = Some c \<Longrightarrow> circuit_inv cb t c"
  by (auto simp: cb_inv_def)

lemma cb_inv_allow: "cb_inv t cb \<Longrightarrow> t \<le> now \<Longrightarrow> cb_inv now (snd (allowRequest now p cb))"
proof -
  assume inv: "cb_inv t cb" and "t \<le> now"
  then have now: "cb_inv now cb" by (rule cb_inv_mono)
  show ?thesis
  proof (cases "circuitIndex_s cb p")
    case None
    with now show ?thesis by (simp add: allowRequest_def)
  next
    case (Some c0)
    define c where "c = evaluateState cb now c0"
    have c: "circuit_inv cb now c"
      using now Some by (auto simp: c_def cb_inv_def intro!: circuit_inv_evaluate)
    then have "state c = HalfOpen \<Longrightarrow> halfOpenProbes c < halfOpenMaxProbes_s cb \<Longrightarrow>
        circuit_inv cb now (c\<lparr>halfOpenProbes := halfOpenProbes c + 1\<rparr>)"
      by (auto simp: circuit_inv_def)
    with c now Some show ?thesis
      by (auto simp: allowRequest_def Let_def c_def [symmetric] intro!: cb_inv_set)
  qed
qed

lemma cb_inv_success: "cb_inv t cb \<Longrightarrow> cb_inv t (recordSuccess p cb)"
  by (auto simp: recordSuccess_def cb_inv_def circuit_inv_def set_circuit_def split: option.splits)

lemma cb_inv_get: "cb_inv t cb \<Longrightarrow> t \<le> now \<Longrightarrow> cb_inv now (snd (getState now p cb))"
proof -
  assume inv: "cb_inv t cb" and "t \<le> now"
  then have now: "cb_inv now cb" by (rule cb_inv_mono)
  show ?thesis
  proof (cases "circuitIndex_s cb p")
    case None
    with now show ?thesis by (simp add: getState_def)
  next
    case (Some c)
    then have "circuit_inv cb now (evaluateState cb now c)"
      using now by (auto simp: cb_inv_def intro!: circuit_inv_evaluate)
    with now Some show ?thesis by (auto simp: getState_def Let_def intro!: cb_inv_set)
  qed
qed

lemma cb_inv_failure:
  assumes inv: "cb_inv t cb" and t: "t \<le> now" "now \<le> now'"
  shows "cb_inv now' (recordFailure now now' p cb)"
proof -
  define c0 where "c0 = (case circuitIndex_s cb p of None \<Rightarrow> PeerCircuit_new | Some c \<Rightarrow> c)"
  define c where "c = evaluateState cb now c0"
  have now': "cb_inv now' cb" using inv t by (auto intro: cb_inv_mono)
  then have "circuit_inv cb now' c0"
    by (auto simp: c0_def PeerCircuit_new_def circuit_inv_def cb_inv_def split: option.splits)
  then have c: "circuit_inv cb now' c"
    using now' by (auto simp: c_def cb_inv_def intro!: circuit_inv_evaluate)
  then have "circuit_inv cb now' (c\<lparr>state := Open, openedAt := now'\<rparr>)"
    "circuit_inv cb now' (c\<lparr>failureCount := failureCount c + 1, state := Open, openedAt := now'\<rparr>)"
    "\<not> (failureThreshold_s cb \<le> failureCount c + 1 \<and> state c = Closed) \<Longrightarrow>
       circuit_inv cb now' (c\<lparr>failureCount := failureCount c + 1\<rparr>)"
    by (auto simp: circuit_inv_def)
  with now' show ?thesis
    by (auto simp: recordFailure_def Let_def c0_def [symmetric] c_def [symmetric] intro!: cb_inv_set)
qed

lemma cb_step_inv: "cb_step t cb t' cb' \<Longrightarrow> cb_inv t cb \<Longrightarrow> cb_inv t' cb'"
proof (induction rule: cb_step.induct)
  case (resets t cb)
  then show ?case by (simp add: cb_reset_def cb_inv_def)
qed (simp_all add: cb_inv_allow cb_inv_success cb_inv_failure cb_inv_get)

lemma cb_reach_inv: "cb_reach t cb \<Longrightarrow> cb_inv t cb"
proof (induction rule: cb_reach.induct)
  case (start t)
  then show ?case by (simp add: cb_init_def cb_inv_def)
next
  case (configured t n secs)
  then show ?case by (simp add: cb_init_def cb_configure_def cb_inv_def)
next
  case (step t cb t' cb')
  then show ?case by (blast intro: cb_step_inv)
qed

section \<open>Consecutive calls\<close>

text \<open>The failures of one peer in a row, each with its two clock readings, and the answers to a row
  of requests.\<close>

definition fail_run :: "(int \<times> int) list \<Rightarrow> ulong \<Rightarrow> CircuitBreaker \<Rightarrow> CircuitBreaker" where
  "fail_run ts p cb = fold (\<lambda>(now, now'). recordFailure now now' p) ts cb"

primrec allow_run :: "int list \<Rightarrow> ulong \<Rightarrow> CircuitBreaker \<Rightarrow> bool list" where
  "allow_run [] p cb = []"
| "allow_run (t # ts) p cb = (let (ok, cb') = allowRequest t p cb in ok # allow_run ts p cb')"

definition circuit_of :: "CircuitBreaker \<Rightarrow> ulong \<Rightarrow> PeerCircuit" where
  "circuit_of cb p = (case circuitIndex_s cb p of None \<Rightarrow> PeerCircuit_new | Some c \<Rightarrow> c)"

lemma circuit_of_set [simp]:
  "circuit_of (set_circuit p c cb) q = (if q = p then c else circuit_of cb q)"
  by (simp add: circuit_of_def set_circuit_def)

lemma set_circuit_params [simp]:
  "failureThreshold_s (set_circuit p c cb) = failureThreshold_s cb"
  "halfOpenMaxProbes_s (set_circuit p c cb) = halfOpenMaxProbes_s cb"
  "openDurationSecs_s (set_circuit p c cb) = openDurationSecs_s cb"
  "circuitIndex_s (set_circuit p c cb) p = Some c"
  by (simp_all add: set_circuit_def)

lemma recordFailure_params [simp]:
  "failureThreshold_s (recordFailure a b p cb) = failureThreshold_s cb"
  "openDurationSecs_s (recordFailure a b p cb) = openDurationSecs_s cb"
  by (simp_all add: recordFailure_def Let_def)

lemma fail_run_params [simp]:
  "failureThreshold_s (fail_run ts p cb) = failureThreshold_s cb"
  "openDurationSecs_s (fail_run ts p cb) = openDurationSecs_s cb"
  by (induction ts arbitrary: cb) (auto simp: fail_run_def)

lemma recordFailure_closed:
  "state (circuit_of cb p) = Closed \<Longrightarrow>
   circuit_of (recordFailure a b p cb) p =
     (let c = (circuit_of cb p)\<lparr>failureCount := failureCount (circuit_of cb p) + 1\<rparr> in
      if failureCount c \<ge> failureThreshold_s cb then c\<lparr>state := Open, openedAt := b\<rparr> else c)"
  by (simp add: recordFailure_def evaluateState_def Let_def circuit_of_def [symmetric])

lemma fail_run_below:
  assumes "state (circuit_of cb p) = Closed"
    and "failureCount (circuit_of cb p) + int (length ts) < failureThreshold_s cb"
  shows "state (circuit_of (fail_run ts p cb) p) = Closed \<and>
    failureCount (circuit_of (fail_run ts p cb) p) = failureCount (circuit_of cb p) + int (length ts)"
  using assms
proof (induction ts arbitrary: cb)
  case Nil
  then show ?case by (simp add: fail_run_def)
next
  case (Cons t ts)
  obtain a b where t: "t = (a, b)" by (cases t)
  have "fail_run (t # ts) p cb = fail_run ts p (recordFailure a b p cb)"
    by (simp add: t fail_run_def)
  then show ?case using Cons.prems Cons.IH [of "recordFailure a b p cb"]
    by (simp add: recordFailure_closed Let_def)
qed

lemma allow_known:
  "circuitIndex_s cb p = Some c \<Longrightarrow> state c = HalfOpen \<Longrightarrow>
   allowRequest now p cb =
     (if halfOpenProbes c < halfOpenMaxProbes_s cb
      then (True, set_circuit p (c\<lparr>halfOpenProbes := halfOpenProbes c + 1\<rparr>) cb)
      else (False, set_circuit p c cb))"
  by (simp add: allowRequest_def evaluateState_def)

lemma allow_run_half_open:
  assumes "circuitIndex_s cb p = Some c" and "state c = HalfOpen"
    and "halfOpenProbes c + int n = halfOpenMaxProbes_s cb"
  shows "allow_run ts p cb = replicate (min (length ts) n) True @ replicate (length ts - n) False"
  using assms
proof (induction ts arbitrary: cb c n)
  case Nil
  then show ?case by simp
next
  case (Cons t ts)
  show ?case
  proof (cases n)
    case 0
    then show ?thesis
      using Cons.prems Cons.IH [of "set_circuit p c cb" c 0] by (simp add: allow_known)
  next
    case (Suc k)
    define c' where "c' = c\<lparr>halfOpenProbes := halfOpenProbes c + 1\<rparr>"
    have "allow_run ts p (set_circuit p c' cb) =
        replicate (min (length ts) k) True @ replicate (length ts - k) False"
      using Cons.prems Suc by (intro Cons.IH [where c = c']) (auto simp: c'_def)
    moreover have "allowRequest t p cb = (True, set_circuit p c' cb)"
      using Cons.prems Suc by (simp add: allow_known c'_def)
    ultimately show ?thesis using Suc by simp
  qed
qed

lemma allow_run_open:
  assumes "circuitIndex_s cb p = Some c" and "state c = Open" and "ts \<noteq> []"
    and "openedAt c + openDurationSecs_s cb * 1000000000 \<le> hd ts"
  shows "allow_run ts p cb = allow_run ts p (set_circuit p (c\<lparr>state := HalfOpen, halfOpenProbes := 0\<rparr>) cb)"
proof -
  obtain t ts' where ts: "ts = t # ts'" using assms(3) by (cases ts) auto
  have "set_circuit p d (set_circuit p e cb) = set_circuit p d cb" for d e
    by (simp add: set_circuit_def)
  then have "allowRequest t p cb =
      allowRequest t p (set_circuit p (c\<lparr>state := HalfOpen, halfOpenProbes := 0\<rparr>) cb)"
    using assms by (simp add: ts allowRequest_def evaluateState_def Let_def)
  then show ?thesis by (simp add: ts)
qed

section \<open>Properties\<close>

text \<open>In every state reached by any interleaving of calls, at clock readings that never go back,
  a closed circuit has seen fewer consecutive failures than the threshold, a half-open circuit has
  let at most two probes through, and no circuit carries an opening time in the future.\<close>

lemma cb_reachable_circuits:
  assumes "cb_reach t cb" and "circuitIndex_s cb p = Some c"
  shows "0 \<le> failureCount c \<and> (state c = Closed \<longrightarrow> failureCount c < failureThreshold_s cb) \<and>
    (state c = HalfOpen \<longrightarrow> 0 \<le> halfOpenProbes c \<and> halfOpenProbes c \<le> 2) \<and> openedAt c \<le> t"
  using cb_reach_inv [OF assms(1)] cb_inv_lookup [OF cb_reach_inv [OF assms(1)] assms(2)]
  by (auto simp: circuit_inv_def cb_inv_def)

definition demo_cb :: CircuitBreaker where
  "demo_cb = recordFailure 10 11 7 (cb_configure 1 2 cb_init)"

lemma demo_cb_reach: "cb_reach 11 demo_cb"
  unfolding demo_cb_def
  by (rule cb_reach.step [where t = 5], rule cb_reach.configured) (auto intro: cb_step.intros)

lemma demo_cb_circuit:
  "circuitIndex_s demo_cb 7 = Some \<lparr>state = Open, failureCount = 1, halfOpenProbes = 0, openedAt = 11\<rparr>"
  "failureThreshold_s demo_cb = 1" "halfOpenMaxProbes_s demo_cb = 2" "openDurationSecs_s demo_cb = 2"
  by (simp_all add: demo_cb_def cb_defs cb_configure_def cb_init_def)

lemma cb_reachable_circuits_witness:
  "cb_reach 11 demo_cb \<and> 0 \<le> failureCount (the (circuitIndex_s demo_cb 7)) \<and>
   openedAt (the (circuitIndex_s demo_cb 7)) \<le> 11"
  using cb_reachable_circuits [OF demo_cb_reach demo_cb_circuit(1)] demo_cb_circuit(1) demo_cb_reach by simp

lemma fail_run_trips:
  assumes "state (circuit_of cb p) = Closed" and "failureCount (circuit_of cb p) = 0"
    and "int (length ts) + 1 = failureThreshold_s cb"
  shows "state (circuit_of (fail_run (ts @ [(a, b)]) p cb) p) = Open \<and> openedAt (circuit_of (fail_run (ts @ [(a, b)]) p cb) p) = b"
proof -
  have split: "fail_run (ts @ [(a, b)]) p cb = recordFailure a b p (fail_run ts p cb)"
    by (simp add: fail_run_def)
  show ?thesis using fail_run_below [of cb p ts] assms by (simp add: split recordFailure_closed Let_def)
qed

lemma open_refuses:
  "state (circuit_of cb p) = Open \<Longrightarrow> now - openedAt (circuit_of cb p) < openDurationSecs_s cb * 1000000000 \<Longrightarrow>
     \<not> fst (allowRequest now p cb)"
  by (auto simp: allowRequest_def circuit_of_def evaluateState_def PeerCircuit_new_def Let_def split: option.splits)

text \<open>C8: a peer trips exactly at the threshold. From a closed circuit without failures, fewer
  consecutive failures than the threshold leave it closed and every request allowed; the failure
  that reaches the threshold opens it at its own clock reading, and then every request before the
  open duration has passed is refused.\<close>

theorem cb_trips_at_threshold:
  assumes "state (circuit_of cb p) = Closed" and "failureCount (circuit_of cb p) = 0"
    and "int (length ts) + 1 = failureThreshold_s cb"
  shows "(\<forall>n now. n \<le> length ts \<longrightarrow> fst (allowRequest now p (fail_run (take n ts) p cb))) \<and>
    (let cb' = fail_run (ts @ [(a, b)]) p cb in
       state (circuit_of cb' p) = Open \<and> openedAt (circuit_of cb' p) = b \<and>
       (\<forall>now. now - b < openDurationSecs_s cb * 1000000000 \<longrightarrow> \<not> fst (allowRequest now p cb')))"
proof -
  have below: "state (circuit_of (fail_run (take n ts) p cb) p) = Closed \<and>
      failureCount (circuit_of (fail_run (take n ts) p cb) p) = int (length (take n ts))" for n
    using fail_run_below [of cb p "take n ts"] assms by simp
  have closed: "state (circuit_of cb' p) = Closed \<Longrightarrow> fst (allowRequest now p cb')" for cb' now
    by (auto simp: allowRequest_def circuit_of_def evaluateState_def split: option.splits)
  have "openDurationSecs_s (fail_run (ts @ [(a, b)]) p cb) = openDurationSecs_s cb" by simp
  with below closed fail_run_trips [OF assms] show ?thesis using open_refuses [of "fail_run (ts @ [(a, b)]) p cb" p] by simp
qed

theorem cb_trips_at_threshold_witness:
  "state (circuit_of (fail_run ([(0, 0), (1, 1), (2, 2), (3, 3)] @ [(4, 4)]) 7 cb_init) 7) = Open \<and>
   \<not> fst (allowRequest 29999999999 7 (fail_run ([(0, 0), (1, 1), (2, 2), (3, 3)] @ [(4, 4)]) 7 cb_init))"
  using cb_trips_at_threshold [of cb_init 7 "[(0, 0), (1, 1), (2, 2), (3, 3)]" 4 4]
  by (simp add: cb_init_def circuit_of_def PeerCircuit_new_def Let_def)

text \<open>Once the open duration has passed, the next requests to the peer are its probes: exactly
  two are let through and, while no outcome is recorded, every later one is refused, however much
  time passes.\<close>

lemma cb_probe_budget:
  assumes "circuitIndex_s cb p = Some c" and "state c = Open" and "halfOpenMaxProbes_s cb = 2"
    and "openedAt c + openDurationSecs_s cb * 1000000000 \<le> t"
  shows "allow_run (t # ts) p cb =
    replicate (min (Suc (length ts)) 2) True @ replicate (length ts - 1) False"
proof -
  have "allow_run (t # ts) p cb =
      allow_run (t # ts) p (set_circuit p (c\<lparr>state := HalfOpen, halfOpenProbes := 0\<rparr>) cb)"
    using assms by (intro allow_run_open) auto
  also have "\<dots> = replicate (min (length (t # ts)) 2) True @ replicate (length (t # ts) - 2) False"
    using assms
    by (intro allow_run_half_open [where c = "c\<lparr>state := HalfOpen, halfOpenProbes := 0\<rparr>"]) auto
  finally show ?thesis by (simp add: numeral_2_eq_2)
qed

lemma cb_probe_budget_witness:
  "allow_run [2000000011, 2000000012, 2000000013, 9000000000000] 7 demo_cb = [True, True, False, False]"
  using cb_probe_budget [OF demo_cb_circuit(1), of 2000000011 "[2000000012, 2000000013, 9000000000000]"]
    demo_cb_circuit by (simp add: numeral_2_eq_2 min_def)

text \<open>Peers do not affect each other: the answer to a request to one peer is the same before and
  after any call about another peer; and a recorded success lets every later request to its own
  peer through.\<close>

lemma cb_peers_isolated:
  assumes "q \<noteq> p"
  shows "fst (allowRequest now q (snd (allowRequest t p cb))) = fst (allowRequest now q cb) \<and>
    fst (allowRequest now q (recordSuccess p cb)) = fst (allowRequest now q cb) \<and>
    fst (allowRequest now q (recordFailure t t' p cb)) = fst (allowRequest now q cb) \<and>
    fst (allowRequest now q (snd (getState t p cb))) = fst (allowRequest now q cb) \<and>
    fst (allowRequest now p (recordSuccess p cb))"
proof -
  have answer: "fst (allowRequest now q cb1) = fst (allowRequest now q cb2)"
    if "circuitIndex_s cb1 q = circuitIndex_s cb2 q" "openDurationSecs_s cb1 = openDurationSecs_s cb2"
      "halfOpenMaxProbes_s cb1 = halfOpenMaxProbes_s cb2" for cb1 cb2
    using that by (simp add: allowRequest_def evaluateState_def Let_def split: option.splits)
  have set: "fst (allowRequest now q (set_circuit p c cb)) = fst (allowRequest now q cb)" for c
    using assms by (intro answer) (simp_all add: set_circuit_def)
  have "fst (allowRequest now p (recordSuccess p cb))"
    by (auto simp: recordSuccess_def allowRequest_def evaluateState_def split: option.splits)
  then show ?thesis
    by (auto simp: allowRequest_def [of t p] recordSuccess_def recordFailure_def getState_def Let_def set
        split: option.splits)
qed

lemma cb_peers_isolated_witness:
  "fst (allowRequest 20 8 (recordFailure 12 13 7 demo_cb)) = fst (allowRequest 20 8 demo_cb)"
  using cb_peers_isolated [of 8 7 20 0 demo_cb 0] cb_peers_isolated [of 8 7 20 12 demo_cb 13] by simp

end
