(* ===== verification/QueryCache.thy ===== *)
theory QueryCache
  imports Prelude
begin

text \<open>
  protocols/Alpine/QueryCache.cpp: the LRU cache of query results. \<open>entries_s\<close> is a \<^verbatim>\<open>std::list\<close> whose
  nodes keep their identity while they are spliced, and \<open>index_s\<close> maps a key to an iterator; so a
  list element is a pair of its node and the entry, and the index maps keys to nodes. \<open>freshNode\<close> is
  the allocator of \<open>push_front\<close>. An access through an iterator whose node is no longer in the list
  is undefined in C++; the operations return \<open>None\<close> there. Clock readings are arguments, in
  nanoseconds. The abstract cache is the plain list of entries, most recently used first.
\<close>

section \<open>State and operations\<close>

record t_CacheEntry =
  queryKey :: string
  results :: string
  insertTime :: int

type_synonym t_EntryIterator = nat

record QueryCache =
  entries_s :: "(t_EntryIterator \<times> t_CacheEntry) list"
  index_s :: "string \<rightharpoonup> t_EntryIterator"
  maxEntries_s :: ulong
  ttlSeconds_s :: ulong
  freshNode :: nat

definition qc_init :: QueryCache where
  "qc_init = \<lparr>entries_s = [], index_s = Map.empty, maxEntries_s = 1000, ttlSeconds_s = 300, freshNode = 0\<rparr>"

definition qc_configure :: "ulong \<Rightarrow> ulong \<Rightarrow> QueryCache \<Rightarrow> QueryCache" where
  "qc_configure maxEntries ttlSeconds qc = qc\<lparr>maxEntries_s := maxEntries, ttlSeconds_s := ttlSeconds\<rparr>"

text \<open>\<open>duration_cast<seconds>\<close> truncates towards zero; the count is then read as a \<open>ulong\<close>.\<close>

definition duration_secs :: "int \<Rightarrow> ulong" where
  "duration_secs d = word_of_int (if 0 \<le> d then d div 1000000000 else - ((- d) div 1000000000))"

definition expired :: "ulong \<Rightarrow> int \<Rightarrow> t_CacheEntry \<Rightarrow> bool" where
  "expired ttl now entry \<longleftrightarrow> ttl \<le> duration_secs (now - insertTime entry)"

definition list_erase :: "t_EntryIterator \<Rightarrow> (t_EntryIterator \<times> t_CacheEntry) list \<Rightarrow>
    (t_EntryIterator \<times> t_CacheEntry) list" where
  "list_erase it es = filter (\<lambda>(n, e). n \<noteq> it) es"

definition lookup :: "int \<Rightarrow> string \<Rightarrow> QueryCache \<Rightarrow> (string option \<times> QueryCache) option" where
  "lookup now key qc = (case index_s qc key of
       None \<Rightarrow> Some (None, qc)
     | Some it \<Rightarrow> (case map_of (entries_s qc) it of
         None \<Rightarrow> None
       | Some entry \<Rightarrow>
           if expired (ttlSeconds_s qc) now entry
           then Some (None, qc\<lparr>entries_s := list_erase it (entries_s qc),
                               index_s := (index_s qc)(key := None)\<rparr>)
           else Some (Some (results entry),
                      qc\<lparr>entries_s := (it, entry) # list_erase it (entries_s qc)\<rparr>)))"

definition invalidate :: "string \<Rightarrow> QueryCache \<Rightarrow> QueryCache option" where
  "invalidate key qc = (case index_s qc key of
       None \<Rightarrow> Some qc
     | Some it \<Rightarrow>
         if it \<in> fst ` set (entries_s qc)
         then Some (qc\<lparr>entries_s := list_erase it (entries_s qc), index_s := (index_s qc)(key := None)\<rparr>)
         else None)"

definition qc_push_front :: "t_CacheEntry \<Rightarrow> QueryCache \<Rightarrow> QueryCache" where
  "qc_push_front entry qc = qc\<lparr>entries_s := (freshNode qc, entry) # entries_s qc,
     index_s := (index_s qc)(queryKey entry \<mapsto> freshNode qc), freshNode := Suc (freshNode qc)\<rparr>"

text \<open>The eviction loop of \<open>store\<close>.\<close>

function evict_lru :: "QueryCache \<Rightarrow> QueryCache" where
  "evict_lru qc =
     (if length (entries_s qc) > unat (maxEntries_s qc)
      then evict_lru (qc\<lparr>index_s := (index_s qc)(queryKey (snd (last (entries_s qc))) := None),
                         entries_s := butlast (entries_s qc)\<rparr>)
      else qc)"
  by pat_completeness auto
termination by (relation "measure (length \<circ> entries_s)") auto

declare evict_lru.simps [simp del]

text \<open>The first block of \<open>store\<close> is the body of \<open>invalidate\<close>.\<close>

definition qc_store :: "int \<Rightarrow> string \<Rightarrow> string \<Rightarrow> QueryCache \<Rightarrow> QueryCache option" where
  "qc_store now key res qc = do {
     qc1 \<leftarrow> invalidate key qc;
     Some (evict_lru (qc_push_front \<lparr>queryKey = key, results = res, insertTime = now\<rparr> qc1))
   }"

definition qc_clear :: "QueryCache \<Rightarrow> QueryCache" where
  "qc_clear qc = qc\<lparr>entries_s := [], index_s := Map.empty\<rparr>"

definition qc_size :: "QueryCache \<Rightarrow> nat" where
  "qc_size qc = length (entries_s qc)"

text \<open>\<open>evictExpired\<close> walks the list once; \<open>kept\<close> is the part it has already passed.\<close>

fun evict_walk :: "int \<Rightarrow> ulong \<Rightarrow> (t_EntryIterator \<times> t_CacheEntry) list \<Rightarrow> (string \<rightharpoonup> t_EntryIterator) \<Rightarrow>
    (t_EntryIterator \<times> t_CacheEntry) list \<times> (string \<rightharpoonup> t_EntryIterator)" where
  "evict_walk now ttl [] idx = ([], idx)"
| "evict_walk now ttl ((n, e) # es) idx =
     (if expired ttl now e then evict_walk now ttl es (idx(queryKey e := None))
      else let (es', idx') = evict_walk now ttl es idx in ((n, e) # es', idx'))"

definition evictExpired :: "int \<Rightarrow> QueryCache \<Rightarrow> QueryCache" where
  "evictExpired now qc = (let (es, idx) = evict_walk now (ttlSeconds_s qc) (entries_s qc) (index_s qc)
     in qc\<lparr>entries_s := es, index_s := idx\<rparr>)"

section \<open>The index mirrors the list\<close>

text \<open>Nodes are distinct and older than the next allocation, keys are distinct, and the index holds
  exactly the keys of the list, each with its node.\<close>

definition keys_of :: "(t_EntryIterator \<times> t_CacheEntry) list \<Rightarrow> string list" where
  "keys_of es = map (queryKey \<circ> snd) es"

definition index_of :: "(t_EntryIterator \<times> t_CacheEntry) list \<Rightarrow> string \<rightharpoonup> t_EntryIterator" where
  "index_of es = map_of (map (\<lambda>(n, e). (queryKey e, n)) es)"

definition qc_inv :: "QueryCache \<Rightarrow> bool" where
  "qc_inv qc \<longleftrightarrow> distinct (map fst (entries_s qc)) \<and> distinct (keys_of (entries_s qc)) \<and>
     (\<forall>n\<in>fst ` set (entries_s qc). n < freshNode qc) \<and> index_s qc = index_of (entries_s qc)"

lemma index_of_Some:
  "distinct (keys_of es) \<Longrightarrow> index_of es k = Some n \<longleftrightarrow> (\<exists>e. (n, e) \<in> set es \<and> queryKey e = k)"
proof -
  assume "distinct (keys_of es)"
  moreover have "map fst (map (\<lambda>(n, e). (queryKey e, n)) es) = keys_of es"
    by (simp add: keys_of_def case_prod_beta comp_def)
  ultimately show ?thesis by (force simp: index_of_def)
qed

lemma index_of_None: "index_of es k = None \<longleftrightarrow> k \<notin> set (keys_of es)"
  by (force simp: index_of_def keys_of_def map_of_eq_None_iff)

text \<open>Erasing a node by its iterator is erasing its key.\<close>

lemma erase_by_key:
  assumes "distinct (map fst es)" "distinct (keys_of es)" "(n, e) \<in> set es"
  shows "list_erase n es = filter (\<lambda>(m, d). queryKey d \<noteq> queryKey e) es"
  unfolding list_erase_def
proof (rule filter_cong [OF refl])
  fix x assume x: "x \<in> set es"
  obtain m d where [simp]: "x = (m, d)" by (cases x)
  have "m = n \<longleftrightarrow> x = (n, e)"
    using assms(1,3) x by (metis \<open>x = (m, d)\<close> eq_key_imp_eq_value prod.inject)
  moreover have "queryKey d = queryKey e \<longleftrightarrow> x = (n, e)"
    using assms(2,3) x unfolding keys_of_def distinct_map
    by (metis comp_apply inj_on_eq_iff snd_conv \<open>x = (m, d)\<close>)
  ultimately show "(case x of (m, d) \<Rightarrow> m \<noteq> n) = (case x of (m, d) \<Rightarrow> queryKey d \<noteq> queryKey e)"
    by simp
qed

lemma index_of_filter:
  "index_of (filter (\<lambda>(m, d). queryKey d \<noteq> k) es) = (index_of es)(k := None)"
  by (rule ext, induction es) (auto simp: index_of_def)

lemma keys_filter: "keys_of (filter (\<lambda>(m, d). queryKey d \<noteq> k) es) = filter (\<lambda>x. x \<noteq> k) (keys_of es)"
  by (induction es) (auto simp: keys_of_def)

lemma distinct_fst_filter: "distinct (map fst es) \<Longrightarrow> distinct (map fst (filter P es))"
  by (induction es) auto

lemma qc_inv_without:
  "qc_inv qc \<Longrightarrow>
   qc_inv (qc\<lparr>entries_s := filter (\<lambda>(m, d). queryKey d \<noteq> k) (entries_s qc), index_s := (index_s qc)(k := None)\<rparr>)"
  by (auto simp: qc_inv_def index_of_filter keys_filter distinct_fst_filter)

text \<open>What the index says of a key, under the invariant.\<close>

lemma qc_index_cases:
  assumes "qc_inv qc"
  obtains (absent) "index_s qc k = None" "k \<notin> set (keys_of (entries_s qc))"
  | (present) n e where "index_s qc k = Some n" "(n, e) \<in> set (entries_s qc)" "queryKey e = k"
      "map_of (entries_s qc) n = Some e"
      "list_erase n (entries_s qc) = filter (\<lambda>(m, d). queryKey d \<noteq> k) (entries_s qc)"
proof (cases "index_s qc k")
  case None
  with assms show ?thesis by (auto simp: qc_inv_def index_of_None intro: absent)
next
  case (Some n)
  with assms obtain e where "(n, e) \<in> set (entries_s qc)" "queryKey e = k"
    by (auto simp: qc_inv_def index_of_Some)
  with Some assms show ?thesis
    by (intro present [of n e]) (auto simp: qc_inv_def erase_by_key)
qed

section \<open>The abstract cache\<close>

text \<open>A list of entries with distinct keys, most recently used first; no index, no nodes.\<close>

definition qc_abs :: "QueryCache \<Rightarrow> t_CacheEntry list" where
  "qc_abs qc = map snd (entries_s qc)"

definition without :: "string \<Rightarrow> t_CacheEntry list \<Rightarrow> t_CacheEntry list" where
  "without k es = filter (\<lambda>e. queryKey e \<noteq> k) es"

definition spec_lookup :: "ulong \<Rightarrow> int \<Rightarrow> string \<Rightarrow> t_CacheEntry list \<Rightarrow> string option \<times> t_CacheEntry list" where
  "spec_lookup ttl now k es = (case find (\<lambda>e. queryKey e = k) es of
       None \<Rightarrow> (None, es)
     | Some e \<Rightarrow> if expired ttl now e then (None, without k es) else (Some (results e), e # without k es))"

definition spec_store :: "ulong \<Rightarrow> int \<Rightarrow> string \<Rightarrow> string \<Rightarrow> t_CacheEntry list \<Rightarrow> t_CacheEntry list" where
  "spec_store cap now k r es =
     take (unat cap) (\<lparr>queryKey = k, results = r, insertTime = now\<rparr> # without k es)"

lemma map_snd_without:
  "map snd (filter (\<lambda>(m, d). queryKey d \<noteq> k) es) = without k (map snd es)"
  by (induction es) (auto simp: without_def)

lemma find_entry:
  assumes "distinct (keys_of es)" "(n, e) \<in> set es"
  shows "find (\<lambda>d. queryKey d = queryKey e) (map snd es) = Some e"
  using assms by (induction es) (auto simp: keys_of_def rev_image_eqI)

lemma find_no_entry: "k \<notin> set (keys_of es) \<Longrightarrow> find (\<lambda>d. queryKey d = k) (map snd es) = None"
  by (auto simp: find_None_iff keys_of_def)

lemma lookup_refines:
  assumes "qc_inv qc"
  shows "\<exists>qc'. lookup now k qc = Some (fst (spec_lookup (ttlSeconds_s qc) now k (qc_abs qc)), qc') \<and>
    qc_abs qc' = snd (spec_lookup (ttlSeconds_s qc) now k (qc_abs qc)) \<and> qc_inv qc' \<and>
    maxEntries_s qc' = maxEntries_s qc \<and> ttlSeconds_s qc' = ttlSeconds_s qc"
  using assms
proof (cases rule: qc_index_cases [of qc k])
  case absent
  with assms show ?thesis by (simp add: lookup_def spec_lookup_def qc_abs_def find_no_entry)
next
  case (present n e)
  let ?rest = "filter (\<lambda>(m, d). queryKey d \<noteq> k) (entries_s qc)"
  have found: "find (\<lambda>d. queryKey d = k) (qc_abs qc) = Some e"
    using present assms find_entry [of "entries_s qc" n e] by (simp add: qc_inv_def qc_abs_def)
  have idx: "(index_of ?rest)(k \<mapsto> n) = index_s qc"
    using present assms by (simp add: index_of_filter qc_inv_def fun_upd_idem)
  have "qc_inv (qc\<lparr>entries_s := (n, e) # ?rest\<rparr>)"
  proof -
    have "distinct (map fst ((n, e) # ?rest))"
      using assms present(5) by (auto simp: qc_inv_def list_erase_def distinct_fst_filter
          present(5) [symmetric])
    moreover have "distinct (keys_of ((n, e) # ?rest))"
      using assms present(3) keys_filter [of k "entries_s qc"] by (auto simp: qc_inv_def keys_of_def)
    moreover have "index_s qc = index_of ((n, e) # ?rest)"
      using idx present(3) by (simp add: index_of_def)
    moreover have "\<forall>m\<in>fst ` set ((n, e) # ?rest). m < freshNode qc"
      using assms present(2) by (force simp: qc_inv_def)
    ultimately show ?thesis by (simp add: qc_inv_def)
  qed
  with present found assms qc_inv_without [of qc k] show ?thesis
    by (auto simp: lookup_def spec_lookup_def qc_abs_def map_snd_without)
qed

lemma invalidate_refines:
  assumes "qc_inv qc"
  shows "\<exists>qc'. invalidate k qc = Some qc' \<and> qc_abs qc' = without k (qc_abs qc) \<and> qc_inv qc' \<and>
    k \<notin> set (keys_of (entries_s qc')) \<and> maxEntries_s qc' = maxEntries_s qc \<and>
    ttlSeconds_s qc' = ttlSeconds_s qc"
  using assms
proof (cases rule: qc_index_cases [of qc k])
  case absent
  then have "without k (qc_abs qc) = qc_abs qc"
    by (auto simp: without_def qc_abs_def keys_of_def filter_id_conv)
  with absent assms show ?thesis by (simp add: invalidate_def)
next
  case (present n e)
  with assms qc_inv_without [of qc k] show ?thesis
    by (force simp: invalidate_def qc_abs_def map_snd_without keys_filter)
qed

lemma push_front_inv:
  assumes "qc_inv qc" "queryKey e \<notin> set (keys_of (entries_s qc))"
  shows "qc_inv (qc_push_front e qc)"
  using assms by (auto simp: qc_inv_def qc_push_front_def keys_of_def index_of_def less_Suc_eq)

lemma butlast_inv:
  assumes "qc_inv qc" "entries_s qc \<noteq> []"
  shows "qc_inv (qc\<lparr>index_s := (index_s qc)(queryKey (snd (last (entries_s qc))) := None),
                   entries_s := butlast (entries_s qc)\<rparr>)"
proof -
  obtain es n e where es: "entries_s qc = es @ [(n, e)]"
    using assms(2) by (metis append_butlast_last_id surj_pair)
  have "filter (\<lambda>(m, d). queryKey d \<noteq> queryKey e) (entries_s qc) = es"
    using assms(1) by (force simp: es qc_inv_def keys_of_def filter_id_conv)
  then have "qc_inv (qc\<lparr>entries_s := es, index_s := (index_s qc)(queryKey e := None)\<rparr>)"
    using qc_inv_without [OF assms(1), of "queryKey e"] by simp
  then show ?thesis by (simp add: es qc_inv_def)
qed

lemma evict_lru_refines:
  "qc_inv qc \<Longrightarrow> qc_inv (evict_lru qc) \<and> maxEntries_s (evict_lru qc) = maxEntries_s qc \<and>
     ttlSeconds_s (evict_lru qc) = ttlSeconds_s qc \<and>
     qc_abs (evict_lru qc) = take (unat (maxEntries_s qc)) (qc_abs qc)"
proof (induction qc rule: evict_lru.induct)
  case (1 qc)
  show ?case
  proof (cases "length (entries_s qc) > unat (maxEntries_s qc)")
    case True
    let ?qc = "qc\<lparr>index_s := (index_s qc)(queryKey (snd (last (entries_s qc))) := None),
                  entries_s := butlast (entries_s qc)\<rparr>"
    have "take (unat (maxEntries_s qc)) (qc_abs ?qc) = take (unat (maxEntries_s qc)) (qc_abs qc)"
      using True by (simp add: qc_abs_def take_map take_butlast)
    moreover have "qc_inv ?qc" using 1 True by (intro butlast_inv) auto
    ultimately show ?thesis using True 1 by (simp add: evict_lru.simps [of qc])
  next
    case False
    with 1 show ?thesis by (simp add: evict_lru.simps [of qc] qc_abs_def)
  qed
qed

lemma store_refines:
  assumes "qc_inv qc"
  shows "\<exists>qc'. qc_store now k r qc = Some qc' \<and> qc_inv qc' \<and>
    qc_abs qc' = spec_store (maxEntries_s qc) now k r (qc_abs qc) \<and>
    maxEntries_s qc' = maxEntries_s qc \<and> ttlSeconds_s qc' = ttlSeconds_s qc"
proof -
  let ?e = "\<lparr>queryKey = k, results = r, insertTime = now\<rparr>"
  obtain qc1 where 1: "invalidate k qc = Some qc1" "qc_abs qc1 = without k (qc_abs qc)" "qc_inv qc1"
    "k \<notin> set (keys_of (entries_s qc1))" "maxEntries_s qc1 = maxEntries_s qc"
    "ttlSeconds_s qc1 = ttlSeconds_s qc"
    using invalidate_refines [OF assms] by blast
  have 2: "qc_inv (qc_push_front ?e qc1)" using 1 by (intro push_front_inv) auto
  have 3: "maxEntries_s (qc_push_front ?e qc1) = maxEntries_s qc1"
    "ttlSeconds_s (qc_push_front ?e qc1) = ttlSeconds_s qc1"
    "qc_abs (qc_push_front ?e qc1) = ?e # qc_abs qc1"
    by (simp_all add: qc_push_front_def qc_abs_def)
  show ?thesis
    using evict_lru_refines [OF 2] 1 3 by (simp add: qc_store_def spec_store_def)
qed

lemma evict_walk_spec:
  assumes "distinct (keys_of es)"
  shows "evict_walk now ttl es idx =
    (filter (\<lambda>(n, e). \<not> expired ttl now e) es,
     \<lambda>k. if \<exists>(n, e)\<in>set es. queryKey e = k \<and> expired ttl now e then None else idx k)"
  using assms
proof (induction es arbitrary: idx)
  case Nil
  then show ?case by simp
next
  case (Cons x es)
  obtain n e where x: "x = (n, e)" by (cases x)
  from Cons.prems have "distinct (keys_of es)" by (simp add: keys_of_def)
  note ih = Cons.IH [OF this]
  show ?case by (auto simp: x ih fun_eq_iff)
qed

lemma evictExpired_refines:
  assumes "qc_inv qc"
  shows "qc_inv (evictExpired now qc) \<and>
    qc_abs (evictExpired now qc) = filter (\<lambda>e. \<not> expired (ttlSeconds_s qc) now e) (qc_abs qc)"
proof -
  let ?P = "\<lambda>(n, e). \<not> expired (ttlSeconds_s qc) now e"
  let ?idx = "\<lambda>k. if \<exists>(n, e)\<in>set (entries_s qc). queryKey e = k \<and> expired (ttlSeconds_s qc) now e
              then None else index_s qc k"
  have keys: "distinct (keys_of (entries_s qc))" using assms by (simp add: qc_inv_def)
  have eq: "evictExpired now qc = qc\<lparr>entries_s := filter ?P (entries_s qc), index_s := ?idx\<rparr>"
    by (simp add: evictExpired_def evict_walk_spec [OF keys])
  have keys': "distinct (keys_of (filter ?P (entries_s qc)))"
    using keys unfolding keys_of_def by (rule distinct_map_filter)
  have "?idx k = index_of (filter ?P (entries_s qc)) k" for k
  proof (cases "index_of (filter ?P (entries_s qc)) k")
    case None
    then have "k \<notin> set (keys_of (filter ?P (entries_s qc)))" by (simp add: index_of_None)
    then show ?thesis
      using assms None index_of_None [of "entries_s qc" k] by (force simp: qc_inv_def keys_of_def)
  next
    case (Some n)
    then obtain e where e: "(n, e) \<in> set (entries_s qc)" "queryKey e = k"
      "\<not> expired (ttlSeconds_s qc) now e"
      using keys' by (auto simp: index_of_Some)
    then have "index_s qc k = Some n" using assms by (auto simp: qc_inv_def index_of_Some)
    moreover have "d = e" if "(m, d) \<in> set (entries_s qc)" "queryKey d = k" for m d
      using find_entry [OF keys that(1)] find_entry [OF keys e(1)] that(2) e(2) by simp
    ultimately show ?thesis using Some e(3) by auto
  qed
  then have "?idx = index_of (filter ?P (entries_s qc))" by (rule ext)
  then have "qc_inv (evictExpired now qc)"
    using assms keys' by (auto simp: eq qc_inv_def distinct_fst_filter)
  moreover have "map snd (filter ?P es) = filter (\<lambda>e. \<not> expired (ttlSeconds_s qc) now e) (map snd es)" for es
    by (induction es) auto
  ultimately show ?thesis by (simp add: eq qc_abs_def)
qed

section \<open>Runs\<close>

datatype qc_op = Configure ulong ulong | Lookup int string | Store int string string
  | Invalidate string | Clear | EvictExpired int

definition qc_step :: "qc_op \<Rightarrow> QueryCache option \<Rightarrow> QueryCache option" where
  "qc_step a s = do {
     qc \<leftarrow> s;
     (case a of
        Configure m t \<Rightarrow> Some (qc_configure m t qc)
      | Lookup now k \<Rightarrow> map_option snd (lookup now k qc)
      | Store now k r \<Rightarrow> qc_store now k r qc
      | Invalidate k \<Rightarrow> invalidate k qc
      | Clear \<Rightarrow> Some (qc_clear qc)
      | EvictExpired now \<Rightarrow> Some (evictExpired now qc))
   }"

interpretation qcm: machine qc_step "\<lambda>s. \<exists>qc. s = Some qc \<and> qc_inv qc"
proof
  fix s a assume "\<exists>qc. s = Some qc \<and> qc_inv qc"
  then obtain qc where qc: "s = Some qc" "qc_inv qc" by blast
  show "\<exists>qc. qc_step a s = Some qc \<and> qc_inv qc"
  proof (cases a)
    case (Configure m t)
    with qc show ?thesis by (simp add: qc_step_def qc_configure_def qc_inv_def)
  next
    case (Lookup now k)
    with qc lookup_refines [OF qc(2), of now k] show ?thesis by (auto simp: qc_step_def)
  next
    case (Store now k r)
    with qc store_refines [OF qc(2), of now k r] show ?thesis by (auto simp: qc_step_def)
  next
    case (Invalidate k)
    with qc invalidate_refines [OF qc(2), of k] show ?thesis by (auto simp: qc_step_def)
  next
    case Clear
    with qc show ?thesis
      by (auto simp: qc_step_def qc_clear_def qc_inv_def keys_of_def index_of_def)
  next
    case (EvictExpired now)
    with qc evictExpired_refines [OF qc(2), of now] show ?thesis by (simp add: qc_step_def)
  qed
qed

lemma qc_init_inv: "qc_inv qc_init"
  by (auto simp: qc_init_def qc_inv_def keys_of_def index_of_def)

definition qc_stores :: "(int \<times> string \<times> string) list \<Rightarrow> QueryCache option \<Rightarrow> QueryCache option" where
  "qc_stores ws s = fold (\<lambda>(now, k, r). qc_step (Store now k r)) ws s"

text \<open>The entries in front of a key are among the keys stored after it, so it survives as long as
  fewer distinct keys than the capacity were stored since.\<close>

lemma spec_store_keeps:
  assumes "es = pre @ e # post" "queryKey ` set pre \<subseteq> S" "distinct (map queryKey pre)"
    and "k \<noteq> queryKey e" "finite S" "card (insert k S) < unat cap"
  shows "\<exists>pre' post'. spec_store cap now k r es = pre' @ e # post' \<and>
    queryKey ` set pre' \<subseteq> insert k S \<and> distinct (map queryKey pre')"
proof -
  let ?new = "\<lparr>queryKey = k, results = r, insertTime = now\<rparr>"
  let ?pre = "?new # without k pre"
  have keys: "queryKey ` set ?pre \<subseteq> insert k S" using assms(2) by (auto simp: without_def)
  have dist: "distinct (map queryKey ?pre)"
    using assms(3) by (auto simp: without_def distinct_map inj_on_def)
  have "length ?pre = card (queryKey ` set ?pre)"
    using distinct_card [OF dist] by simp
  also have "\<dots> \<le> card (insert k S)" using keys assms(5) by (intro card_mono) auto
  finally have "length ?pre < unat cap" using assms(6) by simp
  moreover have "without k es = without k pre @ e # without k post"
    using assms(1,4) by (simp add: without_def)
  ultimately have "spec_store cap now k r es =
      ?pre @ e # take (unat cap - Suc (length ?pre)) (without k post)"
    unfolding spec_store_def by (simp add: take_Cons' Suc_diff_Suc)
  with keys dist show ?thesis by blast
qed

lemma stores_keep:
  assumes "qc_inv qc" "qc_abs qc = pre @ e # post" "queryKey ` set pre \<subseteq> S"
    and "distinct (map queryKey pre)" "finite S" "queryKey e \<notin> fst ` snd ` set ws"
    and "card (S \<union> fst ` snd ` set ws) < unat (maxEntries_s qc)"
  shows "\<exists>qc'. qc_stores ws (Some qc) = Some qc' \<and> qc_inv qc' \<and> e \<in> set (qc_abs qc') \<and>
    ttlSeconds_s qc' = ttlSeconds_s qc"
  using assms
proof (induction ws arbitrary: qc pre post S)
  case Nil
  then show ?case by (auto simp: qc_stores_def)
next
  case (Cons w ws)
  obtain now k r where w: "w = (now, k, r)" by (cases w)
  obtain qc1 where 1: "qc_store now k r qc = Some qc1" "qc_inv qc1"
    "qc_abs qc1 = spec_store (maxEntries_s qc) now k r (qc_abs qc)"
    "maxEntries_s qc1 = maxEntries_s qc" "ttlSeconds_s qc1 = ttlSeconds_s qc"
    using store_refines [OF Cons.prems(1)] by blast
  have union: "S \<union> fst ` snd ` set (w # ws) = insert k S \<union> fst ` snd ` set ws" by (auto simp: w)
  have "card (insert k S) \<le> card (insert k S \<union> fst ` snd ` set ws)"
    using Cons.prems(5) by (intro card_mono) auto
  then have room: "card (insert k S) < unat (maxEntries_s qc)"
    using Cons.prems(7) unfolding union by simp
  have "k \<noteq> queryKey e" using Cons.prems(6) by (auto simp: w)
  from spec_store_keeps [OF Cons.prems(2,3,4) this Cons.prems(5) room] obtain pre' post' where
    "qc_abs qc1 = pre' @ e # post'" "queryKey ` set pre' \<subseteq> insert k S" "distinct (map queryKey pre')"
    unfolding 1(3) by blast
  with Cons.IH [of qc1 pre' post' "insert k S"] Cons.prems 1 union
  obtain qc' where "qc_stores ws (Some qc1) = Some qc'" "qc_inv qc'" "e \<in> set (qc_abs qc')"
    "ttlSeconds_s qc' = ttlSeconds_s qc1" by auto
  moreover have "qc_stores (w # ws) (Some qc) = qc_stores ws (Some qc1)"
    by (simp add: qc_stores_def w qc_step_def 1(1))
  ultimately show ?case using 1(5) by auto
qed

lemma lookup_present:
  assumes "qc_inv qc" "e \<in> set (qc_abs qc)"
  shows "map_option fst (lookup now (queryKey e) qc) =
    Some (if expired (ttlSeconds_s qc) now e then None else Some (results e))"
proof -
  obtain n where "(n, e) \<in> set (entries_s qc)" using assms(2) by (auto simp: qc_abs_def)
  with assms(1) have "find (\<lambda>d. queryKey d = queryKey e) (qc_abs qc) = Some e"
    using find_entry by (fastforce simp: qc_inv_def qc_abs_def)
  then have "fst (spec_lookup (ttlSeconds_s qc) now (queryKey e) (qc_abs qc)) =
      (if expired (ttlSeconds_s qc) now e then None else Some (results e))"
    by (simp add: spec_lookup_def)
  with lookup_refines [OF assms(1), of now "queryKey e"] show ?thesis by (auto simp del: split_paired_Ex)
qed

section \<open>Properties\<close>

text \<open>C7: the cache refines the abstract LRU list. On every state whose index mirrors its list each
  operation is defined (no dangling iterator is followed), re-establishes the mirror, answers as the
  abstract operation does, and leaves the abstract result: a hit moves the entry to the front, a
  lookup of an expired entry drops it, a store puts the entry in front and keeps the \<open>maxEntries_s\<close>
  most recently used ones, \<open>evictExpired\<close> drops exactly the expired ones.\<close>

theorem qc_refines_lru:
  assumes "qc_inv qc"
  shows "\<exists>ql qs qi.
    lookup now k qc = Some (fst (spec_lookup (ttlSeconds_s qc) now k (qc_abs qc)), ql) \<and> qc_inv ql \<and>
      qc_abs ql = snd (spec_lookup (ttlSeconds_s qc) now k (qc_abs qc)) \<and>
    qc_store now k r qc = Some qs \<and> qc_inv qs \<and>
      qc_abs qs = spec_store (maxEntries_s qc) now k r (qc_abs qc) \<and>
      qc_size qs \<le> unat (maxEntries_s qc) \<and>
    invalidate k qc = Some qi \<and> qc_inv qi \<and> qc_abs qi = without k (qc_abs qc) \<and>
    qc_inv (evictExpired now qc) \<and>
      qc_abs (evictExpired now qc) = filter (\<lambda>e. \<not> expired (ttlSeconds_s qc) now e) (qc_abs qc)"
proof -
  have size: "qc_size q \<le> n" if "qc_abs q = take n es" for q n es
  proof -
    have "qc_size q = length (qc_abs q)" by (simp add: qc_size_def qc_abs_def)
    with that show ?thesis by simp
  qed
  show ?thesis
    using lookup_refines [OF assms, of now k] store_refines [OF assms, of now k r]
      invalidate_refines [OF assms, of k] evictExpired_refines [OF assms, of now]
    unfolding spec_store_def by (meson size)
qed

theorem qc_refines_lru_witness:
  "qc_inv qc_init \<and> (\<exists>qs. qc_store 5 ''k'' ''v'' qc_init = Some qs \<and> qc_inv qs \<and>
     qc_abs qs = [\<lparr>queryKey = ''k'', results = ''v'', insertTime = 5\<rparr>])"
  using qc_refines_lru [OF qc_init_inv, of 5 "''k''" "''v''"] qc_init_inv
  by (auto simp: qc_init_def qc_abs_def spec_store_def without_def)

text \<open>No sequence of calls, reconfiguration included, makes the cache follow a dangling iterator,
  and after every one of them the index holds exactly the keys of the list, each with its own node.\<close>

lemma qc_runs_consistent:
  "\<exists>qc. fold qc_step as (Some qc_init) = Some qc \<and> distinct (keys_of (entries_s qc)) \<and>
     dom (index_s qc) = set (keys_of (entries_s qc)) \<and>
     (\<forall>k n. index_s qc k = Some n \<longleftrightarrow> (\<exists>e. (n, e) \<in> set (entries_s qc) \<and> queryKey e = k))"
proof -
  obtain qc where "fold qc_step as (Some qc_init) = Some qc" "qc_inv qc"
    using qcm.run_inv [of "Some qc_init" as] qc_init_inv by blast
  moreover from this have "dom (index_s qc) = set (keys_of (entries_s qc))"
    by (auto simp: qc_inv_def dom_def index_of_None)
  ultimately show ?thesis by (auto simp: qc_inv_def index_of_Some)
qed

text \<open>The eviction order is least recently used first. A stored result is still answered after any
  further stores of other keys as long as those are fewer distinct keys than the capacity and its
  time to live has not passed; once it has passed, the lookup answers nothing.\<close>

lemma qc_lru_retains:
  assumes "qc_inv qc" and "k \<notin> fst ` snd ` set ws"
    and "card (fst ` snd ` set ws) < unat (maxEntries_s qc)"
  shows "\<exists>qc1 qc2. qc_store t k r qc = Some qc1 \<and> qc_stores ws (Some qc1) = Some qc2 \<and>
    map_option fst (lookup now k qc2) =
      Some (if ttlSeconds_s qc \<le> duration_secs (now - t) then None else Some r)"
proof -
  let ?e = "\<lparr>queryKey = k, results = r, insertTime = t\<rparr>"
  obtain qc1 where 1: "qc_store t k r qc = Some qc1" "qc_inv qc1"
    "qc_abs qc1 = spec_store (maxEntries_s qc) t k r (qc_abs qc)"
    "maxEntries_s qc1 = maxEntries_s qc" "ttlSeconds_s qc1 = ttlSeconds_s qc"
    using store_refines [OF assms(1)] by blast
  have "0 < unat (maxEntries_s qc)" using assms(3) by simp
  then obtain post where "qc_abs qc1 = [] @ ?e # post"
    by (cases "unat (maxEntries_s qc)") (auto simp: 1(3) spec_store_def)
  from stores_keep [OF 1(2) this, of "{}" ws] assms(2,3) 1 obtain qc2 where
    2: "qc_stores ws (Some qc1) = Some qc2" "qc_inv qc2" "?e \<in> set (qc_abs qc2)"
      "ttlSeconds_s qc2 = ttlSeconds_s qc" by auto
  from lookup_present [OF 2(2,3), of now] 2(4) show ?thesis
    using 1(1) 2(1) by (auto simp: expired_def split: if_splits)
qed

lemma qc_lru_retains_witness:
  "\<exists>qc1 qc2. qc_store 0 ''a'' ''x'' (qc_configure 2 60 qc_init) = Some qc1 \<and>
     qc_stores [(1, ''b'', ''y'')] (Some qc1) = Some qc2 \<and>
     map_option fst (lookup 2000000000 ''a'' qc2) = Some (Some ''x'')"
proof -
  have "qc_inv (qc_configure 2 60 qc_init)"
    using qc_init_inv by (simp add: qc_configure_def qc_inv_def)
  from qc_lru_retains [OF this, of "''a''" "[(1, ''b'', ''y'')]" 0 "''x''" 2000000000]
  show ?thesis by (simp add: qc_configure_def qc_init_def duration_secs_def)
qed

end
