(* ===== verification/TextNumbers.thy ===== *)
theory TextNumbers
  imports Prelude
begin

text \<open>
  Decimal text, shared by the components that parse configuration or addresses: the digits of a
  number, \<^verbatim>\<open>std::stoi\<close> and its relatives as the C++ standard specifies them (leading white space, an optional sign, at
  least one digit, the rest ignored, \<open>None\<close> for the two exceptions), white-space trimming with
  \<open>find_first_not_of\<close> / \<open>find_last_not_of\<close>, \<open>std::getline\<close>, and the printed form of IPv4 addresses.
\<close>

section \<open>Decimal digits\<close>

definition is_digit :: "char \<Rightarrow> bool" where
  "is_digit c \<longleftrightarrow> 48 \<le> (of_char c :: nat) \<and> (of_char c :: nat) \<le> 57"

definition digit_val :: "char \<Rightarrow> nat" where
  "digit_val c = of_char c - 48"

definition digit_char :: "nat \<Rightarrow> char" where
  "digit_char d = char_of (48 + d)"

definition digits_val :: "string \<Rightarrow> nat" where
  "digits_val s = foldl (\<lambda>v c. 10 * v + digit_val c) 0 s"

fun show_dec :: "nat \<Rightarrow> string" where
  "show_dec n = (if n < 10 then [digit_char n] else show_dec (n div 10) @ [digit_char (n mod 10)])"

declare show_dec.simps [simp del]

lemma of_char_digit: "d < 10 \<Longrightarrow> of_char (digit_char d) = (48 + d :: nat)"
  by (simp add: digit_char_def of_char_of)

lemma digit_char_digit [simp]:
  "d < 10 \<Longrightarrow> is_digit (digit_char d)" "d < 10 \<Longrightarrow> digit_val (digit_char d) = d"
  by (simp_all add: is_digit_def digit_val_def of_char_digit)

lemma show_dec_digits: "c \<in> set (show_dec n) \<Longrightarrow> is_digit c"
proof (induction n rule: show_dec.induct)
  case (1 n)
  then show ?case by (auto simp: show_dec.simps [of n] split: if_splits)
qed

lemma show_dec_nonempty [simp]: "show_dec n \<noteq> []"
  by (subst show_dec.simps) simp

lemma digits_val_show_dec [simp]: "digits_val (show_dec n) = n"
proof (induction n rule: show_dec.induct)
  case (1 n)
  show ?case
  proof (cases "n < 10")
    case True
    then show ?thesis by (simp add: show_dec.simps [of n] digits_val_def)
  next
    case False
    then have "foldl (\<lambda>v c. 10 * v + digit_val c) 0 (show_dec (n div 10)) = n div 10"
      using 1 by (simp add: digits_val_def)
    with False show ?thesis by (subst show_dec.simps) (simp add: digits_val_def)
  qed
qed

lemma show_dec_length:
  "length (show_dec n) \<le> k \<longleftrightarrow> (if k = 0 then False else n < 10 ^ k)"
proof (induction k arbitrary: n)
  case 0
  then show ?case by simp
next
  case (Suc k)
  show ?case
  proof (cases "n < 10")
    case True
    then have "n < 10 * 10 ^ k" by (rule less_le_trans) simp
    with True show ?thesis by (simp add: show_dec.simps [of n])
  next
    case False
    then have "length (show_dec n) = Suc (length (show_dec (n div 10)))" by (simp add: show_dec.simps [of n])
    moreover have "n div 10 < 10 ^ k \<longleftrightarrow> n < 10 ^ Suc k"
      by (simp add: div_less_iff_less_mult mult.commute)
    moreover have "k = 0 \<Longrightarrow> \<not> n < 10 ^ Suc k" using False by simp
    ultimately show ?thesis using Suc by (auto split: if_splits)
  qed
qed

text \<open>\<^verbatim>\<open>std::to_string\<close> of a signed number.\<close>

definition to_string_int :: "int \<Rightarrow> string" where
  "to_string_int i = (if i < 0 then CHR ''-'' # show_dec (nat (- i)) else show_dec (nat i))"

section \<open>std::stoi\<close>

definition is_space :: "char \<Rightarrow> bool" where
  "is_space c \<longleftrightarrow> (of_char c :: nat) = 32 \<or> 9 \<le> (of_char c :: nat) \<and> (of_char c :: nat) \<le> 13"

text \<open>The integer a text starts with, as \<^verbatim>\<open>strtol\<close> reads it in base ten.\<close>

definition std_integer :: "string \<Rightarrow> int option" where
  "std_integer s = (let s1 = dropWhile is_space s;
                        neg = (s1 \<noteq> [] \<and> hd s1 = CHR ''-'');
                        s2 = (if s1 \<noteq> [] \<and> (hd s1 = CHR ''-'' \<or> hd s1 = CHR ''+'') then tl s1 else s1);
                        ds = takeWhile is_digit s2
     in if ds = [] then None else Some (if neg then - int (digits_val ds) else int (digits_val ds)))"

definition std_stoi :: "string \<Rightarrow> int option" where
  "std_stoi s = do { v \<leftarrow> std_integer s; if - (2 ^ 31) \<le> v \<and> v < 2 ^ 31 then Some v else None }"

definition std_stoll :: "string \<Rightarrow> int option" where
  "std_stoll s = do { v \<leftarrow> std_integer s; if - (2 ^ 63) \<le> v \<and> v < 2 ^ 63 then Some v else None }"

text \<open>\<^verbatim>\<open>std::stoul\<close> accepts a sign and negates in the unsigned type.\<close>

definition std_stoul :: "string \<Rightarrow> ulong option" where
  "std_stoul s = do { v \<leftarrow> std_integer s; if \<bar>v\<bar> < 2 ^ 64 then Some (of_int v) else None }"

lemma digit_not_space: "is_digit c \<Longrightarrow> \<not> is_space c \<and> c \<noteq> CHR ''-'' \<and> c \<noteq> CHR ''+'' \<and> c \<noteq> CHR ''.'' \<and> c \<noteq> CHR ''/''"
  by (auto simp: is_digit_def is_space_def)

lemma takeWhile_digits:
  assumes "\<forall>c\<in>set ds. is_digit c" "r = [] \<or> \<not> is_digit (hd r)"
  shows "takeWhile is_digit (ds @ r) = ds"
  using assms by (cases r) auto

lemma std_integer_show_dec:
  assumes "r = [] \<or> \<not> is_digit (hd r)"
  shows "std_integer (show_dec n @ r) = Some (int n)"
proof -
  have hd: "is_digit (hd (show_dec n))" by (rule show_dec_digits [of _ n]) simp
  have "dropWhile is_space (show_dec n @ r) = show_dec n @ r"
    using digit_not_space [OF hd] by (cases "show_dec n") auto
  moreover have "takeWhile is_digit (show_dec n @ r) = show_dec n"
    by (rule takeWhile_digits) (use show_dec_digits assms in auto)
  moreover have "hd (show_dec n @ r) = hd (show_dec n)" by (simp add: hd_append)
  ultimately show ?thesis
    using digit_not_space [OF hd] by (simp add: std_integer_def Let_def)
qed

lemma stoi_show_dec [simp]: "n < 2 ^ 31 \<Longrightarrow> std_stoi (show_dec n) = Some (int n)"
  using std_integer_show_dec [of "[]" n] by (simp add: std_stoi_def)

lemma stoul_show_dec [simp]: "std_stoul (show_dec (unat w)) = Some w"
proof -
  have "uint w < 2 ^ 64" using unsigned_less [of w, where 'a = int] by simp
  then show ?thesis using std_integer_show_dec [of "[]" "unat w"] by (simp add: std_stoul_def)
qed

section \<open>Lines and white space\<close>

text \<open>The lines \<open>std::getline\<close> delivers: a last line without a newline counts when it is not empty.\<close>

fun split_on :: "char \<Rightarrow> string \<Rightarrow> string list" where
  "split_on d [] = [[]]"
| "split_on d (c # s) =
     (if c = d then [] # split_on d s else (case split_on d s of [] \<Rightarrow> [[c]] | l # ls \<Rightarrow> (c # l) # ls))"

definition getlines :: "string \<Rightarrow> string list" where
  "getlines s = (let ls = split_on (CHR 0x0A) s in if last ls = [] then butlast ls else ls)"

lemma split_on_nonempty [simp]: "split_on d s \<noteq> []"
  by (cases s) (auto split: list.splits)

lemma split_on_cons:
  "d \<notin> set p \<Longrightarrow> split_on d (p @ d # r) = p # split_on d r" "d \<notin> set p \<Longrightarrow> split_on d p = [p]"
  by (induction p) auto

lemma getlines_unlines:
  "(\<forall>l\<in>set ls. CHR 0x0A \<notin> set l) \<Longrightarrow> getlines (concat (map (\<lambda>l. l @ [CHR 0x0A]) ls)) = ls"
proof -
  assume "\<forall>l\<in>set ls. CHR 0x0A \<notin> set l"
  then have "split_on (CHR 0x0A) (concat (map (\<lambda>l. l @ [CHR 0x0A]) ls)) = ls @ [[]]"
    by (induction ls) (auto simp: split_on_cons)
  then show ?thesis by (simp add: getlines_def)
qed

definition blank :: "char \<Rightarrow> bool" where
  "blank c \<longleftrightarrow> c = CHR '' '' \<or> c = CHR 0x09 \<or> c = CHR 0x0D \<or> c = CHR 0x0A"

definition trim :: "string \<Rightarrow> string" where
  "trim s = rev (dropWhile blank (rev (dropWhile blank s)))"

section \<open>Dotted addresses\<close>

definition octet :: "nat \<Rightarrow> 32 word \<Rightarrow> nat" where
  "octet i a = unat (ucast (drop_bit (8 * i) a) :: 8 word)"

definition dotted :: "32 word \<Rightarrow> string" where
  "dotted a = show_dec (octet 3 a) @ CHR ''.'' # show_dec (octet 2 a) @ CHR ''.'' #
              show_dec (octet 1 a) @ CHR ''.'' # show_dec (octet 0 a)"

text \<open>A reader of dotted quads without leading zeros, one of those \<open>inet_pton\<close> may be.\<close>

definition read_octet :: "string \<Rightarrow> 8 word option" where
  "read_octet s = (if s \<noteq> [] \<and> length s \<le> 3 \<and> (\<forall>c\<in>set s. is_digit c) \<and> digits_val s < 256 \<and>
                      (hd s = CHR ''0'' \<longrightarrow> length s = 1)
                   then Some (of_nat (digits_val s)) else None)"

definition quad :: "8 word \<Rightarrow> 8 word \<Rightarrow> 8 word \<Rightarrow> 8 word \<Rightarrow> 32 word" where
  "quad d c b a = of_le [a, b, c, d]"

definition pton_ref :: "string \<Rightarrow> 32 word option" where
  "pton_ref s = (case split_on (CHR ''.'') s of
       [p, q, r, t] \<Rightarrow> do { d \<leftarrow> read_octet p; c \<leftarrow> read_octet q; b \<leftarrow> read_octet r; a \<leftarrow> read_octet t;
                            Some (quad d c b a) }
     | _ \<Rightarrow> None)"

lemma octet_less: "octet i a < 256"
  using unsigned_less [of "ucast (drop_bit (8 * i) a) :: 8 word", where 'a = nat] by (simp add: octet_def)

lemma show_dec_no_char: "\<not> is_digit c \<Longrightarrow> c \<notin> set (show_dec n)"
  using show_dec_digits by blast

lemma not_digit_punct [simp]: "\<not> is_digit CHR ''.''" "\<not> is_digit CHR ''/''" "\<not> is_digit CHR 0x00"
  by (simp_all add: is_digit_def)

lemma show_dec_leading_zero: "hd (show_dec n) = CHR ''0'' \<Longrightarrow> length (show_dec n) = 1"
proof (induction n rule: show_dec.induct)
  case (1 n)
  show ?case
  proof (cases "n < 10")
    case True
    then show ?thesis by (simp add: show_dec.simps [of n])
  next
    case False
    have "hd (show_dec n) = hd (show_dec (n div 10))"
      using False by (simp add: show_dec.simps [of n] hd_append)
    with 1 False have "length (show_dec (n div 10)) = 1" "hd (show_dec (n div 10)) = CHR ''0''" by simp_all
    then have "show_dec (n div 10) = ''0''" by (cases "show_dec (n div 10)") auto
    then have "digits_val (show_dec (n div 10)) = 0" by (simp add: digits_val_def digit_val_def)
    with False show ?thesis by simp
  qed
qed

lemma read_octet_show [simp]: "read_octet (show_dec (octet i a)) = Some (ucast (drop_bit (8 * i) a))"
proof -
  have "length (show_dec (octet i a)) \<le> 3"
    using octet_less [of i a] by (simp add: show_dec_length)
  then show ?thesis
    using octet_less [of i a] show_dec_leading_zero [of "octet i a"] show_dec_digits
    by (auto simp: read_octet_def octet_def)
qed

lemma quad_octets:
  "quad (ucast (drop_bit 24 a)) (ucast (drop_bit 16 a)) (ucast (drop_bit 8 a)) (ucast a) = (a :: 32 word)"
proof -
  have "le_bytes 4 a = [ucast a, ucast (drop_bit 8 a), ucast (drop_bit 16 a), ucast (drop_bit 24 a)]"
    by (simp add: le_bytes_def upt_rec numeral_eq_Suc)
  then show ?thesis using of_le_le_bytes [of 4 a] by (simp add: quad_def)
qed

lemma pton_ref_dotted: "pton_ref (dotted a) = Some a"
  using quad_octets [of a] read_octet_show [of 3 a] read_octet_show [of 2 a] read_octet_show [of 1 a]
    read_octet_show [of 0 a]
  by (simp add: pton_ref_def dotted_def split_on_cons show_dec_no_char)

text \<open>The interface of \<open>inet_pton(AF_INET, ...)\<close>, a function of the platform's C library: the value is
  \<open>ntohl(addr.s_addr)\<close> when the call returns 1, and what is relied on is that it reads the standard
  dotted form of every address.\<close>

locale ipv4_parser =
  fixes pton :: "string \<Rightarrow> 32 word option"
  assumes pton_dotted: "pton (dotted a) = Some a"
begin

lemma dotted_inject: "dotted a = dotted b \<longleftrightarrow> a = b"
  using pton_dotted [of a] pton_dotted [of b] by (metis option.inject)

end

interpretation pton_ref: ipv4_parser pton_ref
  by unfold_locales (rule pton_ref_dotted)

end
