(* ===== verification/IpFilter.thy ===== *)
theory IpFilter
  imports TextNumbers
begin

text \<open>
  protocols/Alpine/IpFilter.cpp: the CIDR allowlist and blocklist. \<open>inet_pton\<close> belongs to the platform's
  C library and is the argument \<open>pton\<close> (the value it yields is \<open>ntohl(addr.s_addr)\<close>); the file system
  is the argument \<open>fs\<close>, from a path to the file's text, \<open>None\<close> when it cannot be opened. An entry's
  \<open>network\<close> and \<open>mask\<close> are \<open>uint32_t\<close>.
\<close>

section \<open>State and operations\<close>

record t_CidrEntry =
  network :: "32 word"
  mask :: "32 word"
  original :: string

record IpFilter =
  allowlist_s :: "t_CidrEntry list"
  blocklist_s :: "t_CidrEntry list"
  allowlistFile_s :: string
  blocklistFile_s :: string

definition ipf_init :: IpFilter where
  "ipf_init = \<lparr>allowlist_s = [], blocklist_s = [], allowlistFile_s = [], blocklistFile_s = []\<rparr>"

definition c_string :: "string \<Rightarrow> string" where
  "c_string s = takeWhile (\<lambda>c. c \<noteq> CHR 0x00) s"

definition cidr_mask :: "nat \<Rightarrow> 32 word" where
  "cidr_mask prefixLen = (if prefixLen = 0 then 0 else push_bit (32 - prefixLen) (not 0))"

text \<open>Address text and prefix length of the argument; \<open>None\<close> where the code returns false.\<close>

definition cidr_parts :: "string \<Rightarrow> (string \<times> int) option" where
  "cidr_parts cidr =
     (if CHR ''/'' \<in> set cidr
      then do {
        prefixLen \<leftarrow> std_stoi (tl (dropWhile (\<lambda>c. c \<noteq> CHR ''/'') cidr));
        if prefixLen < 0 \<or> prefixLen > 32 then None
        else Some (takeWhile (\<lambda>c. c \<noteq> CHR ''/'') cidr, prefixLen)
      }
      else Some (cidr, 32))"

definition parseCidr :: "(string \<Rightarrow> 32 word option) \<Rightarrow> string \<Rightarrow> t_CidrEntry option" where
  "parseCidr pton cidr = do {
     (ipStr, prefixLen) \<leftarrow> cidr_parts cidr;
     addr \<leftarrow> pton (c_string ipStr);
     let m = cidr_mask (nat prefixLen);
     Some \<lparr>network = and addr m, mask = m, original = cidr\<rparr>
   }"

definition matchesCidr :: "(string \<Rightarrow> 32 word option) \<Rightarrow> string \<Rightarrow> t_CidrEntry \<Rightarrow> bool" where
  "matchesCidr pton ip entry = (case pton (c_string ip) of
       None \<Rightarrow> False
     | Some ipHost \<Rightarrow> and ipHost (mask entry) = network entry)"

text \<open>The loop both lists are searched with.\<close>

primrec some_match :: "(string \<Rightarrow> 32 word option) \<Rightarrow> string \<Rightarrow> t_CidrEntry list \<Rightarrow> bool" where
  "some_match pton ip [] = False"
| "some_match pton ip (entry # es) = (if matchesCidr pton ip entry then True else some_match pton ip es)"

definition isAllowed :: "(string \<Rightarrow> 32 word option) \<Rightarrow> string \<Rightarrow> IpFilter \<Rightarrow> bool" where
  "isAllowed pton ip f =
     (if some_match pton ip (blocklist_s f) then False
      else if allowlist_s f = [] then True
      else if some_match pton ip (allowlist_s f) then True
      else False)"

definition allowIp :: "(string \<Rightarrow> 32 word option) \<Rightarrow> string \<Rightarrow> IpFilter \<Rightarrow> bool \<times> IpFilter" where
  "allowIp pton cidr f = (case parseCidr pton cidr of
       None \<Rightarrow> (False, f)
     | Some entry \<Rightarrow> (True, f\<lparr>allowlist_s := allowlist_s f @ [entry]\<rparr>))"

definition blockIp :: "(string \<Rightarrow> 32 word option) \<Rightarrow> string \<Rightarrow> IpFilter \<Rightarrow> bool \<times> IpFilter" where
  "blockIp pton cidr f = (case parseCidr pton cidr of
       None \<Rightarrow> (False, f)
     | Some entry \<Rightarrow> (True, f\<lparr>blocklist_s := blocklist_s f @ [entry]\<rparr>))"

definition removeAllow :: "string \<Rightarrow> IpFilter \<Rightarrow> bool \<times> IpFilter" where
  "removeAllow cidr f =
     (let kept = filter (\<lambda>e. original e \<noteq> cidr) (allowlist_s f) in
      if length kept = length (allowlist_s f) then (False, f) else (True, f\<lparr>allowlist_s := kept\<rparr>))"

definition removeBlock :: "string \<Rightarrow> IpFilter \<Rightarrow> bool \<times> IpFilter" where
  "removeBlock cidr f =
     (let kept = filter (\<lambda>e. original e \<noteq> cidr) (blocklist_s f) in
      if length kept = length (blocklist_s f) then (False, f) else (True, f\<lparr>blocklist_s := kept\<rparr>))"

definition getAllowlist :: "IpFilter \<Rightarrow> string list" where
  "getAllowlist f = map original (allowlist_s f)"

definition getBlocklist :: "IpFilter \<Rightarrow> string list" where
  "getBlocklist f = map original (blocklist_s f)"

text \<open>One line of a filter file: blank lines and comments are skipped, an invalid entry is logged.\<close>

definition load_line :: "(string \<Rightarrow> 32 word option) \<Rightarrow> t_CidrEntry list \<Rightarrow> string \<Rightarrow> t_CidrEntry list" where
  "load_line pton es line0 =
     (if \<forall>c\<in>set line0. blank c then es
      else let line = trim line0 in
        if line = [] \<or> hd line = CHR ''#'' then es
        else (case parseCidr pton line of None \<Rightarrow> es | Some entry \<Rightarrow> es @ [entry]))"

definition loadFile :: "(string \<Rightarrow> 32 word option) \<Rightarrow> (string \<Rightarrow> string option) \<Rightarrow> string \<Rightarrow>
    t_CidrEntry list \<Rightarrow> bool \<times> t_CidrEntry list" where
  "loadFile pton fs filePath es = (case fs filePath of
       None \<Rightarrow> (False, es)
     | Some txt \<Rightarrow> (True, foldl (load_line pton) es (getlines txt)))"

definition ipf_initialize :: "(string \<Rightarrow> 32 word option) \<Rightarrow> (string \<Rightarrow> string option) \<Rightarrow> string \<Rightarrow> string \<Rightarrow>
    IpFilter \<Rightarrow> bool \<times> IpFilter" where
  "ipf_initialize pton fs allowFile blockFile f0 =
     (let f = f0\<lparr>allowlistFile_s := allowFile, blocklistFile_s := blockFile\<rparr>;
          f1 = (if allowFile \<noteq> []
                then f\<lparr>allowlist_s := snd (loadFile pton fs allowFile (allowlist_s f))\<rparr> else f);
          f2 = (if blockFile \<noteq> []
                then f1\<lparr>blocklist_s := snd (loadFile pton fs blockFile (blocklist_s f1))\<rparr> else f1)
      in (True, f2))"

definition ipf_reload :: "(string \<Rightarrow> 32 word option) \<Rightarrow> (string \<Rightarrow> string option) \<Rightarrow> IpFilter \<Rightarrow>
    bool \<times> IpFilter" where
  "ipf_reload pton fs f0 =
     (let f = f0\<lparr>allowlist_s := [], blocklist_s := []\<rparr>;
          (ok1, a) = (if allowlistFile_s f \<noteq> [] then loadFile pton fs (allowlistFile_s f) [] else (True, []));
          (ok2, b) = (if blocklistFile_s f \<noteq> [] then loadFile pton fs (blocklistFile_s f) [] else (True, []))
      in (ok2 \<and> ok1, f\<lparr>allowlist_s := a, blocklist_s := b\<rparr>))"

section \<open>Prefix matching\<close>

lemma bit_cidr_mask: "n \<le> 32 \<Longrightarrow> bit (cidr_mask n) i \<longleftrightarrow> 32 - n \<le> i \<and> i < 32"
  by (auto simp: cidr_mask_def bit_simps)

text \<open>Two addresses agree under a prefix mask exactly when their leading bits agree.\<close>

lemma mask_agree:
  assumes "n \<le> 32"
  shows "and a (cidr_mask n) = and b (cidr_mask n) \<longleftrightarrow> drop_bit (32 - n) a = drop_bit (32 - n) (b :: 32 word)"
proof
  assume eq: "and a (cidr_mask n) = and b (cidr_mask n)"
  have bits: "bit a i = bit b i" if "32 - n \<le> i" "i < 32" for i
    using arg_cong [OF eq, of "\<lambda>w. bit w i"] that assms by (simp add: bit_simps bit_cidr_mask)
  show "drop_bit (32 - n) a = drop_bit (32 - n) b"
  proof (rule bit_word_eqI)
    fix i assume "i < LENGTH(32)"
    show "bit (drop_bit (32 - n) a) i = bit (drop_bit (32 - n) b) i"
      using bits [of "32 - n + i"] bit_imp_le_length [of a "32 - n + i"] bit_imp_le_length [of b "32 - n + i"]
      by (cases "32 - n + i < 32") (auto simp: bit_drop_bit_eq)
  qed
next
  assume eq: "drop_bit (32 - n) a = drop_bit (32 - n) b"
  show "and a (cidr_mask n) = and b (cidr_mask n)"
  proof (rule bit_word_eqI)
    fix i assume "i < LENGTH(32)"
    show "bit (and a (cidr_mask n)) i = bit (and b (cidr_mask n)) i"
      using arg_cong [OF eq, of "\<lambda>w. bit w (i - (32 - n))"] assms
      by (auto simp: bit_simps bit_cidr_mask)
  qed
qed

lemma some_match_iff: "some_match pton ip es \<longleftrightarrow> (\<exists>e\<in>set es. matchesCidr pton ip e)"
  by (induction es) auto

definition dotted_cidr :: "32 word \<Rightarrow> nat \<Rightarrow> string" where
  "dotted_cidr a n = dotted a @ CHR ''/'' # show_dec n"

lemma dotted_chars: "\<not> is_digit c \<Longrightarrow> c \<noteq> CHR ''.'' \<Longrightarrow> c \<notin> set (dotted a)"
  by (auto simp: dotted_def show_dec_no_char)

lemma c_string_dotted [simp]: "c_string (dotted a) = dotted a"
  using dotted_chars [of "CHR 0x00" a] unfolding c_string_def takeWhile_eq_all_conv by auto

lemma cidr_parts_dotted: "n \<le> 32 \<Longrightarrow> cidr_parts (dotted_cidr a n) = Some (dotted a, int n)"
proof -
  assume n: "n \<le> 32"
  have no: "CHR ''/'' \<notin> set (dotted a)" by (rule dotted_chars) simp_all
  then have "takeWhile (\<lambda>c. c \<noteq> CHR ''/'') (dotted_cidr a n) = dotted a"
    "dropWhile (\<lambda>c. c \<noteq> CHR ''/'') (dotted_cidr a n) = CHR ''/'' # show_dec n"
    unfolding dotted_cidr_def by (subst takeWhile_append2 dropWhile_append2; force)+
  moreover have "CHR ''/'' \<in> set (dotted_cidr a n)" by (simp add: dotted_cidr_def)
  ultimately show ?thesis using n by (simp add: cidr_parts_def)
qed

lemma cidr_parts_host: "cidr_parts (dotted a) = Some (dotted a, 32)"
  using dotted_chars [of "CHR ''/''" a] by (simp add: cidr_parts_def)

context ipv4_parser
begin

lemma parse_dotted_cidr:
  "n \<le> 32 \<Longrightarrow> parseCidr pton (dotted_cidr a n) =
     Some \<lparr>network = and a (cidr_mask n), mask = cidr_mask n, original = dotted_cidr a n\<rparr>"
  by (simp add: parseCidr_def cidr_parts_dotted pton_dotted Let_def)

lemma parse_host:
  "parseCidr pton (dotted a) =
     Some \<lparr>network = and a (cidr_mask 32), mask = cidr_mask 32, original = dotted a\<rparr>"
  by (simp add: parseCidr_def cidr_parts_host pton_dotted Let_def)

lemma matches_parsed:
  "n \<le> 32 \<Longrightarrow> matchesCidr pton (dotted b) \<lparr>network = and a (cidr_mask n), mask = cidr_mask n, original = s\<rparr> \<longleftrightarrow>
     drop_bit (32 - n) b = drop_bit (32 - n) a"
  by (simp add: matchesCidr_def pton_dotted mask_agree)

end

section \<open>Runs\<close>

datatype ipf_op = Initialize string string | Allow string | Block string | RemoveAllow string
  | RemoveBlock string | Reload

fun ipf_step :: "(string \<Rightarrow> 32 word option) \<Rightarrow> ipf_op \<times> (string \<Rightarrow> string option) \<Rightarrow> IpFilter \<Rightarrow> IpFilter" where
  "ipf_step pton (Initialize a b, fs) f = snd (ipf_initialize pton fs a b f)"
| "ipf_step pton (Allow c, fs) f = snd (allowIp pton c f)"
| "ipf_step pton (Block c, fs) f = snd (blockIp pton c f)"
| "ipf_step pton (RemoveAllow c, fs) f = snd (removeAllow c f)"
| "ipf_step pton (RemoveBlock c, fs) f = snd (removeBlock c f)"
| "ipf_step pton (Reload, fs) f = snd (ipf_reload pton fs f)"

text \<open>Every stored entry is the parse of its own text, so its network has no bits outside a mask that
  is a run of leading ones.\<close>

definition ipf_inv :: "(string \<Rightarrow> 32 word option) \<Rightarrow> IpFilter \<Rightarrow> bool" where
  "ipf_inv pton f \<longleftrightarrow> (\<forall>e\<in>set (allowlist_s f) \<union> set (blocklist_s f). parseCidr pton (original e) = Some e)"

lemma parse_original: "parseCidr pton c = Some e \<Longrightarrow> original e = c"
  by (auto simp: parseCidr_def Let_def split: bind_splits)

lemma parse_self: "parseCidr pton c = Some e \<Longrightarrow> parseCidr pton (original e) = Some e"
  using parse_original by fastforce

lemma cidr_parts_range: "cidr_parts c = Some (s, n) \<Longrightarrow> 0 \<le> n \<and> n \<le> 32"
  by (auto simp: cidr_parts_def split: bind_splits if_splits)

lemma parse_wf:
  "parseCidr pton c = Some e \<Longrightarrow> \<exists>n\<le>32. mask e = cidr_mask n \<and> and (network e) (mask e) = network e"
proof -
  assume "parseCidr pton c = Some e"
  then obtain s n a where parts: "cidr_parts c = Some (s, n)"
    and e: "e = \<lparr>network = and a (cidr_mask (nat n)), mask = cidr_mask (nat n), original = c\<rparr>"
    by (auto simp: parseCidr_def Let_def split: bind_splits)
  from cidr_parts_range [OF parts] have "nat n \<le> 32" by linarith
  with e show ?thesis by (auto simp: and.assoc)
qed

lemma load_lines_self:
  assumes "\<forall>e\<in>set es. parseCidr pton (original e) = Some e"
  shows "\<forall>e\<in>set (foldl (load_line pton) es ls). parseCidr pton (original e) = Some e"
  using assms
proof (induction ls arbitrary: es)
  case (Cons l ls)
  have "\<forall>e\<in>set (load_line pton es l). parseCidr pton (original e) = Some e"
    using Cons.prems by (auto simp: load_line_def Let_def split: option.splits intro: parse_self)
  then show ?case using Cons.IH by simp
qed simp

lemma loadFile_self:
  "\<forall>e\<in>set es. parseCidr pton (original e) = Some e \<Longrightarrow>
   e \<in> set (snd (loadFile pton fs p es)) \<Longrightarrow> parseCidr pton (original e) = Some e"
  using load_lines_self by (auto simp: loadFile_def split: option.splits)

interpretation ipf: machine "ipf_step pton" "ipf_inv pton" for pton
proof
  fix f and a :: "ipf_op \<times> (string \<Rightarrow> string option)"
  assume inv: "ipf_inv pton f"
  obtain op fs where a: "a = (op, fs)" by (cases a)
  show "ipf_inv pton (ipf_step pton a f)"
  proof (cases op)
    case (Initialize x y)
    with inv show ?thesis
      by (auto simp: a ipf_inv_def ipf_initialize_def Let_def dest: loadFile_self [rotated])
  next
    case Reload
    have l: "e \<in> set (snd (loadFile pton fs p [])) \<Longrightarrow> parseCidr pton (original e) = Some e" for p e
      by (rule loadFile_self) auto
    show ?thesis
      by (auto simp: Reload a ipf_inv_def ipf_reload_def case_prod_beta Let_def intro: l split: if_splits)
  qed (use inv in \<open>auto simp: a ipf_inv_def allowIp_def blockIp_def removeAllow_def removeBlock_def Let_def
         intro: parse_self split: option.splits\<close>)
qed

text \<open>A block entry stays until it is removed by its own text or the lists are reloaded.\<close>

lemma block_stays:
  assumes "e \<in> set (blocklist_s f)" and "RemoveBlock (original e) \<notin> fst ` set ops" "Reload \<notin> fst ` set ops"
  shows "e \<in> set (blocklist_s (fold (ipf_step pton) ops f))"
  using assms
proof (induction ops arbitrary: f)
  case (Cons a ops)
  obtain op fs where a: "a = (op, fs)" by (cases a)
  have mono: "e \<in> set es \<Longrightarrow> e \<in> set (foldl (load_line pton) es ls)" for es ls
    by (induction ls arbitrary: es) (auto simp: load_line_def Let_def split: option.splits)
  have "e \<in> set (blocklist_s (ipf_step pton a f))"
    using Cons.prems
    by (cases op) (auto simp: a ipf_initialize_def Let_def loadFile_def allowIp_def blockIp_def
        removeAllow_def removeBlock_def mono split: option.splits)
  then show ?case using Cons by simp
qed simp

lemma trim_id: "s \<noteq> [] \<Longrightarrow> \<not> blank (hd s) \<Longrightarrow> \<not> blank (last s) \<Longrightarrow> trim s = s"
proof -
  assume s: "s \<noteq> []" "\<not> blank (hd s)" "\<not> blank (last s)"
  then have "dropWhile blank s = s" by (cases s) auto
  moreover have "dropWhile blank (rev s) = rev s" using s by (cases "rev s") (auto simp: last_rev [of "rev s", simplified])
  ultimately show ?thesis by (simp add: trim_def)
qed

lemma load_line_entry:
  assumes "parseCidr pton l = Some e" "l \<noteq> []" "\<not> blank (hd l)" "\<not> blank (last l)" "hd l \<noteq> CHR ''#''"
  shows "load_line pton es l = es @ [e]"
  using assms trim_id [of l] by (auto simp: load_line_def)

lemma digit_not_blank: "is_digit c \<Longrightarrow> \<not> blank c \<and> c \<noteq> CHR ''#'' \<and> c \<noteq> CHR 0x0A"
  by (auto simp: is_digit_def blank_def)

lemma dotted_cidr_line:
  "dotted_cidr a n \<noteq> []" "\<not> blank (hd (dotted_cidr a n))" "\<not> blank (last (dotted_cidr a n))"
  "hd (dotted_cidr a n) \<noteq> CHR ''#''" "CHR 0x0A \<notin> set (dotted_cidr a n)"
proof -
  have hd: "hd (dotted_cidr a n) = hd (show_dec (octet 3 a))" by (simp add: dotted_cidr_def dotted_def)
  have "is_digit (hd (show_dec (octet 3 a)))" by (rule show_dec_digits [of _ "octet 3 a"]) simp
  then show "\<not> blank (hd (dotted_cidr a n))" "hd (dotted_cidr a n) \<noteq> CHR ''#''"
    unfolding hd by (simp_all add: digit_not_blank)
  have "is_digit (last (show_dec n))" by (rule show_dec_digits [of _ n]) simp
  then show "\<not> blank (last (dotted_cidr a n))" by (simp add: dotted_cidr_def digit_not_blank)
  show "dotted_cidr a n \<noteq> []" by (simp add: dotted_cidr_def)
  show "CHR 0x0A \<notin> set (dotted_cidr a n)"
    using dotted_chars [of "CHR 0x0A" a] show_dec_no_char [of "CHR 0x0A" n]
    by (simp add: dotted_cidr_def is_digit_def)
qed

definition cidr_file :: "(32 word \<times> nat) list \<Rightarrow> string" where
  "cidr_file rs = concat (map (\<lambda>(a, n). dotted_cidr a n @ [CHR 0x0A]) rs)"

definition cidr_entry :: "32 word \<times> nat \<Rightarrow> t_CidrEntry" where
  "cidr_entry r = \<lparr>network = and (fst r) (cidr_mask (snd r)), mask = cidr_mask (snd r),
                  original = dotted_cidr (fst r) (snd r)\<rparr>"

context ipv4_parser
begin

lemma load_cidr_lines:
  "\<forall>(a, n)\<in>set rs. n \<le> 32 \<Longrightarrow>
   foldl (load_line pton) es (map (\<lambda>(a, n). dotted_cidr a n) rs) = es @ map cidr_entry rs"
  by (induction rs arbitrary: es)
    (auto simp: cidr_entry_def load_line_entry [OF parse_dotted_cidr] dotted_cidr_line)

end

lemma getlines_cidr_file: "getlines (cidr_file rs) = map (\<lambda>(a, n). dotted_cidr a n) rs"
proof -
  have "cidr_file rs = concat (map (\<lambda>l. l @ [CHR 0x0A]) (map (\<lambda>(a, n). dotted_cidr a n) rs))"
    by (simp add: cidr_file_def split_beta' comp_def)
  moreover have "\<forall>l\<in>set (map (\<lambda>(a, n). dotted_cidr a n) rs). CHR 0x0A \<notin> set l"
    using dotted_cidr_line(5) by auto
  ultimately show ?thesis by (simp only: getlines_unlines)
qed

section \<open>Properties\<close>

text \<open>CIDR notation means what it should. For every address and prefix length the printed rule is
  accepted, and it matches exactly the addresses that share the leading \<open>n\<close> bits; a rule without a
  prefix matches its own address only.\<close>

lemma ipf_cidr_semantics:
  assumes "ipv4_parser pton" and "n \<le> 32"
  shows "\<exists>e h. parseCidr pton (dotted_cidr a n) = Some e \<and> parseCidr pton (dotted a) = Some h \<and>
    (\<forall>b. matchesCidr pton (dotted b) e \<longleftrightarrow> drop_bit (32 - n) b = drop_bit (32 - n) a) \<and>
    (\<forall>b. matchesCidr pton (dotted b) h \<longleftrightarrow> b = a)"
  using ipv4_parser.parse_dotted_cidr [OF assms] ipv4_parser.parse_host [OF assms(1)]
    ipv4_parser.matches_parsed [OF assms] ipv4_parser.matches_parsed [OF assms(1), of 32]
  by simp

lemma ipf_cidr_semantics_witness:
  "\<exists>e. parseCidr pton_ref ''10.0.0.0/8'' = Some e \<and> matchesCidr pton_ref ''10.1.2.3'' e \<and>
     \<not> matchesCidr pton_ref ''11.1.2.3'' e"
proof -
  have t: "dotted_cidr 0x0A000000 8 = ''10.0.0.0/8''" "dotted 0x0A010203 = ''10.1.2.3''"
    "dotted 0x0B010203 = ''11.1.2.3''" by code_simp+
  have d: "drop_bit 24 (0x0A010203 :: 32 word) = drop_bit 24 0x0A000000"
    "drop_bit 24 (0x0B010203 :: 32 word) \<noteq> drop_bit 24 0x0A000000" by code_simp+
  obtain e where e: "parseCidr pton_ref (dotted_cidr 0x0A000000 8) = Some e"
    "\<And>b. matchesCidr pton_ref (dotted b) e \<longleftrightarrow> drop_bit (32 - 8) b = drop_bit (32 - 8) (0x0A000000 :: 32 word)"
    using ipf_cidr_semantics [OF pton_ref.ipv4_parser_axioms, of 8 "0x0A000000"] by auto
  from e(2) [of "0x0A010203"] e(2) [of "0x0B010203"] e(1) show ?thesis
    unfolding t using d by auto
qed

text \<open>The decision. An address that parses is allowed exactly when no block rule covers it and
  the allowlist is empty or covers it; a text that is not an IPv4 address is not stopped by any
  block rule, and is allowed exactly when the allowlist is empty.\<close>

lemma ipf_decision:
  "isAllowed pton ip f \<longleftrightarrow> (case pton (c_string ip) of
       None \<Rightarrow> allowlist_s f = []
     | Some a \<Rightarrow> (\<forall>e\<in>set (blocklist_s f). and a (mask e) \<noteq> network e) \<and>
         (allowlist_s f = [] \<or> (\<exists>e\<in>set (allowlist_s f). and a (mask e) = network e)))"
  by (auto simp: isAllowed_def some_match_iff matchesCidr_def split: option.splits)

lemma ipf_decision_witness:
  "isAllowed pton_ref ''fe80::1'' (snd (blockIp pton_ref ''0.0.0.0/0'' ipf_init)) \<and>
   \<not> isAllowed pton_ref ''10.1.2.3'' (snd (blockIp pton_ref ''0.0.0.0/0'' ipf_init))"
proof -
  have f: "snd (blockIp pton_ref ''0.0.0.0/0'' ipf_init) = \<lparr>allowlist_s = [],
      blocklist_s = [\<lparr>network = 0, mask = 0, original = ''0.0.0.0/0''\<rparr>], allowlistFile_s = [],
      blocklistFile_s = []\<rparr>" by code_simp
  have "pton_ref (c_string ''fe80::1'') = None" "pton_ref (c_string ''10.1.2.3'') = Some 0x0A010203"
    by code_simp+
  then show ?thesis
    unfolding f ipf_decision [of pton_ref "''fe80::1''"] ipf_decision [of pton_ref "''10.1.2.3''"] by simp
qed

text \<open>A blocked network stays blocked: after \<open>blockIp\<close> of a rule, no sequence of further calls
  makes an address of that network allowed, unless the rule itself is removed or the lists are
  reloaded from the files; adding the address to the allowlist does not help.\<close>

lemma ipf_block_persists:
  assumes "ipv4_parser pton" and "n \<le> 32" and "drop_bit (32 - n) b = drop_bit (32 - n) a"
    and "RemoveBlock (dotted_cidr a n) \<notin> fst ` set ops" and "Reload \<notin> fst ` set ops"
  shows "\<not> isAllowed pton (dotted b) (fold (ipf_step pton) ops (snd (blockIp pton (dotted_cidr a n) f)))"
proof -
  let ?e = "\<lparr>network = and a (cidr_mask n), mask = cidr_mask n, original = dotted_cidr a n\<rparr>"
  have "?e \<in> set (blocklist_s (snd (blockIp pton (dotted_cidr a n) f)))"
    by (simp add: blockIp_def ipv4_parser.parse_dotted_cidr [OF assms(1,2)])
  from block_stays [OF this, of ops pton] assms(4,5)
  have "?e \<in> set (blocklist_s (fold (ipf_step pton) ops (snd (blockIp pton (dotted_cidr a n) f))))" by simp
  moreover have "matchesCidr pton (dotted b) ?e"
    using assms(3) ipv4_parser.matches_parsed [OF assms(1,2)] by simp
  ultimately show ?thesis by (auto simp: isAllowed_def some_match_iff)
qed

lemma ipf_block_persists_witness:
  "\<not> isAllowed pton_ref (dotted 0x0A010203)
       (fold (ipf_step pton_ref) [(Allow ''10.1.2.3'', Map.empty), (RemoveBlock ''x'', Map.empty)]
         (snd (blockIp pton_ref (dotted_cidr 0x0A000000 8) ipf_init)))"
proof -
  have "drop_bit (32 - 8) (0x0A010203 :: 32 word) = drop_bit (32 - 8) 0x0A000000"
    "''x'' \<noteq> dotted_cidr 0x0A000000 8" by code_simp+
  then show ?thesis
    by (intro ipf_block_persists [OF pton_ref.ipv4_parser_axioms]) auto
qed

text \<open>After any sequence of calls, file loads included, every rule in force has a mask that is a run
  of \<open>n \<le> 32\<close> leading ones, a network without bits outside it, and is the parse of the text the
  listing calls return.\<close>

lemma ipf_runs_wellformed:
  assumes "f = fold (ipf_step pton) ops ipf_init" and "e \<in> set (allowlist_s f) \<union> set (blocklist_s f)"
  shows "(\<exists>n\<le>32. mask e = cidr_mask n \<and> and (network e) (mask e) = network e) \<and>
    parseCidr pton (original e) = Some e \<and>
    original e \<in> set (getAllowlist f) \<union> set (getBlocklist f)"
proof -
  have "ipf_inv pton f"
    unfolding assms(1) by (rule ipf.run_inv) (simp add: ipf_inv_def ipf_init_def)
  with assms(2) have "parseCidr pton (original e) = Some e" by (auto simp: ipf_inv_def)
  with parse_wf [OF this] assms(2) show ?thesis by (auto simp: getAllowlist_def getBlocklist_def)
qed

definition demo_ipf :: IpFilter where
  "demo_ipf = fold (ipf_step pton_ref) [(Block (dotted_cidr 0x0A000000 8), Map.empty)] ipf_init"

lemma demo_ipf_block: "cidr_entry (0x0A000000, 8) \<in> set (allowlist_s demo_ipf) \<union> set (blocklist_s demo_ipf)"
  by (simp add: demo_ipf_def blockIp_def pton_ref.parse_dotted_cidr cidr_entry_def)

lemma ipf_runs_wellformed_witness:
  "parseCidr pton_ref (original (cidr_entry (0x0A000000, 8))) = Some (cidr_entry (0x0A000000, 8))"
  using ipf_runs_wellformed [OF demo_ipf_def demo_ipf_block] by blast

text \<open>The filter files round-trip: reloading from a file that holds one printed rule per line
  installs exactly those rules, in order, and the listing returns the lines.\<close>

lemma ipf_reload_roundtrip:
  assumes "ipv4_parser pton" and "\<forall>(a, n)\<in>set rs. n \<le> 32" and "blocklistFile_s f \<noteq> []"
    and "allowlistFile_s f = []" and "fs (blocklistFile_s f) = Some (cidr_file rs)"
  shows "fst (ipf_reload pton fs f) \<and> allowlist_s (snd (ipf_reload pton fs f)) = [] \<and>
    blocklist_s (snd (ipf_reload pton fs f)) = map cidr_entry rs \<and>
    getBlocklist (snd (ipf_reload pton fs f)) = map (\<lambda>(a, n). dotted_cidr a n) rs"
  using assms ipv4_parser.load_cidr_lines [OF assms(1,2), of "[]"]
  by (simp add: ipf_reload_def loadFile_def getlines_cidr_file getBlocklist_def cidr_entry_def
      case_prod_beta comp_def)

lemma ipf_reload_roundtrip_witness:
  "getBlocklist (snd (ipf_reload pton_ref (\<lambda>p. if p = ''b'' then Some (cidr_file [(0x0A000000, 8)]) else None)
     (ipf_init\<lparr>blocklistFile_s := ''b''\<rparr>))) = [dotted_cidr 0x0A000000 8]"
  using ipf_reload_roundtrip [OF pton_ref.ipv4_parser_axioms, of "[(0x0A000000, 8)]"
      "ipf_init\<lparr>blocklistFile_s := ''b''\<rparr>"
      "\<lambda>p. if p = ''b'' then Some (cidr_file [(0x0A000000, 8)]) else None"]
  by (simp add: ipf_init_def)

end
