(* ===== verification/RateLimiter.thy ===== *)
theory RateLimiter
  imports Complex_Main Prelude
begin

text \<open>
  AlpineRestBridge/RateLimiter.cpp: one token bucket per client address, in sixteen shards. The steady
  clock is an argument of every operation, in nanoseconds; \<open>double\<close> is \<open>real\<close>. The hash that picks the
  shard and the address parser of asio, which prints an address it accepts in canonical form, are
  arguments as well.
\<close>

section \<open>Model\<close>

record t_TokenBucket =
  tb_tokens :: real
  tb_lastRefill :: int

record RateLimiter =
  rl_rate_s :: real
  rl_burst_s :: uint
  rl_shards_s :: "nat \<Rightarrow> string \<rightharpoonup> t_TokenBucket"
  rl_initialized_s :: bool

definition SHARD_COUNT :: nat where
  "SHARD_COUNT = 16"

definition STALE_TIMEOUT :: int where
  "STALE_TIMEOUT = 5 * 60 * 1000000000"

definition RateLimiter_static :: RateLimiter where
  "RateLimiter_static = \<lparr>rl_rate_s = 10, rl_burst_s = 20, rl_shards_s = (\<lambda>_. Map.empty), rl_initialized_s = False\<rparr>"

definition shardIndex :: "(string \<Rightarrow> nat) \<Rightarrow> string \<Rightarrow> nat" where
  "shardIndex hash clientIp = hash clientIp mod SHARD_COUNT"

definition rl_initialize :: "real \<Rightarrow> uint \<Rightarrow> RateLimiter \<Rightarrow> RateLimiter" where
  "rl_initialize requestsPerSecond burstSize rl =
     rl\<lparr>rl_rate_s := requestsPerSecond, rl_burst_s := burstSize, rl_initialized_s := True\<rparr>"

definition normalizeIp :: "(string \<Rightarrow> string option) \<Rightarrow> string \<Rightarrow> string" where
  "normalizeIp make_address ip =
     (let normalized = (if take 7 ip = ''::ffff:'' then drop 7 ip else ip) in
      case make_address normalized of Some addr \<Rightarrow> addr | None \<Rightarrow> normalized)"

definition seconds :: "int \<Rightarrow> real" where
  "seconds ns = real_of_int ns / 1000000000"

definition refillBucket :: "int \<Rightarrow> RateLimiter \<Rightarrow> t_TokenBucket \<Rightarrow> t_TokenBucket" where
  "refillBucket now rl bucket =
     (let elapsed = seconds (now - tb_lastRefill bucket);
          tokens = tb_tokens bucket + elapsed * rl_rate_s rl;
          tokens1 = (if tokens > real (unat (rl_burst_s rl)) then real (unat (rl_burst_s rl)) else tokens)
      in bucket\<lparr>tb_tokens := tokens1, tb_lastRefill := now\<rparr>)"

definition set_bucket :: "nat \<Rightarrow> string \<Rightarrow> t_TokenBucket \<Rightarrow> RateLimiter \<Rightarrow> RateLimiter" where
  "set_bucket i ip bucket rl = rl\<lparr>rl_shards_s := (rl_shards_s rl)(i := (rl_shards_s rl i)(ip \<mapsto> bucket))\<rparr>"

text \<open>The clock is read at the start, \<open>now\<close>, and again when a bucket is refilled, \<open>now1\<close>.\<close>

definition allowRequestNormalized :: "(string \<Rightarrow> nat) \<Rightarrow> int \<Rightarrow> int \<Rightarrow> string \<Rightarrow> RateLimiter \<Rightarrow> bool \<times> RateLimiter" where
  "allowRequestNormalized hash now now1 normalizedIp rl =
     (if \<not> rl_initialized_s rl then (True, rl)
      else
        let i = shardIndex hash normalizedIp in
        (case rl_shards_s rl i normalizedIp of
           None \<Rightarrow>
             (True, set_bucket i normalizedIp \<lparr>tb_tokens = real (unat (rl_burst_s rl)) - 1, tb_lastRefill = now\<rparr> rl)
         | Some bucket \<Rightarrow>
             let bucket1 = refillBucket now1 rl bucket in
             if tb_tokens bucket1 \<ge> 1
             then (True, set_bucket i normalizedIp (bucket1\<lparr>tb_tokens := tb_tokens bucket1 - 1\<rparr>) rl)
             else (False, set_bucket i normalizedIp bucket1 rl)))"

definition rl_allowRequest :: "(string \<Rightarrow> nat) \<Rightarrow> (string \<Rightarrow> string option) \<Rightarrow> int \<Rightarrow> int \<Rightarrow> string \<Rightarrow> RateLimiter \<Rightarrow>
    bool \<times> RateLimiter" where
  "rl_allowRequest hash make_address now now1 clientIp rl =
     allowRequestNormalized hash now now1 (normalizeIp make_address clientIp) rl"

definition rl_cleanup :: "int \<Rightarrow> RateLimiter \<Rightarrow> RateLimiter" where
  "rl_cleanup now rl = rl\<lparr>rl_shards_s := (\<lambda>i. if i < SHARD_COUNT
       then (\<lambda>ip. case rl_shards_s rl i ip of
           None \<Rightarrow> None
         | Some b \<Rightarrow> if now - tb_lastRefill b > STALE_TIMEOUT then None else Some b)
       else rl_shards_s rl i)\<rparr>"

section \<open>Runs\<close>

text \<open>A call with its clock readings; the outcome of a cleanup is that nothing was granted.\<close>

datatype rl_call = RlRequest int int string | RlCleanup int

fun rl_step :: "(string \<Rightarrow> nat) \<Rightarrow> (string \<Rightarrow> string option) \<Rightarrow> rl_call \<Rightarrow> RateLimiter \<Rightarrow> bool \<times> RateLimiter" where
  "rl_step hash mk (RlRequest now now1 ip) rl = rl_allowRequest hash mk now now1 ip rl"
| "rl_step hash mk (RlCleanup now) rl = (False, rl_cleanup now rl)"

fun readings :: "rl_call \<Rightarrow> int list" where
  "readings (RlRequest now now1 ip) = [now, now1]"
| "readings (RlCleanup now) = [now]"

fun rl_state :: "(string \<Rightarrow> nat) \<Rightarrow> (string \<Rightarrow> string option) \<Rightarrow> rl_call list \<Rightarrow> RateLimiter \<Rightarrow> RateLimiter" where
  "rl_state hash mk [] rl = rl"
| "rl_state hash mk (c # cs) rl = rl_state hash mk cs (snd (rl_step hash mk c rl))"

fun of_client :: "(string \<Rightarrow> string option) \<Rightarrow> string \<Rightarrow> rl_call \<Rightarrow> bool" where
  "of_client mk k (RlRequest now now1 ip) \<longleftrightarrow> normalizeIp mk ip = k"
| "of_client mk k (RlCleanup now) \<longleftrightarrow> False"

text \<open>How many requests of the client \<open>k\<close> a run grants.\<close>

fun granted :: "(string \<Rightarrow> nat) \<Rightarrow> (string \<Rightarrow> string option) \<Rightarrow> string \<Rightarrow> rl_call list \<Rightarrow> RateLimiter \<Rightarrow> nat" where
  "granted hash mk k [] rl = 0"
| "granted hash mk k (c # cs) rl =
     (if of_client mk k c \<and> fst (rl_step hash mk c rl) then 1 else 0) + granted hash mk k cs (snd (rl_step hash mk c rl))"

definition clock :: "rl_call list \<Rightarrow> int list" where
  "clock cs = concat (map readings cs)"

lemma clock_append [simp]: "clock (cs @ ds) = clock cs @ clock ds"
  by (simp add: clock_def)

lemma sorted_last: "sorted xs \<Longrightarrow> x \<in> set xs \<Longrightarrow> x \<le> last xs" for xs :: "int list"
  by (induction xs) auto

section \<open>The potential of a bucket\<close>

definition bucket_of :: "(string \<Rightarrow> nat) \<Rightarrow> string \<Rightarrow> RateLimiter \<Rightarrow> t_TokenBucket option" where
  "bucket_of hash k rl = rl_shards_s rl (shardIndex hash k) k"

text \<open>The tokens the client would find at time \<open>t\<close>; a client without a bucket gets a full one.\<close>

definition avail :: "(string \<Rightarrow> nat) \<Rightarrow> string \<Rightarrow> int \<Rightarrow> RateLimiter \<Rightarrow> real" where
  "avail hash k t rl = (case bucket_of hash k rl of
       None \<Rightarrow> real (unat (rl_burst_s rl))
     | Some b \<Rightarrow> min (real (unat (rl_burst_s rl))) (tb_tokens b + seconds (t - tb_lastRefill b) * rl_rate_s rl))"

definition rl_inv :: "(string \<Rightarrow> nat) \<Rightarrow> real \<Rightarrow> uint \<Rightarrow> int \<Rightarrow> RateLimiter \<Rightarrow> bool" where
  "rl_inv hash rate burst t rl \<longleftrightarrow> rl_initialized_s rl \<and> rl_rate_s rl = rate \<and> rl_burst_s rl = burst \<and>
     (\<forall>k b. bucket_of hash k rl = Some b \<longrightarrow> 0 \<le> tb_tokens b \<and> tb_lastRefill b \<le> t)"

text \<open>A configuration: at least one token, and a stale bucket has filled up again.\<close>

definition rl_config :: "real \<Rightarrow> uint \<Rightarrow> bool" where
  "rl_config rate burst \<longleftrightarrow> 0 < burst \<and> real (unat burst) \<le> 300 * rate"

lemma bucket_of_set [simp]:
  "bucket_of hash k (set_bucket (shardIndex hash ip) ip b rl) = (if k = ip then Some b else bucket_of hash k rl)"
  by (simp add: bucket_of_def set_bucket_def)

lemma set_bucket_frame [simp]:
  "rl_rate_s (set_bucket i ip b rl) = rl_rate_s rl" "rl_burst_s (set_bucket i ip b rl) = rl_burst_s rl"
  "rl_initialized_s (set_bucket i ip b rl) = rl_initialized_s rl"
  by (simp_all add: set_bucket_def)

lemma shardIndex_less [simp]: "shardIndex hash k < SHARD_COUNT"
  by (simp add: shardIndex_def SHARD_COUNT_def)

lemma bucket_of_cleanup: "bucket_of hash k (rl_cleanup now rl) = (case bucket_of hash k rl of
    None \<Rightarrow> None | Some b \<Rightarrow> if now - tb_lastRefill b > STALE_TIMEOUT then None else Some b)"
  by (simp add: bucket_of_def rl_cleanup_def)

lemma cleanup_frame [simp]:
  "rl_rate_s (rl_cleanup now rl) = rl_rate_s rl" "rl_burst_s (rl_cleanup now rl) = rl_burst_s rl"
  "rl_initialized_s (rl_cleanup now rl) = rl_initialized_s rl"
  by (simp_all add: rl_cleanup_def)

lemma seconds_diff: "seconds (a - b) = seconds a - seconds b"
  by (simp add: seconds_def diff_divide_distrib)

lemma seconds_mono: "a \<le> b \<Longrightarrow> seconds a \<le> seconds b"
  by (simp add: seconds_def)

lemma rl_config_pos:
  assumes "rl_config rate burst"
  shows "0 < rate \<and> 1 \<le> real (unat burst)"
proof -
  have "Suc 0 \<le> unat burst" using assms unat_gt_0 [of burst] by (simp add: rl_config_def word_gt_0 Suc_le_eq)
  then have "1 \<le> real (unat burst)" by linarith
  then show ?thesis using assms unfolding rl_config_def by linarith
qed

lemma refill_tokens: "tb_tokens (refillBucket t rl b) =
    min (real (unat (rl_burst_s rl))) (tb_tokens b + seconds (t - tb_lastRefill b) * rl_rate_s rl)"
  by (simp add: refillBucket_def Let_def min_def)

lemma avail_set: "avail hash ip t (set_bucket (shardIndex hash ip) ip b rl) =
    min (real (unat (rl_burst_s rl))) (tb_tokens b + seconds (t - tb_lastRefill b) * rl_rate_s rl)"
  by (simp add: avail_def)

lemma avail_bounds:
  assumes "rl_inv hash rate burst t rl" "rl_config rate burst" "t \<le> t'"
  shows "0 \<le> avail hash k t' rl" "avail hash k t' rl \<le> real (unat burst)"
proof -
  have "0 \<le> seconds (t' - tb_lastRefill b)" if "bucket_of hash k rl = Some b" for b
    using assms that seconds_mono [of 0 "t' - tb_lastRefill b"] by (force simp: rl_inv_def seconds_def)
  then show "0 \<le> avail hash k t' rl" "avail hash k t' rl \<le> real (unat burst)"
    using assms rl_config_pos [OF assms(2)] by (auto simp: avail_def rl_inv_def split: option.splits)
qed

text \<open>Time adds tokens at the configured rate at most.\<close>

lemma avail_time:
  assumes "rl_inv hash rate burst t rl" "rl_config rate burst" "t1 \<le> t2"
  shows "avail hash k t2 rl \<le> avail hash k t1 rl + rate * (seconds t2 - seconds t1)"
proof -
  have r: "0 \<le> rate * (seconds t2 - seconds t1)"
    using rl_config_pos [OF assms(2)] seconds_mono [OF assms(3)] by simp
  show ?thesis
  proof (cases "bucket_of hash k rl")
    case None
    with r show ?thesis by (simp add: avail_def)
  next
    case (Some b)
    then show ?thesis using r assms(1) by (simp add: avail_def rl_inv_def seconds_diff min_def algebra_simps)
  qed
qed

text \<open>A request is granted exactly when a token is there, and takes it; the other clients keep theirs.\<close>

lemma request_effect:
  assumes "rl_inv hash rate burst t rl" "rl_config rate burst" "t \<le> now" "now \<le> now1"
  obtains ok rl' where "allowRequestNormalized hash now now1 ip rl = (ok, rl')" "rl_inv hash rate burst now1 rl'"
    "ok \<longleftrightarrow> 1 \<le> avail hash ip now1 rl" "\<And>k. k \<noteq> ip \<Longrightarrow> bucket_of hash k rl' = bucket_of hash k rl"
    "avail hash ip now1 rl' + of_bool ok \<le> avail hash ip t rl + rate * (seconds now1 - seconds t)"
proof -
  note c = rl_config_pos [OF assms(2)]
  have inv: "rl_initialized_s rl" "rl_rate_s rl = rate" "rl_burst_s rl = burst" using assms(1) by (simp_all add: rl_inv_def)
  have old: "0 \<le> tb_tokens b \<and> tb_lastRefill b \<le> now1" if "bucket_of hash k' rl = Some b" for k' b
    using assms that by (force simp: rl_inv_def)
  show ?thesis
  proof (cases "bucket_of hash ip rl")
    case None
    let ?rl = "set_bucket (shardIndex hash ip) ip \<lparr>tb_tokens = real (unat burst) - 1, tb_lastRefill = now\<rparr> rl"
    have i1: "rl_inv hash rate burst now1 ?rl" using old inv c assms(4) by (simp add: rl_inv_def)
    have "rate * (seconds now1 - seconds now) \<le> rate * (seconds now1 - seconds t)"
      using c seconds_mono [OF assms(3)] by (intro mult_left_mono) auto
    moreover have "avail hash ip now1 ?rl \<le> real (unat burst) - 1 + rate * (seconds now1 - seconds now)"
      using inv by (simp add: avail_def seconds_diff mult.commute)
    moreover have "avail hash ip t rl = real (unat burst)" "avail hash ip now1 rl = real (unat burst)"
      using None inv by (simp_all add: avail_def)
    ultimately have "avail hash ip now1 ?rl + of_bool True \<le> avail hash ip t rl + rate * (seconds now1 - seconds t)"
      "1 \<le> avail hash ip now1 rl" using c unfolding of_bool_eq by (linarith, linarith)
    with i1 None inv show ?thesis
      by (intro that [of True ?rl]) (simp_all add: allowRequestNormalized_def Let_def bucket_of_def [symmetric])
  next
    case (Some b)
    let ?b = "refillBucket now1 rl b"
    have tok: "tb_tokens ?b = avail hash ip now1 rl" using Some by (simp add: refill_tokens avail_def)
    have last: "tb_lastRefill ?b = now1" by (simp add: refillBucket_def Let_def)
    have le: "avail hash ip now1 rl \<le> real (unat burst)" "0 \<le> avail hash ip now1 rl"
      using avail_bounds [OF assms(1,2)] assms(3,4) by simp_all
    let ?b1 = "if 1 \<le> tb_tokens ?b then ?b\<lparr>tb_tokens := tb_tokens ?b - 1\<rparr> else ?b"
    let ?rl = "set_bucket (shardIndex hash ip) ip ?b1 rl"
    have "rl_inv hash rate burst now1 ?rl" using old inv le by (auto simp: rl_inv_def tok last)
    moreover have "avail hash ip now1 ?rl + of_bool (1 \<le> tb_tokens ?b) = avail hash ip now1 rl"
      using le inv by (simp add: avail_set last tok seconds_def)
    moreover have "avail hash ip now1 rl \<le> avail hash ip t rl + rate * (seconds now1 - seconds t)"
      using assms by (intro avail_time) auto
    ultimately show ?thesis using Some inv tok
      by (intro that [of "1 \<le> tb_tokens ?b" ?rl]) (simp_all add: allowRequestNormalized_def Let_def bucket_of_def [symmetric])
  qed
qed

text \<open>A stale bucket is full, so removing it changes nothing for its client.\<close>

lemma cleanup_effect:
  assumes "rl_inv hash rate burst t rl" "rl_config rate burst" "t \<le> now"
  shows "rl_inv hash rate burst now (rl_cleanup now rl)" "avail hash k now (rl_cleanup now rl) = avail hash k now rl"
proof -
  have "real (unat burst) \<le> tb_tokens b + seconds (now - tb_lastRefill b) * rate"
    if b: "bucket_of hash k rl = Some b" "now - tb_lastRefill b > STALE_TIMEOUT" for b
  proof -
    have "300 * rate \<le> seconds (now - tb_lastRefill b) * rate"
      using b(2) rl_config_pos [OF assms(2)] by (simp add: seconds_def STALE_TIMEOUT_def)
    moreover have "0 \<le> tb_tokens b" using assms(1) b(1) by (auto simp: rl_inv_def)
    ultimately show ?thesis using assms(2) unfolding rl_config_def by linarith
  qed
  then show "avail hash k now (rl_cleanup now rl) = avail hash k now rl"
    using assms(1) by (auto simp: avail_def bucket_of_cleanup rl_inv_def split: option.splits)
  show "rl_inv hash rate burst now (rl_cleanup now rl)"
    using assms by (force simp: rl_inv_def bucket_of_cleanup split: option.splits if_splits)
qed

lemma step_effect:
  assumes "rl_inv hash rate burst t rl" "rl_config rate burst" "sorted (t # readings c)"
  shows "rl_inv hash rate burst (last (readings c)) (snd (rl_step hash mk c rl))"
    and "avail hash k (last (readings c)) (snd (rl_step hash mk c rl)) + of_bool (of_client mk k c \<and> fst (rl_step hash mk c rl))
      \<le> avail hash k t rl + rate * (seconds (last (readings c)) - seconds t)"
proof -
  show "rl_inv hash rate burst (last (readings c)) (snd (rl_step hash mk c rl))"
  proof (cases c)
    case (RlRequest now now1 ip)
    with assms show ?thesis
      by (auto simp: rl_allowRequest_def intro: request_effect [OF assms(1,2), of now now1 "normalizeIp mk ip"])
  qed (use assms cleanup_effect in auto)
  show "avail hash k (last (readings c)) (snd (rl_step hash mk c rl)) + of_bool (of_client mk k c \<and> fst (rl_step hash mk c rl))
      \<le> avail hash k t rl + rate * (seconds (last (readings c)) - seconds t)"
  proof (cases c)
    case (RlCleanup now)
    with assms cleanup_effect(2) [OF assms(1,2)] avail_time [OF assms(1,2)] show ?thesis by simp
  next
    case (RlRequest now now1 ip)
    with assms(3) have le: "t \<le> now" "now \<le> now1" "t \<le> now1" by auto
    obtain ok rl' where r: "allowRequestNormalized hash now now1 (normalizeIp mk ip) rl = (ok, rl')" "rl_inv hash rate burst now1 rl'"
      "\<And>k. k \<noteq> normalizeIp mk ip \<Longrightarrow> bucket_of hash k rl' = bucket_of hash k rl"
      "avail hash (normalizeIp mk ip) now1 rl' + of_bool ok \<le> avail hash (normalizeIp mk ip) t rl + rate * (seconds now1 - seconds t)"
      using request_effect [OF assms(1,2) le(1,2)] by metis
    have "avail hash k now1 rl' = avail hash k now1 rl" if "k \<noteq> normalizeIp mk ip"
      using r(2) r(3) [OF that] assms(1) by (auto simp: avail_def rl_inv_def split: option.split)
    then show ?thesis using RlRequest r(1,4) avail_time [OF assms(1,2) le(3), of k]
      by (cases "k = normalizeIp mk ip") (auto simp: rl_allowRequest_def)
  qed
qed

lemma run_effect:
  assumes "rl_config rate burst"
  shows "rl_inv hash rate burst t rl \<Longrightarrow> sorted (t # clock cs) \<Longrightarrow>
    rl_inv hash rate burst (last (t # clock cs)) (rl_state hash mk cs rl) \<and>
    avail hash k (last (t # clock cs)) (rl_state hash mk cs rl) + real (granted hash mk k cs rl) \<le>
      avail hash k t rl + rate * (seconds (last (t # clock cs)) - seconds t)"
proof (induction cs arbitrary: t rl)
  case (Cons c cs)
  let ?t = "last (readings c)"
  have ne: "readings c \<noteq> []" by (cases c) auto
  have split: "clock (c # cs) = readings c @ clock cs" by (simp add: clock_def)
  have s: "sorted (t # readings c)" "sorted (?t # clock cs)"
    using Cons.prems(2) ne by (auto simp: split sorted_append)
  have l: "last (t # clock (c # cs)) = last (?t # clock cs)" using ne by (simp add: split)
  note st = step_effect [OF Cons.prems(1) assms s(1), where mk = mk]
  from Cons.IH [OF st(1) s(2)] st(2) [of k] show ?case
    unfolding l by (auto simp: algebra_simps simp del: last.simps)
qed (simp add: clock_def)

lemma fresh_inv: "rl_inv hash rate burst t (rl_initialize rate burst RateLimiter_static)"
  by (simp add: rl_inv_def rl_initialize_def RateLimiter_static_def bucket_of_def)

lemma rl_inv_mono: "rl_inv hash rate burst t rl \<Longrightarrow> t \<le> t' \<Longrightarrow> rl_inv hash rate burst t' rl"
  by (force simp: rl_inv_def)

lemma reached_inv:
  assumes "rl_config rate burst" "sorted (clock cs)" "\<And>x. x \<in> set (clock cs) \<Longrightarrow> x \<le> t"
  shows "rl_inv hash rate burst t (rl_state hash mk cs (rl_initialize rate burst RateLimiter_static))"
proof -
  let ?t0 = "if clock cs = [] then t else hd (clock cs)"
  have "sorted (?t0 # clock cs)" using assms(2) by (cases "clock cs") auto
  from run_effect [OF assms(1) fresh_inv this]
  have "rl_inv hash rate burst (last (?t0 # clock cs)) (rl_state hash mk cs (rl_initialize rate burst RateLimiter_static))"
    by (simp del: last.simps)
  moreover have "last (?t0 # clock cs) \<le> t" using assms(3) by auto
  ultimately show ?thesis by (rule rl_inv_mono)
qed

section \<open>Properties\<close>

text \<open>C12: the token bucket bound, for a configuration whose burst is positive and at most 300 times the rate, so that a bucket which is
  swept after five minutes was full. In every window of a run along readings of the clock that do not go back, whatever the other
  clients do and whenever stale buckets are swept, the requests granted to one client, in any spelling of its address, are at most
  the burst plus the rate times the length of the window. With a larger burst the sweep refills a bucket that was not full.\<close>

theorem rate_limit_bound:
  assumes "rl_config rate burst" and "sorted (clock (before @ window))" and "window \<noteq> []"
  shows "real (granted hash mk k window (rl_state hash mk before (rl_initialize rate burst RateLimiter_static)))
    \<le> real (unat burst) + rate * seconds (last (clock window) - hd (clock window))"
proof -
  let ?rl = "rl_state hash mk before (rl_initialize rate burst RateLimiter_static)" and ?t = "hd (clock window)"
  have ne: "clock window \<noteq> []" using assms(3) by (cases window; cases "hd window") (auto simp: clock_def)
  have s: "sorted (clock before)" "sorted (clock window)" "\<And>x. x \<in> set (clock before) \<Longrightarrow> x \<le> ?t"
    using assms(2) ne by (auto simp: sorted_append)
  have inv: "rl_inv hash rate burst ?t ?rl" by (rule reached_inv [OF assms(1) s(1,3)])
  have sw: "sorted (?t # clock window)" using s(2) ne by (cases "clock window") auto
  have l: "last (?t # clock window) = last (clock window)" using ne by simp
  from run_effect [OF assms(1) inv sw, of mk k]
  have "rl_inv hash rate burst (last (clock window)) (rl_state hash mk window ?rl)"
    "avail hash k (last (clock window)) (rl_state hash mk window ?rl) + real (granted hash mk k window ?rl)
      \<le> avail hash k ?t ?rl + rate * (seconds (last (clock window)) - seconds ?t)" unfolding l by auto
  with avail_bounds(1) [OF this(1) assms(1), of "last (clock window)" k] avail_bounds(2) [OF inv assms(1), of ?t k]
  show ?thesis by (simp add: seconds_diff)
qed

theorem rate_limit_bound_witness:
  "real (granted (\<lambda>_. 3) (\<lambda>_. None) ''7'' [RlRequest 5 6 ''7'', RlRequest 7 8 ''::ffff:7'', RlRequest 9 9 ''7'']
     (rl_state (\<lambda>_. 3) (\<lambda>_. None) [RlRequest 0 1 ''7'', RlCleanup 4] (rl_initialize 10 2 RateLimiter_static)))
    \<le> 2 + 10 * seconds (9 - 5)"
  using rate_limit_bound [of 10 2 "[RlRequest 0 1 ''7'', RlCleanup 4]"
      "[RlRequest 5 6 ''7'', RlRequest 7 8 ''::ffff:7'', RlRequest 9 9 ''7'']" "\<lambda>_. 3" "\<lambda>_. None" "''7''"]
  by (simp add: rl_config_def clock_def)

text \<open>No client starves. After any run a request that comes one token's time after the last clock
  reading is granted, and so is the first request of every client.\<close>

lemma rate_limit_progress:
  assumes "rl_config rate burst" and "sorted (clock (cs @ [RlRequest now now1 ip]))"
    and "1 \<le> rate * seconds (now1 - last (t # clock cs)) \<or>
      bucket_of hash (normalizeIp mk ip) (rl_state hash mk cs (rl_initialize rate burst RateLimiter_static)) = None"
  shows "fst (rl_allowRequest hash mk now now1 ip (rl_state hash mk cs (rl_initialize rate burst RateLimiter_static)))"
proof -
  let ?rl = "rl_state hash mk cs (rl_initialize rate burst RateLimiter_static)" and ?k = "normalizeIp mk ip"
  have s: "sorted (clock cs)" "\<And>x. x \<in> set (clock cs) \<Longrightarrow> x \<le> now" "now \<le> now1"
    using assms(2) by (auto simp: clock_def sorted_append)
  have inv: "rl_inv hash rate burst now ?rl" by (rule reached_inv [OF assms(1) s(1,2)])
  note c = rl_config_pos [OF assms(1)]
  have "1 \<le> avail hash ?k now1 ?rl"
  proof (cases "bucket_of hash ?k ?rl")
    case None
    with inv c show ?thesis by (simp add: avail_def rl_inv_def)
  next
    case (Some b)
    have last: "tb_lastRefill b \<le> last (t # clock cs)"
    proof (cases cs)
      case Nil
      with Some show ?thesis by (simp add: bucket_of_def rl_initialize_def RateLimiter_static_def)
    next
      case (Cons d ds)
      then have "clock cs \<noteq> []" by (cases d) (auto simp: clock_def)
      with reached_inv [OF assms(1) s(1) sorted_last [OF s(1)], of hash mk] Some show ?thesis by (auto simp: rl_inv_def)
    qed
    have "1 \<le> rate * seconds (now1 - tb_lastRefill b)"
      using assms(3) Some c seconds_mono [OF last] by (auto simp: seconds_diff intro: order_trans [OF _ mult_left_mono])
    moreover have "0 \<le> tb_tokens b" using Some inv by (auto simp: rl_inv_def)
    ultimately have "1 \<le> tb_tokens b + seconds (now1 - tb_lastRefill b) * rate" by (simp add: mult.commute)
    then show ?thesis using Some inv c by (simp add: avail_def rl_inv_def)
  qed
  then show ?thesis
    by (auto simp: rl_allowRequest_def intro: request_effect [OF inv assms(1) order_refl s(3), of ?k])
qed

lemma rate_limit_progress_witness:
  "fst (rl_allowRequest (\<lambda>_. 3) (\<lambda>_. None) 200000000 200000000 ''7''
     (rl_state (\<lambda>_. 3) (\<lambda>_. None) [RlRequest 0 1 ''7'', RlRequest 2 3 ''7''] (rl_initialize 10 1 RateLimiter_static)))"
  by (rule rate_limit_progress [where t = 0]) (simp_all add: rl_config_def clock_def seconds_def)

end
