(* ===== verification/HttpMessages.thy ===== *)
theory HttpMessages
  imports TextNumbers
begin

text \<open>
  AlpineRestBridge/HttpRequest.cpp and HttpResponse.cpp: the parser of incoming requests and the responses.
  A string is a list of characters. \<^verbatim>\<open>std::isalnum\<close> and \<open>tolower\<close> are those of the C locale. The headers and
  query parameters are maps; the order in which \<open>build\<close> meets the headers of its \<open>unordered_map\<close> is an
  argument. Shown: what is parsed from a well-formed request, the limits that every parse keeps, and that
  a built response can be read back.
\<close>

section \<open>Requests\<close>

record HttpRequest =
  http_method :: string
  path :: string
  body :: string
  headers :: "string \<rightharpoonup> string"
  queryParams :: "string \<rightharpoonup> string"

definition HttpRequest_new :: HttpRequest where
  "HttpRequest_new = \<lparr>http_method = [], path = [], body = [], headers = Map.empty, queryParams = Map.empty\<rparr>"

definition MAX_HEADER_COUNT :: nat where
  "MAX_HEADER_COUNT = 100"

definition MAX_HEADER_NAME_LENGTH :: nat where
  "MAX_HEADER_NAME_LENGTH = 256"

definition MAX_HEADER_VALUE_LENGTH :: nat where
  "MAX_HEADER_VALUE_LENGTH = 8192"

abbreviation CR :: char where
  "CR \<equiv> CHR 0x0D"

abbreviation LF :: char where
  "LF \<equiv> CHR 0x0A"

text \<open>\<^verbatim>\<open>find\<close> of a character and of the line end; \<open>None\<close> is \<open>npos\<close>.\<close>

definition find_char :: "char \<Rightarrow> string \<Rightarrow> nat option" where
  "find_char c s = (if c \<in> set s then Some (length (takeWhile (\<lambda>x. x \<noteq> c) s)) else None)"

fun find_crlf :: "string \<Rightarrow> nat option" where
  "find_crlf (a # b # s) = (if a = CR \<and> b = LF then Some 0 else map_option Suc (find_crlf (b # s)))"
| "find_crlf s = None"

definition is_alnum :: "char \<Rightarrow> bool" where
  "is_alnum c \<longleftrightarrow> (let n = of_char c :: nat in 48 \<le> n \<and> n \<le> 57 \<or> 65 \<le> n \<and> n \<le> 90 \<or> 97 \<le> n \<and> n \<le> 122)"

definition isTchar :: "char \<Rightarrow> bool" where
  "isTchar c \<longleftrightarrow> is_alnum c \<or> c \<in> set ''!#$%&*+-.^_|~'' \<or> c = CHR 0x27 \<or> c = CHR 0x60"

definition to_lower :: "char \<Rightarrow> char" where
  "to_lower c = (let n = of_char c :: nat in if 65 \<le> n \<and> n \<le> 90 then char_of (n + 32) else c)"

function parse_query :: "string \<Rightarrow> (string \<rightharpoonup> string) \<Rightarrow> (string \<rightharpoonup> string)" where
  "parse_query queryString params =
     (if queryString = [] then params
      else
        let param = takeWhile (\<lambda>c. c \<noteq> CHR ''&'') queryString;
            rest = dropWhile (\<lambda>c. c \<noteq> CHR ''&'') queryString;
            params1 = (case find_char (CHR ''='') param of
                Some eqPos \<Rightarrow> params(take eqPos param \<mapsto> drop (eqPos + 1) param)
              | None \<Rightarrow> if param \<noteq> [] then params(param \<mapsto> []) else params)
        in if rest = [] then params1 else parse_query (tl rest) params1)"
  by pat_completeness auto
termination
proof (relation "measure (length \<circ> fst)", goal_cases)
  case (2 queryString params param rest params1)
  then have "length (tl rest) < length rest" by (cases rest) auto
  moreover have "length rest \<le> length queryString" using 2 by (simp add: length_dropWhile_le)
  ultimately show ?case by simp
qed simp

declare parse_query.simps [simp del]

text \<open>One header line; \<open>None\<close> refuses the request. A line without a colon or with a name that is not a
  token is skipped.\<close>

definition header_line :: "string \<Rightarrow> HttpRequest \<Rightarrow> HttpRequest option" where
  "header_line headerLine request = (case find_char (CHR '':'') headerLine of
       None \<Rightarrow> Some request
     | Some colonPos \<Rightarrow>
         let name = take colonPos headerLine; val = drop (colonPos + 1) headerLine in
         if length name > MAX_HEADER_NAME_LENGTH \<or> length val > MAX_HEADER_VALUE_LENGTH then None
         else if \<not> list_all isTchar name then Some request
         else Some (request\<lparr>headers := (headers request)
             (map to_lower name \<mapsto> dropWhile (\<lambda>c. c = CHR '' '') val)\<rparr>))"

text \<open>\<open>s\<close> is what follows \<open>pos\<close>. The result is the status, what follows the headers, and the request.\<close>

function header_loop :: "nat \<Rightarrow> string \<Rightarrow> HttpRequest \<Rightarrow> bool \<times> string \<times> HttpRequest" where
  "header_loop headerCount s request = (case find_crlf s of
       None \<Rightarrow> (True, s, request)
     | Some headerEnd \<Rightarrow>
         if headerEnd = 0 then (True, drop 2 s, request)
         else if headerCount + 1 > MAX_HEADER_COUNT then (False, s, request)
         else (case header_line (take headerEnd s) request of
             None \<Rightarrow> (False, s, request)
           | Some request1 \<Rightarrow> header_loop (headerCount + 1) (drop (headerEnd + 2) s) request1))"
  by pat_completeness auto
termination
proof (relation "measure (\<lambda>(n, s, r). length s)", goal_cases)
  case (2 headerCount s request headerEnd request1)
  then have "s \<noteq> []" by auto
  then show ?case by simp
qed simp

declare header_loop.simps [simp del]

definition parse_path :: "string \<Rightarrow> HttpRequest \<Rightarrow> HttpRequest" where
  "parse_path fullPath request = (case find_char (CHR ''?'') fullPath of
       Some queryPos \<Rightarrow> request\<lparr>path := take queryPos fullPath,
         queryParams := parse_query (drop (queryPos + 1) fullPath) (queryParams request)\<rparr>
     | None \<Rightarrow> request\<lparr>path := fullPath\<rparr>)"

definition http_parse :: "string \<Rightarrow> HttpRequest \<Rightarrow> bool \<times> HttpRequest" where
  "http_parse raw request =
     (if raw = [] then (False, request)
      else (case find_crlf raw of
          None \<Rightarrow> (False, request)
        | Some lineEnd \<Rightarrow>
            let requestLine = take lineEnd raw in
            (case find_char (CHR '' '') requestLine of
               None \<Rightarrow> (False, request)
             | Some spacePos \<Rightarrow>
                 let request1 = request\<lparr>http_method := take spacePos requestLine\<rparr>;
                     rest = drop (spacePos + 1) requestLine in
                 (case find_char (CHR '' '') rest of
                    None \<Rightarrow> (False, request1)
                  | Some pathEnd \<Rightarrow>
                      let (ok, s, request2) = header_loop 0 (drop (lineEnd + 2) raw) (parse_path (take pathEnd rest) request1) in
                      if \<not> ok then (False, request2)
                      else (True, if s \<noteq> [] then request2\<lparr>body := s\<rparr> else request2)))))"

section \<open>Responses\<close>

record HttpResponse =
  statusCode_m :: int
  statusText_m :: string
  body_m :: string
  requestId_m :: string
  headers_m :: "string \<rightharpoonup> string"

fun escapeJson_char :: "char \<Rightarrow> string" where
  "escapeJson_char c =
     (if c = CHR 0x22 then [CHR 0x5C, CHR 0x22]
      else if c = CHR 0x5C then [CHR 0x5C, CHR 0x5C]
      else if c = LF then [CHR 0x5C, CHR ''n'']
      else if c = CR then [CHR 0x5C, CHR ''r'']
      else if c = CHR 0x09 then [CHR 0x5C, CHR ''t'']
      else [c])"

definition escapeJson :: "string \<Rightarrow> string" where
  "escapeJson s = concat (map escapeJson_char s)"

text \<open>\<open>corsOrigin_s\<close> and whether the build has TLS are arguments.\<close>

definition addCorsHeaders :: "bool \<Rightarrow> string \<Rightarrow> HttpResponse \<Rightarrow> HttpResponse" where
  "addCorsHeaders tls corsOrigin resp =
     (let h0 = headers_m resp;
          h1 = (if corsOrigin \<noteq> [] then h0(''Access-Control-Allow-Origin'' \<mapsto> corsOrigin) else h0);
          h2 = (if corsOrigin \<noteq> [] \<and> corsOrigin \<noteq> ''*''
                then h1(''Access-Control-Allow-Methods'' \<mapsto> ''GET, POST, DELETE, OPTIONS'',
                        ''Access-Control-Allow-Credentials'' \<mapsto> ''true'')
                else h1(''Access-Control-Allow-Methods'' \<mapsto> ''GET, POST, OPTIONS''));
          h3 = h2(''Access-Control-Allow-Headers'' \<mapsto> ''Content-Type, Authorization'',
                  ''X-Content-Type-Options'' \<mapsto> ''nosniff'', ''X-Frame-Options'' \<mapsto> ''DENY'',
                  ''Content-Security-Policy'' \<mapsto> ''default-src '' @ [CHR 0x27] @ ''none'' @ [CHR 0x27],
                  ''Referrer-Policy'' \<mapsto> ''no-referrer'', ''Cache-Control'' \<mapsto> ''no-store'');
          h4 = (if tls then h3(''Strict-Transport-Security'' \<mapsto> ''max-age=31536000; includeSubDomains'') else h3)
      in resp\<lparr>headers_m := h4(''Connection'' \<mapsto> ''keep-alive'')\<rparr>)"

definition HttpResponse_new :: "bool \<Rightarrow> string \<Rightarrow> int \<Rightarrow> string \<Rightarrow> HttpResponse" where
  "HttpResponse_new tls corsOrigin statusCode statusText = addCorsHeaders tls corsOrigin
     \<lparr>statusCode_m = statusCode, statusText_m = statusText, body_m = [], requestId_m = [], headers_m = Map.empty\<rparr>"

definition setCorsOrigin :: "string \<Rightarrow> string \<Rightarrow> string" where
  "setCorsOrigin origin corsOrigin =
     (if origin \<noteq> ''*'' \<and> take 7 origin \<noteq> ''http://'' \<and> take 8 origin \<noteq> ''https://'' then corsOrigin else origin)"

definition setHeader :: "string \<Rightarrow> string \<Rightarrow> HttpResponse \<Rightarrow> HttpResponse" where
  "setHeader name val resp = resp\<lparr>headers_m := (headers_m resp)(name \<mapsto> val)\<rparr>"

definition setBody :: "string \<Rightarrow> HttpResponse \<Rightarrow> HttpResponse" where
  "setBody b resp = resp\<lparr>body_m := b\<rparr>"

definition setJsonBody :: "string \<Rightarrow> HttpResponse \<Rightarrow> HttpResponse" where
  "setJsonBody json resp = resp\<lparr>headers_m := (headers_m resp)(''Content-Type'' \<mapsto> ''application/json''), body_m := json\<rparr>"

definition setRequestId :: "string \<Rightarrow> HttpResponse \<Rightarrow> HttpResponse" where
  "setRequestId requestId resp =
     resp\<lparr>requestId_m := requestId, headers_m := (headers_m resp)(''X-Request-ID'' \<mapsto> requestId)\<rparr>"

definition setConnectionClose :: "HttpResponse \<Rightarrow> HttpResponse" where
  "setConnectionClose resp =
     resp\<lparr>headers_m := ((headers_m resp)(''Connection'' \<mapsto> ''close''))(''Keep-Alive'' := None)\<rparr>"

definition setKeepAliveParams :: "int \<Rightarrow> int \<Rightarrow> HttpResponse \<Rightarrow> HttpResponse" where
  "setKeepAliveParams timeout maxRequests resp = resp\<lparr>headers_m := (headers_m resp)
     (''Keep-Alive'' \<mapsto> ''timeout='' @ to_string_int timeout @ '', max='' @ to_string_int maxRequests)\<rparr>"

text \<open>\<open>order\<close> lists the entries of the header map.\<close>

definition build :: "((string \<rightharpoonup> string) \<Rightarrow> (string \<times> string) list) \<Rightarrow> HttpResponse \<Rightarrow> string \<times> HttpResponse" where
  "build order resp =
     (let resp1 = resp\<lparr>headers_m := (headers_m resp)(''Content-Length'' \<mapsto> show_dec (length (body_m resp)))\<rparr>
      in (''HTTP/1.1 '' @ to_string_int (statusCode_m resp1) @ '' '' @ statusText_m resp1 @ [CR, LF] @
          concat (map (\<lambda>(n, v). n @ '': '' @ v @ [CR, LF]) (order (headers_m resp1))) @ [CR, LF] @ body_m resp1, resp1))"

definition quote :: string where
  "quote = [CHR 0x22]"

definition buildErrorJson :: "string \<Rightarrow> string \<Rightarrow> string \<Rightarrow> string" where
  "buildErrorJson code message requestId =
     ''{'' @ quote @ ''error'' @ quote @ '':{'' @ quote @ ''code'' @ quote @ '':'' @ quote @ escapeJson code @ quote @
     '','' @ quote @ ''message'' @ quote @ '':'' @ quote @ escapeJson message @ quote @
     (if requestId \<noteq> [] then '','' @ quote @ ''requestId'' @ quote @ '':'' @ quote @ escapeJson requestId @ quote else []) @
     ''}}''"

definition error_response :: "bool \<Rightarrow> string \<Rightarrow> int \<Rightarrow> string \<Rightarrow> string \<Rightarrow> string \<Rightarrow> HttpResponse" where
  "error_response tls corsOrigin status text message errorCode =
     setJsonBody (buildErrorJson errorCode message []) (HttpResponse_new tls corsOrigin status text)"

definition http_ok :: "bool \<Rightarrow> string \<Rightarrow> string \<Rightarrow> HttpResponse" where
  "http_ok tls corsOrigin json = setJsonBody json (HttpResponse_new tls corsOrigin 200 ''OK'')"

definition accepted :: "bool \<Rightarrow> string \<Rightarrow> string \<Rightarrow> HttpResponse" where
  "accepted tls corsOrigin json = setJsonBody json (HttpResponse_new tls corsOrigin 202 ''Accepted'')"

definition notFound :: "bool \<Rightarrow> string \<Rightarrow> string \<Rightarrow> HttpResponse" where
  "notFound tls corsOrigin errorCode = error_response tls corsOrigin 404 ''Not Found'' ''Not Found'' errorCode"

definition badRequest :: "bool \<Rightarrow> string \<Rightarrow> string \<Rightarrow> string \<Rightarrow> HttpResponse" where
  "badRequest tls corsOrigin message errorCode = error_response tls corsOrigin 400 ''Bad Request'' message errorCode"

definition methodNotAllowed :: "bool \<Rightarrow> string \<Rightarrow> HttpResponse" where
  "methodNotAllowed tls corsOrigin =
     error_response tls corsOrigin 405 ''Method Not Allowed'' ''Method Not Allowed'' ''METHOD_NOT_ALLOWED''"

definition tooManyRequests :: "bool \<Rightarrow> string \<Rightarrow> string \<Rightarrow> string \<Rightarrow> HttpResponse" where
  "tooManyRequests tls corsOrigin message errorCode =
     error_response tls corsOrigin 429 ''Too Many Requests'' message errorCode"

definition unauthorized :: "bool \<Rightarrow> string \<Rightarrow> string \<Rightarrow> string \<Rightarrow> HttpResponse" where
  "unauthorized tls corsOrigin message errorCode = error_response tls corsOrigin 401 ''Unauthorized'' message errorCode"

definition serverError :: "bool \<Rightarrow> string \<Rightarrow> string \<Rightarrow> string \<Rightarrow> HttpResponse" where
  "serverError tls corsOrigin message errorCode =
     error_response tls corsOrigin 500 ''Internal Server Error'' message errorCode"

definition serviceUnavailable :: "bool \<Rightarrow> string \<Rightarrow> string \<Rightarrow> string \<Rightarrow> HttpResponse" where
  "serviceUnavailable tls corsOrigin message errorCode =
     setJsonBody (buildErrorJson errorCode message [])
       (setHeader ''Retry-After'' ''5'' (HttpResponse_new tls corsOrigin 503 ''Service Unavailable''))"

definition http_conflict :: "bool \<Rightarrow> string \<Rightarrow> string \<Rightarrow> string \<Rightarrow> HttpResponse" where
  "http_conflict tls corsOrigin message errorCode = error_response tls corsOrigin 409 ''Conflict'' message errorCode"

section \<open>Searching and splitting\<close>

lemma find_char_at [simp]: "c \<notin> set a \<Longrightarrow> find_char c (a @ c # r) = Some (length a)"
  by (induction a) (auto simp: find_char_def)

lemma find_char_none [simp]: "c \<notin> set a \<Longrightarrow> find_char c a = None"
  by (simp add: find_char_def)

lemma find_crlf_at [simp]: "CR \<notin> set a \<Longrightarrow> find_crlf (a @ CR # LF # r) = Some (length a)"
proof (induction a)
  case (Cons x a)
  then show ?case by (cases a) auto
qed simp

lemma find_crlf_less: "find_crlf s = Some i \<Longrightarrow> i + 2 \<le> length s"
  by (induction s arbitrary: i rule: find_crlf.induct) (auto split: if_splits)

lemma takeWhile_sep [simp]: "c \<notin> set a \<Longrightarrow> takeWhile (\<lambda>x. x \<noteq> c) (a @ c # r) = a" "c \<notin> set a \<Longrightarrow> takeWhile (\<lambda>x. x \<noteq> c) a = a"
  by (induction a) auto

lemma dropWhile_sep [simp]: "c \<notin> set a \<Longrightarrow> dropWhile (\<lambda>x. x \<noteq> c) (a @ c # r) = c # r" "c \<notin> set a \<Longrightarrow> dropWhile (\<lambda>x. x \<noteq> c) a = []"
  by (induction a) auto

section \<open>Printed messages\<close>

definition query_pair :: "string \<times> string \<Rightarrow> string" where
  "query_pair kv = fst kv @ ''='' @ snd kv"

fun query_text :: "(string \<times> string) list \<Rightarrow> string" where
  "query_text [] = []"
| "query_text [kv] = query_pair kv"
| "query_text (kv # q) = query_pair kv @ ''&'' @ query_text q"

definition header_text :: "(string \<times> string) list \<Rightarrow> string" where
  "header_text hs = concat (map (\<lambda>(n, v). n @ '': '' @ v @ [CR, LF]) hs)"

definition request_text :: "string \<Rightarrow> string \<Rightarrow> (string \<times> string) list \<Rightarrow> (string \<times> string) list \<Rightarrow> string \<Rightarrow> string" where
  "request_text m p q hs b =
     m @ '' '' @ p @ (if q = [] then [] else ''?'' @ query_text q) @ '' HTTP/1.1'' @ [CR, LF] @ header_text hs @ [CR, LF] @ b"

definition none_of :: "string \<Rightarrow> string \<Rightarrow> bool" where
  "none_of cs s \<longleftrightarrow> (\<forall>c\<in>set cs. c \<notin> set s)"

definition query_ok :: "string \<times> string \<Rightarrow> bool" where
  "query_ok kv \<longleftrightarrow> none_of [CHR ''='', CHR ''&'', CHR '' '', CR] (fst kv) \<and> none_of [CHR ''&'', CHR '' '', CR] (snd kv)"

definition header_ok :: "string \<times> string \<Rightarrow> bool" where
  "header_ok nv \<longleftrightarrow> fst nv \<noteq> [] \<and> list_all isTchar (fst nv) \<and> length (fst nv) \<le> MAX_HEADER_NAME_LENGTH \<and>
     CR \<notin> set (snd nv) \<and> length (snd nv) < MAX_HEADER_VALUE_LENGTH \<and> (snd nv = [] \<or> hd (snd nv) \<noteq> CHR '' '')"

text \<open>Later entries win.\<close>

definition to_map :: "(string \<times> string) list \<Rightarrow> (string \<rightharpoonup> string)" where
  "to_map kvs = map_of (rev kvs)"

definition lower_names :: "(string \<times> string) list \<Rightarrow> (string \<times> string) list" where
  "lower_names hs = map (\<lambda>(n, v). (map to_lower n, v)) hs"

lemma to_map_Nil [simp]: "f ++ to_map [] = f"
  by (simp add: to_map_def)

lemma to_map_Cons: "f ++ to_map ((k, v) # kvs) = f(k \<mapsto> v) ++ to_map kvs"
  by (auto simp: to_map_def map_add_def split: option.splits)

lemma query_pair_entry:
  assumes "query_ok kv"
  shows "CHR ''&'' \<notin> set (query_pair kv)" "query_pair kv \<noteq> []"
    "find_char (CHR ''='') (query_pair kv) = Some (length (fst kv))"
    "take (length (fst kv)) (query_pair kv) = fst kv" "drop (Suc (length (fst kv))) (query_pair kv) = snd kv"
  using assms by (auto simp: query_pair_def query_ok_def none_of_def)

lemma parse_query_text:
  "\<forall>kv\<in>set q. query_ok kv \<Longrightarrow> parse_query (query_text q) params = params ++ to_map q"
proof (induction q arbitrary: params rule: query_text.induct)
  case 1
  then show ?case by (simp add: parse_query.simps to_map_def)
next
  case (2 kv)
  then have "query_ok kv" by simp
  note e = query_pair_entry [OF this]
  have "parse_query (query_pair kv) params = params(fst kv \<mapsto> snd kv)"
    using e by (simp add: parse_query.simps [of "query_pair kv"])
  then show ?case by (cases kv) (simp add: to_map_Cons)
next
  case (3 kv kv' q)
  then have "query_ok kv" by simp
  note e = query_pair_entry [OF this]
  have "parse_query (query_text (kv # kv' # q)) params = parse_query (query_text (kv' # q)) (params(fst kv \<mapsto> snd kv))"
    using e by (simp add: parse_query.simps [of "query_pair kv @ CHR ''&'' # query_text (kv' # q)"])
  also have "\<dots> = params(fst kv \<mapsto> snd kv) ++ to_map (kv' # q)" using 3 by simp
  also have "\<dots> = params ++ to_map (kv # kv' # q)" by (cases kv) (simp add: to_map_Cons)
  finally show ?case .
qed

lemma tchar_plain: "isTchar c \<Longrightarrow> c \<noteq> CR \<and> c \<noteq> CHR '':''"
  by (auto simp: isTchar_def is_alnum_def)

lemma tchars_plain: "list_all isTchar n \<Longrightarrow> CR \<notin> set n \<and> CHR '':'' \<notin> set n"
  using tchar_plain by (auto simp: list_all_iff)

lemma header_line_text:
  assumes "header_ok nv"
  shows "header_line (fst nv @ '': '' @ snd nv) request =
    Some (request\<lparr>headers := (headers request)(map to_lower (fst nv) \<mapsto> snd nv)\<rparr>)"
proof -
  have "dropWhile (\<lambda>c. c = CHR '' '') (CHR '' '' # snd nv) = snd nv"
    using assms by (cases "snd nv") (auto simp: header_ok_def)
  then show ?thesis using assms tchars_plain [of "fst nv"] by (simp add: header_ok_def header_line_def)
qed

lemma header_loop_line:
  assumes "CR \<notin> set line" "line \<noteq> []" "n + 1 \<le> MAX_HEADER_COUNT" "header_line line request = Some request1"
  shows "header_loop n (line @ CR # LF # rest) request = header_loop (n + 1) rest request1"
  using assms by (simp add: header_loop.simps [of n "line @ CR # LF # rest"])

lemma header_loop_text:
  "\<forall>nv\<in>set hs. header_ok nv \<Longrightarrow> n + length hs \<le> MAX_HEADER_COUNT \<Longrightarrow>
   header_loop n (header_text hs @ CR # LF # b) request =
     (True, b, request\<lparr>headers := headers request ++ to_map (lower_names hs)\<rparr>)"
proof (induction hs arbitrary: n request)
  case Nil
  then show ?case by (simp add: header_loop.simps header_text_def lower_names_def)
next
  case (Cons nv hs)
  let ?line = "fst nv @ '': '' @ snd nv" and ?rest = "header_text hs @ CR # LF # b"
  have tx: "header_text (nv # hs) @ CR # LF # b = ?line @ CR # LF # ?rest"
    by (simp add: header_text_def split: prod.split)
  have ok: "header_ok nv" using Cons.prems by simp
  then have "CR \<notin> set ?line" "?line \<noteq> []" using tchars_plain [of "fst nv"] by (auto simp: header_ok_def)
  then have "header_loop n (?line @ CR # LF # ?rest) request =
      header_loop (n + 1) ?rest (request\<lparr>headers := (headers request)(map to_lower (fst nv) \<mapsto> snd nv)\<rparr>)"
    using Cons.prems(2) header_line_text [OF ok] by (intro header_loop_line) auto
  also have "\<dots> = (True, b, request\<lparr>headers := (headers request)(map to_lower (fst nv) \<mapsto> snd nv) ++ to_map (lower_names hs)\<rparr>)"
    using Cons.IH [of "n + 1"] Cons.prems by simp
  finally show ?case unfolding tx by (cases nv) (simp add: lower_names_def to_map_Cons)
qed

lemma http_parse_line:
  assumes "CR \<notin> set line" "line = m @ CHR '' '' # t" "CHR '' '' \<notin> set m" "t = full @ CHR '' '' # v" "CHR '' '' \<notin> set full"
    "header_loop 0 rest (parse_path full (request\<lparr>http_method := m\<rparr>)) = (True, b, request2)"
  shows "http_parse (line @ CR # LF # rest) request = (True, if b \<noteq> [] then request2\<lparr>body := b\<rparr> else request2)"
proof -
  have "find_char (CHR '' '') line = Some (length m)" "take (length m) line = m" "drop (length m + 1) line = t" using assms(2,3) by simp_all
  moreover have "find_char (CHR '' '') t = Some (length full)" "take (length full) t = full" using assms(4,5) by simp_all
  ultimately show ?thesis using assms(1,6) by (simp add: http_parse_def)
qed

section \<open>Limits\<close>

text \<open>What every header that a parse stores satisfies.\<close>

definition header_limits :: "string \<Rightarrow> string \<Rightarrow> bool" where
  "header_limits n v \<longleftrightarrow> (\<exists>m. list_all isTchar m \<and> n = map to_lower m) \<and> length n \<le> MAX_HEADER_NAME_LENGTH \<and>
     length v \<le> MAX_HEADER_VALUE_LENGTH \<and> (v = [] \<or> hd v \<noteq> CHR '' '')"

definition stored_ok :: "(string \<rightharpoonup> string) \<Rightarrow> bool" where
  "stored_ok h \<longleftrightarrow> (\<forall>n v. h n = Some v \<longrightarrow> header_limits n v)"

lemma header_line_cases:
  assumes "header_line l r = Some r'"
  obtains "r' = r" | n v where "r' = r\<lparr>headers := (headers r)(n \<mapsto> v)\<rparr>" "header_limits n v"
proof (cases "find_char (CHR '':'') l")
  case (Some i)
  let ?n = "take i l" and ?v = "dropWhile (\<lambda>c. c = CHR '' '') (drop (i + 1) l)"
  have "?v = [] \<or> hd ?v \<noteq> CHR '' ''" using hd_dropWhile [of "\<lambda>c. c = CHR '' ''" "drop (i + 1) l"] by metis
  moreover have "length ?v \<le> length l - (i + 1)" using length_dropWhile_le [of _ "drop (i + 1) l"] by simp
  moreover have len: "length ?n \<le> MAX_HEADER_NAME_LENGTH" "length l - (i + 1) \<le> MAX_HEADER_VALUE_LENGTH"
    using assms Some by (auto simp: header_line_def Let_def min_le_iff_disj split: if_splits)
  ultimately have lim: "header_limits (map to_lower ?n) ?v" if "list_all isTchar ?n"
    using that unfolding header_limits_def length_map by (metis order_trans)
  have "r' = (if list_all isTchar ?n then r\<lparr>headers := (headers r)(map to_lower ?n \<mapsto> ?v)\<rparr> else r)"
    using assms Some len by (simp add: header_line_def Let_def split: if_splits)
  then show ?thesis using lim that by (metis (full_types))
qed (use assms that in \<open>auto simp: header_line_def\<close>)

lemma header_line_stored:
  assumes "stored_ok (headers r)" "header_line l r = Some r'"
  shows "stored_ok (headers r')" "card (dom (headers r')) \<le> card (dom (headers r)) + 1"
    "finite (dom (headers r)) \<Longrightarrow> finite (dom (headers r'))" "body r' = body r"
proof -
  have "card (insert x S) \<le> card S + 1" for x :: string and S using card_insert_le_m1 [of "card S + 1" S x] by simp
  with assms show "stored_ok (headers r')" "card (dom (headers r')) \<le> card (dom (headers r)) + 1"
    "finite (dom (headers r)) \<Longrightarrow> finite (dom (headers r'))" "body r' = body r"
    by (auto elim!: header_line_cases simp: stored_ok_def split: if_splits)
qed

lemma header_loop_stored:
  "stored_ok (headers r) \<Longrightarrow> finite (dom (headers r)) \<Longrightarrow> card (dom (headers r)) \<le> n \<Longrightarrow> n \<le> MAX_HEADER_COUNT \<Longrightarrow>
   header_loop n s r = (ok, s', r') \<Longrightarrow>
   stored_ok (headers r') \<and> card (dom (headers r')) \<le> MAX_HEADER_COUNT \<and> body r' = body r \<and> length s' \<le> length s"
proof (induction n s r rule: header_loop.induct)
  case (1 n s r)
  show ?case
  proof (cases "find_crlf s")
    case (Some i)
    show ?thesis
    proof (cases "header_line (take i s) r")
      case (Some r1)
      note st = header_line_stored [OF 1(2) Some]
      show ?thesis
        using 1(1) [OF \<open>find_crlf s = Some i\<close> _ _ Some] 1(2-) st \<open>find_crlf s = Some i\<close> Some
        by (auto simp: header_loop.simps [of n s r] split: if_splits)
    qed (use 1(2-) Some in \<open>auto simp: header_loop.simps [of n s r] split: if_splits\<close>)
  qed (use 1(2-) in \<open>auto simp: header_loop.simps [of n s r]\<close>)
qed

lemma http_parse_cases:
  assumes "http_parse raw request = (ok, request')"
  obtains m where "request' = request \<or> request' = request\<lparr>http_method := m\<rparr>"
  | f m i ok' s r where "header_loop 0 (drop i raw) (parse_path f (request\<lparr>http_method := m\<rparr>)) = (ok', s, r)"
      "request' = (if ok' \<and> s \<noteq> [] then r\<lparr>body := s\<rparr> else r)"
proof (cases "find_crlf raw")
  case (Some e)
  note line = this
  let ?line = "take e raw"
  show ?thesis
  proof (cases "find_char (CHR '' '') ?line")
    case (Some i)
    note sp = this
    let ?rest = "drop (i + 1) ?line" and ?r = "request\<lparr>http_method := take i ?line\<rparr>"
    show ?thesis
    proof (cases "find_char (CHR '' '') ?rest")
      case (Some j)
      obtain ok' s r where l: "header_loop 0 (drop (e + 2) raw) (parse_path (take j ?rest) ?r) = (ok', s, r)" by (metis prod_cases3)
      have "raw \<noteq> []" using line by auto
      then have "request' = (if ok' \<and> s \<noteq> [] then r\<lparr>body := s\<rparr> else r)"
        using assms line sp Some l by (cases ok') (simp_all add: http_parse_def)
      then show ?thesis by (rule that(2) [OF l])
    qed (use assms line sp in \<open>auto simp: http_parse_def split: if_splits intro: that(1)\<close>)
  qed (use assms line in \<open>auto simp: http_parse_def split: if_splits intro: that(1)\<close>)
qed (use assms in \<open>auto simp: http_parse_def split: if_splits intro: that(1)\<close>)

section \<open>Properties\<close>

text \<open>C14: a printed request is parsed into its parts: method, path, the query parameters and the headers
  with lower-case names, the last of equal names, and the body after the blank line.\<close>

theorem http_parse_roundtrip:
  assumes "none_of [CHR '' '', CR] m" and "none_of [CHR '' '', CHR ''?'', CR] p"
    and "\<forall>kv\<in>set q. query_ok kv" and "\<forall>nv\<in>set hs. header_ok nv" and "length hs \<le> MAX_HEADER_COUNT"
  shows "http_parse (request_text m p q hs b) HttpRequest_new =
    (True, \<lparr>http_method = m, path = p, body = b, headers = to_map (lower_names hs), queryParams = to_map q\<rparr>)"
proof -
  let ?full = "p @ (if q = [] then [] else ''?'' @ query_text q)"
  have qt: "CHR '' '' \<notin> set (query_text q) \<and> CR \<notin> set (query_text q)"
    using assms(3) by (induction q rule: query_text.induct) (auto simp: query_ok_def none_of_def query_pair_def)
  have full: "CHR '' '' \<notin> set ?full" "CR \<notin> set ?full" using qt assms(2) by (auto simp: none_of_def)
  let ?line = "m @ '' '' @ ?full @ '' HTTP/1.1''"
  have tx: "request_text m p q hs b = ?line @ CR # LF # (header_text hs @ CR # LF # b)" by (simp add: request_text_def)
  have line: "CR \<notin> set ?line" using assms(1) full(2) by (auto simp: none_of_def)
  have pp: "parse_path ?full (HttpRequest_new\<lparr>http_method := m\<rparr>) =
      \<lparr>http_method = m, path = p, body = [], headers = Map.empty, queryParams = to_map q\<rparr>"
    using assms(2,3) parse_query_text [of q Map.empty]
    by (auto simp: parse_path_def HttpRequest_new_def none_of_def to_map_def)
  have hl: "header_loop 0 (header_text hs @ CR # LF # b) \<lparr>http_method = m, path = p, body = [], headers = Map.empty, queryParams = to_map q\<rparr> =
      (True, b, \<lparr>http_method = m, path = p, body = [], headers = to_map (lower_names hs), queryParams = to_map q\<rparr>)"
    using header_loop_text [OF assms(4), of 0] assms(5) by simp
  let ?r = "\<lparr>http_method = m, path = p, body = [], headers = to_map (lower_names hs), queryParams = to_map q\<rparr>"
  have "http_parse (?line @ CR # LF # (header_text hs @ CR # LF # b)) HttpRequest_new = (True, if b \<noteq> [] then ?r\<lparr>body := b\<rparr> else ?r)"
    by (rule http_parse_line [OF line _ _ _ full(1), where m = m and t = "?full @ '' HTTP/1.1''" and v = "''HTTP/1.1''"])
      (use assms(1) hl in \<open>simp_all add: pp none_of_def\<close>)
  then show ?thesis unfolding tx by simp
qed

theorem http_parse_roundtrip_witness:
  "http_parse (request_text ''GET'' ''/peers'' [(''limit'', ''5''), (''sort'', ''a=b'')] [(''Host'', ''x''), (''Accept'', ''*'')] ''{}'') HttpRequest_new =
    (True, \<lparr>http_method = ''GET'', path = ''/peers'', body = ''{}'', headers = to_map [(''host'', ''x''), (''accept'', ''*'')],
       queryParams = to_map [(''limit'', ''5''), (''sort'', ''a=b'')]\<rparr>)"
proof -
  have "lower_names [(''Host'', ''x''), (''Accept'', ''*'')] = [(''host'', ''x''), (''accept'', ''*'')]"
    by code_simp
  moreover have "\<forall>nv\<in>set [(''Host'', ''x''), (''Accept'', ''*'')]. header_ok nv"
    by (simp add: header_ok_def isTchar_def is_alnum_def MAX_HEADER_NAME_LENGTH_def MAX_HEADER_VALUE_LENGTH_def)
  ultimately show ?thesis
    using http_parse_roundtrip [of "''GET''" "''/peers''" "[(''limit'', ''5''), (''sort'', ''a=b'')]" "[(''Host'', ''x''), (''Accept'', ''*'')]"]
    by (simp add: none_of_def query_ok_def MAX_HEADER_COUNT_def)
qed

text \<open>The limits of the parser hold for every input, accepted or not: at most 100 headers, each with a
  lower-case token of at most 256 characters as its name and a value of at most 8192 characters without
  leading blanks, and the body is at most as long as what was received.\<close>

lemma http_parse_limits:
  assumes "http_parse raw HttpRequest_new = (ok, request)"
  shows "card (dom (headers request)) \<le> 100 \<and> (\<forall>n v. headers request n = Some v \<longrightarrow>
      (\<exists>m. list_all isTchar m \<and> n = map to_lower m) \<and> length n \<le> 256 \<and> length v \<le> 8192 \<and> (v = [] \<or> hd v \<noteq> CHR '' '')) \<and>
    length (body request) \<le> length raw"
proof -
  have new: "headers (parse_path f (HttpRequest_new\<lparr>http_method := m\<rparr>)) = Map.empty" for f m
    by (auto simp: parse_path_def HttpRequest_new_def split: option.splits)
  have body: "body (parse_path f (HttpRequest_new\<lparr>http_method := m\<rparr>)) = []" for f m
    by (auto simp: parse_path_def HttpRequest_new_def split: option.splits)
  have "stored_ok (headers request) \<and> card (dom (headers request)) \<le> MAX_HEADER_COUNT \<and> length (body request) \<le> length raw"
    using assms
  proof (cases rule: http_parse_cases)
    case (2 f m i ok' s r)
    note l = this
    have "stored_ok (headers r) \<and> card (dom (headers r)) \<le> MAX_HEADER_COUNT \<and> body r = [] \<and> length s \<le> length (drop i raw)"
      using header_loop_stored [OF _ _ _ _ l(1)] by (simp add: new body stored_ok_def MAX_HEADER_COUNT_def)
    with l(2) show ?thesis by auto
  next
    case (1 m)
    then have "headers request = Map.empty \<and> body request = []" by (auto simp: HttpRequest_new_def)
    then show ?thesis by (simp add: stored_ok_def)
  qed
  then show ?thesis
    by (auto simp: stored_ok_def header_limits_def MAX_HEADER_COUNT_def MAX_HEADER_NAME_LENGTH_def MAX_HEADER_VALUE_LENGTH_def)
qed

lemma http_parse_limits_witness:
  "\<exists>request. http_parse (''GET / HTTP/1.1'' @ [CR, LF] @ ''A: 1'' @ [CR, LF, CR, LF] @ ''{}'') HttpRequest_new = (True, request) \<and>
     headers request ''a'' = Some ''1'' \<and> card (dom (headers request)) \<le> 100"
proof -
  let ?p = "http_parse (''GET / HTTP/1.1'' @ [CR, LF] @ ''A: 1'' @ [CR, LF, CR, LF] @ ''{}'') HttpRequest_new"
  have "fst ?p \<and> headers (snd ?p) ''a'' = Some ''1''" by code_simp
  moreover from this have p: "?p = (True, snd ?p)" by (simp add: prod_eq_iff)
  ultimately show ?thesis using http_parse_limits [OF p] by blast
qed

text \<open>A built response can be read back with the header reader of the requests: the headers that were set,
  the length of the body as \<open>Content-Length\<close>, and the body. \<open>entries\<close> is the order in which the map was met.\<close>

lemma http_response_readable:
  assumes "\<And>h. map_of (order h) = h" "\<forall>nv\<in>set (order (headers_m (snd (build order resp)))). header_ok nv"
    "length (order (headers_m (snd (build order resp)))) \<le> MAX_HEADER_COUNT"
  obtains entries rest where
    "fst (build order resp) = ''HTTP/1.1 '' @ to_string_int (statusCode_m resp) @ '' '' @ statusText_m resp @ [CR, LF] @ rest"
    "header_loop 0 rest request = (True, body_m resp, request\<lparr>headers := headers request ++ to_map (lower_names entries)\<rparr>)"
    "map_of entries = (headers_m resp)(''Content-Length'' \<mapsto> show_dec (length (body_m resp)))"
proof -
  let ?es = "order (headers_m (snd (build order resp)))"
  let ?rest = "header_text ?es @ CR # LF # body_m resp"
  have "fst (build order resp) = ''HTTP/1.1 '' @ to_string_int (statusCode_m resp) @ '' '' @ statusText_m resp @ [CR, LF] @ ?rest"
    by (simp add: build_def Let_def header_text_def)
  moreover have "header_loop 0 ?rest request = (True, body_m resp, request\<lparr>headers := headers request ++ to_map (lower_names ?es)\<rparr>)"
    using header_loop_text [OF assms(2), of 0] assms(3) by simp
  moreover have "map_of ?es = (headers_m resp)(''Content-Length'' \<mapsto> show_dec (length (body_m resp)))"
    unfolding assms(1) by (simp add: build_def Let_def)
  ultimately show ?thesis by (rule that)
qed

end
