(* ===== verification/HttpRouter.thy ===== *)
theory HttpRouter
  imports HttpMessages
begin

text \<open>
  AlpineRestBridge/HttpRouter.cpp: routes are kept in a trie over the segments of their patterns, with one
  child per literal segment and one for a parameter; a request walks it segment by segment and prefers the
  literal child. Shown: the trie answers exactly as a walk over the list of the routes that were added.
  Handlers and the authentication middleware are arguments.
\<close>

section \<open>Model\<close>

datatype HttpMethod = GET | POST | PUT | DELETE | PATCH | HEAD | OPTIONS | UNKNOWN

definition all_methods :: "HttpMethod list" where
  "all_methods = [GET, POST, PUT, DELETE, PATCH, HEAD, OPTIONS, UNKNOWN]"

definition parseMethod :: "string \<Rightarrow> HttpMethod" where
  "parseMethod m =
     (if m = ''GET'' then GET else if m = ''POST'' then POST else if m = ''PUT'' then PUT
      else if m = ''DELETE'' then DELETE else if m = ''PATCH'' then PATCH else if m = ''HEAD'' then HEAD
      else if m = ''OPTIONS'' then OPTIONS else UNKNOWN)"

type_synonym route_handler = "HttpRequest \<Rightarrow> (string \<rightharpoonup> string) \<Rightarrow> HttpResponse"

record 'h t_HandlerEntry =
  he_handler :: 'h
  he_slow :: bool

datatype 'h TrieNode = TrieNode (tn_children: "string \<Rightarrow> 'h TrieNode option") (tn_paramChild: "'h TrieNode option")
  (tn_paramName: string) (tn_handlers: "HttpMethod \<Rightarrow> 'h t_HandlerEntry option")

definition TrieNode_new :: "string \<Rightarrow> 'h TrieNode" where
  "TrieNode_new paramName = TrieNode (\<lambda>_. None) None paramName (\<lambda>_. None)"

record RouteInfo =
  ri_method :: string
  ri_pattern :: string
  ri_description :: string

record 'h HttpRouter =
  rt_root_m :: "'h TrieNode"
  rt_authMiddleware_m :: "(HttpRequest \<Rightarrow> HttpResponse \<Rightarrow> bool \<times> HttpResponse) option"
  rt_routes_m :: "RouteInfo list"

definition HttpRouter_new :: "'h HttpRouter" where
  "HttpRouter_new = \<lparr>rt_root_m = TrieNode_new [], rt_authMiddleware_m = None, rt_routes_m = []\<rparr>"

definition skip_slash :: "string \<Rightarrow> string" where
  "skip_slash s = (if s \<noteq> [] \<and> hd s = CHR ''/'' then tl s else s)"

definition set_handler :: "HttpMethod \<Rightarrow> 'h t_HandlerEntry \<Rightarrow> 'h TrieNode \<Rightarrow> 'h TrieNode" where
  "set_handler m e node = TrieNode (tn_children node) (tn_paramChild node) (tn_paramName node) ((tn_handlers node)(m \<mapsto> e))"

text \<open>The walk of \<open>addRoute\<close> over what is left of the pattern; \<open>found\<close> is applied to the node where it ends.\<close>

function trie_add :: "string \<Rightarrow> ('h TrieNode \<Rightarrow> 'h TrieNode) \<Rightarrow> 'h TrieNode \<Rightarrow> 'h TrieNode" where
  "trie_add sv found node =
     (if sv = [] then found node
      else
        let segment = takeWhile (\<lambda>c. c \<noteq> CHR ''/'') sv;
            slash = dropWhile (\<lambda>c. c \<noteq> CHR ''/'') sv;
            descend = (\<lambda>child. if slash = [] then found child else trie_add (tl slash) found child)
        in if segment \<noteq> [] \<and> hd segment = CHR '':''
           then
             let child = (case tn_paramChild node of None \<Rightarrow> TrieNode_new (tl segment) | Some c \<Rightarrow> c)
             in TrieNode (tn_children node) (Some (descend child)) (tn_paramName node) (tn_handlers node)
           else
             let child = (case tn_children node segment of None \<Rightarrow> TrieNode_new [] | Some c \<Rightarrow> c)
             in TrieNode ((tn_children node)(segment \<mapsto> descend child)) (tn_paramChild node) (tn_paramName node) (tn_handlers node))"
  by pat_completeness auto
termination
proof (relation "measure (\<lambda>(sv, f, n). length sv)", goal_cases)
  case (2 sv found node segment slash)
  then have "length (tl slash) < length slash" by (cases slash) auto
  moreover have "length slash \<le> length sv" using 2 by (simp add: length_dropWhile_le)
  ultimately show ?case by simp
qed simp

declare trie_add.simps [simp del]

definition addRoute :: "string \<Rightarrow> string \<Rightarrow> 'h \<Rightarrow> 'h HttpRouter \<Rightarrow> 'h HttpRouter" where
  "addRoute m pattern handler rt = rt\<lparr>rt_root_m := trie_add (skip_slash pattern)
     (set_handler (parseMethod m) \<lparr>he_handler = handler, he_slow = False\<rparr>) (rt_root_m rt)\<rparr>"

definition addRoute_described :: "string \<Rightarrow> string \<Rightarrow> 'h \<Rightarrow> string \<Rightarrow> 'h HttpRouter \<Rightarrow> 'h HttpRouter" where
  "addRoute_described m pattern handler description rt =
     addRoute m pattern handler
       (rt\<lparr>rt_routes_m := rt_routes_m rt @ [\<lparr>ri_method = m, ri_pattern = pattern, ri_description = description\<rparr>]\<rparr>)"

definition addRoute_slow :: "string \<Rightarrow> string \<Rightarrow> 'h \<Rightarrow> string \<Rightarrow> bool \<Rightarrow> 'h HttpRouter \<Rightarrow> 'h HttpRouter" where
  "addRoute_slow m pattern handler description slow rt =
     rt\<lparr>rt_routes_m := rt_routes_m rt @ [\<lparr>ri_method = m, ri_pattern = pattern, ri_description = description\<rparr>],
        rt_root_m := trie_add (skip_slash pattern)
          (set_handler (parseMethod m) \<lparr>he_handler = handler, he_slow = slow\<rparr>) (rt_root_m rt)\<rparr>"

definition setAuthMiddleware :: "(HttpRequest \<Rightarrow> HttpResponse \<Rightarrow> bool \<times> HttpResponse) \<Rightarrow> 'h HttpRouter \<Rightarrow> 'h HttpRouter" where
  "setAuthMiddleware middleware rt = rt\<lparr>rt_authMiddleware_m := Some middleware\<rparr>"

definition trim_path :: "string \<Rightarrow> string" where
  "trim_path p = (let q = skip_slash p in if q \<noteq> [] \<and> last q = CHR ''/'' then butlast q else q)"

text \<open>The walk of \<open>dispatch\<close> and \<open>isSlowRoute\<close>: the node where the path ends, with the parameters.\<close>

function trie_walk :: "string \<Rightarrow> (string \<rightharpoonup> string) \<Rightarrow> 'h TrieNode \<Rightarrow> ('h TrieNode \<times> (string \<rightharpoonup> string)) option" where
  "trie_walk p params node =
     (if p = [] then Some (node, params)
      else
        let segment = takeWhile (\<lambda>c. c \<noteq> CHR ''/'') p;
            slash = dropWhile (\<lambda>c. c \<noteq> CHR ''/'') p;
            descend = (\<lambda>child params1. if slash = [] then Some (child, params1) else trie_walk (tl slash) params1 child)
        in case tn_children node segment of
             Some child \<Rightarrow> descend child params
           | None \<Rightarrow> (case tn_paramChild node of
               Some child \<Rightarrow> descend child (params(tn_paramName child \<mapsto> segment))
             | None \<Rightarrow> None))"
  by pat_completeness auto
termination
proof (relation "measure (\<lambda>(p, ps, n). length p)", goal_cases)
  case (2 p params node segment slash)
  then have "length (tl slash) < length slash" by (cases slash) auto
  moreover have "length slash \<le> length p" using 2 by (simp add: length_dropWhile_le)
  ultimately show ?case by simp
qed simp

declare trie_walk.simps [simp del]

definition no_handlers :: "'h TrieNode \<Rightarrow> bool" where
  "no_handlers node \<longleftrightarrow> list_all (\<lambda>m. tn_handlers node m = None) all_methods"

text \<open>\<open>tls\<close> and \<open>corsOrigin\<close> are the settings of the responses.\<close>

definition dispatch :: "bool \<Rightarrow> string \<Rightarrow> HttpRequest \<Rightarrow> route_handler HttpRouter \<Rightarrow> HttpResponse" where
  "dispatch tls corsOrigin request rt =
     (if http_method request = ''OPTIONS'' then HttpResponse_new tls corsOrigin 200 ''OK''
      else (case trie_walk (trim_path (path request)) Map.empty (rt_root_m rt) of
          None \<Rightarrow> notFound tls corsOrigin ''NOT_FOUND''
        | Some (node, params) \<Rightarrow>
            if no_handlers node then notFound tls corsOrigin ''NOT_FOUND''
            else (case tn_handlers node (parseMethod (http_method request)) of
                None \<Rightarrow> methodNotAllowed tls corsOrigin
              | Some entry \<Rightarrow>
                  (case rt_authMiddleware_m rt of
                     None \<Rightarrow> he_handler entry request params
                   | Some auth \<Rightarrow>
                       let (ok, authResp) = auth request (HttpResponse_new tls corsOrigin 401 ''Unauthorized'') in
                       if \<not> ok then authResp else he_handler entry request params))))"

definition isSlowRoute :: "HttpRequest \<Rightarrow> 'h HttpRouter \<Rightarrow> bool" where
  "isSlowRoute request rt = (case trie_walk (trim_path (path request)) Map.empty (rt_root_m rt) of
       None \<Rightarrow> False
     | Some (node, params) \<Rightarrow> (case tn_handlers node (parseMethod (http_method request)) of
         None \<Rightarrow> False
       | Some entry \<Rightarrow> he_slow entry))"

section \<open>Reference: the list of routes\<close>

text \<open>A pattern as its segments; the empty pattern and a trailing slash add none.\<close>

function segments :: "string \<Rightarrow> string list" where
  "segments s =
     (if s = [] then []
      else let slash = dropWhile (\<lambda>c. c \<noteq> CHR ''/'') s in
        takeWhile (\<lambda>c. c \<noteq> CHR ''/'') s # (if slash = [] then [] else segments (tl slash)))"
  by pat_completeness auto
termination
proof (relation "measure length", goal_cases)
  case (2 s slash)
  then have "length (tl slash) < length slash" by (cases slash) auto
  moreover have "length slash \<le> length s" using 2 by (simp add: length_dropWhile_le)
  ultimately show ?case by simp
qed simp

declare segments.simps [simp del]

type_synonym 'h route = "string list \<times> HttpMethod \<times> 'h t_HandlerEntry"

definition is_param :: "string \<Rightarrow> bool" where
  "is_param s \<longleftrightarrow> s \<noteq> [] \<and> hd s = CHR '':''"

text \<open>The routes that go on with the literal \<open>s\<close>, and those that go on with a parameter, without that
  segment; the routes that end here, for a method the last one that was added.\<close>

definition literal_routes :: "string \<Rightarrow> 'h route list \<Rightarrow> 'h route list" where
  "literal_routes s rs = map (\<lambda>(p, e). (tl p, e)) (filter (\<lambda>(p, e). p \<noteq> [] \<and> \<not> is_param (hd p) \<and> hd p = s) rs)"

definition param_routes :: "'h route list \<Rightarrow> 'h route list" where
  "param_routes rs = map (\<lambda>(p, e). (tl p, e)) (filter (\<lambda>(p, e). p \<noteq> [] \<and> is_param (hd p)) rs)"

definition param_name :: "'h route list \<Rightarrow> string" where
  "param_name rs = (case filter (\<lambda>(p, e). p \<noteq> [] \<and> is_param (hd p)) rs of [] \<Rightarrow> [] | (p, e) # _ \<Rightarrow> tl (hd p))"

definition ending_routes :: "'h route list \<Rightarrow> (HttpMethod \<times> 'h t_HandlerEntry) list" where
  "ending_routes rs = map snd (filter (\<lambda>(p, e). p = []) rs)"

definition ending_handler :: "HttpMethod \<Rightarrow> 'h route list \<Rightarrow> 'h t_HandlerEntry option" where
  "ending_handler m rs = map_of (rev (ending_routes rs)) m"

text \<open>The routes left when the segments of a path have been matched.\<close>

fun match_routes :: "string list \<Rightarrow> (string \<rightharpoonup> string) \<Rightarrow> 'h route list \<Rightarrow> ('h route list \<times> (string \<rightharpoonup> string)) option" where
  "match_routes [] params rs = Some (rs, params)"
| "match_routes (s # ss) params rs =
     (if literal_routes s rs \<noteq> [] then match_routes ss params (literal_routes s rs)
      else if param_routes rs \<noteq> [] then match_routes ss (params(param_name rs \<mapsto> s)) (param_routes rs)
      else None)"

definition route_of :: "string \<Rightarrow> string \<Rightarrow> 'h \<Rightarrow> bool \<Rightarrow> 'h route" where
  "route_of m pattern handler slow = (segments (skip_slash pattern), parseMethod m, \<lparr>he_handler = handler, he_slow = slow\<rparr>)"

section \<open>The trie over segments\<close>

fun add_segments :: "string list \<Rightarrow> ('h TrieNode \<Rightarrow> 'h TrieNode) \<Rightarrow> 'h TrieNode \<Rightarrow> 'h TrieNode" where
  "add_segments [] found node = found node"
| "add_segments (s # ss) found node =
     (if is_param s
      then TrieNode (tn_children node)
        (Some (add_segments ss found (case tn_paramChild node of None \<Rightarrow> TrieNode_new (tl s) | Some c \<Rightarrow> c)))
        (tn_paramName node) (tn_handlers node)
      else TrieNode ((tn_children node)(s \<mapsto> add_segments ss found (case tn_children node s of None \<Rightarrow> TrieNode_new [] | Some c \<Rightarrow> c)))
        (tn_paramChild node) (tn_paramName node) (tn_handlers node))"

fun walk_segments :: "string list \<Rightarrow> (string \<rightharpoonup> string) \<Rightarrow> 'h TrieNode \<Rightarrow> ('h TrieNode \<times> (string \<rightharpoonup> string)) option" where
  "walk_segments [] params node = Some (node, params)"
| "walk_segments (s # ss) params node = (case tn_children node s of
       Some child \<Rightarrow> walk_segments ss params child
     | None \<Rightarrow> (case tn_paramChild node of
         Some child \<Rightarrow> walk_segments ss (params(tn_paramName child \<mapsto> s)) child
       | None \<Rightarrow> None))"

lemma segments_Nil [simp]: "segments [] = []"
  by (simp add: segments.simps)

lemma trie_add_segments: "trie_add sv found node = add_segments (segments sv) found node"
proof (induction sv found node rule: trie_add.induct)
  case (1 sv found node)
  then show ?case
    by (simp add: trie_add.simps [of sv] segments.simps [of sv] Let_def is_param_def del: dropWhile_eq_Nil_conv takeWhile_eq_Nil_iff)
qed

lemma trie_walk_segments: "trie_walk p params node = walk_segments (segments p) params node"
proof (induction p params node rule: trie_walk.induct)
  case (1 p params node)
  then show ?case
    by (simp add: trie_walk.simps [of p] segments.simps [of p] Let_def del: dropWhile_eq_Nil_conv takeWhile_eq_Nil_iff fun_upd_apply
        split: option.split)
qed

definition add_route :: "'h route \<Rightarrow> 'h TrieNode \<Rightarrow> 'h TrieNode" where
  "add_route r = add_segments (fst r) (set_handler (fst (snd r)) (snd (snd r)))"

definition trie_of :: "string \<Rightarrow> 'h route list \<Rightarrow> 'h TrieNode" where
  "trie_of name rs = fold add_route rs (TrieNode_new name)"

lemma trie_of_Nil [simp]: "trie_of name [] = TrieNode_new name"
  by (simp add: trie_of_def)

lemma trie_of_snoc [simp]: "trie_of name (rs @ [r]) = add_route r (trie_of name rs)"
  by (simp add: trie_of_def)

lemma new_simps [simp]:
  "tn_children (TrieNode_new n) = (\<lambda>_. None)" "tn_paramChild (TrieNode_new n) = None" "tn_paramName (TrieNode_new n) = n"
  "tn_handlers (TrieNode_new n) = (\<lambda>_. None)"
  by (simp_all add: TrieNode_new_def)

lemma set_handler_simps [simp]:
  "tn_children (set_handler m e node) = tn_children node" "tn_paramChild (set_handler m e node) = tn_paramChild node"
  "tn_paramName (set_handler m e node) = tn_paramName node" "tn_handlers (set_handler m e node) = (tn_handlers node)(m \<mapsto> e)"
  by (simp_all add: set_handler_def)

lemma add_route_cases:
  "add_route ([], m, e) node = set_handler m e node"
  "is_param s \<Longrightarrow> add_route (s # ss, m, e) node = TrieNode (tn_children node)
     (Some (add_route (ss, m, e) (case tn_paramChild node of None \<Rightarrow> TrieNode_new (tl s) | Some c \<Rightarrow> c))) (tn_paramName node) (tn_handlers node)"
  "\<not> is_param s \<Longrightarrow> add_route (s # ss, m, e) node = TrieNode
     ((tn_children node)(s \<mapsto> add_route (ss, m, e) (case tn_children node s of None \<Rightarrow> TrieNode_new [] | Some c \<Rightarrow> c)))
     (tn_paramChild node) (tn_paramName node) (tn_handlers node)"
  by (simp_all add: add_route_def)

lemma literal_snoc: "literal_routes s (rs @ [(p, e)]) =
    literal_routes s rs @ (if p \<noteq> [] \<and> \<not> is_param (hd p) \<and> hd p = s then [(tl p, e)] else [])"
  by (auto simp: literal_routes_def)

lemma param_snoc: "param_routes (rs @ [(p, e)]) = param_routes rs @ (if p \<noteq> [] \<and> is_param (hd p) then [(tl p, e)] else [])"
  by (simp add: param_routes_def)

lemma param_name_snoc: "param_name (rs @ [(p, e)]) =
    (if param_routes rs \<noteq> [] then param_name rs else if p \<noteq> [] \<and> is_param (hd p) then tl (hd p) else [])"
  by (auto simp: param_name_def param_routes_def filter_empty_conv split: list.splits)

lemma ending_snoc: "ending_handler m (rs @ [(p, m', e)]) = (if p = [] \<and> m = m' then Some e else ending_handler m rs)"
  by (simp add: ending_handler_def ending_routes_def)

text \<open>The trie below a node is the trie of the routes that pass it.\<close>

lemma trie_of_parts:
  "tn_children (trie_of name rs) s = (if literal_routes s rs = [] then None else Some (trie_of [] (literal_routes s rs)))"
  "tn_paramChild (trie_of name rs) = (if param_routes rs = [] then None else Some (trie_of (param_name rs) (param_routes rs)))"
  "tn_paramName (trie_of name rs) = name"
  "tn_handlers (trie_of name rs) m = ending_handler m rs"
proof (induction rs rule: rev_induct)
  case Nil
  { case 1 show ?case by (simp add: literal_routes_def) }
  { case 2 show ?case by (simp add: param_routes_def) }
  { case 3 show ?case by simp }
  { case 4 show ?case by (simp add: ending_handler_def ending_routes_def) }
next
  case (snoc r rs)
  obtain p m' e where r: "r = (p, m', e)" by (metis surj_pair)
  consider "p = []" | s' ss where "p = s' # ss" "is_param s'" | s' ss where "p = s' # ss" "\<not> is_param s'" by (cases p) auto
  note cs = this
  { case 1 show ?case using cs by cases (auto simp: r snoc.IH add_route_cases literal_snoc) }
  { case 2 show ?case using cs by cases (auto simp: r snoc.IH add_route_cases param_snoc param_name_snoc) }
  { case 3 show ?case using cs by cases (auto simp: r snoc.IH add_route_cases) }
  { case 4 show ?case using cs by cases (auto simp: r snoc.IH add_route_cases ending_snoc) }
qed

lemma walk_trie_of:
  "case match_routes ss params rs of
     None \<Rightarrow> walk_segments ss params (trie_of name rs) = None
   | Some (rs', params') \<Rightarrow> \<exists>name'. walk_segments ss params (trie_of name rs) = Some (trie_of name' rs', params')"
proof (induction ss params rs arbitrary: name rule: match_routes.induct)
  case (2 s ss params rs)
  have "walk_segments (s # ss) params (trie_of name rs) =
      (if literal_routes s rs \<noteq> [] then walk_segments ss params (trie_of [] (literal_routes s rs))
       else if param_routes rs \<noteq> [] then walk_segments ss (params(param_name rs \<mapsto> s)) (trie_of (param_name rs) (param_routes rs))
       else None)"
    by (simp add: trie_of_parts del: fun_upd_apply)
  then show ?case using 2(1) [of "[]"] 2(2) [of "param_name rs"] by (simp only: match_routes.simps) (auto simp del: fun_upd_apply)
qed auto

section \<open>Properties\<close>

text \<open>The answer to a request by walking the list of routes.\<close>

definition ref_dispatch :: "bool \<Rightarrow> string \<Rightarrow> (HttpRequest \<Rightarrow> HttpResponse \<Rightarrow> bool \<times> HttpResponse) option \<Rightarrow>
    HttpRequest \<Rightarrow> route_handler route list \<Rightarrow> HttpResponse" where
  "ref_dispatch tls cors auth request rs =
     (if http_method request = ''OPTIONS'' then HttpResponse_new tls cors 200 ''OK''
      else (case match_routes (segments (trim_path (path request))) Map.empty rs of
          None \<Rightarrow> notFound tls cors ''NOT_FOUND''
        | Some (rs', params) \<Rightarrow>
            if ending_routes rs' = [] then notFound tls cors ''NOT_FOUND''
            else (case ending_handler (parseMethod (http_method request)) rs' of
                None \<Rightarrow> methodNotAllowed tls cors
              | Some entry \<Rightarrow>
                  let (ok, authResp) = (case auth of None \<Rightarrow> (True, HttpResponse_new tls cors 401 ''Unauthorized'')
                        | Some f \<Rightarrow> f request (HttpResponse_new tls cors 401 ''Unauthorized'')) in
                  if ok then he_handler entry request params else authResp)))"

definition ref_slow :: "HttpRequest \<Rightarrow> 'h route list \<Rightarrow> bool" where
  "ref_slow request rs = (case match_routes (segments (trim_path (path request))) Map.empty rs of
       None \<Rightarrow> False
     | Some (rs', params) \<Rightarrow> (case ending_handler (parseMethod (http_method request)) rs' of None \<Rightarrow> False | Some e \<Rightarrow> he_slow e))"

datatype 'h rt_call = RtAdd string string 'h | RtDescribed string string 'h string | RtSlow string string 'h string bool

fun rt_do :: "'h rt_call \<Rightarrow> 'h HttpRouter \<Rightarrow> 'h HttpRouter" where
  "rt_do (RtAdd m p h) rt = addRoute m p h rt"
| "rt_do (RtDescribed m p h d) rt = addRoute_described m p h d rt"
| "rt_do (RtSlow m p h d b) rt = addRoute_slow m p h d b rt"

fun rt_route :: "'h rt_call \<Rightarrow> 'h route" where
  "rt_route (RtAdd m p h) = route_of m p h False"
| "rt_route (RtDescribed m p h d) = route_of m p h False"
| "rt_route (RtSlow m p h d b) = route_of m p h b"

lemma rt_do_root: "rt_root_m (rt_do c rt) = add_route (rt_route c) (rt_root_m rt)" "rt_authMiddleware_m (rt_do c rt) = rt_authMiddleware_m rt"
  by (cases c; simp add: addRoute_def addRoute_described_def addRoute_slow_def trie_add_segments add_route_def route_of_def)+

lemma router_root: "rt_root_m (fold rt_do cs HttpRouter_new) = trie_of [] (map rt_route cs)"
  "rt_authMiddleware_m (fold rt_do cs HttpRouter_new) = None"
  by (induction cs rule: rev_induct) (simp_all add: rt_do_root HttpRouter_new_def)

lemma no_handlers_trie: "no_handlers (trie_of name rs) \<longleftrightarrow> ending_routes rs = []"
proof
  assume n: "no_handlers (trie_of name rs)"
  have "ending_handler m rs = None" for m
    using n by (cases m) (simp_all add: no_handlers_def all_methods_def trie_of_parts)
  then have "\<forall>m. m \<notin> fst ` set (ending_routes rs)" by (simp add: ending_handler_def map_of_eq_None_iff)
  then show "ending_routes rs = []" by (cases "ending_routes rs") auto
qed (simp add: no_handlers_def all_methods_def trie_of_parts ending_handler_def)

text \<open>C13: the trie is equivalent to the list of routes. After any sequence of added routes, dispatching a
  request gives the answer, and \<open>isSlowRoute\<close> the flag, that the list gives: segment by segment the routes with
  that literal stay if there are any, else those with a parameter, named by the first of them; the last
  route added for the method answers; 404, 405 and 401 are told apart in this order.\<close>

theorem router_equivalence:
  "dispatch tls cors request (case auth of None \<Rightarrow> fold rt_do cs HttpRouter_new | Some f \<Rightarrow> setAuthMiddleware f (fold rt_do cs HttpRouter_new)) =
     ref_dispatch tls cors auth request (map rt_route cs) \<and>
   isSlowRoute request (fold rt_do cs HttpRouter_new) = ref_slow request (map rt_route cs)"
proof -
  let ?rt = "fold rt_do cs HttpRouter_new" and ?rs = "map rt_route cs" and ?ss = "segments (trim_path (path request))"
  let ?rta = "case auth of None \<Rightarrow> ?rt | Some f \<Rightarrow> setAuthMiddleware f ?rt"
  have root: "rt_root_m ?rta = trie_of [] ?rs" "rt_authMiddleware_m ?rta = auth" "rt_root_m ?rt = trie_of [] ?rs"
    by (simp_all add: router_root setAuthMiddleware_def split: option.split)
  note walk = walk_trie_of [where ss = ?ss and params = Map.empty and rs = ?rs and name = "[]"]
  show ?thesis
  proof (cases "match_routes ?ss Map.empty ?rs")
    case None
    with walk show ?thesis by (simp add: dispatch_def ref_dispatch_def isSlowRoute_def ref_slow_def trie_walk_segments root)
  next
    case (Some m)
    obtain rs' params where m: "m = (rs', params)" by (cases m)
    with Some walk obtain name where "walk_segments ?ss Map.empty (trie_of [] ?rs) = Some (trie_of name rs', params)" by auto
    with Some m show ?thesis
      by (simp add: dispatch_def ref_dispatch_def isSlowRoute_def ref_slow_def trie_walk_segments root no_handlers_trie trie_of_parts
          split: option.split prod.split)
  qed
qed

end
