(* ===== verification/Sha1.thy ===== *)
theory Sha1
  imports Prelude "HOL-Library.While_Combinator"
begin

text \<open>
  The SHA-1 digest and the Base64 encoder of AlpineRestBridge/WebSocketSession.cpp, with which a WebSocket
  handshake is answered. The digest works on a stream of pieces; it is compared with the standard's
  definition on the whole message (FIPS 180-4), and the padding loop, a \<open>while\<close> on the byte counter, is shown
  to end. The encoder is compared with a decoder.
\<close>

unbundle bit_operations_syntax

section \<open>The streaming digest\<close>

type_synonym sha_words = "uint \<times> uint \<times> uint \<times> uint \<times> uint"

record Sha1 =
  sh_state :: sha_words
  sh_count :: ulong
  sh_buffer :: "byte list"

definition Sha1_new :: Sha1 where
  "Sha1_new = \<lparr>sh_state = (0x67452301, 0xEFCDAB89, 0x98BADCFE, 0x10325476, 0xC3D2E1F0), sh_count = 0,
     sh_buffer = replicate 64 0\<rparr>"

definition rol :: "uint \<Rightarrow> nat \<Rightarrow> uint" where
  "rol v bits = push_bit bits v OR drop_bit (32 - bits) v"

definition first_words :: "byte list \<Rightarrow> uint list" where
  "first_words data = map (\<lambda>i. push_bit 24 (ucast (data ! (i * 4))) OR push_bit 16 (ucast (data ! (i * 4 + 1))) OR
     push_bit 8 (ucast (data ! (i * 4 + 2))) OR ucast (data ! (i * 4 + 3))) [0..<16]"

definition next_word :: "nat \<Rightarrow> uint list \<Rightarrow> uint list" where
  "next_word i w = w @ [rol (w ! (i - 3) XOR w ! (i - 8) XOR w ! (i - 14) XOR w ! (i - 16)) 1]"

definition all_words :: "byte list \<Rightarrow> uint list" where
  "all_words data = fold next_word [16..<80] (first_words data)"

definition sha_round :: "uint list \<Rightarrow> nat \<Rightarrow> sha_words \<Rightarrow> sha_words" where
  "sha_round w i s = (case s of (a, b, c, d, e) \<Rightarrow>
     let (f, k) = (if i < 20 then ((b AND c) OR (NOT b AND d), 0x5A827999)
                   else if i < 40 then (b XOR c XOR d, 0x6ED9EBA1)
                   else if i < 60 then ((b AND c) OR (b AND d) OR (c AND d), 0x8F1BBCDC)
                   else (b XOR c XOR d, 0xCA62C1D6));
         tmp = rol a 5 + f + e + k + w ! i
     in (tmp, a, rol b 30, c, d))"

definition add_words :: "sha_words \<Rightarrow> sha_words \<Rightarrow> sha_words" where
  "add_words s t = (case s of (a, b, c, d, e) \<Rightarrow> (case t of (a', b', c', d', e') \<Rightarrow> (a + a', b + b', c + c', d + d', e + e')))"

definition transform :: "byte list \<Rightarrow> sha_words \<Rightarrow> sha_words" where
  "transform data s = add_words s (fold (sha_round (all_words data)) [0..<80] s)"

fun update_loop :: "byte list \<Rightarrow> nat \<Rightarrow> Sha1 \<Rightarrow> Sha1" where
  "update_loop [] idx sh = sh"
| "update_loop (x # xs) idx sh =
     (let sh1 = sh\<lparr>sh_buffer := (sh_buffer sh)[idx := x]\<rparr> in
      if idx + 1 = 64 then update_loop xs 0 (sh1\<lparr>sh_state := transform (sh_buffer sh1) (sh_state sh1)\<rparr>)
      else update_loop xs (idx + 1) sh1)"

definition sha_update :: "byte list \<Rightarrow> Sha1 \<Rightarrow> Sha1" where
  "sha_update data sh =
     (let idx = unat (sh_count sh) mod 64
      in update_loop data idx (sh\<lparr>sh_count := sh_count sh + of_nat (length data)\<rparr>))"

definition word_bytes :: "uint \<Rightarrow> byte list" where
  "word_bytes w = [ucast (drop_bit 24 w), ucast (drop_bit 16 w), ucast (drop_bit 8 w), ucast w]"

definition digest :: "Sha1 \<Rightarrow> byte list option" where
  "digest sh =
     (let bits = sh_count sh * 8 in
      map_option (\<lambda>sh1. let sh2 = fold (\<lambda>i. sha_update [ucast (drop_bit (i * 8) bits)]) (rev [0..<8]) sh1
                        in case sh_state sh2 of (a, b, c, d, e) \<Rightarrow> concat (map word_bytes [a, b, c, d, e]))
        (while_option (\<lambda>sh1. unat (sh_count sh1) mod 64 \<noteq> 56) (sha_update [0]) (sha_update [0x80] sh)))"

section \<open>The standard\<close>

fun schedule :: "byte list \<Rightarrow> nat \<Rightarrow> uint" where
  "schedule block t =
     (if t < 16 then of_le (rev (take 4 (drop (4 * t) block)))
      else word_rotl 1 (schedule block (t - 3) XOR schedule block (t - 8) XOR schedule block (t - 14) XOR schedule block (t - 16)))"

declare schedule.simps [simp del]

definition sha_f :: "nat \<Rightarrow> uint \<Rightarrow> uint \<Rightarrow> uint \<Rightarrow> uint" where
  "sha_f t x y z =
     (if t < 20 then (x AND y) XOR (NOT x AND z) else if t < 40 then x XOR y XOR z
      else if t < 60 then (x AND y) XOR (x AND z) XOR (y AND z) else x XOR y XOR z)"

definition sha_k :: "nat \<Rightarrow> uint" where
  "sha_k t = (if t < 20 then 0x5A827999 else if t < 40 then 0x6ED9EBA1 else if t < 60 then 0x8F1BBCDC else 0xCA62C1D6)"

fun sha_rounds :: "byte list \<Rightarrow> sha_words \<Rightarrow> nat \<Rightarrow> sha_words" where
  "sha_rounds block h 0 = h"
| "sha_rounds block h (Suc t) = (case sha_rounds block h t of (a, b, c, d, e) \<Rightarrow>
     (word_rotl 5 a + sha_f t b c d + e + sha_k t + schedule block t, a, word_rotl 30 b, c, d))"

definition compress :: "byte list \<Rightarrow> sha_words \<Rightarrow> sha_words" where
  "compress block h = add_words h (sha_rounds block h 80)"

text \<open>The whole blocks of 64 bytes.\<close>

definition blocks :: "byte list \<Rightarrow> byte list list" where
  "blocks m = map (\<lambda>i. take 64 (drop (64 * i) m)) [0..<length m div 64]"

definition sha_pad :: "byte list \<Rightarrow> byte list" where
  "sha_pad m = m @ [0x80] @ replicate ((119 - length m mod 64) mod 64) 0 @
     map (\<lambda>i. of_nat (8 * length m div 256 ^ i)) (rev [0..<8])"

definition sha_iv :: sha_words where
  "sha_iv = (0x67452301, 0xEFCDAB89, 0x98BADCFE, 0x10325476, 0xC3D2E1F0)"

definition sha1_spec :: "byte list \<Rightarrow> byte list" where
  "sha1_spec m = (case fold compress (blocks (sha_pad m)) sha_iv of
     (a, b, c, d, e) \<Rightarrow> concat (map (\<lambda>w. rev (le_bytes 4 w)) [a, b, c, d, e]))"

section \<open>The block function\<close>

lemma rol_rotl:
  assumes "0 < n" "n < 32"
  shows "rol v n = word_rotl n v"
proof (rule bit_word_eqI)
  fix k :: nat assume "k < LENGTH(32)"
  then have k: "k < 32" by simp
  have "(k + (32 - n)) mod 32 = (if n \<le> k then k - n else k + (32 - n))"
  proof (cases "n \<le> k")
    case True
    then have "k + (32 - n) = k - n + 32" using assms by simp
    with True k show ?thesis by (simp only: mod_add_self2) simp
  qed (use assms k in simp)
  moreover have "bit (word_rotl n v) k \<longleftrightarrow> bit v ((k + (32 - n)) mod 32)" using assms k by (simp add: bit_word_rotl_iff)
  moreover have "bit (rol v n) k \<longleftrightarrow> n \<le> k \<and> bit v (k - n) \<or> bit v (k + (32 - n))"
    using k by (simp add: rol_def bit_simps add.commute [of k])
  moreover have "\<not> bit v (k + (32 - n))" if "n \<le> k" using that assms bit_imp_le_length [of v] by force
  ultimately show "bit (rol v n) k \<longleftrightarrow> bit (word_rotl n v) k" by auto
qed

lemma be_word: "(push_bit 24 (ucast a) OR push_bit 16 (ucast b) OR push_bit 8 (ucast c) OR ucast d :: uint) = of_le [d, c, b, a]"
  for a b c d :: byte
  by (simp add: push_bit_or ac_simps)

lemma first_words_nth:
  assumes "length block = 64" "i < 16"
  shows "first_words block ! i = schedule block i"
proof -
  have "take 4 (drop (4 * i) block) = [block ! (i * 4), block ! (i * 4 + 1), block ! (i * 4 + 2), block ! (i * 4 + 3)]"
    using assms by (intro nth_equalityI) (auto simp: less_Suc_eq numeral_eq_Suc ac_simps)
  then show ?thesis using assms(2) by (simp add: schedule.simps [of block i] first_words_def be_word del: of_le.simps)
qed

lemma length_first_words: "length (first_words block) = 16"
  by (simp add: first_words_def)

lemma next_word_nth:
  assumes "16 \<le> n" "length w = n" "\<forall>i<n. w ! i = schedule block i"
  shows "length (next_word n w) = Suc n \<and> (\<forall>i<Suc n. next_word n w ! i = schedule block i)"
proof -
  have "rol (w ! (n - 3) XOR w ! (n - 8) XOR w ! (n - 14) XOR w ! (n - 16)) 1 = schedule block n"
    using assms by (simp add: schedule.simps [of block n] rol_rotl)
  then show ?thesis using assms by (auto simp: next_word_def nth_append less_Suc_eq)
qed

lemma all_words_nth:
  assumes "length block = 64" "t < 80"
  shows "all_words block ! t = schedule block t"
proof -
  let ?w = "\<lambda>n. fold next_word [16..<n] (first_words block)"
  have "length (?w n) = n \<and> (\<forall>i<n. ?w n ! i = schedule block i)" if "16 \<le> n" for n
    using that
  proof (induction n rule: nat_induct_at_least)
    case base
    show ?case using first_words_nth [OF assms(1)] by (simp add: length_first_words)
  next
    case (Suc n)
    then have "?w (Suc n) = next_word n (?w n)" by (simp only: upt_Suc if_True fold_append fold.simps comp_def id_apply)
    with next_word_nth [of n "?w n" block] Suc show ?case by (auto simp del: upt_Suc)
  qed
  from this [of 80] assms(2) show ?thesis unfolding all_words_def by simp
qed

lemma choose_xor: "(b AND c) OR (NOT b AND d) = (b AND c) XOR (NOT b AND d)" for b c d :: uint
  by (rule bit_word_eqI) (auto simp: bit_simps)

lemma majority_xor: "(b AND c) OR (b AND d) OR (c AND d) = (b AND c) XOR (b AND d) XOR (c AND d)" for b c d :: uint
  by (rule bit_word_eqI) (auto simp: bit_simps)

lemma transform_compress:
  assumes "length block = 64"
  shows "transform block s = compress block s"
proof -
  have "fold (sha_round (all_words block)) [0..<n] s = sha_rounds block s n" if "n \<le> 80" for n
    using that
  proof (induction n)
    case (Suc n)
    then show ?case
      by (simp add: sha_round_def all_words_nth [OF assms] sha_f_def sha_k_def rol_rotl choose_xor majority_xor split: prod.split)
  qed simp
  then show ?thesis by (simp add: transform_def compress_def)
qed

section \<open>The stream\<close>

text \<open>The digest object after the message \<open>m\<close>, up to its counter: the whole blocks are in the state, the
  rest is in the buffer.\<close>

definition absorbed :: "Sha1 \<Rightarrow> byte list \<Rightarrow> bool" where
  "absorbed sh m \<longleftrightarrow> length (sh_buffer sh) = 64 \<and>
     take (length m mod 64) (sh_buffer sh) = drop (64 * (length m div 64)) m \<and>
     sh_state sh = fold compress (blocks m) sha_iv"

definition holds :: "Sha1 \<Rightarrow> byte list \<Rightarrow> bool" where
  "holds sh m \<longleftrightarrow> absorbed sh m \<and> sh_count sh = of_nat (length m)"

lemma holds_new: "holds Sha1_new []"
  by (simp add: holds_def absorbed_def Sha1_new_def sha_iv_def blocks_def)

lemma blocks_snoc:
  "blocks (m @ [x]) = blocks m @ (if length m mod 64 = 63 then [drop (64 * (length m div 64)) m @ [x]] else [])"
proof -
  have same: "take 64 (drop (64 * i) (m @ [x])) = take 64 (drop (64 * i) m)" if "i < length m div 64" for i
  proof -
    have "64 * i + 64 \<le> 64 * (length m div 64)" using that by simp
    also have "\<dots> \<le> length m" by simp
    finally show ?thesis by simp
  qed
  have div: "Suc (length m) div 64 = (if length m mod 64 = 63 then Suc (length m div 64) else length m div 64)"
    by (simp add: div_Suc mod_Suc)
  show ?thesis
  proof (cases "length m mod 64 = 63")
    case True
    then have "length (drop (64 * (length m div 64)) m) = 63" using minus_mult_div_eq_mod [of "length m" 64] by simp
    moreover have "64 * (length m div 64) \<le> length m" by simp
    ultimately show ?thesis using True div same by (simp add: blocks_def)
  qed (use div same in \<open>simp add: blocks_def\<close>)
qed

lemma update_loop_byte:
  "update_loop (x # xs) i sh = update_loop xs (if i = 63 then 0 else Suc i) (update_loop [x] i sh)"
  by (simp add: Let_def)

lemma absorb_byte:
  assumes "absorbed sh m"
  shows "absorbed (update_loop [x] (length m mod 64) sh) (m @ [x])"
    and "update_loop (x # xs) (length m mod 64) sh = update_loop xs (length (m @ [x]) mod 64) (update_loop [x] (length m mod 64) sh)"
proof -
  define i d rest where "i = length m mod 64" and "d = length m div 64" and "rest = drop (64 * d) m"
  have i: "i < 64" by (simp add: i_def)
  have le: "64 * d \<le> length m" by (simp add: d_def)
  have sum: "64 * d + i = length m" by (simp add: i_def d_def)
  then have len: "length rest = i" by (simp add: rest_def)
  have sh: "length (sh_buffer sh) = 64" "take i (sh_buffer sh) = rest" "sh_state sh = fold compress (blocks m) sha_iv"
    using assms by (simp_all add: absorbed_def i_def d_def rest_def)
  have tk: "take (Suc i) ((sh_buffer sh)[i := x]) = rest @ [x]"
    using sh(1,2) i by (simp add: take_Suc_conv_app_nth)
  have next_i: "length (m @ [x]) mod 64 = (if i = 63 then 0 else Suc i)" by (simp add: mod_Suc i_def)
  have next_d: "length (m @ [x]) div 64 = (if i = 63 then Suc d else d)" by (simp add: div_Suc mod_Suc i_def d_def)
  have bl: "blocks (m @ [x]) = blocks m @ (if i = 63 then [rest @ [x]] else [])"
    by (simp add: blocks_snoc i_def d_def rest_def)
  show "absorbed (update_loop [x] (length m mod 64) sh) (m @ [x])"
  proof (cases "i = 63")
    case True
    have b: "(sh_buffer sh)[63 := x] = rest @ [x]" using tk sh(1) unfolding True by simp
    then have "length (rest @ [x]) = 64" using sh(1) by (metis length_list_update)
    note tr = transform_compress [OF this]
    have drp: "drop (64 * Suc d) (m @ [x]) = []" using sum True by simp
    show ?thesis unfolding absorbed_def next_i next_d bl i_def [symmetric]
      using True sh b tr drp len by (simp add: Let_def)
  next
    case False
    have drp: "drop (64 * d) (m @ [x]) = rest @ [x]" using le by (simp add: rest_def)
    show ?thesis unfolding absorbed_def next_i next_d bl i_def [symmetric]
      using False sh tk drp by (simp add: Let_def)
  qed
  show "update_loop (x # xs) (length m mod 64) sh = update_loop xs (length (m @ [x]) mod 64) (update_loop [x] (length m mod 64) sh)"
    unfolding next_i i_def [symmetric] by (rule update_loop_byte)
qed

lemma absorb: "absorbed sh m \<Longrightarrow> absorbed (update_loop xs (length m mod 64) sh) (m @ xs)"
proof (induction xs arbitrary: sh m)
  case (Cons x xs)
  have "absorbed (update_loop (x # xs) (length m mod 64) sh) ((m @ [x]) @ xs)"
    by (subst absorb_byte(2) [OF Cons.prems]) (rule Cons.IH [OF absorb_byte(1) [OF Cons.prems]])
  then show ?case by (simp only: append_assoc append.simps)
qed simp

lemma update_loop_count: "sh_count (update_loop xs i sh) = sh_count sh"
  by (induction xs i sh rule: update_loop.induct) (simp_all add: Let_def)

lemma count_mod: "unat (of_nat n :: ulong) mod 64 = n mod 64"
  by (simp add: unat_of_nat mod_mod_cancel)

lemma holds_update:
  assumes "holds sh m"
  shows "holds (sha_update xs sh) (m @ xs)"
proof -
  have "absorbed (sh\<lparr>sh_count := c\<rparr>) m" for c using assms by (simp add: holds_def absorbed_def)
  from absorb [OF this] assms show ?thesis
    by (simp add: holds_def sha_update_def Let_def update_loop_count count_mod)
qed

lemma holds_updates: "holds sh m \<Longrightarrow> holds (fold (\<lambda>i. sha_update [f i]) is sh) (m @ map f is)"
proof (induction "is" arbitrary: sh m)
  case (Cons i "is")
  from Cons.IH [OF holds_update [OF Cons.prems, of "[f i]"]] show ?case by simp
qed simp

lemma pad_amount:
  "(120 - n mod 64) mod 64 = (if n mod 64 \<le> 56 then 56 - n mod 64 else 120 - n mod 64)"
  "(119 - n mod 64) mod 64 = (if n mod 64 \<le> 55 then 55 - n mod 64 else 119 - n mod 64)" for n :: nat
proof -
  define r where "r = n mod 64"
  have "r < 64" by (simp add: r_def)
  then have "(120 - r) mod 64 = (if r \<le> 56 then 56 - r else 120 - r)" "(119 - r) mod 64 = (if r \<le> 55 then 55 - r else 119 - r)"
    by (auto simp: mod_if [of "120 - r"] mod_if [of "119 - r"])
  then show "(120 - n mod 64) mod 64 = (if n mod 64 \<le> 56 then 56 - n mod 64 else 120 - n mod 64)"
    "(119 - n mod 64) mod 64 = (if n mod 64 \<le> 55 then 55 - n mod 64 else 119 - n mod 64)" by (simp_all only: r_def)
qed

lemma pad_step:
  "n mod 64 \<noteq> 56 \<Longrightarrow> (120 - n mod 64) mod 64 = Suc k \<Longrightarrow> (120 - Suc n mod 64) mod 64 = k"
  "(120 - Suc n mod 64) mod 64 = (119 - n mod 64) mod 64" for n :: nat
  by (auto simp: pad_amount mod_Suc split: if_splits)

text \<open>The padding loop adds zeros until eight bytes are left in the block.\<close>

lemma pad_loop:
  "holds sh m \<Longrightarrow> \<exists>sh'. while_option (\<lambda>s. unat (sh_count s) mod 64 \<noteq> 56) (sha_update [0]) sh = Some sh' \<and>
     holds sh' (m @ replicate ((120 - length m mod 64) mod 64) 0)"
proof (induction "(120 - length m mod 64) mod 64" arbitrary: sh m)
  case 0
  then have "length m mod 64 = 56" by (auto simp: pad_amount split: if_splits)
  with 0 show ?case by (subst while_option_unfold) (simp add: holds_def count_mod)
next
  case (Suc k)
  then have n: "length m mod 64 \<noteq> 56" by auto
  then have k: "k = (120 - length (m @ [0 :: byte]) mod 64) mod 64" using pad_step(1) [OF n Suc(2) [symmetric]] by simp
  from Suc(1) [OF k holds_update [OF Suc(3)]] obtain sh' where
    "while_option (\<lambda>s. unat (sh_count s) mod 64 \<noteq> 56) (sha_update [0]) (sha_update [0] sh) = Some sh'"
    "holds sh' ((m @ [0]) @ replicate k 0)" unfolding k [symmetric] by blast
  then show ?case using Suc(3) n unfolding Suc(2) [symmetric]
    by (subst while_option_unfold) (simp add: holds_def count_mod)
qed

text \<open>The bytes of a number, as the standard writes its length.\<close>

lemma nat_byte: "i < 8 \<Longrightarrow> (of_nat (n div 256 ^ i) :: byte) = ucast (drop_bit (i * 8) (of_nat n :: ulong))"
proof (rule bit_word_eqI)
  fix k assume "i < 8" "k < LENGTH(8)"
  have "256 ^ i = (2 :: nat) ^ (i * 8)" by (simp add: mult.commute [of i] power_mult)
  then have "n div 256 ^ i = drop_bit (i * 8) n" by (simp add: drop_bit_eq_div)
  then show "bit (of_nat (n div 256 ^ i) :: byte) k = bit (ucast (drop_bit (i * 8) (of_nat n :: ulong)) :: byte) k"
    using \<open>i < 8\<close> \<open>k < LENGTH(8)\<close> by (simp add: bit_simps)
qed

lemma word_bytes_be: "word_bytes w = rev (le_bytes 4 w)"
  by (simp add: word_bytes_def le_bytes_def upt_rec)

lemma digest_spec:
  assumes "holds sh m"
  shows "digest sh = Some (sha1_spec m)"
proof -
  let ?bits = "sh_count sh * 8"
  have "holds (sha_update [0x80] sh) (m @ [0x80])" using assms by (rule holds_update)
  from pad_loop [OF this] obtain sh1 where
    w: "while_option (\<lambda>s. unat (sh_count s) mod 64 \<noteq> 56) (sha_update [0]) (sha_update [0x80] sh) = Some sh1"
    and h: "holds sh1 ((m @ [0x80]) @ replicate ((120 - length (m @ [0x80 :: byte]) mod 64) mod 64) 0)" by blast
  have pad: "(120 - length (m @ [0x80 :: byte]) mod 64) mod 64 = (119 - length m mod 64) mod 64" using pad_step(2) by simp
  have bits: "map (\<lambda>i. ucast (drop_bit (i * 8) ?bits)) (rev [0..<8]) = map (\<lambda>i. of_nat (8 * length m div 256 ^ i) :: byte) (rev [0..<8])"
    using assms nat_byte [of _ "8 * length m"] unfolding holds_def by (intro map_cong) (auto simp: mult.commute [of 8])
  let ?sh2 = "fold (\<lambda>i. sha_update [ucast (drop_bit (i * 8) ?bits)]) (rev [0..<8]) sh1"
  have "holds ?sh2 (sha_pad m)"
    using holds_updates [OF h, of "\<lambda>i. ucast (drop_bit (i * 8) ?bits)" "rev [0..<8]"] unfolding pad bits sha_pad_def by simp
  then have "sh_state ?sh2 = fold compress (blocks (sha_pad m)) sha_iv" by (simp add: holds_def absorbed_def)
  then show ?thesis unfolding digest_def Let_def w by (simp add: sha1_spec_def word_bytes_be split: prod.split)
qed

section \<open>Base64 and the handshake\<close>

definition base64Chars :: string where
  "base64Chars = ''ABCDEFGHIJKLMNOPQRSTUVWXYZabcdefghijklmnopqrstuvwxyz0123456789+/''"

definition base64_char :: "uint \<Rightarrow> char" where
  "base64_char n = base64Chars ! unat (n AND 0x3F)"

function base64_from :: "byte list \<Rightarrow> nat \<Rightarrow> string" where
  "base64_from data i =
     (if i < length data
      then
        let n0 = push_bit 16 (ucast (data ! i)) :: uint;
            n1 = (if i + 1 < length data then n0 OR push_bit 8 (ucast (data ! (i + 1))) else n0);
            n = (if i + 2 < length data then n1 OR ucast (data ! (i + 2)) else n1)
        in [base64_char (drop_bit 18 n), base64_char (drop_bit 12 n),
            if i + 1 < length data then base64_char (drop_bit 6 n) else CHR ''='',
            if i + 2 < length data then base64_char n else CHR ''=''] @ base64_from data (i + 3)
      else [])"
  by pat_completeness auto
termination by (relation "measure (\<lambda>(data, i). length data - i)") auto

declare base64_from.simps [simp del]

definition base64Encode :: "byte list \<Rightarrow> string" where
  "base64Encode data = base64_from data 0"

definition ws_magic :: "byte list" where
  "ws_magic = map of_char ''258EAFA5-E914-47DA-95CA-C5AB0DC85B11''"

definition buildHandshakeResponse :: "string \<Rightarrow> string option" where
  "buildHandshakeResponse secWebSocketKey =
     map_option (\<lambda>hash. ''HTTP/1.1 101 Switching Protocols'' @ [CHR 0x0D, CHR 0x0A] @ ''Upgrade: websocket'' @ [CHR 0x0D, CHR 0x0A] @
         ''Connection: Upgrade'' @ [CHR 0x0D, CHR 0x0A] @ ''Sec-WebSocket-Accept: '' @ base64Encode hash @
         [CHR 0x0D, CHR 0x0A, CHR 0x0D, CHR 0x0A])
       (digest (sha_update ws_magic (sha_update (map of_char secWebSocketKey) Sha1_new)))"

text \<open>A decoder (RFC 4648).\<close>

definition base64_index :: "char \<Rightarrow> uint option" where
  "base64_index c = map_option (\<lambda>i. of_nat i) (List.find (\<lambda>i. base64Chars ! i = c) [0..<64])"

definition group_bytes :: "uint \<Rightarrow> byte list" where
  "group_bytes n = [ucast (drop_bit 16 n), ucast (drop_bit 8 n), ucast n]"

fun base64_decode :: "string \<Rightarrow> byte list option" where
  "base64_decode [] = Some []"
| "base64_decode (p # q # r # s # rest) = do {
     v0 \<leftarrow> base64_index p; v1 \<leftarrow> base64_index q;
     v2 \<leftarrow> (if r = CHR ''='' then Some 0 else base64_index r);
     v3 \<leftarrow> (if s = CHR ''='' then Some 0 else base64_index s);
     bs \<leftarrow> base64_decode rest;
     let n = push_bit 18 v0 OR push_bit 12 v1 OR push_bit 6 v2 OR v3;
     Some (take (if r = CHR ''='' then 1 else if s = CHR ''='' then 2 else 3) (group_bytes n) @ bs)
   }"
| "base64_decode _ = None"

lemma base64_tables:
  "\<forall>i\<in>set [0..<64]. base64_index (base64Chars ! i) = Some (of_nat i) \<and> base64Chars ! i \<noteq> CHR ''=''"
  by code_simp

lemma base64_char_index:
  "base64_index (base64_char n) = Some (take_bit 6 n)" "base64_char n \<noteq> CHR ''=''"
proof -
  have m: "n AND 0x3F = take_bit 6 n" by (simp add: take_bit_eq_mask mask_eq_exp_minus_1)
  have "unat (take_bit 6 n) < 64" using take_bit_nat_less_exp [of 6 "unat n"] by (simp add: unsigned_take_bit_eq)
  with base64_tables have "base64_index (base64_char n) = Some (of_nat (unat (take_bit 6 n)))" "base64_char n \<noteq> CHR ''=''"
    unfolding base64_char_def m by auto
  then show "base64_index (base64_char n) = Some (take_bit 6 n)" "base64_char n \<noteq> CHR ''=''" by simp_all
qed

lemma regroup: "push_bit 18 (take_bit 6 (drop_bit 18 n)) OR push_bit 12 (take_bit 6 (drop_bit 12 n)) OR
    push_bit 6 (take_bit 6 (drop_bit 6 n)) OR take_bit 6 n = take_bit 24 n" for n :: uint
proof (rule bit_word_eqI)
  fix k :: nat
  show "bit (push_bit 18 (take_bit 6 (drop_bit 18 n)) OR push_bit 12 (take_bit 6 (drop_bit 12 n)) OR
      push_bit 6 (take_bit 6 (drop_bit 6 n)) OR take_bit 6 n) k \<longleftrightarrow> bit (take_bit 24 n) k"
    by (cases "k < 6"; cases "k < 12"; cases "k < 18"; cases "k < 24") (auto simp: bit_simps dest: bit_imp_le_length)
qed

definition group_word :: "byte \<Rightarrow> byte \<Rightarrow> byte \<Rightarrow> uint" where
  "group_word a b c = push_bit 16 (ucast a) OR push_bit 8 (ucast b) OR ucast c"

lemma group_bytes_word: "group_bytes (take_bit 24 (group_word a b c)) = [a, b, c]"
  by (auto simp: group_bytes_def group_word_def bit_eq_iff bit_simps dest: bit_imp_le_length)

lemma group_word_low: "take_bit 6 (group_word a b 0) = 0" "take_bit 6 (drop_bit 6 (group_word a 0 0)) = 0"
  by (auto simp: group_word_def bit_eq_iff bit_simps dest: bit_imp_le_length)

text \<open>The encoder by groups of three bytes.\<close>

fun base64_groups :: "byte list \<Rightarrow> string" where
  "base64_groups [] = []"
| "base64_groups [a] = [base64_char (drop_bit 18 (group_word a 0 0)), base64_char (drop_bit 12 (group_word a 0 0)), CHR ''='', CHR ''='']"
| "base64_groups [a, b] = [base64_char (drop_bit 18 (group_word a b 0)), base64_char (drop_bit 12 (group_word a b 0)),
     base64_char (drop_bit 6 (group_word a b 0)), CHR ''='']"
| "base64_groups (a # b # c # data) = [base64_char (drop_bit 18 (group_word a b c)), base64_char (drop_bit 12 (group_word a b c)),
     base64_char (drop_bit 6 (group_word a b c)), base64_char (group_word a b c)] @ base64_groups data"

lemma base64_from_groups: "base64_from (pre @ data) (length pre) = base64_groups data"
proof (induction data arbitrary: pre rule: base64_groups.induct)
  case (4 a b c data)
  from 4 [of "pre @ [a, b, c]"] show ?case
    by (simp add: base64_from.simps [of _ "length pre"] group_word_def nth_append or.assoc Let_def numeral_3_eq_3)
qed (simp_all add: base64_from.simps group_word_def nth_append Let_def)

lemma base64_decode_groups: "base64_decode (base64_groups data) = Some data"
proof (induction data rule: base64_groups.induct)
  case (2 a)
  then show ?case using regroup [of "group_word a 0 0"] group_bytes_word [of a 0 0]
    by (simp add: base64_char_index group_word_low)
next
  case (3 a b)
  then show ?case using regroup [of "group_word a b 0"] group_bytes_word [of a b 0]
    by (simp add: base64_char_index group_word_low)
next
  case (4 a b c data)
  then show ?case
    using group_bytes_word [of a b c] by (simp add: base64_char_index regroup)
qed simp

lemma sha_update_count: "sh_count (sha_update xs sh) = sh_count sh + of_nat (length xs)"
  by (simp add: sha_update_def update_loop_count Let_def)

lemma length_word_bytes [simp]: "length (word_bytes w) = 4"
  by (simp add: word_bytes_def)

lemma unat_inc_mod: "unat (c + 1) mod 64 = Suc (unat c) mod 64" for c :: ulong
  by (simp add: unat_word_ariths mod_mod_cancel)

section \<open>Properties\<close>

text \<open>C15: the streaming digest is equivalent to the standard's. However a message is cut into pieces, after
  the pieces have been fed one by one the digest is the SHA-1 of the whole message.\<close>

theorem sha1_stream: "digest (fold sha_update pieces Sha1_new) = Some (sha1_spec (concat pieces))"
proof -
  have "holds (fold sha_update pieces sh) (m @ concat pieces)" if "holds sh m" for sh m
    using that
  proof (induction pieces arbitrary: sh m)
    case (Cons p ps)
    from Cons.IH [OF holds_update [OF Cons.prems, of p]] show ?case by simp
  qed simp
  from this [OF holds_new] show ?thesis by (intro digest_spec) simp
qed

text \<open>C16: taking the digest ends from every state, whatever the counter and the buffer hold: the padding loop
  passes fewer than 64 times, also when the 64-bit counter wraps, and the result has 20 bytes.\<close>

theorem sha1_digest_terminates: "\<exists>hash. digest sh = Some hash \<and> length hash = 20"
proof -
  let ?b = "\<lambda>s. unat (sh_count s) mod 64 \<noteq> 56" and ?f = "\<lambda>s. (120 - unat (sh_count s) mod 64) mod 64"
  have "?f (sha_update [0] s) < ?f s" if "?b s" for s
  proof -
    have n: "unat (sh_count s) mod 64 \<noteq> 56" using that by simp
    then obtain k where k: "?f s = Suc k" by (cases "?f s") (auto simp: pad_amount split: if_splits)
    with pad_step(1) [OF n] show ?thesis by (simp add: sha_update_count unat_inc_mod)
  qed
  then have "\<exists>s. while_option ?b (sha_update [0]) (sha_update [0x80] sh) = Some s"
    by (intro measure_while_option_Some [where P = "\<lambda>_. True" and f = ?f]) auto
  then obtain s where w: "while_option ?b (sha_update [0]) (sha_update [0x80] sh) = Some s" by blast
  obtain a b c d e where "sh_state (fold (\<lambda>i. sha_update [ucast (drop_bit (i * 8) (sh_count sh * 8))]) (rev [0..<8]) s) = (a, b, c, d, e)"
    by (metis surj_pair)
  then show ?thesis by (simp add: digest_def Let_def w del: upt_Suc)
qed

text \<open>The handshake answers every key, and a client that decodes the accept field finds the SHA-1 of its
  key followed by the protocol's identifier.\<close>

lemma handshake_accept:
  "\<exists>accept. buildHandshakeResponse key = Some (''HTTP/1.1 101 Switching Protocols'' @ [CHR 0x0D, CHR 0x0A] @
      ''Upgrade: websocket'' @ [CHR 0x0D, CHR 0x0A] @ ''Connection: Upgrade'' @ [CHR 0x0D, CHR 0x0A] @
      ''Sec-WebSocket-Accept: '' @ accept @ [CHR 0x0D, CHR 0x0A, CHR 0x0D, CHR 0x0A]) \<and>
    base64_decode accept = Some (sha1_spec (map of_char key @ ws_magic))"
proof -
  have "holds (sha_update ws_magic (sha_update (map of_char key) Sha1_new)) (map of_char key @ ws_magic)"
    using holds_update [OF holds_update [OF holds_new]] by simp
  then have "digest (sha_update ws_magic (sha_update (map of_char key) Sha1_new)) = Some (sha1_spec (map of_char key @ ws_magic))"
    by (rule digest_spec)
  then show ?thesis
    using base64_from_groups [of "[]"] by (intro exI) (auto simp: buildHandshakeResponse_def base64Encode_def base64_decode_groups)
qed

end
