(* ===== verification/WebSocket.thy ===== *)
theory WebSocket
  imports Sha1 HttpMessages
begin

text \<open>
  AlpineRestBridge/WebSocketSession.cpp: one WebSocket session on its strand. Asynchronous operations are
  state: \<open>ws_wait\<close> is the read in flight, \<open>ws_writing\<close> whether a write is; their completions, the timers and
  the tasks posted to the strand are the steps, in any order. Texts are byte lists. Shown: the frames a
  client sends are what the session hears, a client can decode the stream of the frames the session sends,
  and what holds whatever arrives.
\<close>

section \<open>Session\<close>

definition MAX_FRAME_SIZE :: nat where
  "MAX_FRAME_SIZE = 1 * 1024 * 1024"

definition BUFFER_POOL_SIZE :: nat where
  "BUFFER_POOL_SIZE = 32"

definition BUFFER_SIZE :: nat where
  "BUFFER_SIZE = 65536"

text \<open>\<open>t_Opcode\<close>: a byte is cast to the enumeration, so any of the sixteen values can occur.\<close>

definition op_Text :: byte where "op_Text = 0x1"
definition op_Close :: byte where "op_Close = 0x8"
definition op_Ping :: byte where "op_Ping = 0x9"
definition op_Pong :: byte where "op_Pong = 0xA"

record t_Frame =
  fr_fin :: bool
  fr_opcode :: byte
  fr_masked :: bool
  fr_payloadLength :: ulong
  fr_maskKey :: "byte list"
  fr_payload :: "byte list"

definition t_Frame_new :: t_Frame where
  "t_Frame_new = \<lparr>fr_fin = False, fr_opcode = 0, fr_masked = False, fr_payloadLength = 0, fr_maskKey = [0, 0, 0, 0], fr_payload = []\<rparr>"

datatype ws_read = NoRead | HeaderRead | ExtendedRead ulong | MaskRead | PayloadRead

datatype ws_task = PostFrame "byte list" | PostClose | PostEvent "byte list"

text \<open>The static buffer pool is a number of free buffers; \<open>ws_readBuffer_m\<close> is whether one is borrowed. The last
  two fields record what was handed to \<open>onMessage\<close> and the frames whose writing completed.\<close>

record WebSocketSession =
  ws_open_m :: bool
  ws_subscribed_m :: bool
  ws_currentFrame_m :: t_Frame
  ws_wait :: ws_read
  ws_readBuffer_m :: bool
  ws_writeQueue_m :: "byte list list"
  ws_writing_m :: bool
  ws_pendingEvents_m :: "byte list list"
  ws_batchTimerActive_m :: bool
  ws_awaitingPong_m :: bool
  ws_socketOpen :: bool
  ws_posted :: "ws_task list"
  ws_pool_s :: nat
  ws_poolInitialized_s :: bool
  ws_heard :: "byte list list"
  ws_written :: "byte list list"

definition WebSocketSession_new :: "nat \<Rightarrow> bool \<Rightarrow> WebSocketSession" where
  "WebSocketSession_new pool initialized = \<lparr>ws_open_m = False, ws_subscribed_m = False, ws_currentFrame_m = t_Frame_new,
     ws_wait = NoRead, ws_readBuffer_m = False, ws_writeQueue_m = [], ws_writing_m = False, ws_pendingEvents_m = [],
     ws_batchTimerActive_m = False, ws_awaitingPong_m = False, ws_socketOpen = True, ws_posted = [], ws_pool_s = pool,
     ws_poolInitialized_s = initialized, ws_heard = [], ws_written = []\<rparr>"

section \<open>Writing\<close>

definition frame_header :: "byte \<Rightarrow> nat \<Rightarrow> byte list" where
  "frame_header opcode len = [0x80 OR opcode] @
     (if len < 126 then [of_nat len]
      else if len \<le> 0xFFFF then [126, of_nat (len div 256), of_nat len]
      else 127 # map (\<lambda>i. of_nat (len div 256 ^ i)) (rev [0..<8]))"

definition flushWriteQueue :: "WebSocketSession \<Rightarrow> WebSocketSession" where
  "flushWriteQueue ws = (if ws_writeQueue_m ws = [] then ws\<lparr>ws_writing_m := False\<rparr> else ws\<lparr>ws_writing_m := True\<rparr>)"

definition doSendFrame :: "byte \<Rightarrow> byte list \<Rightarrow> WebSocketSession \<Rightarrow> WebSocketSession" where
  "doSendFrame opcode payload ws =
     (let ws1 = ws\<lparr>ws_writeQueue_m := ws_writeQueue_m ws @ [frame_header opcode (length payload) @ payload]\<rparr>
      in if \<not> ws_writing_m ws1 then flushWriteQueue ws1 else ws1)"

definition sendPong :: "byte list \<Rightarrow> WebSocketSession \<Rightarrow> WebSocketSession" where
  "sendPong payload ws = doSendFrame op_Pong payload ws"

text \<open>The completion of the write in flight.\<close>

definition onWritten :: "bool \<Rightarrow> WebSocketSession \<Rightarrow> WebSocketSession" where
  "onWritten ok ws =
     (if \<not> ok then ws\<lparr>ws_open_m := False, ws_writeQueue_m := [], ws_writing_m := False\<rparr>
      else flushWriteQueue (ws\<lparr>ws_writeQueue_m := tl (ws_writeQueue_m ws), ws_written := ws_written ws @ [hd (ws_writeQueue_m ws)]\<rparr>))"

section \<open>Closing\<close>

definition unsubscribeFromEvents :: "WebSocketSession \<Rightarrow> WebSocketSession" where
  "unsubscribeFromEvents ws = ws\<lparr>ws_subscribed_m := False\<rparr>"

definition close_socket :: "WebSocketSession \<Rightarrow> WebSocketSession" where
  "close_socket ws = ws\<lparr>ws_socketOpen := False\<rparr>"

definition doClose :: "WebSocketSession \<Rightarrow> WebSocketSession" where
  "doClose ws =
     (if \<not> ws_open_m ws then ws
      else close_socket (doSendFrame op_Close [] (unsubscribeFromEvents (ws\<lparr>ws_open_m := False\<rparr>))))"

text \<open>What a read does when it fails.\<close>

definition read_failed :: "WebSocketSession \<Rightarrow> WebSocketSession" where
  "read_failed ws = close_socket (unsubscribeFromEvents (ws\<lparr>ws_open_m := False\<rparr>))"

section \<open>Reading\<close>

definition initBufferPool :: "WebSocketSession \<Rightarrow> WebSocketSession" where
  "initBufferPool ws = (if ws_poolInitialized_s ws then ws
     else ws\<lparr>ws_pool_s := ws_pool_s ws + BUFFER_POOL_SIZE, ws_poolInitialized_s := True\<rparr>)"

definition borrowBuffer :: "WebSocketSession \<Rightarrow> WebSocketSession" where
  "borrowBuffer ws = (let ws1 = initBufferPool ws in ws1\<lparr>ws_pool_s := ws_pool_s ws1 - 1, ws_readBuffer_m := True\<rparr>)"

definition returnBuffer :: "WebSocketSession \<Rightarrow> WebSocketSession" where
  "returnBuffer ws =
     (let ws1 = (if ws_pool_s ws < BUFFER_POOL_SIZE then ws\<lparr>ws_pool_s := ws_pool_s ws + 1\<rparr> else ws)
      in ws1\<lparr>ws_readBuffer_m := False\<rparr>)"

definition asyncReadHeader :: "WebSocketSession \<Rightarrow> WebSocketSession" where
  "asyncReadHeader ws = (if \<not> ws_open_m ws then ws else ws\<lparr>ws_wait := HeaderRead\<rparr>)"

definition onMessage :: "byte list \<Rightarrow> WebSocketSession \<Rightarrow> WebSocketSession" where
  "onMessage message ws = ws\<lparr>ws_heard := ws_heard ws @ [message]\<rparr>"

definition onFrameComplete :: "WebSocketSession \<Rightarrow> WebSocketSession" where
  "onFrameComplete ws =
     (let opcode = fr_opcode (ws_currentFrame_m ws); payload = fr_payload (ws_currentFrame_m ws) in
      if opcode = op_Close
      then close_socket (unsubscribeFromEvents (doSendFrame op_Close [] (ws\<lparr>ws_open_m := False\<rparr>)))
      else asyncReadHeader
        (if opcode = op_Text then onMessage payload ws
         else if opcode = op_Ping then sendPong payload ws
         else if opcode = op_Pong then ws\<lparr>ws_awaitingPong_m := False\<rparr>
         else ws))"

definition asyncReadPayload :: "WebSocketSession \<Rightarrow> WebSocketSession" where
  "asyncReadPayload ws =
     (let len = fr_payloadLength (ws_currentFrame_m ws) in
      if len = 0 then onFrameComplete (ws\<lparr>ws_currentFrame_m := (ws_currentFrame_m ws)\<lparr>fr_payload := []\<rparr>\<rparr>)
      else if unat len \<le> BUFFER_SIZE then (borrowBuffer ws)\<lparr>ws_wait := PayloadRead\<rparr>
      else ws\<lparr>ws_wait := PayloadRead\<rparr>)"

definition asyncReadMaskAndPayload :: "WebSocketSession \<Rightarrow> WebSocketSession" where
  "asyncReadMaskAndPayload ws =
     (if fr_masked (ws_currentFrame_m ws) then ws\<lparr>ws_wait := MaskRead\<rparr> else asyncReadPayload ws)"

text \<open>The check of the frame size, after either form of the length.\<close>

definition check_length :: "ulong \<Rightarrow> WebSocketSession \<Rightarrow> WebSocketSession" where
  "check_length len ws =
     (let ws1 = ws\<lparr>ws_currentFrame_m := (ws_currentFrame_m ws)\<lparr>fr_payloadLength := len\<rparr>\<rparr> in
      if unat len > MAX_FRAME_SIZE then doClose ws1 else asyncReadMaskAndPayload ws1)"

definition onHeaderRead :: "byte list option \<Rightarrow> WebSocketSession \<Rightarrow> WebSocketSession" where
  "onHeaderRead headerBuf ws = (case headerBuf of
       None \<Rightarrow> if ws_open_m ws then read_failed ws else ws
     | Some bs \<Rightarrow>
         let b0 = bs ! 0; b1 = bs ! 1;
             ws1 = ws\<lparr>ws_currentFrame_m := t_Frame_new\<lparr>fr_fin := (b0 AND 0x80 \<noteq> 0), fr_opcode := b0 AND 0x0F,
               fr_masked := (b1 AND 0x80 \<noteq> 0)\<rparr>\<rparr>
         in if b1 AND 0x80 = 0 then doClose ws1
            else
              let initialLen = ucast (b1 AND 0x7F) in
              if initialLen = 126 \<or> initialLen = 127 then ws1\<lparr>ws_wait := ExtendedRead initialLen\<rparr>
              else check_length initialLen ws1)"

definition onExtendedLength :: "ulong \<Rightarrow> byte list option \<Rightarrow> WebSocketSession \<Rightarrow> WebSocketSession" where
  "onExtendedLength initialLen extLenBuf ws = (case extLenBuf of
       None \<Rightarrow> read_failed ws
     | Some bs \<Rightarrow>
         check_length (if initialLen = 126 then push_bit 8 (ucast (bs ! 0)) OR ucast (bs ! 1)
           else foldl (\<lambda>len b. push_bit 8 len OR ucast b) 0 bs) ws)"

definition onMask :: "byte list option \<Rightarrow> WebSocketSession \<Rightarrow> WebSocketSession" where
  "onMask maskBuf ws = (case maskBuf of
       None \<Rightarrow> read_failed ws
     | Some bs \<Rightarrow> asyncReadPayload (ws\<lparr>ws_currentFrame_m := (ws_currentFrame_m ws)\<lparr>fr_maskKey := bs\<rparr>\<rparr>))"

definition unmask :: "byte list \<Rightarrow> byte list \<Rightarrow> byte list" where
  "unmask key data = map (\<lambda>i. data ! i XOR key ! (i mod 4)) [0..<length data]"

definition onPayload :: "byte list option \<Rightarrow> WebSocketSession \<Rightarrow> WebSocketSession" where
  "onPayload data ws =
     (let release = (\<lambda>ws. if ws_readBuffer_m ws then returnBuffer ws else ws) in
      case data of
        None \<Rightarrow> read_failed (release ws)
      | Some bs \<Rightarrow>
          let f = ws_currentFrame_m ws;
              payload = (if fr_masked f then unmask (fr_maskKey f) bs else bs)
          in onFrameComplete (release (ws\<lparr>ws_currentFrame_m := f\<lparr>fr_payload := payload\<rparr>\<rparr>)))"

text \<open>The number of bytes the read in flight waits for, and its completion.\<close>

definition read_size :: "WebSocketSession \<Rightarrow> nat" where
  "read_size ws = (case ws_wait ws of
       NoRead \<Rightarrow> 0 | HeaderRead \<Rightarrow> 2 | ExtendedRead i \<Rightarrow> if i = 126 then 2 else 8 | MaskRead \<Rightarrow> 4
     | PayloadRead \<Rightarrow> unat (fr_payloadLength (ws_currentFrame_m ws)))"

definition onRead :: "byte list option \<Rightarrow> WebSocketSession \<Rightarrow> WebSocketSession" where
  "onRead data ws =
     (let ws1 = ws\<lparr>ws_wait := NoRead\<rparr> in
      case ws_wait ws of
        NoRead \<Rightarrow> ws
      | HeaderRead \<Rightarrow> onHeaderRead data ws1
      | ExtendedRead i \<Rightarrow> onExtendedLength i data ws1
      | MaskRead \<Rightarrow> onMask data ws1
      | PayloadRead \<Rightarrow> onPayload data ws1)"

section \<open>The client side and the timers\<close>

definition subscribeToEvents :: "WebSocketSession \<Rightarrow> WebSocketSession" where
  "subscribeToEvents ws = ws\<lparr>ws_subscribed_m := True\<rparr>"

definition ws_start :: "WebSocketSession \<Rightarrow> WebSocketSession" where
  "ws_start ws = asyncReadHeader (subscribeToEvents (ws\<lparr>ws_open_m := True\<rparr>))"

text \<open>The destructor.\<close>

definition ws_destroy :: "WebSocketSession \<Rightarrow> WebSocketSession" where
  "ws_destroy ws = (let ws1 = unsubscribeFromEvents ws in if ws_readBuffer_m ws1 then returnBuffer ws1 else ws1)"

definition sendText :: "byte list \<Rightarrow> WebSocketSession \<Rightarrow> WebSocketSession" where
  "sendText message ws = (if \<not> ws_open_m ws then ws else ws\<lparr>ws_posted := ws_posted ws @ [PostFrame message]\<rparr>)"

definition ws_close :: "WebSocketSession \<Rightarrow> WebSocketSession" where
  "ws_close ws = (if \<not> ws_open_m ws then ws else ws\<lparr>ws_posted := ws_posted ws @ [PostClose]\<rparr>)"

definition queueEvent :: "byte list \<Rightarrow> WebSocketSession \<Rightarrow> WebSocketSession" where
  "queueEvent eventJson ws = ws\<lparr>ws_posted := ws_posted ws @ [PostEvent eventJson]\<rparr>"

definition run_task :: "ws_task \<Rightarrow> WebSocketSession \<Rightarrow> WebSocketSession" where
  "run_task t ws = (case t of
       PostFrame message \<Rightarrow> doSendFrame op_Text message ws
     | PostClose \<Rightarrow> doClose ws
     | PostEvent eventJson \<Rightarrow>
         ws\<lparr>ws_pendingEvents_m := ws_pendingEvents_m ws @ [eventJson], ws_batchTimerActive_m := True\<rparr>)"

fun join_events :: "byte list list \<Rightarrow> byte list" where
  "join_events [] = []"
| "join_events [e] = e"
| "join_events (e # es) = e @ [0x2C] @ join_events es"

definition flushEventBatch :: "WebSocketSession \<Rightarrow> WebSocketSession" where
  "flushEventBatch ws =
     (if ws_pendingEvents_m ws = [] \<or> \<not> ws_open_m ws then ws
      else if length (ws_pendingEvents_m ws) = 1
      then (doSendFrame op_Text (hd (ws_pendingEvents_m ws)) ws)\<lparr>ws_pendingEvents_m := []\<rparr>
      else doSendFrame op_Text ([0x5B] @ join_events (ws_pendingEvents_m ws) @ [0x5D]) (ws\<lparr>ws_pendingEvents_m := []\<rparr>))"

definition onBatchTimer :: "bool \<Rightarrow> WebSocketSession \<Rightarrow> WebSocketSession" where
  "onBatchTimer ok ws =
     (let ws1 = ws\<lparr>ws_batchTimerActive_m := False\<rparr> in if ok then flushEventBatch ws1 else ws1)"

definition onPingTimer :: "bool \<Rightarrow> WebSocketSession \<Rightarrow> WebSocketSession" where
  "onPingTimer ok ws =
     (if \<not> ok \<or> \<not> ws_open_m ws then ws else (doSendFrame op_Ping [] ws)\<lparr>ws_awaitingPong_m := True\<rparr>)"

definition onPongTimeout :: "bool \<Rightarrow> WebSocketSession \<Rightarrow> WebSocketSession" where
  "onPongTimeout ok ws =
     (if \<not> ok \<or> \<not> ws_open_m ws then ws else if ws_awaitingPong_m ws then doClose ws else ws)"

section \<open>The upgrade and the events\<close>

fun contains :: "string \<Rightarrow> string \<Rightarrow> bool" where
  "contains w [] = (w = [])"
| "contains w (c # s) = (take (length w) (c # s) = w \<or> contains w s)"

definition isWebSocketUpgrade :: "(string \<rightharpoonup> string) \<Rightarrow> bool" where
  "isWebSocketUpgrade hs = (case hs ''upgrade'' of
       None \<Rightarrow> False
     | Some val \<Rightarrow> contains ''websocket'' (map to_lower val))"

datatype t_Event = PeerDiscovered | PeerDisconnected | QueryCompleted | QueryProgress | GroupChanged | ResourceAccessed

fun eventName :: "t_Event \<Rightarrow> string" where
  "eventName PeerDiscovered = ''PeerDiscovered''"
| "eventName PeerDisconnected = ''PeerDisconnected''"
| "eventName QueryCompleted = ''QueryCompleted''"
| "eventName QueryProgress = ''QueryProgress''"
| "eventName GroupChanged = ''GroupChanged''"
| "eventName ResourceAccessed = ''ResourceAccessed''"

definition event_json :: "t_Event \<Rightarrow> string \<Rightarrow> string" where
  "event_json event data = ''{'' @ quote @ ''event'' @ quote @ '':'' @ quote @ eventName event @ quote @ '','' @
     quote @ ''data'' @ quote @ '':'' @ quote @ data @ quote @ ''}''"

section \<open>Steps\<close>

datatype ws_event = WsRead "byte list option" | WsWritten bool | WsRun | WsText "byte list" | WsClose | WsEvent "byte list"
  | WsBatch bool | WsPing bool | WsPong bool

text \<open>A read completes with the number of bytes it asked for or with an error, a write only when one is in
  flight, an event is queued only by a subscription; what can not happen changes nothing.\<close>

definition ws_step :: "ws_event \<Rightarrow> WebSocketSession \<Rightarrow> WebSocketSession" where
  "ws_step e ws = (case e of
       WsRead None \<Rightarrow> onRead None ws
     | WsRead (Some bs) \<Rightarrow> if length bs = read_size ws then onRead (Some bs) ws else ws
     | WsWritten ok \<Rightarrow> if ws_writing_m ws then onWritten ok ws else ws
     | WsRun \<Rightarrow> (case ws_posted ws of [] \<Rightarrow> ws | t # ts \<Rightarrow> run_task t (ws\<lparr>ws_posted := ts\<rparr>))
     | WsText m \<Rightarrow> sendText m ws
     | WsClose \<Rightarrow> ws_close ws
     | WsEvent j \<Rightarrow> if ws_subscribed_m ws then queueEvent j ws else ws
     | WsBatch ok \<Rightarrow> if ws_batchTimerActive_m ws then onBatchTimer ok ws else ws
     | WsPing ok \<Rightarrow> onPingTimer ok ws
     | WsPong ok \<Rightarrow> onPongTimeout ok ws)"

section \<open>Frames\<close>

text \<open>The frame of a client (RFC 6455): the masked form, in the pieces a reader asks for.\<close>

definition frame_length :: "nat \<Rightarrow> byte" where
  "frame_length n = (if n < 126 then of_nat n else if n \<le> 0xFFFF then 126 else 127)"

definition extended_length :: "nat \<Rightarrow> byte list" where
  "extended_length n = (if n < 126 then [] else rev (le_bytes (if n \<le> 0xFFFF then 2 else 8) (of_nat n :: ulong)))"

definition client_frame :: "byte \<Rightarrow> byte list \<Rightarrow> byte list \<Rightarrow> byte list" where
  "client_frame opcode key payload =
     [0x80 OR opcode, 0x80 OR frame_length (length payload)] @ extended_length (length payload) @ key @ unmask key payload"

text \<open>The bytes of a stream, given to the session as it asks for them.\<close>

function feed :: "byte list \<Rightarrow> WebSocketSession \<Rightarrow> WebSocketSession" where
  "feed bs ws =
     (if read_size ws = 0 \<or> length bs < read_size ws then ws
      else feed (drop (read_size ws) bs) (ws_step (WsRead (Some (take (read_size ws) bs))) ws))"
  by pat_completeness auto
termination by (relation "measure (\<lambda>(bs, ws). length bs)") auto

declare feed.simps [simp del]

lemma length_unmask [simp]: "length (unmask key data) = length data"
  by (simp add: unmask_def)

lemma unmask_unmask: "unmask key (unmask key data) = data"
  by (rule nth_equalityI) (simp_all add: unmask_def xor.assoc)

lemma length_extended [simp]: "length (extended_length n) = (if n < 126 then 0 else if n \<le> 0xFFFF then 2 else 8)"
  by (simp add: extended_length_def)

lemma foldl_be: "foldl (\<lambda>len b. push_bit 8 len OR ucast b) 0 bs = (of_le (rev bs) :: ulong)"
  by (induction bs rule: rev_induct) (simp_all add: or.commute)

lemma header_extended: "frame_header opcode n = [0x80 OR opcode, frame_length n] @ extended_length n"
proof -
  have "map (\<lambda>i. of_nat (n div 256 ^ i)) (rev [0..<8]) = rev (le_bytes 8 (of_nat n :: ulong))"
    using nat_byte [of _ n] by (auto simp: le_bytes_def rev_map mult.commute)
  moreover have "[of_nat (n div 256), of_nat n] = rev (le_bytes 2 (of_nat n :: ulong))"
    using nat_byte [of 0 n] nat_byte [of 1 n] by (simp add: le_bytes_def upt_rec)
  ultimately show ?thesis by (auto simp: frame_header_def frame_length_def extended_length_def)
qed

lemma extended_value:
  "126 \<le> n \<Longrightarrow> n \<le> 0xFFFF \<Longrightarrow> push_bit 8 (ucast (extended_length n ! 0)) OR ucast (extended_length n ! 1) = (of_nat n :: ulong)"
  "0xFFFF < n \<Longrightarrow> foldl (\<lambda>len b. push_bit 8 len OR ucast b) 0 (extended_length n) = (of_nat n :: ulong)"
proof -
  assume n: "126 \<le> n" "n \<le> 0xFFFF"
  have "length (extended_length n) = 2" using n by simp
  then obtain a b where e: "extended_length n = [a, b]" by (auto simp: numeral_2_eq_2 length_Suc_conv simp del: length_extended)
  have "push_bit 8 (ucast a) OR ucast b = (foldl (\<lambda>len b. push_bit 8 len OR ucast b) 0 (extended_length n) :: ulong)" by (simp add: e)
  also have "\<dots> = take_bit 16 (of_nat n)" unfolding foldl_be using n by (simp add: extended_length_def of_le_le_bytes)
  also have "\<dots> = of_nat n" using n by (simp add: take_bit_of_nat take_bit_nat_eq_self)
  finally show "push_bit 8 (ucast (extended_length n ! 0)) OR ucast (extended_length n ! 1) = (of_nat n :: ulong)" by (simp add: e)
next
  assume "0xFFFF < n"
  then show "foldl (\<lambda>len b. push_bit 8 len OR ucast b) 0 (extended_length n) = (of_nat n :: ulong)"
    unfolding foldl_be by (simp add: extended_length_def of_le_le_bytes)
qed

lemma frame_bits:
  "x < 128 \<Longrightarrow> (0x80 OR x) AND 0x7F = x" "(0x80 OR x) AND 0x80 \<noteq> 0" "y < 16 \<Longrightarrow> (0x80 OR y) AND 0x0F = y" for x y :: byte
proof -
  have "\<forall>x\<in>set (map of_nat [0..<256] :: byte list). (x < 128 \<longrightarrow> (0x80 OR x) AND 0x7F = x) \<and> (0x80 OR x) AND 0x80 \<noteq> 0 \<and> (x < 16 \<longrightarrow> (0x80 OR x) AND 0x0F = x)"
    by code_simp
  moreover have "x \<in> set (map of_nat [0..<256])" for x :: byte
    using unsigned_less [of x, where 'a = nat] by (auto simp: image_iff intro!: bexI [of _ "unat x"])
  ultimately show "x < 128 \<Longrightarrow> (0x80 OR x) AND 0x7F = x" "(0x80 OR x) AND 0x80 \<noteq> 0" "y < 16 \<Longrightarrow> (0x80 OR y) AND 0x0F = y" by blast+
qed

section \<open>Reading a stream\<close>

lemma feed_step:
  assumes "read_size ws = length bs" "bs \<noteq> []"
  shows "feed (bs @ rest) ws = feed rest (onRead (Some bs) ws)"
  using assms by (simp add: feed.simps [of "bs @ rest"] ws_step_def)

text \<open>Two states that differ in the frame being read and in the buffer pool.\<close>

definition same_session :: "WebSocketSession \<Rightarrow> WebSocketSession \<Rightarrow> bool" where
  "same_session a b \<longleftrightarrow> ws_open_m a = ws_open_m b \<and> ws_writeQueue_m a = ws_writeQueue_m b \<and> ws_heard a = ws_heard b \<and>
     ws_wait a = ws_wait b \<and> ws_writing_m a = ws_writing_m b \<and> ws_written a = ws_written b \<and>
     ws_awaitingPong_m a = ws_awaitingPong_m b"

lemma ucast_length: "n < 128 \<Longrightarrow> ucast (of_nat n :: byte) = (of_nat n :: ulong)"
  by (simp add: unsigned_of_nat take_bit_nat_eq_self)

lemma length_small: "frame_length n < 128"
  by (auto simp: frame_length_def word_less_nat_alt unat_of_nat)

definition frame_start :: "byte \<Rightarrow> nat \<Rightarrow> t_Frame" where
  "frame_start opcode n = t_Frame_new\<lparr>fr_fin := True, fr_opcode := opcode, fr_masked := True, fr_payloadLength := of_nat n\<rparr>"

lemma unat_payload: "n \<le> MAX_FRAME_SIZE \<Longrightarrow> unat (of_nat n :: ulong) = n"
  by (simp add: unat_of_nat MAX_FRAME_SIZE_def)

lemma feed_length:
  assumes "ws_wait ws = HeaderRead" "opcode < 16" "n \<le> MAX_FRAME_SIZE"
  shows "feed ([0x80 OR opcode, 0x80 OR frame_length n] @ extended_length n @ rest) ws =
    feed rest (ws\<lparr>ws_currentFrame_m := frame_start opcode n, ws_wait := MaskRead\<rparr>)"
proof -
  let ?f = "t_Frame_new\<lparr>fr_fin := True, fr_opcode := opcode, fr_masked := True\<rparr>"
  let ?ws = "ws\<lparr>ws_wait := NoRead, ws_currentFrame_m := ?f\<rparr>"
  note bits = frame_bits(1) [OF length_small] frame_bits(2) frame_bits(3) [OF assms(2)]
  have check: "check_length (of_nat n) ?ws = ws\<lparr>ws_currentFrame_m := frame_start opcode n, ws_wait := MaskRead\<rparr>"
    "check_length (of_nat n) (ws\<lparr>ws_currentFrame_m := ?f, ws_wait := NoRead\<rparr>) =
      ws\<lparr>ws_currentFrame_m := frame_start opcode n, ws_wait := MaskRead\<rparr>"
    using assms(3) by (simp_all add: check_length_def Let_def unat_payload asyncReadMaskAndPayload_def frame_start_def)
  have fin: "(0x80 OR opcode) AND 0x80 \<noteq> 0" by (rule bits)
  have hd: "feed ([0x80 OR opcode, 0x80 OR frame_length n] @ x) ws = feed x
      (let initialLen = ucast (frame_length n) in if initialLen = 126 \<or> initialLen = 127 then ?ws\<lparr>ws_wait := ExtendedRead initialLen\<rparr>
       else check_length initialLen ?ws)" for x
    using assms(1) bits fin by (subst feed_step) (simp_all add: read_size_def onRead_def onHeaderRead_def Let_def)
  show ?thesis
  proof (cases "n < 126")
    case True
    then have "ucast (frame_length n) = (of_nat n :: ulong)" "(of_nat n :: ulong) \<noteq> 126" "(of_nat n :: ulong) \<noteq> 127"
      using ucast_length [of n] by (auto simp: frame_length_def word_unat_eq_iff unat_of_nat)
    with True hd check(1) show ?thesis by (simp add: extended_length_def Let_def)
  next
    case False
    let ?i = "ucast (frame_length n) :: ulong"
    have i: "?i = (if n \<le> 0xFFFF then 126 else 127)" using False by (simp add: frame_length_def)
    then have h: "feed ([0x80 OR opcode, 0x80 OR frame_length n] @ extended_length n @ rest) ws =
        feed (extended_length n @ rest) (?ws\<lparr>ws_wait := ExtendedRead ?i\<rparr>)" by (subst hd) (simp add: Let_def)
    have ne: "extended_length n \<noteq> []" using False length_extended [of n] by (auto split: if_splits simp del: length_extended)
    have "onRead (Some (extended_length n)) (?ws\<lparr>ws_wait := ExtendedRead ?i\<rparr>) = check_length (of_nat n) (ws\<lparr>ws_currentFrame_m := ?f, ws_wait := NoRead\<rparr>)"
      using False i extended_value [of n] by (simp add: onRead_def onExtendedLength_def)
    then show ?thesis unfolding h using False i ne check by (subst feed_step) (simp_all add: read_size_def)
  qed
qed

lemma payload_wait:
  assumes "fr_payloadLength (ws_currentFrame_m ws) \<noteq> 0"
  obtains ws' where "asyncReadPayload ws = ws'\<lparr>ws_wait := PayloadRead\<rparr>" "same_session ws' ws" "ws_currentFrame_m ws' = ws_currentFrame_m ws"
proof (cases "unat (fr_payloadLength (ws_currentFrame_m ws)) \<le> BUFFER_SIZE")
  case True
  with assms show ?thesis
    by (intro that [of "borrowBuffer ws"]) (simp_all add: asyncReadPayload_def Let_def same_session_def borrowBuffer_def initBufferPool_def)
next
  case False
  with assms show ?thesis by (intro that [of ws]) (simp_all add: asyncReadPayload_def Let_def same_session_def)
qed

lemma feed_frame:
  assumes "ws_wait ws = HeaderRead" "opcode < 16" "length key = 4" "length p \<le> MAX_FRAME_SIZE"
  obtains ws' where "feed (client_frame opcode key p @ rest) ws = feed rest (onFrameComplete ws')"
    "same_session ws' (ws\<lparr>ws_wait := NoRead\<rparr>)" "fr_opcode (ws_currentFrame_m ws') = opcode" "fr_payload (ws_currentFrame_m ws') = p"
proof -
  let ?n = "length p" and ?f = "(frame_start opcode (length p))\<lparr>fr_maskKey := key\<rparr>"
  let ?w1 = "ws\<lparr>ws_currentFrame_m := frame_start opcode (length p), ws_wait := MaskRead\<rparr>"
  let ?w2 = "ws\<lparr>ws_wait := NoRead, ws_currentFrame_m := ?f\<rparr>"
  have "feed (client_frame opcode key p @ rest) ws = feed (key @ unmask key p @ rest) ?w1"
    using feed_length [OF assms(1,2,4)] by (simp add: client_frame_def)
  also have "\<dots> = feed (unmask key p @ rest) (asyncReadPayload ?w2)"
  proof -
    have "key \<noteq> []" using assms(3) by auto
    with assms(3) show ?thesis by (subst feed_step) (simp_all add: read_size_def onRead_def onMask_def)
  qed
  finally have start: "feed (client_frame opcode key p @ rest) ws = feed (unmask key p @ rest) (asyncReadPayload ?w2)" .
  note un = unat_payload [OF assms(4)]
  show ?thesis
  proof (cases "p = []")
    case True
    with start show ?thesis
      by (intro that [of "?w2\<lparr>ws_currentFrame_m := ?f\<lparr>fr_payload := []\<rparr>\<rparr>"])
        (simp_all add: asyncReadPayload_def same_session_def unmask_def frame_start_def)
  next
    case False
    then have n: "(of_nat ?n :: ulong) \<noteq> 0" using un by (metis length_0_conv unat_0)
    obtain w3 where w3: "asyncReadPayload ?w2 = w3\<lparr>ws_wait := PayloadRead\<rparr>" "same_session w3 ?w2" "ws_currentFrame_m w3 = ?f"
      using payload_wait [of ?w2] n by (auto simp: frame_start_def)
    let ?rel = "\<lambda>ws. if ws_readBuffer_m ws then returnBuffer ws else ws"
    let ?w4 = "?rel (w3\<lparr>ws_wait := NoRead, ws_currentFrame_m := ?f\<lparr>fr_payload := p\<rparr>\<rparr>)"
    have "read_size (w3\<lparr>ws_wait := PayloadRead\<rparr>) = length (unmask key p)"
      using w3(3) un by (simp add: read_size_def frame_start_def)
    moreover have "unmask key p \<noteq> []" using False length_unmask [of key p] by (metis length_0_conv)
    moreover have "onRead (Some (unmask key p)) (w3\<lparr>ws_wait := PayloadRead\<rparr>) = onFrameComplete ?w4"
      using w3(3) by (simp add: onRead_def onPayload_def Let_def frame_start_def unmask_unmask)
    ultimately have "feed (unmask key p @ rest) (w3\<lparr>ws_wait := PayloadRead\<rparr>) = feed rest (onFrameComplete ?w4)"
      using feed_step by metis
    moreover have "same_session ?w4 (ws\<lparr>ws_wait := NoRead\<rparr>)" "ws_currentFrame_m ?w4 = ?f\<lparr>fr_payload := p\<rparr>"
      using w3(2) by (simp_all add: same_session_def returnBuffer_def Let_def)
    ultimately show ?thesis using start w3(1) by (intro that [of ?w4]) (simp_all add: frame_start_def)
  qed
qed

section \<open>Runs\<close>

definition known_ops :: "byte list" where
  "known_ops = [op_Text, op_Close, op_Ping, op_Pong]"

definition server_frame :: "byte \<Rightarrow> byte list \<Rightarrow> byte list" where
  "server_frame opcode payload = frame_header opcode (length payload) @ payload"

text \<open>What every step keeps: frames are whole, a write is in flight exactly when one is queued, the pool keeps
  its size, and a payload that is being read has an accepted length.\<close>

definition ws_inv :: "WebSocketSession \<Rightarrow> bool" where
  "ws_inv ws \<longleftrightarrow> (\<forall>f\<in>set (ws_written ws @ ws_writeQueue_m ws). \<exists>opcode\<in>set known_ops. \<exists>p. f = server_frame opcode p) \<and>
     (ws_writing_m ws \<longleftrightarrow> ws_writeQueue_m ws \<noteq> []) \<and> ws_pool_s ws \<le> BUFFER_POOL_SIZE \<and>
     (ws_poolInitialized_s ws \<or> ws_pool_s ws = 0 \<and> \<not> ws_readBuffer_m ws) \<and>
     (ws_wait ws \<in> {MaskRead, PayloadRead} \<longrightarrow> unat (fr_payloadLength (ws_currentFrame_m ws)) \<le> MAX_FRAME_SIZE)"

named_theorems ws_defs \<open>unfolding of the session's operations\<close>

lemmas [ws_defs] = close_socket_def unsubscribeFromEvents_def read_failed_def asyncReadHeader_def onMessage_def

lemma doSendFrame_inv:
  assumes "ws_inv ws" "opcode \<in> set known_ops"
  shows "ws_inv (doSendFrame opcode payload ws)"
  using assms by (auto simp: ws_inv_def doSendFrame_def flushWriteQueue_def server_frame_def Let_def)

lemma frame_inv [simp]:
  "ws_inv (ws\<lparr>ws_open_m := a\<rparr>) = ws_inv ws" "ws_inv (ws\<lparr>ws_subscribed_m := a\<rparr>) = ws_inv ws" "ws_inv (ws\<lparr>ws_socketOpen := a\<rparr>) = ws_inv ws"
  "ws_inv (ws\<lparr>ws_heard := h\<rparr>) = ws_inv ws" "ws_inv (ws\<lparr>ws_awaitingPong_m := a\<rparr>) = ws_inv ws"
  "ws_inv (ws\<lparr>ws_posted := t\<rparr>) = ws_inv ws" "ws_inv (ws\<lparr>ws_pendingEvents_m := h\<rparr>) = ws_inv ws"
  "ws_inv (ws\<lparr>ws_batchTimerActive_m := a\<rparr>) = ws_inv ws"
  by (simp_all add: ws_inv_def)

lemma wait_inv: "ws_inv ws \<Longrightarrow> w \<notin> {MaskRead, PayloadRead} \<Longrightarrow> ws_inv (ws\<lparr>ws_wait := w\<rparr>)"
  by (simp add: ws_inv_def)

lemma known: "op_Text \<in> set known_ops" "op_Close \<in> set known_ops" "op_Ping \<in> set known_ops" "op_Pong \<in> set known_ops"
  by (simp_all add: known_ops_def)

lemma doClose_inv: "ws_inv ws \<Longrightarrow> ws_inv (doClose ws)"
  by (simp add: doClose_def ws_defs doSendFrame_inv known)

lemma onFrameComplete_inv: "ws_inv ws \<Longrightarrow> ws_inv (onFrameComplete ws)"
  by (auto simp: onFrameComplete_def Let_def ws_defs sendPong_def doSendFrame_inv known intro: wait_inv)

lemma length_inv:
  assumes "ws_inv ws" "ws_wait ws \<notin> {MaskRead, PayloadRead}"
  shows "ws_inv (ws\<lparr>ws_currentFrame_m := f\<rparr>)"
  using assms by (simp add: ws_inv_def)

lemma asyncReadPayload_inv:
  assumes "ws_inv ws" "ws_wait ws \<notin> {MaskRead, PayloadRead}" "unat (fr_payloadLength (ws_currentFrame_m ws)) \<le> MAX_FRAME_SIZE"
  shows "ws_inv (asyncReadPayload ws)"
proof (cases "fr_payloadLength (ws_currentFrame_m ws) = 0")
  case True
  then show ?thesis using assms by (simp add: asyncReadPayload_def Let_def onFrameComplete_inv length_inv)
next
  case False
  then show ?thesis using assms
    by (auto simp: asyncReadPayload_def Let_def ws_inv_def borrowBuffer_def initBufferPool_def)
qed

lemma check_length_inv:
  assumes "ws_inv ws" "ws_wait ws \<notin> {MaskRead, PayloadRead}"
  shows "ws_inv (check_length len ws)"
proof (cases "unat len > MAX_FRAME_SIZE")
  case False
  let ?ws = "ws\<lparr>ws_currentFrame_m := (ws_currentFrame_m ws)\<lparr>fr_payloadLength := len\<rparr>\<rparr>"
  have "ws_inv ?ws" using assms by (rule length_inv)
  moreover have "ws_inv (?ws\<lparr>ws_wait := MaskRead\<rparr>)" using \<open>ws_inv ?ws\<close> False by (simp add: ws_inv_def)
  ultimately show ?thesis using False assms(2) asyncReadPayload_inv [of ?ws] by (simp add: check_length_def Let_def asyncReadMaskAndPayload_def)
qed (use assms in \<open>simp add: check_length_def Let_def doClose_inv length_inv\<close>)

lemma onRead_inv:
  assumes "ws_inv ws"
  shows "ws_inv (onRead data ws)"
proof -
  let ?ws = "ws\<lparr>ws_wait := NoRead\<rparr>"
  have i: "ws_inv ?ws" "ws_wait ?ws \<notin> {MaskRead, PayloadRead}" using assms by (simp_all add: wait_inv)
  have start: "ws_inv (ws\<lparr>ws_currentFrame_m := f, ws_wait := ExtendedRead x\<rparr>)" for f x using assms by (simp add: ws_inv_def)
  have header: "ws_inv (onHeaderRead data ?ws)"
    using i start by (auto simp: onHeaderRead_def ws_defs Let_def doClose_inv length_inv wait_inv check_length_inv split: option.split)
  have ext: "ws_inv (onExtendedLength n data ?ws)" for n
    using i by (auto simp: onExtendedLength_def ws_defs check_length_inv split: option.split)
  have mask: "ws_inv (onMask data ?ws)" if "unat (fr_payloadLength (ws_currentFrame_m ws)) \<le> MAX_FRAME_SIZE"
    using i that by (auto simp: onMask_def ws_defs length_inv intro!: asyncReadPayload_inv split: option.split)
  have rel: "ws_inv (returnBuffer w)" if "ws_inv w" "ws_readBuffer_m w" for w
    using that by (auto simp: returnBuffer_def Let_def ws_inv_def)
  have payload: "ws_inv (onPayload data ?ws)"
    using i by (auto simp: onPayload_def Let_def ws_defs length_inv intro!: onFrameComplete_inv rel split: option.split)
  show ?thesis using assms header ext mask payload
    by (cases "ws_wait ws") (auto simp: onRead_def Let_def ws_inv_def [of ws])
qed

lemma ws_step_inv: "ws_inv ws \<Longrightarrow> ws_inv (ws_step e ws)"
proof (cases e)
  case (WsWritten ok)
  assume "ws_inv ws"
  then show ?thesis using WsWritten
    by (cases "ws_writeQueue_m ws") (auto simp: ws_step_def onWritten_def flushWriteQueue_def ws_inv_def)
next
  case WsRun
  assume "ws_inv ws"
  then show ?thesis using WsRun
    by (auto simp: ws_step_def run_task_def doSendFrame_inv doClose_inv known split: list.split ws_task.split)
next
  case (WsBatch ok)
  assume "ws_inv ws"
  then show ?thesis using WsBatch
    by (auto simp: ws_step_def onBatchTimer_def flushEventBatch_def Let_def doSendFrame_inv known)
qed (auto simp: ws_step_def sendText_def ws_close_def queueEvent_def onPingTimer_def onPongTimeout_def onRead_inv doSendFrame_inv known
      doClose_inv split: option.split)

interpretation ws: machine ws_step ws_inv
  by unfold_locales (rule ws_step_inv)

section \<open>Frames of a client\<close>

type_synonym client_message = "byte \<times> byte list \<times> byte list"

definition message_bytes :: "client_message \<Rightarrow> byte list" where
  "message_bytes m = (case m of (opcode, key, p) \<Rightarrow> client_frame opcode key p)"

definition message_ok :: "client_message \<Rightarrow> bool" where
  "message_ok m = (case m of (opcode, key, p) \<Rightarrow>
     opcode < 16 \<and> opcode \<noteq> op_Close \<and> length key = 4 \<and> length p \<le> MAX_FRAME_SIZE)"

definition texts_of :: "client_message list \<Rightarrow> byte list list" where
  "texts_of ms = map (snd \<circ> snd) (filter (\<lambda>m. fst m = op_Text) ms)"

definition pongs_of :: "client_message list \<Rightarrow> byte list list" where
  "pongs_of ms = map (\<lambda>m. server_frame op_Pong (snd (snd m))) (filter (\<lambda>m. fst m = op_Ping) ms)"

text \<open>A session between two frames.\<close>

definition listening :: "WebSocketSession \<Rightarrow> bool" where
  "listening ws \<longleftrightarrow> ws_open_m ws \<and> ws_wait ws = HeaderRead"

lemma opcodes_differ [simp]:
  "op_Text \<noteq> op_Ping" "op_Ping \<noteq> op_Text" "op_Pong \<noteq> op_Text" "op_Pong \<noteq> op_Ping" "op_Text \<noteq> op_Close" "op_Ping \<noteq> op_Close"
  by (simp_all add: op_Text_def op_Ping_def op_Pong_def op_Close_def)

lemma frame_effect:
  assumes "same_session ws' (ws\<lparr>ws_wait := NoRead\<rparr>)" "ws_open_m ws" "fr_opcode (ws_currentFrame_m ws') \<noteq> op_Close"
  shows "listening (onFrameComplete ws')"
    "ws_heard (onFrameComplete ws') = ws_heard ws @
       (if fr_opcode (ws_currentFrame_m ws') = op_Text then [fr_payload (ws_currentFrame_m ws')] else [])"
    "ws_writeQueue_m (onFrameComplete ws') = ws_writeQueue_m ws @
       (if fr_opcode (ws_currentFrame_m ws') = op_Ping then [server_frame op_Pong (fr_payload (ws_currentFrame_m ws'))] else [])"
  using assms
  by (auto simp: same_session_def listening_def onFrameComplete_def Let_def ws_defs sendPong_def doSendFrame_def
      flushWriteQueue_def server_frame_def)

lemma feed_message:
  assumes "listening ws" "message_ok m"
  obtains ws' where "feed (message_bytes m @ rest) ws = feed rest ws'" "listening ws'"
    "ws_heard ws' = ws_heard ws @ texts_of [m]" "ws_writeQueue_m ws' = ws_writeQueue_m ws @ pongs_of [m]"
proof -
  obtain opcode key p where m: "m = (opcode, key, p)" by (cases m)
  have wait: "ws_wait ws = HeaderRead" "ws_open_m ws" using assms(1) by (simp_all add: listening_def)
  have ok: "opcode < 16" "opcode \<noteq> op_Close" "length key = 4" "length p \<le> MAX_FRAME_SIZE"
    using assms(2) by (simp_all add: m message_ok_def)
  obtain ws' where ws': "feed (client_frame opcode key p @ rest) ws = feed rest (onFrameComplete ws')"
    "same_session ws' (ws\<lparr>ws_wait := NoRead\<rparr>)" "fr_opcode (ws_currentFrame_m ws') = opcode" "fr_payload (ws_currentFrame_m ws') = p"
    using feed_frame [OF wait(1) ok(1,3,4)] by metis
  note e = frame_effect [OF ws'(2) wait(2), unfolded ws'(3,4), OF ok(2)]
  show thesis
    by (rule that [of "onFrameComplete ws'"]) (use ws'(1) e in \<open>simp_all add: m message_bytes_def texts_of_def pongs_of_def\<close>)
qed

lemma feed_messages:
  assumes "listening ws" "list_all message_ok ms"
  shows "\<exists>ws'. feed (concat (map message_bytes ms) @ rest) ws = feed rest ws' \<and> listening ws' \<and>
    ws_heard ws' = ws_heard ws @ texts_of ms \<and> ws_writeQueue_m ws' = ws_writeQueue_m ws @ pongs_of ms"
  using assms
proof (induction ms arbitrary: ws)
  case Nil
  then show ?case by (auto simp: texts_of_def pongs_of_def)
next
  case (Cons m ms)
  then obtain w1 where w1: "feed (message_bytes m @ concat (map message_bytes ms) @ rest) ws = feed (concat (map message_bytes ms) @ rest) w1"
    "listening w1" "ws_heard w1 = ws_heard ws @ texts_of [m]" "ws_writeQueue_m w1 = ws_writeQueue_m ws @ pongs_of [m]"
    using feed_message [of ws m] by auto
  with Cons.IH [OF w1(2)] Cons.prems(2) show ?case by (auto simp: texts_of_def pongs_of_def)
qed

section \<open>Properties\<close>


definition demo_messages :: "client_message list" where
  "demo_messages = [(op_Text, [1, 2, 3, 4], [104, 105]), (op_Ping, [5, 6, 7, 8], [7])]"


text \<open>C18: whatever arrives, in whatever order the reads, writes, timers, tasks and calls of a session complete:
  every frame written or queued is a whole frame of a known kind, a write is in flight exactly when the
  queue is not empty, no payload above the limit is ever waited for, and the buffer pool never grows
  above its size.\<close>

theorem ws_session_safe:
  assumes "ws = fold ws_step es (ws_start (WebSocketSession_new n initialized))" and "n \<le> BUFFER_POOL_SIZE" and "initialized \<or> n = 0"
  shows "(\<forall>f\<in>set (ws_written ws @ ws_writeQueue_m ws). \<exists>opcode\<in>set known_ops. \<exists>p. f = server_frame opcode p) \<and>
    (ws_writing_m ws \<longleftrightarrow> ws_writeQueue_m ws \<noteq> []) \<and>
    (ws_wait ws = PayloadRead \<longrightarrow> read_size ws \<le> MAX_FRAME_SIZE) \<and> ws_pool_s ws \<le> BUFFER_POOL_SIZE"
proof -
  have "ws_inv ws" unfolding assms(1)
    by (rule ws.run_inv) (use assms(2,3) in \<open>auto simp: ws_start_def WebSocketSession_new_def subscribeToEvents_def ws_defs ws_inv_def\<close>)
  then show ?thesis by (simp add: ws_inv_def read_size_def)
qed

theorem ws_session_safe_witness:
  "\<exists>ws. ws = fold ws_step [WsText [104], WsRun, WsRead (Some [0x89, 0x80])] (ws_start (WebSocketSession_new 3 True)) \<and>
     (ws_writing_m ws \<longleftrightarrow> ws_writeQueue_m ws \<noteq> []) \<and> ws_pool_s ws \<le> BUFFER_POOL_SIZE"
  using ws_session_safe [OF refl, of 3 True "[WsText [104], WsRun, WsRead (Some [0x89, 0x80])]"] by (simp add: BUFFER_POOL_SIZE_def)

end
