(* ===== verification/Configuration.thy ===== *)
theory Configuration
  imports TextNumbers
begin

text \<open>
  base/ConfigUtils: the values a node is configured with (ConfigData.cpp), the command line
  (ArgumentMap.cpp), the environment (EnvironMap.cpp), the configuration file (ConfigFile.cpp), their
  combination (Configuration.cpp) and the rules of a schema (ConfigSchema.cpp). A null pointer is
  \<open>None\<close>; \<open>emplace\<close> of a hash map keeps the value that is already there. Shown: which sources decide a
  value, and that no call ever changes one that is set.
\<close>

section \<open>Values\<close>

datatype t_ElementType = ElString | ElNumber | ElStringList | ElNumberList

record t_ConfigElement =
  elementName :: string
  fileOptionName :: string
  argOptionName :: string
  envOptionName :: string
  optionType :: t_ElementType
  ce_required :: bool

record ConfigData =
  elementIndex_m :: "string \<rightharpoonup> t_ConfigElement"
  valueIndex_m :: "string \<rightharpoonup> string"
  valueListIndex_m :: "string \<rightharpoonup> string list"

definition emplace :: "'k \<Rightarrow> 'v \<Rightarrow> ('k \<rightharpoonup> 'v) \<Rightarrow> ('k \<rightharpoonup> 'v)" where
  "emplace k v m = (case m k of None \<Rightarrow> m(k \<mapsto> v) | Some w \<Rightarrow> m)"

definition ConfigData_new :: "t_ConfigElement list \<Rightarrow> ConfigData" where
  "ConfigData_new elementList = \<lparr>elementIndex_m = fold (\<lambda>e. emplace (elementName e) e) elementList Map.empty,
     valueIndex_m = Map.empty, valueListIndex_m = Map.empty\<rparr>"

definition list_type :: "t_ConfigElement \<Rightarrow> bool" where
  "list_type e \<longleftrightarrow> optionType e = ElStringList \<or> optionType e = ElNumberList"

definition valueIsSet :: "string \<Rightarrow> ConfigData \<Rightarrow> bool" where
  "valueIsSet name cd = (case elementIndex_m cd name of
       None \<Rightarrow> False
     | Some e \<Rightarrow> if list_type e then valueListIndex_m cd name \<noteq> None else valueIndex_m cd name \<noteq> None)"

definition cd_getValue :: "string \<Rightarrow> ConfigData \<Rightarrow> string option" where
  "cd_getValue name cd = valueIndex_m cd name"

definition cd_getList :: "string \<Rightarrow> ConfigData \<Rightarrow> string list option" where
  "cd_getList name cd = valueListIndex_m cd name"

definition cd_setValue :: "string \<Rightarrow> string \<Rightarrow> ConfigData \<Rightarrow> bool \<times> ConfigData" where
  "cd_setValue name v cd = (case elementIndex_m cd name of
       None \<Rightarrow> (False, cd)
     | Some e \<Rightarrow> if list_type e then (False, cd)
         else (True, cd\<lparr>valueIndex_m := emplace name v (valueIndex_m cd)\<rparr>))"

definition cd_setList :: "string \<Rightarrow> string list \<Rightarrow> ConfigData \<Rightarrow> bool \<times> ConfigData" where
  "cd_setList name vs cd = (case elementIndex_m cd name of
       None \<Rightarrow> (False, cd)
     | Some e \<Rightarrow> if \<not> list_type e then (False, cd)
         else (True, cd\<lparr>valueListIndex_m := emplace name vs (valueListIndex_m cd)\<rparr>))"

section \<open>The command line\<close>

text \<open>\<open>optionName\<close> is the option that waits for its value.\<close>

fun arg_loop :: "string list \<Rightarrow> string option \<Rightarrow> (string \<rightharpoonup> string) \<Rightarrow> (string \<rightharpoonup> string)" where
  "arg_loop [] optionName m = m"
| "arg_loop (currArg # args) optionName m =
     (if take 1 currArg = ''-'' then
        arg_loop args (Some (if take 1 (drop 1 currArg) = ''-'' then drop 2 currArg else drop 1 currArg))
          (case optionName of Some opt \<Rightarrow> emplace opt '''' m | None \<Rightarrow> m)
      else arg_loop args None (case optionName of Some opt \<Rightarrow> emplace opt currArg m | None \<Rightarrow> m))"

text \<open>The pointer to the index is null before the first call.\<close>

definition am_load :: "string list \<Rightarrow> (string \<rightharpoonup> string) option \<Rightarrow> (string \<rightharpoonup> string) option" where
  "am_load argv am = Some (arg_loop argv None (case am of None \<Rightarrow> Map.empty | Some m \<Rightarrow> m))"

definition am_get :: "string \<Rightarrow> (string \<rightharpoonup> string) option \<Rightarrow> string option" where
  "am_get name am = (case am of None \<Rightarrow> None | Some m \<Rightarrow> m name)"

definition am_exists :: "string \<Rightarrow> (string \<rightharpoonup> string) option \<Rightarrow> bool" where
  "am_exists name am = (case am of None \<Rightarrow> False | Some m \<Rightarrow> m name \<noteq> None)"

section \<open>The environment\<close>

text \<open>\<^verbatim>\<open>strtok_r\<close> with the delimiter \<^verbatim>\<open>=\<close>: nothing left, or the token and what follows. \<open>closed\<close> says
  whether the text ends with a null byte inside the buffer; reading on without one is \<open>None\<close>.\<close>

definition strtok :: "bool \<Rightarrow> string \<Rightarrow> (string \<times> string) option option" where
  "strtok closed s =
     (let t = dropWhile (\<lambda>c. c = CHR ''='') s; tok = takeWhile (\<lambda>c. c \<noteq> CHR ''='') t;
          r = dropWhile (\<lambda>c. c \<noteq> CHR ''='') t
      in if r = [] \<and> \<not> closed then None
         else if t = [] then Some None else Some (Some (tok, drop 1 r)))"

text \<open>\<open>stale\<close> is the last byte of the buffer, which \<^verbatim>\<open>strncpy\<close> never writes.\<close>

definition env_entry :: "char \<Rightarrow> string \<Rightarrow> (string \<rightharpoonup> string) \<Rightarrow> (string \<rightharpoonup> string) option" where
  "env_entry stale envVar m =
     (let closed = (length envVar < 2047 \<or> stale = CHR 0x00) in
      case strtok closed (take 2047 envVar) of
        None \<Rightarrow> None
      | Some None \<Rightarrow> Some m
      | Some (Some (currKey, s)) \<Rightarrow>
          (case strtok closed s of
             None \<Rightarrow> None
           | Some None \<Rightarrow> Some m
           | Some (Some (currValue, s1)) \<Rightarrow> Some (emplace currKey currValue m)))"

fun env_loop :: "char \<Rightarrow> string list \<Rightarrow> (string \<rightharpoonup> string) \<Rightarrow> (string \<rightharpoonup> string) option" where
  "env_loop stale [] m = Some m"
| "env_loop stale (v # vs) m = (case env_entry stale v m of None \<Rightarrow> None | Some m1 \<Rightarrow> env_loop stale vs m1)"

definition em_load :: "char \<Rightarrow> string list \<Rightarrow> (string \<rightharpoonup> string) option \<Rightarrow> (string \<rightharpoonup> string) option option" where
  "em_load stale environ em =
     map_option Some (env_loop stale environ (case em of None \<Rightarrow> Map.empty | Some m \<Rightarrow> m))"

definition em_get :: "string \<Rightarrow> (string \<rightharpoonup> string) option \<Rightarrow> string option" where
  "em_get name em = (case em of None \<Rightarrow> None | Some m \<Rightarrow> m name)"

definition em_exists :: "string \<Rightarrow> (string \<rightharpoonup> string) option \<Rightarrow> bool" where
  "em_exists name em = (case em of None \<Rightarrow> False | Some m \<Rightarrow> m name \<noteq> None)"

section \<open>The file\<close>

text \<open>The file is never read: initialisation keeps its name, and \<open>get\<close> reports success without touching
  the value it was given.\<close>

record ConfigFile =
  cf_fileName_m :: string
  cf_isDirty_m :: bool

definition ConfigFile_new :: ConfigFile where
  "ConfigFile_new = \<lparr>cf_fileName_m = [], cf_isDirty_m = False\<rparr>"

definition cf_initialize :: "string \<Rightarrow> ConfigFile \<Rightarrow> bool \<times> ConfigFile" where
  "cf_initialize fileName cf = (True, cf\<lparr>cf_fileName_m := fileName\<rparr>)"

definition cf_get :: "string \<Rightarrow> string \<Rightarrow> ConfigFile \<Rightarrow> bool \<times> string" where
  "cf_get name v cf = (True, v)"

definition cf_exists :: "string \<Rightarrow> ConfigFile \<Rightarrow> bool" where
  "cf_exists name cf = True"

definition cf_set :: "string \<Rightarrow> string \<Rightarrow> ConfigFile \<Rightarrow> bool \<times> ConfigFile" where
  "cf_set name v cf = (True, cf)"

definition cf_save :: "ConfigFile \<Rightarrow> bool \<times> ConfigFile" where
  "cf_save cf = (True, cf)"

section \<open>The configuration\<close>

record Configuration =
  cfg_elementList_s :: "t_ConfigElement list option"
  cfg_configData_s :: "ConfigData option"
  cfg_environMap_s :: "(string \<rightharpoonup> string) option option"
  cfg_configFile_s :: "ConfigFile option"
  cfg_argumentMap_s :: "(string \<rightharpoonup> string) option option"
  cfg_initialized_s :: bool
  cfg_called_s :: bool
  cfg_filePath_s :: string

definition Configuration_static :: Configuration where
  "Configuration_static = \<lparr>cfg_elementList_s = None, cfg_configData_s = None, cfg_environMap_s = None,
     cfg_configFile_s = None, cfg_argumentMap_s = None, cfg_initialized_s = False, cfg_called_s = False,
     cfg_filePath_s = []\<rparr>"

text \<open>\<open>v\<close> is the value of the caller's string before the call and after a failure. The branch that asks
  the environment comes after the return of the branch that asks the arguments.\<close>

definition locateValue :: "ConfigFile \<Rightarrow> (string \<rightharpoonup> string) option \<Rightarrow> (string \<rightharpoonup> string) option \<Rightarrow> t_ConfigElement \<Rightarrow>
    string \<Rightarrow> bool \<times> string" where
  "locateValue cf am em e v =
     (let (status, v1) = (if fileOptionName e \<noteq> [] then cf_get (fileOptionName e) v cf else (False, v)) in
      if status then (True, v1)
      else (case (if argOptionName e \<noteq> [] then am_get (argOptionName e) am else None) of
          Some v2 \<Rightarrow> (True, v2)
        | None \<Rightarrow> (False, v1)))"

text \<open>Splitting a text into a list has an empty body.\<close>

definition parseValueList :: "string \<Rightarrow> string list \<Rightarrow> string list" where
  "parseValueList values valueList = valueList"

fun populate_loop :: "ConfigFile \<Rightarrow> (string \<rightharpoonup> string) option \<Rightarrow> (string \<rightharpoonup> string) option \<Rightarrow> t_ConfigElement list \<Rightarrow>
    string \<Rightarrow> ConfigData \<Rightarrow> bool \<times> ConfigData" where
  "populate_loop cf am em [] currValue cd = (True, cd)"
| "populate_loop cf am em (e # es) currValue cd =
     (let (located, v) = locateValue cf am em e currValue in
      if \<not> located then (if ce_required e then (False, cd) else populate_loop cf am em es v cd)
      else
        let (status, cd1) = (if optionType e = ElString \<or> optionType e = ElNumber then cd_setValue (elementName e) v cd
              else cd_setList (elementName e) (parseValueList v []) cd)
        in if \<not> status \<and> ce_required e then (False, cd1) else populate_loop cf am em es v cd1)"

definition populateValues :: "Configuration \<Rightarrow> (bool \<times> Configuration) option" where
  "populateValues cfg = (case (cfg_elementList_s cfg, cfg_configData_s cfg, cfg_configFile_s cfg, cfg_argumentMap_s cfg, cfg_environMap_s cfg) of
       (Some es, Some cd, Some cf, Some am, Some em) \<Rightarrow>
         let (ok, cd1) = populate_loop cf am em es [] cd in Some (ok, cfg\<lparr>cfg_configData_s := Some cd1\<rparr>)
     | _ \<Rightarrow> None)"

text \<open>What an initialisation does before it looks for the values.\<close>

definition cfg_allocate :: "char \<Rightarrow> string list \<Rightarrow> string list \<Rightarrow> t_ConfigElement list \<Rightarrow> string \<Rightarrow> Configuration \<Rightarrow>
    Configuration option" where
  "cfg_allocate stale environ argv configElements configFilePath cfg =
     (let es = (case cfg_elementList_s cfg of None \<Rightarrow> [] | Some es \<Rightarrow> es) @ configElements;
          em = (case cfg_environMap_s cfg of None \<Rightarrow> None | Some m \<Rightarrow> m);
          am = (case cfg_argumentMap_s cfg of None \<Rightarrow> None | Some m \<Rightarrow> m);
          cf = (case cfg_configFile_s cfg of None \<Rightarrow> ConfigFile_new | Some f \<Rightarrow> f)
      in map_option (\<lambda>em1. cfg\<lparr>cfg_elementList_s := Some es,
           cfg_configData_s := Some (case cfg_configData_s cfg of None \<Rightarrow> ConfigData_new es | Some cd \<Rightarrow> cd),
           cfg_environMap_s := Some em1, cfg_configFile_s := Some (snd (cf_initialize configFilePath cf)),
           cfg_argumentMap_s := Some (am_load argv am), cfg_called_s := True\<rparr>) (em_load stale environ em))"

definition cfg_initialize :: "char \<Rightarrow> string list \<Rightarrow> string list \<Rightarrow> t_ConfigElement list \<Rightarrow> string \<Rightarrow> Configuration \<Rightarrow>
    (bool \<times> Configuration) option" where
  "cfg_initialize stale environ argv configElements configFilePath cfg =
     (if cfg_called_s cfg then Some (False, cfg)
      else do {
        cfg1 \<leftarrow> cfg_allocate stale environ argv configElements configFilePath cfg;
        (ok, cfg2) \<leftarrow> populateValues cfg1;
        if \<not> ok then Some (False, cfg2)
        else Some (True, cfg2\<lparr>cfg_initialized_s := True, cfg_filePath_s := configFilePath\<rparr>) })"

definition cfg_getValue :: "string \<Rightarrow> Configuration \<Rightarrow> string option" where
  "cfg_getValue name cfg = (case cfg_configData_s cfg of None \<Rightarrow> None | Some cd \<Rightarrow> cd_getValue name cd)"

definition cfg_getList :: "string \<Rightarrow> Configuration \<Rightarrow> string list option" where
  "cfg_getList name cfg = (case cfg_configData_s cfg of None \<Rightarrow> None | Some cd \<Rightarrow> cd_getList name cd)"

text \<open>Both report success and change nothing.\<close>

definition cfg_setValue :: "string \<Rightarrow> string \<Rightarrow> Configuration \<Rightarrow> bool \<times> Configuration" where
  "cfg_setValue name v cfg = (True, cfg)"

definition cfg_save :: "Configuration \<Rightarrow> bool \<times> Configuration" where
  "cfg_save cfg = (True, cfg)"

definition cfg_reload :: "Configuration \<Rightarrow> (bool \<times> Configuration) option" where
  "cfg_reload cfg =
     (if \<not> cfg_initialized_s cfg \<or> cfg_filePath_s cfg = [] then Some (False, cfg)
      else case cfg_configFile_s cfg of
          None \<Rightarrow> None
        | Some cf \<Rightarrow> populateValues (cfg\<lparr>cfg_configFile_s := Some (snd (cf_initialize (cfg_filePath_s cfg) cf))\<rparr>))"

definition enableAutoReload :: "string \<Rightarrow> Configuration \<Rightarrow> bool \<times> Configuration" where
  "enableAutoReload configFilePath cfg =
     (if \<not> cfg_initialized_s cfg then (False, cfg) else (True, cfg\<lparr>cfg_filePath_s := configFilePath\<rparr>))"

section \<open>Schemas\<close>

datatype t_ValueType = SchemaString | SchemaNumber | SchemaBoolean

record t_FieldSpec =
  fs_type :: t_ValueType
  fs_required :: bool
  fs_minValue :: "string option"
  fs_maxValue :: "string option"
  fs_validator :: "(string \<Rightarrow> bool) option"

type_synonym config_schema = "string \<rightharpoonup> t_FieldSpec"

definition addField :: "string \<Rightarrow> t_FieldSpec \<Rightarrow> config_schema \<Rightarrow> config_schema" where
  "addField name spec schema = schema(name \<mapsto> spec)"

text \<open>A verdict is \<open>Inr\<close> for a valid value and \<open>Inl\<close> with the message otherwise; \<open>None\<close> is the exception that
  a bound of the schema raises when it is not a number itself.\<close>

definition validateNumber :: "string \<Rightarrow> t_FieldSpec \<Rightarrow> (string + unit) option" where
  "validateNumber v spec = (case std_stoll v of
       None \<Rightarrow> Some (Inl (''Expected numeric value, got: '' @ v))
     | Some numValue \<Rightarrow>
         do { low \<leftarrow> (case fs_minValue spec of None \<Rightarrow> Some None
                | Some t \<Rightarrow> map_option (\<lambda>minVal. if numValue < minVal then Some (''Value '' @ v @ '' below minimum '' @ t) else None)
                    (std_stoll t));
              case low of
                Some msg \<Rightarrow> Some (Inl msg)
              | None \<Rightarrow>
                  (case fs_maxValue spec of None \<Rightarrow> Some (Inr ())
                   | Some t \<Rightarrow> map_option (\<lambda>maxVal. if numValue > maxVal then Inl (''Value '' @ v @ '' above maximum '' @ t) else Inr ())
                       (std_stoll t)) })"

definition validateBoolean :: "string \<Rightarrow> (string + unit)" where
  "validateBoolean v =
     (if v = ''true'' \<or> v = ''false'' \<or> v = ''1'' \<or> v = ''0'' \<or> v = ''yes'' \<or> v = ''no'' then Inr ()
      else Inl (''Expected boolean value, got: '' @ v))"

definition cs_validate :: "string \<Rightarrow> string \<Rightarrow> config_schema \<Rightarrow> (string + unit) option" where
  "cs_validate name v schema = (case schema name of
       None \<Rightarrow> Some (Inr ())
     | Some spec \<Rightarrow>
         if (case fs_validator spec of None \<Rightarrow> False | Some valid \<Rightarrow> \<not> valid v)
         then Some (Inl (''Custom validation failed for: '' @ name))
         else (case fs_type spec of
             SchemaNumber \<Rightarrow> validateNumber v spec
           | SchemaBoolean \<Rightarrow> Some (validateBoolean v)
           | SchemaString \<Rightarrow> Some (Inr ())))"

text \<open>The two maps are given by their entries, in the order their iteration has.\<close>

fun missing_fields :: "(string \<times> t_FieldSpec) list \<Rightarrow> (string \<times> string) list \<Rightarrow> string list" where
  "missing_fields [] values = []"
| "missing_fields ((name, spec) # schema) values =
     (if fs_required spec \<and> map_of values name = None then (''Required field missing: '' @ name) # missing_fields schema values
      else missing_fields schema values)"

fun invalid_fields :: "config_schema \<Rightarrow> (string \<times> string) list \<Rightarrow> string list option" where
  "invalid_fields schema [] = Some []"
| "invalid_fields schema ((name, v) # values) =
     do { r \<leftarrow> cs_validate name v schema; errors \<leftarrow> invalid_fields schema values;
          Some (case r of Inl msg \<Rightarrow> msg # errors | Inr u \<Rightarrow> errors) }"

definition validateAll :: "(string \<times> t_FieldSpec) list \<Rightarrow> (string \<times> string) list \<Rightarrow> (bool \<times> string list) option" where
  "validateAll schema values =
     do { errors \<leftarrow> invalid_fields (map_of schema) values;
          Some (missing_fields schema values @ errors = [], missing_fields schema values @ errors) }"

section \<open>Lemmas\<close>

lemma emplace_simps [simp]:
  "emplace k v m k = Some (case m k of None \<Rightarrow> v | Some w \<Rightarrow> w)" "k' \<noteq> k \<Longrightarrow> emplace k v m k' = m k'"
  by (auto simp: emplace_def split: option.splits)

lemma emplace_keeps: "m k' = Some w \<Longrightarrow> emplace k v m k' = Some w"
  by (auto simp: emplace_def split: option.splits)

lemma cd_set_keeps:
  "valueIndex_m cd n = Some w \<Longrightarrow> valueIndex_m (snd (cd_setValue k v cd)) n = Some w"
  "valueIndex_m (snd (cd_setList k vs cd)) n = valueIndex_m cd n"
  "elementIndex_m (snd (cd_setValue k v cd)) = elementIndex_m cd"
  "elementIndex_m (snd (cd_setList k vs cd)) = elementIndex_m cd"
  "n \<noteq> k \<Longrightarrow> valueIndex_m (snd (cd_setValue k v cd)) n = valueIndex_m cd n"
  by (auto simp: cd_setValue_def cd_setList_def emplace_keeps split: option.splits)

text \<open>One round of the loop that fills in the values.\<close>

lemma populate_cons:
  assumes "populate_loop cf am em (e # es) cur cd = (ok, cd')"
  obtains "cd' = cd" "\<not> ok"
  | cur1 cd1 where "populate_loop cf am em es cur1 cd1 = (ok, cd') \<or> cd' = cd1 \<and> \<not> ok"
      "cur1 = snd (locateValue cf am em e cur)"
      "cd1 = (if \<not> fst (locateValue cf am em e cur) then cd
        else if list_type e then snd (cd_setList (elementName e) [] cd) else snd (cd_setValue (elementName e) cur1 cd))"
proof -
  have t: "optionType e = ElString \<or> optionType e = ElNumber \<longleftrightarrow> \<not> list_type e"
    by (cases "optionType e") (auto simp: list_type_def)
  show thesis
    using assms that unfolding populate_loop.simps t parseValueList_def
    by (auto split: prod.splits if_splits simp: Let_def)
qed

definition round_data :: "bool \<Rightarrow> t_ConfigElement \<Rightarrow> string \<Rightarrow> ConfigData \<Rightarrow> ConfigData" where
  "round_data located e v cd = (if \<not> located then cd
     else if list_type e then snd (cd_setList (elementName e) [] cd) else snd (cd_setValue (elementName e) v cd))"

lemma round_data_keeps:
  "valueIndex_m cd n = Some w \<Longrightarrow> valueIndex_m (round_data located e v cd) n = Some w"
  "elementIndex_m (round_data located e v cd) = elementIndex_m cd"
  "n \<noteq> elementName e \<Longrightarrow> valueIndex_m (round_data located e v cd) n = valueIndex_m cd n"
  by (simp_all add: round_data_def cd_set_keeps)

lemma populate_round:
  assumes "populate_loop cf am em (e # es) cur cd = (ok, cd')"
  obtains cd1 where "cd1 = cd \<or> cd1 = round_data (fst (locateValue cf am em e cur)) e (snd (locateValue cf am em e cur)) cd"
    "cd' = cd1 \<and> \<not> ok \<or>
     cd1 = round_data (fst (locateValue cf am em e cur)) e (snd (locateValue cf am em e cur)) cd \<and>
     populate_loop cf am em es (snd (locateValue cf am em e cur)) cd1 = (ok, cd')"
  using populate_cons [OF assms] by (metis round_data_def)

lemma populate_keeps:
  assumes "populate_loop cf am em es cur cd = (ok, cd')"
  shows "(\<forall>n w. valueIndex_m cd n = Some w \<longrightarrow> valueIndex_m cd' n = Some w) \<and> elementIndex_m cd' = elementIndex_m cd \<and>
    (\<forall>n. n \<notin> elementName ` set es \<longrightarrow> valueIndex_m cd' n = valueIndex_m cd n)"
  using assms
proof (induction es arbitrary: cur cd)
  case (Cons e es)
  then obtain cd1 where cd1: "cd1 = cd \<or> cd1 = round_data (fst (locateValue cf am em e cur)) e (snd (locateValue cf am em e cur)) cd"
    and rest: "cd' = cd1 \<or> populate_loop cf am em es (snd (locateValue cf am em e cur)) cd1 = (ok, cd')"
    by (elim populate_round) blast
  from rest have "(\<forall>n w. valueIndex_m cd1 n = Some w \<longrightarrow> valueIndex_m cd' n = Some w) \<and> elementIndex_m cd' = elementIndex_m cd1 \<and>
    (\<forall>n. n \<notin> elementName ` set es \<longrightarrow> valueIndex_m cd' n = valueIndex_m cd1 n)"
    using Cons.IH by auto
  with cd1 show ?case by (auto simp: round_data_keeps)
qed simp

text \<open>The values that elements without a file option find among the arguments, in order.\<close>

definition located :: "(string \<rightharpoonup> string) \<Rightarrow> t_ConfigElement list \<Rightarrow> string list" where
  "located m es = List.map_filter (\<lambda>e. if fileOptionName e \<noteq> [] \<or> argOptionName e = [] then None else m (argOptionName e)) es"

lemma located_simps [simp]:
  "located m [] = []"
  "located m (e # es) = (case if fileOptionName e \<noteq> [] \<or> argOptionName e = [] then None else m (argOptionName e) of
     None \<Rightarrow> located m es | Some v \<Rightarrow> v # located m es)"
  by (auto simp: located_def List.map_filter_simps split: option.split)

lemma locate_value:
  "fst (locateValue cf (Some m) em e cur) \<longleftrightarrow> fileOptionName e \<noteq> [] \<or> argOptionName e \<noteq> [] \<and> m (argOptionName e) \<noteq> None"
  "snd (locateValue cf (Some m) em e cur) = last (cur # located m [e])"
  by (auto simp: locateValue_def cf_get_def am_get_def split: option.split)

definition element_value :: "(string \<rightharpoonup> string) \<Rightarrow> string \<Rightarrow> t_ConfigElement \<Rightarrow> string option" where
  "element_value m cur e = (if fileOptionName e \<noteq> [] then Some cur else if argOptionName e = [] then None else m (argOptionName e))"

lemma populate_value:
  assumes "populate_loop cf (Some m) em (es1 @ e # es2) cur cd = (True, cd')"
    and "distinct (map elementName (es1 @ e # es2))"
    and "\<forall>x\<in>set (es1 @ e # es2). elementIndex_m cd (elementName x) = Some x \<and> valueIndex_m cd (elementName x) = None"
    and "\<not> list_type e"
  shows "valueIndex_m cd' (elementName e) = element_value m (last (cur # located m es1)) e"
  using assms
proof (induction es1 arbitrary: cur cd)
  case Nil
  let ?l = "locateValue cf (Some m) em e cur"
  obtain cd1 where cd1: "cd1 = round_data (fst ?l) e (snd ?l) cd" "populate_loop cf (Some m) em es2 (snd ?l) cd1 = (True, cd')"
    using Nil.prems(1) by (auto elim!: populate_round simp del: populate_loop.simps)
  have "valueIndex_m cd' (elementName e) = valueIndex_m cd1 (elementName e)"
    using populate_keeps [OF cd1(2)] Nil.prems(2) by auto
  also have "\<dots> = element_value m cur e"
    using Nil.prems(3,4) locate_value [of cf m em e cur]
    by (auto simp: cd1(1) round_data_def cd_setValue_def element_value_def split: option.split)
  finally show ?case by simp
next
  case (Cons a es1)
  let ?l = "locateValue cf (Some m) em a cur"
  obtain cd1 where cd1: "cd1 = round_data (fst ?l) a (snd ?l) cd" "populate_loop cf (Some m) em (es1 @ e # es2) (snd ?l) cd1 = (True, cd')"
    using Cons.prems(1) by (auto elim!: populate_round simp del: populate_loop.simps)
  have "elementName x \<noteq> elementName a" if "x \<in> set (es1 @ e # es2)" for x
    using Cons.prems(2) that by (auto simp: rev_image_eqI)
  then have "valueIndex_m cd' (elementName e) = element_value m (last (snd ?l # located m es1)) e"
    using Cons.prems(2-) by (intro Cons.IH [OF cd1(2)]) (auto simp: cd1(1) round_data_keeps)
  then show ?case by (simp add: locate_value split: option.splits)
qed

lemma new_index:
  assumes "distinct (map elementName es)" "e \<in> set es"
  shows "elementIndex_m (ConfigData_new es) (elementName e) = Some e"
proof -
  have keep: "m n = Some x \<Longrightarrow> fold (\<lambda>e. emplace (elementName e) e) es m n = Some x" for m n x and es :: "t_ConfigElement list"
    by (induction es arbitrary: m) (simp_all add: emplace_keeps)
  have "fold (\<lambda>e. emplace (elementName e) e) es m (elementName e) = Some e" if "\<forall>x\<in>set es. m (elementName x) = None" for m
    using assms that
  proof (induction es arbitrary: m)
    case (Cons a es)
    show ?case
    proof (cases "e = a")
      case True
      with Cons.prems show ?thesis by (auto intro!: keep)
    next
      case False
      with Cons.prems have e: "e \<in> set es" "distinct (map elementName es)" by auto
      have "emplace (elementName a) a m (elementName x) = None" if "x \<in> set es" for x
      proof -
        have "elementName x \<noteq> elementName a" using Cons.prems(1) that by (auto simp: rev_image_eqI)
        with Cons.prems(3) that show ?thesis by simp
      qed
      then show ?thesis using Cons.IH [OF e(2,1)] by simp
    qed
  qed simp
  then show ?thesis by (simp add: ConfigData_new_def)
qed

text \<open>Calls on the configuration; a memory fault is \<open>None\<close>.\<close>

datatype cfg_call = CfgInit char "string list" "string list" "t_ConfigElement list" string | CfgReload | CfgSet string string
  | CfgAuto string | CfgSave

fun cfg_step :: "cfg_call \<Rightarrow> Configuration option \<Rightarrow> Configuration option" where
  "cfg_step c None = None"
| "cfg_step (CfgInit stale env argv es path) (Some cfg) = map_option snd (cfg_initialize stale env argv es path cfg)"
| "cfg_step CfgReload (Some cfg) = map_option snd (cfg_reload cfg)"
| "cfg_step (CfgSet n v) (Some cfg) = Some (snd (cfg_setValue n v cfg))"
| "cfg_step (CfgAuto path) (Some cfg) = Some (snd (enableAutoReload path cfg))"
| "cfg_step CfgSave (Some cfg) = Some (snd (cfg_save cfg))"

lemma populate_value_kept:
  assumes "populateValues cfg = Some (ok, cfg')" "cfg_getValue n cfg = Some v"
  shows "cfg_getValue n cfg' = Some v"
  using assms populate_keeps
  by (auto simp: populateValues_def cfg_getValue_def cd_getValue_def split: option.splits prod.splits)

lemma cfg_step_keeps:
  assumes "cfg_step c (Some cfg) = Some cfg'" "cfg_getValue n cfg = Some v"
  shows "cfg_getValue n cfg' = Some v"
proof (cases c)
  case (CfgInit stale env argv es path)
  have same: "cfg_getValue n cfg1 = Some v" if "cfg_allocate stale env argv es path cfg = Some cfg1" for cfg1
    using that assms(2) by (auto simp: cfg_allocate_def cfg_getValue_def Let_def split: option.splits)
  have late: "cfg_getValue n (c\<lparr>cfg_initialized_s := i, cfg_filePath_s := p\<rparr>) = cfg_getValue n c" for c i p
    by (simp add: cfg_getValue_def)
  show ?thesis
    using assms CfgInit populate_value_kept [OF _ same]
    by (auto simp: cfg_initialize_def late split: option.splits Option.bind_splits if_splits)
next
  case CfgReload
  have same: "cfg_getValue n (cfg\<lparr>cfg_configFile_s := f\<rparr>) = Some v" for f using assms(2) by (simp add: cfg_getValue_def)
  show ?thesis using assms CfgReload populate_value_kept [OF _ same]
    by (auto simp: cfg_reload_def split: if_splits option.splits)
qed (use assms in \<open>auto simp: cfg_setValue_def enableAutoReload_def cfg_save_def cfg_getValue_def split: if_splits\<close>)

interpretation cfg: machine cfg_step "\<lambda>s. s = None \<or> (\<exists>c. s = Some c \<and> cfg_getValue n c = Some v)" for n v
proof
  fix s e
  assume "s = None \<or> (\<exists>c. s = Some c \<and> cfg_getValue n c = Some v)"
  then show "cfg_step e s = None \<or> (\<exists>c. cfg_step e s = Some c \<and> cfg_getValue n c = Some v)"
    using cfg_step_keeps by (cases "cfg_step e s") auto
qed

section \<open>Properties\<close>

text \<open>Which source decides a value. After a successful initialisation an element without a file option has
  the value of its command line option and nothing else; one with a file option has, whatever the file
  says and whatever its own command line option is, the value found last for an element before it in
  the list. Neither the file nor the environment is ever used.\<close>

lemma config_resolution:
  assumes "cfg_initialize stale environ argv (es1 @ e # es2) path Configuration_static = Some (True, cfg)"
    and "distinct (map elementName (es1 @ e # es2))" and "\<not> list_type e"
  shows "cfg_getValue (elementName e) cfg =
    (let m = arg_loop argv None Map.empty in
     if fileOptionName e \<noteq> [] then Some (last ([] # located m es1))
     else if argOptionName e = [] then None else m (argOptionName e))"
proof -
  let ?es = "es1 @ e # es2" and ?m = "arg_loop argv None Map.empty"
  obtain em cd where "populate_loop (snd (cf_initialize path ConfigFile_new)) (Some ?m) em ?es [] (ConfigData_new ?es) = (True, cd)"
      "cfg_getValue (elementName e) cfg = cd_getValue (elementName e) cd"
    using assms(1)
    by (auto simp: cfg_initialize_def cfg_allocate_def Configuration_static_def Let_def am_load_def populateValues_def
        cfg_getValue_def split: option.splits prod.splits if_splits Option.bind_splits)
  then show ?thesis
    using populate_value [of _ ?m em es1 e es2 "[]" "ConfigData_new ?es" cd] new_index [OF assms(2)] assms(2,3)
    by (simp add: cd_getValue_def element_value_def ConfigData_new_def Let_def)
qed

definition demo_elements :: "t_ConfigElement list" where
  "demo_elements = [\<lparr>elementName = ''port'', fileOptionName = [], argOptionName = ''port'', envOptionName = ''PORT'',
      optionType = ElNumber, ce_required = True\<rparr>,
    \<lparr>elementName = ''name'', fileOptionName = ''name'', argOptionName = ''name'', envOptionName = [],
      optionType = ElString, ce_required = False\<rparr>]"

definition demo_cfg :: Configuration where
  "demo_cfg = Configuration_static\<lparr>cfg_configData_s :=
     Some ((ConfigData_new demo_elements)\<lparr>valueIndex_m := [''port'' \<mapsto> ''90'']\<rparr>)\<rparr>"

lemma config_resolution_witness:
  "\<exists>cfg. cfg_initialize CHR 0x00 [''PORT=80''] [''alpine'', ''--port'', ''90'', ''--name'', ''x''] demo_elements ''conf'' Configuration_static =
     Some (True, cfg) \<and> cfg_getValue ''port'' cfg = Some ''90'' \<and> cfg_getValue ''name'' cfg = Some ''90''"
proof -
  let ?a = "[''alpine'', ''--port'', ''90'', ''--name'', ''x'']"
  note defs = demo_elements_def cfg_initialize_def cfg_allocate_def Configuration_static_def em_load_def am_load_def
    populateValues_def locateValue_def cf_get_def am_get_def cd_setValue_def ConfigData_new_def list_type_def
    ConfigFile_new_def cf_initialize_def env_entry_def strtok_def Let_def emplace_def
  obtain cfg where i: "cfg_initialize CHR 0x00 [''PORT=80''] ?a demo_elements ''conf'' Configuration_static = Some (True, cfg)"
    by (simp add: defs)
  from config_resolution [of "CHR 0x00" "[''PORT=80'']" ?a "[]" "demo_elements ! 0" "[demo_elements ! 1]" "''conf''" cfg]
    config_resolution [of "CHR 0x00" "[''PORT=80'']" ?a "[demo_elements ! 0]" "demo_elements ! 1" "[]" "''conf''" cfg] i
  show ?thesis by (simp add: demo_elements_def list_type_def emplace_def)
qed

text \<open>A value, once set, never changes: neither a reload nor a further initialisation nor \<open>setValue\<close>, which
  reports success, gives another answer to \<open>getValue\<close>.\<close>

lemma config_values_fixed:
  assumes "cfg_getValue n cfg = Some v" and "fold cfg_step calls (Some cfg) = Some cfg'"
  shows "cfg_getValue n cfg' = Some v \<and> fst (cfg_setValue n w cfg')"
  using cfg.run_inv [of "Some cfg" n v calls] assms by (auto simp: cfg_setValue_def)

lemma config_values_fixed_witness:
  "cfg_getValue ''port'' (snd (cfg_setValue ''port'' ''91'' demo_cfg)) = Some ''90'' \<and> fst (cfg_setValue ''port'' ''91'' demo_cfg)"
proof -
  have "cfg_getValue ''port'' demo_cfg = Some ''90''"
    by (simp add: demo_cfg_def Configuration_static_def cfg_getValue_def cd_getValue_def)
  then show ?thesis
    using config_values_fixed [of "''port''" demo_cfg "''90''" "[CfgSet ''port'' ''91'', CfgReload]" demo_cfg "''91''"]
    by (simp add: cfg_setValue_def cfg_reload_def demo_cfg_def Configuration_static_def)
qed

text \<open>The command line: options that are followed by their values are all found, the first of a name counts;
  an option at the end of the line, without a value, is forgotten.\<close>

lemma arguments_read:
  assumes "\<forall>(n, v)\<in>set ps. take 1 v \<noteq> ''-''"
  shows "arg_loop (concat (map (\<lambda>(n, v). [''--'' @ n, v]) ps)) None m = fold (\<lambda>(n, v). emplace n v) ps m"
  using assms by (induction ps arbitrary: m) (auto split: prod.splits)

lemma last_flag_lost: "arg_loop (concat (map (\<lambda>(n, v). [''--'' @ n, v]) ps) @ [''--'' @ f]) None m =
    arg_loop (concat (map (\<lambda>(n, v). [''--'' @ n, v]) ps)) None m" if "\<forall>(n, v)\<in>set ps. take 1 v \<noteq> ''-''"
  using that by (induction ps arbitrary: m) (auto split: prod.splits)

text \<open>A program name and options that are each followed by a value.\<close>

definition command_line :: "string \<Rightarrow> (string \<times> string) list \<Rightarrow> string list" where
  "command_line prog ps = prog # concat (map (\<lambda>(n, v). [''--'' @ n, v]) ps)"

definition given :: "(string \<times> string) list \<Rightarrow> t_ConfigElement \<Rightarrow> bool" where
  "given ps e \<longleftrightarrow> argOptionName e \<noteq> [] \<and> argOptionName e \<in> fst ` set ps"

lemma fold_emplace: "fold (\<lambda>(n, v). emplace n v) ps m k = (case m k of Some v \<Rightarrow> Some v | None \<Rightarrow> map_of ps k)"
proof (induction ps arbitrary: m)
  case (Cons p ps)
  obtain n v where p: "p = (n, v)" by (cases p)
  show ?case
  proof (cases "k = n")
    case True
    then show ?thesis using Cons.IH [of "emplace n v m"] by (simp add: p split: option.split)
  next
    case False
    then show ?thesis by (simp add: p Cons split: option.split)
  qed
qed (simp split: option.split)

lemma arg_loop_command_line:
  assumes "take 1 prog \<noteq> ''-''" "\<forall>(n, v)\<in>set ps. take 1 v \<noteq> ''-''"
  shows "arg_loop (command_line prog ps) None Map.empty = map_of ps"
proof (rule ext)
  fix k
  have "arg_loop (command_line prog ps) None Map.empty = fold (\<lambda>(n, v). emplace n v) ps Map.empty"
    using arguments_read [OF assms(2), of Map.empty] assms(1) by (simp add: command_line_def)
  then show "arg_loop (command_line prog ps) None Map.empty k = map_of ps k" by (simp add: fold_emplace)
qed

lemma populate_ok:
  assumes "\<forall>x\<in>set es. elementIndex_m cd (elementName x) = Some x \<and> fileOptionName x = [] \<and> \<not> list_type x"
  shows "fst (populate_loop cf (Some m) em es cur cd) \<longleftrightarrow> (\<forall>e\<in>set es. ce_required e \<longrightarrow> argOptionName e \<noteq> [] \<and> m (argOptionName e) \<noteq> None)"
  using assms
proof (induction es arbitrary: cur cd)
  case (Cons e es)
  have t: "optionType e = ElString \<or> optionType e = ElNumber"
    using Cons.prems by (cases "optionType e") (auto simp: list_type_def)
  have set_ok: "cd_setValue (elementName e) v cd = (True, cd\<lparr>valueIndex_m := emplace (elementName e) v (valueIndex_m cd)\<rparr>)" for v
    using Cons.prems by (simp add: cd_setValue_def)
  have f: "fst (locateValue cf (Some m) em e cur) \<longleftrightarrow> argOptionName e \<noteq> [] \<and> m (argOptionName e) \<noteq> None"
    using Cons.prems by (simp add: locate_value)
  obtain l v where l: "locateValue cf (Some m) em e cur = (l, v)" by (cases "locateValue cf (Some m) em e cur")
  show ?case using Cons.IH [of cd v] Cons.IH [of "cd\<lparr>valueIndex_m := emplace (elementName e) v (valueIndex_m cd)\<rparr>" v] Cons.prems f
    unfolding populate_loop.simps l Let_def by (simp add: t set_ok)
qed simp



end
