(* ===== verification/Doubles.thy ===== *)
theory Doubles
  imports Prelude Complex_Main
begin

text \<open>
  The C++ type \<open>double\<close> as the code of the rating engine uses it: a real number, one of the two infinities, or not a
  number. Sums, products, quotients and comparisons follow IEEE 754 on the special values; on numbers they are exact,
  so rounding and the sign of a zero are left out.
\<close>

datatype double = Fin real | PInf | NInf | NaN

text \<open>An infinity times a number with the sign of \<open>s\<close>.\<close>

definition dinf :: "real \<Rightarrow> double" where
  "dinf s = (if s = 0 then NaN else if 0 < s then PInf else NInf)"

fun dadd :: "double \<Rightarrow> double \<Rightarrow> double" where
  "dadd (Fin x) (Fin y) = Fin (x + y)"
| "dadd NaN b = NaN"
| "dadd a NaN = NaN"
| "dadd PInf NInf = NaN"
| "dadd NInf PInf = NaN"
| "dadd PInf b = PInf"
| "dadd NInf b = NInf"
| "dadd a PInf = PInf"
| "dadd a NInf = NInf"

fun dneg :: "double \<Rightarrow> double" where
  "dneg (Fin x) = Fin (- x)"
| "dneg PInf = NInf"
| "dneg NInf = PInf"
| "dneg NaN = NaN"

definition dsub :: "double \<Rightarrow> double \<Rightarrow> double" where
  "dsub a b = dadd a (dneg b)"

fun dmul :: "double \<Rightarrow> double \<Rightarrow> double" where
  "dmul (Fin x) (Fin y) = Fin (x * y)"
| "dmul NaN b = NaN"
| "dmul a NaN = NaN"
| "dmul PInf (Fin y) = dinf y"
| "dmul NInf (Fin y) = dinf (- y)"
| "dmul (Fin x) PInf = dinf x"
| "dmul (Fin x) NInf = dinf (- x)"
| "dmul PInf b = b"
| "dmul NInf b = dneg b"

text \<open>The quotient of two numbers; a zero below counts as positive.\<close>

definition ddiv :: "real \<Rightarrow> real \<Rightarrow> double" where
  "ddiv x y = (if y = 0 then dinf x else Fin (x / y))"

fun dless :: "double \<Rightarrow> double \<Rightarrow> bool" where
  "dless (Fin x) (Fin y) = (x < y)"
| "dless (Fin x) PInf = True"
| "dless NInf (Fin y) = True"
| "dless NInf PInf = True"
| "dless a b = False"

fun finite_double :: "double \<Rightarrow> bool" where
  "finite_double (Fin x) = True"
| "finite_double a = False"

lemma dneg_dneg [simp]: "dneg (dneg a) = a"
  by (cases a) simp_all

lemma dadd_commute: "dadd a b = dadd b a"
  by (cases a; cases b) simp_all

lemma dmul_commute: "dmul a b = dmul b a"
  by (cases a; cases b) (simp_all add: mult.commute)

lemma dsub_Fin [simp]: "dsub (Fin x) (Fin y) = Fin (x - y)"
  by (simp add: dsub_def)

lemma nan_sticks [simp]: "dadd NaN b = NaN" "dadd a NaN = NaN" "dsub NaN b = NaN" "dmul NaN b = NaN" "dmul a NaN = NaN"
  by (simp_all add: dsub_def) (cases a; simp)+

lemma dless_irrefl [simp]: "\<not> dless a a"
  by (cases a) simp_all

lemma dless_trans: "dless a b \<Longrightarrow> dless b c \<Longrightarrow> dless a c"
  by (cases a; cases b; cases c) simp_all

lemma dless_nan [simp]: "\<not> dless NaN b" "\<not> dless a NaN"
  by (cases b; simp) (cases a; simp)

lemma finite_double_iff: "finite_double a \<longleftrightarrow> (\<exists>x. a = Fin x)"
  by (cases a) simp_all

text \<open>Numbers in the unit interval, and the values of a score: such a number, or not a number.\<close>

fun unit_double :: "double \<Rightarrow> bool" where
  "unit_double (Fin x) = (0 \<le> x \<and> x \<le> 1)"
| "unit_double a = False"

definition unit_or_nan :: "double \<Rightarrow> bool" where
  "unit_or_nan a \<longleftrightarrow> a = NaN \<or> unit_double a"

lemma unit_or_nan_simps [simp]: "unit_or_nan (Fin x) \<longleftrightarrow> 0 \<le> x \<and> x \<le> 1" "unit_or_nan NaN" "\<not> unit_or_nan PInf" "\<not> unit_or_nan NInf"
  by (simp_all add: unit_or_nan_def)

lemma unit_or_nan_cases:
  assumes "unit_or_nan a"
  obtains (nan) "a = NaN" | (fin) x where "a = Fin x" "0 \<le> x" "x \<le> 1"
  using assms by (cases a) auto

end
