(* ===== verification/RatingEngine.thy ===== *)
theory RatingEngine
  imports Configuration Doubles
begin

text \<open>
  protocols/Alpine/AlpineRatingEngine.cpp with AlpinePeerProfile.cpp: the score of each peer, a
  \<open>double\<close> that can be not a number. The readings of the steady clock are arguments, in nanoseconds. Shown: a score is
  not a number or between 0 and 1, and which calls can make it the first; a reader sees what the next event
  starts from, remote scores only pull towards themselves as long as the counters do not wrap, and the saved text
  restores the ratings.
\<close>

section \<open>Profiles\<close>

record AlpinePeerProfile =
  pf_peerId :: ulong
  pf_quality :: ushort
  pf_queries :: ulong
  pf_responses :: ulong

definition AlpinePeerProfile_new :: AlpinePeerProfile where
  "AlpinePeerProfile_new = \<lparr>pf_peerId = 0, pf_quality = 0, pf_queries = 0, pf_responses = 0\<rparr>"

definition AlpinePeerProfile_of :: "ulong \<Rightarrow> AlpinePeerProfile" where
  "AlpinePeerProfile_of peerId = \<lparr>pf_peerId = peerId, pf_quality = 0, pf_queries = 0, pf_responses = 0\<rparr>"

definition setRelativeQuality :: "ushort \<Rightarrow> AlpinePeerProfile \<Rightarrow> AlpinePeerProfile" where
  "setRelativeQuality quality p = p\<lparr>pf_quality := quality\<rparr>"

definition modifyRelativeQuality :: "ushort \<Rightarrow> AlpinePeerProfile \<Rightarrow> AlpinePeerProfile" where
  "modifyRelativeQuality delta p = p\<lparr>pf_quality := pf_quality p + delta\<rparr>"

definition incrTotalQueries :: "AlpinePeerProfile \<Rightarrow> AlpinePeerProfile" where
  "incrTotalQueries p = p\<lparr>pf_queries := pf_queries p + 1\<rparr>"

definition incrTotalResponses :: "AlpinePeerProfile \<Rightarrow> AlpinePeerProfile" where
  "incrTotalResponses p = p\<lparr>pf_responses := pf_responses p + 1\<rparr>"

definition re_getPeerId :: "AlpinePeerProfile option \<Rightarrow> ulong" where
  "re_getPeerId profile = (case profile of None \<Rightarrow> 0 | Some p \<Rightarrow> pf_peerId p)"

section \<open>Scores\<close>

record t_PeerRating =
  score :: double
  successCount :: ulong
  failureCount :: ulong
  lastUpdate :: int

type_synonym ratings = "ulong \<rightharpoonup> t_PeerRating"

definition kInitialScore :: double where "kInitialScore = Fin (1 / 2)"
definition kAlpha :: real where "kAlpha = 1 / 10"
definition kMinScore :: double where "kMinScore = Fin 0"
definition kMaxScore :: double where "kMaxScore = Fin 1"
definition kDecayTarget :: real where "kDecayTarget = 1 / 2"
definition kDecayRatePerHr :: real where "kDecayRatePerHr = 1 / 100"

definition t_PeerRating_new :: "int \<Rightarrow> t_PeerRating" where
  "t_PeerRating_new now = \<lparr>score = Fin (1 / 2), successCount = 0, failureCount = 0, lastUpdate = now\<rparr>"

definition hours :: "int \<Rightarrow> real" where
  "hours elapsed = real_of_int elapsed / 3600000000000"

definition decayed :: "real \<Rightarrow> double \<Rightarrow> double" where
  "decayed h s = dadd (Fin kDecayTarget) (dmul (dsub s (Fin kDecayTarget)) (Fin ((1 - kDecayRatePerHr) powr h)))"

definition applyDecay :: "int \<Rightarrow> t_PeerRating \<Rightarrow> t_PeerRating" where
  "applyDecay now rating =
     (let h = hours (now - lastUpdate rating) in
      if h > 0 then rating\<lparr>score := decayed h (score rating), lastUpdate := now\<rparr> else rating)"

text \<open>Not a number is neither below the one bound nor above the other, so it comes back.\<close>

definition clampScore :: "double \<Rightarrow> double" where
  "clampScore s = (if dless s kMinScore then kMinScore else if dless kMaxScore s then kMaxScore else s)"

text \<open>The clock is read when the decay is applied and again at the end.\<close>

definition applyDelta :: "int \<Rightarrow> int \<Rightarrow> real \<Rightarrow> bool \<Rightarrow> t_PeerRating \<Rightarrow> t_PeerRating" where
  "applyDelta now1 now2 delta isSuccess rating =
     (let r1 = applyDecay now1 rating;
          r2 = r1\<lparr>score := clampScore (dadd (score r1) (Fin (kAlpha * delta)))\<rparr>;
          r3 = (if isSuccess then r2\<lparr>successCount := successCount r2 + 1\<rparr> else r2\<lparr>failureCount := failureCount r2 + 1\<rparr>)
      in r3\<lparr>lastUpdate := now2\<rparr>)"

text \<open>The rating of a peer that has none yet is created with the time of that moment, \<open>now 0\<close>.\<close>

definition rate_peer :: "(nat \<Rightarrow> int) \<Rightarrow> ulong \<Rightarrow> real \<Rightarrow> bool \<Rightarrow> ratings \<Rightarrow> ratings" where
  "rate_peer now peerId delta isSuccess r =
     r(peerId \<mapsto> applyDelta (now 1) (now 2) delta isSuccess
         (case r peerId of None \<Rightarrow> t_PeerRating_new (now 0) | Some rating \<Rightarrow> rating))"

section \<open>Events\<close>

text \<open>An event reports the change of the relative quality as its last result, nothing for a null profile.\<close>

definition rating_event :: "real \<Rightarrow> bool \<Rightarrow> int \<Rightarrow> (nat \<Rightarrow> int) \<Rightarrow> AlpinePeerProfile option \<Rightarrow> ratings \<Rightarrow>
    bool \<times> ratings \<times> int option" where
  "rating_event delta isSuccess quality now profile r =
     (if profile = None then (False, r, None)
      else (True, rate_peer now (re_getPeerId profile) delta isSuccess r, Some quality))"

definition queryResponseEvent :: "(nat \<Rightarrow> int) \<Rightarrow> AlpinePeerProfile option \<Rightarrow> ratings \<Rightarrow> bool \<times> ratings \<times> int option" where
  "queryResponseEvent = rating_event (1 / 10) True 1"

definition badPacketEvent :: "(nat \<Rightarrow> int) \<Rightarrow> AlpinePeerProfile option \<Rightarrow> ratings \<Rightarrow> bool \<times> ratings \<times> int option" where
  "badPacketEvent = rating_event (- 3 / 10) False (- 3)"

definition transferFailureEvent :: "(nat \<Rightarrow> int) \<Rightarrow> AlpinePeerProfile option \<Rightarrow> ratings \<Rightarrow> bool \<times> ratings \<times> int option" where
  "transferFailureEvent = rating_event (- 2 / 10) False (- 2)"

definition naResourceEvent :: "(nat \<Rightarrow> int) \<Rightarrow> AlpinePeerProfile option \<Rightarrow> ratings \<Rightarrow> bool \<times> ratings \<times> int option" where
  "naResourceEvent = rating_event (- 5 / 100) False (- 1)"

definition deceptiveResourceEvent :: "(nat \<Rightarrow> int) \<Rightarrow> AlpinePeerProfile option \<Rightarrow> ratings \<Rightarrow> bool \<times> ratings \<times> int option" where
  "deceptiveResourceEvent = rating_event (- 5 / 10) False (- 5)"

datatype t_ResourceRating = Low | Average | High

text \<open>The conversion of a \<open>double\<close> to an integer type drops the fraction.\<close>

definition cast_short :: "real \<Rightarrow> int" where
  "cast_short x = (if x < 0 then - \<lfloor>- x\<rfloor> else \<lfloor>x\<rfloor>)"

definition resource_delta :: "t_ResourceRating \<Rightarrow> real \<times> bool" where
  "resource_delta rating = (case rating of Low \<Rightarrow> (- 2 / 10, False) | Average \<Rightarrow> (0, True) | High \<Rightarrow> (15 / 100, True))"

definition clientResourceEvaluation :: "(nat \<Rightarrow> int) \<Rightarrow> AlpinePeerProfile option \<Rightarrow> t_ResourceRating \<Rightarrow> ratings \<Rightarrow>
    bool \<times> ratings \<times> int option" where
  "clientResourceEvaluation now profile rating r =
     (let (delta, isSuccess) = resource_delta rating
      in rating_event delta isSuccess (cast_short (delta * 10)) now profile r)"

definition getScore :: "int \<Rightarrow> ulong \<Rightarrow> ratings \<Rightarrow> double" where
  "getScore now peerId r = (case r peerId of
       None \<Rightarrow> kInitialScore
     | Some rating \<Rightarrow>
         let h = hours (now - lastUpdate rating) in
         if h \<le> 0 then score rating else clampScore (decayed h (score rating)))"

section \<open>Gossip\<close>

record t_ScoreEntry =
  se_peerId :: ulong
  se_score :: double
  se_interactions :: ulong

definition interactions :: "t_PeerRating \<Rightarrow> ulong" where
  "interactions rating = successCount rating + failureCount rating"

text \<open>\<open>entries\<close> lists the ratings in the order of the hash map, which also decides between entries with the
  same count.\<close>

definition getTopScores :: "nat \<Rightarrow> (ulong \<times> t_PeerRating) list \<Rightarrow> t_ScoreEntry list" where
  "getTopScores maxEntries entries =
     take maxEntries (sort_key (\<lambda>e. - int (unat (se_interactions e)))
       (map (\<lambda>(i, rating). \<lparr>se_peerId = i, se_score = score rating, se_interactions = interactions rating\<rparr>)
         (filter (\<lambda>(i, rating). interactions rating \<noteq> 0) entries)))"

text \<open>The total weight is a sum of machine integers; when it wraps to 0 the weights are infinite or not numbers.\<close>

definition merge_entry :: "int \<Rightarrow> ulong \<Rightarrow> t_ScoreEntry \<Rightarrow> ratings \<Rightarrow> ratings" where
  "merge_entry now minInteractions remote r =
     (if se_interactions remote < minInteractions then r
      else (case r (se_peerId remote) of
          None \<Rightarrow> r(se_peerId remote \<mapsto>
            \<lparr>score = clampScore (se_score remote), successCount = 0, failureCount = 0, lastUpdate = now\<rparr>)
        | Some local \<Rightarrow>
            r(se_peerId remote \<mapsto>
              (if interactions local < minInteractions
               then local\<lparr>score := clampScore (dadd (dmul (score local) (Fin (1 / 2))) (dmul (se_score remote) (Fin (1 / 2))))\<rparr>
               else
                 let totalWeight = real (unat (interactions local + se_interactions remote));
                     localWeight = ddiv (real (unat (interactions local))) totalWeight;
                     remoteWeight = ddiv (real (unat (se_interactions remote))) totalWeight
                 in local\<lparr>score := clampScore (dadd (dmul (score local) localWeight) (dmul (se_score remote) remoteWeight))\<rparr>)
              \<lparr>lastUpdate := now\<rparr>)))"

text \<open>\<open>now i\<close> is the time when the \<open>i\<close>-th entry is merged.\<close>

fun merge_loop :: "(nat \<Rightarrow> int) \<Rightarrow> nat \<Rightarrow> ulong \<Rightarrow> t_ScoreEntry list \<Rightarrow> ratings \<Rightarrow> ratings" where
  "merge_loop now i minInteractions [] r = r"
| "merge_loop now i minInteractions (remote # remotes) r =
     merge_loop now (i + 1) minInteractions remotes (merge_entry (now i) minInteractions remote r)"

definition mergeRemoteScores :: "(nat \<Rightarrow> int) \<Rightarrow> ulong \<Rightarrow> t_ScoreEntry list \<Rightarrow> ratings \<Rightarrow> ratings" where
  "mergeRemoteScores now minInteractions remoteScores r = merge_loop now 0 minInteractions remoteScores r"

section \<open>Persistence\<close>

text \<open>\<^verbatim>\<open>std::fixed\<close> with six digits: the nearest such decimal, an even last digit in a tie. The sign that is written
  before a value that is not a number is left out.\<close>

definition round_even :: "real \<Rightarrow> int" where
  "round_even x = (if x - \<lfloor>x\<rfloor> < 1 / 2 \<or> x - \<lfloor>x\<rfloor> = 1 / 2 \<and> even \<lfloor>x\<rfloor> then \<lfloor>x\<rfloor> else \<lfloor>x\<rfloor> + 1)"

definition pad_left :: "nat \<Rightarrow> string \<Rightarrow> string" where
  "pad_left n s = replicate (n - length s) (CHR ''0'') @ s"

definition millionths :: "nat \<Rightarrow> string" where
  "millionths k = show_dec (k div 1000000) @ CHR ''.'' # pad_left 6 (show_dec (k mod 1000000))"

definition fixed6 :: "double \<Rightarrow> string" where
  "fixed6 s = (case s of
       Fin x \<Rightarrow> let k = round_even (\<bar>x\<bar> * 1000000) in (if x < 0 then ''-'' else []) @ millionths (nat k)
     | PInf \<Rightarrow> ''inf'' | NInf \<Rightarrow> ''-inf'' | NaN \<Rightarrow> ''nan'')"

definition rating_text :: "ulong \<times> t_PeerRating \<Rightarrow> string" where
  "rating_text entry = (case entry of (peerId, rating) \<Rightarrow>
     show_dec (unat peerId) @ CHR '':'' # fixed6 (score rating) @ CHR '':'' # show_dec (unat (successCount rating)) @
     CHR '':'' # show_dec (unat (failureCount rating)))"

fun persist_loop :: "(ulong \<times> t_PeerRating) list \<Rightarrow> string \<Rightarrow> string" where
  "persist_loop [] serialized = serialized"
| "persist_loop (e # es) serialized =
     persist_loop es ((if serialized \<noteq> [] then serialized @ '';'' else serialized) @ rating_text e)"

definition re_persist :: "(ulong \<times> t_PeerRating) list \<Rightarrow> Configuration \<Rightarrow> bool \<times> Configuration" where
  "re_persist entries cfg = cfg_setValue ''rating.peerScores'' (persist_loop entries []) cfg"

text \<open>The pieces between the separators.\<close>

definition entry_fields :: "string \<Rightarrow> (string \<times> string \<times> string \<times> string) option" where
  "entry_fields entry = (case split_on (CHR '':'') entry of
       a # b # c # d # rest \<Rightarrow> Some (a, b, c, foldl (\<lambda>t u. t @ CHR '':'' # u) d rest)
     | _ \<Rightarrow> None)"

text \<open>\<^verbatim>\<open>std::stod\<close> is the argument \<open>stod\<close>, \<open>None\<close> for its exceptions; it may read an infinity or a text like "nan". An entry that can not be read is left out.\<close>

definition load_entry :: "(string \<Rightarrow> double option) \<Rightarrow> int \<Rightarrow> string \<Rightarrow> ratings \<Rightarrow> ratings" where
  "load_entry stod now entry r = (case entry_fields entry of
       None \<Rightarrow> r
     | Some (a, b, c, d) \<Rightarrow>
         (case do { peerId \<leftarrow> std_stoul a; s \<leftarrow> stod b; successes \<leftarrow> std_stoul c; failures \<leftarrow> std_stoul d;
                    Some (peerId, s, successes, failures) } of
            None \<Rightarrow> r
          | Some (peerId, s, successes, failures) \<Rightarrow>
              r(peerId \<mapsto> \<lparr>score = clampScore s, successCount = successes, failureCount = failures, lastUpdate = now\<rparr>)))"

fun load_loop :: "(string \<Rightarrow> double option) \<Rightarrow> (nat \<Rightarrow> int) \<Rightarrow> nat \<Rightarrow> string list \<Rightarrow> ratings \<Rightarrow> ratings" where
  "load_loop stod now i [] r = r"
| "load_loop stod now i (entry # entries) r = load_loop stod now (i + 1) entries (load_entry stod (now i) entry r)"

definition load_text :: "(string \<Rightarrow> double option) \<Rightarrow> (nat \<Rightarrow> int) \<Rightarrow> string \<Rightarrow> ratings" where
  "load_text stod now serialized = load_loop stod now 0 (split_on (CHR '';'') serialized) Map.empty"

definition re_load :: "(string \<Rightarrow> double option) \<Rightarrow> (nat \<Rightarrow> int) \<Rightarrow> Configuration \<Rightarrow> ratings \<Rightarrow> bool \<times> ratings" where
  "re_load stod now cfg r = (case cfg_getValue ''rating.peerScores'' cfg of
       None \<Rightarrow> (False, r)
     | Some serialized \<Rightarrow> if serialized = [] then (True, r) else (True, load_text stod now serialized))"

section \<open>The range of a score\<close>

datatype re_call =
    ReResponse "nat \<Rightarrow> int" "AlpinePeerProfile option" | ReBadPacket "nat \<Rightarrow> int" "AlpinePeerProfile option"
  | ReTransfer "nat \<Rightarrow> int" "AlpinePeerProfile option" | ReMissing "nat \<Rightarrow> int" "AlpinePeerProfile option"
  | ReDeceptive "nat \<Rightarrow> int" "AlpinePeerProfile option" | ReEvaluation "nat \<Rightarrow> int" "AlpinePeerProfile option" t_ResourceRating
  | ReMerge "nat \<Rightarrow> int" ulong "t_ScoreEntry list" | ReLoad "nat \<Rightarrow> int" Configuration

fun re_do :: "(string \<Rightarrow> double option) \<Rightarrow> re_call \<Rightarrow> ratings \<Rightarrow> ratings" where
  "re_do stod (ReResponse now p) r = fst (snd (queryResponseEvent now p r))"
| "re_do stod (ReBadPacket now p) r = fst (snd (badPacketEvent now p r))"
| "re_do stod (ReTransfer now p) r = fst (snd (transferFailureEvent now p r))"
| "re_do stod (ReMissing now p) r = fst (snd (naResourceEvent now p r))"
| "re_do stod (ReDeceptive now p) r = fst (snd (deceptiveResourceEvent now p r))"
| "re_do stod (ReEvaluation now p rating) r = fst (snd (clientResourceEvaluation now p rating r))"
| "re_do stod (ReMerge now m remotes) r = mergeRemoteScores now m remotes r"
| "re_do stod (ReLoad now cfg) r = snd (re_load stod now cfg r)"

definition in_range :: "ratings \<Rightarrow> bool" where
  "in_range r \<longleftrightarrow> (\<forall>i rating. r i = Some rating \<longrightarrow> unit_or_nan (score rating))"

lemma clamp_range [simp]: "unit_or_nan (clampScore s)"
  by (cases s) (auto simp: clampScore_def kMinScore_def kMaxScore_def)

lemma clamp_id: "unit_or_nan s \<Longrightarrow> clampScore s = s"
  by (cases s) (auto simp: clampScore_def kMinScore_def kMaxScore_def)

lemma clamp_nan [simp]: "clampScore s = NaN \<longleftrightarrow> s = NaN"
  by (auto simp: clampScore_def kMinScore_def kMaxScore_def)

lemma in_range_update: "in_range r \<Longrightarrow> unit_or_nan (score x) \<Longrightarrow> in_range (r(i \<mapsto> x))"
  by (simp add: in_range_def)

lemma applyDelta_range: "unit_or_nan (score (applyDelta t1 t2 d ok x))"
  by (simp add: applyDelta_def Let_def)

lemma event_range: "in_range r \<Longrightarrow> in_range (fst (snd (rating_event d ok q now p r)))"
  by (simp add: rating_event_def rate_peer_def in_range_update applyDelta_range)

lemma merge_entry_range: "in_range r \<Longrightarrow> in_range (merge_entry now m e r)"
  by (auto simp: merge_entry_def Let_def intro!: in_range_update split: option.splits)

lemma merge_loop_range: "in_range r \<Longrightarrow> in_range (merge_loop now i m es r)"
  by (induction es arbitrary: i r) (simp_all add: merge_entry_range)

lemma load_entry_range: "in_range r \<Longrightarrow> in_range (load_entry stod now e r)"
  by (auto simp: load_entry_def intro!: in_range_update split: option.split)

lemma load_loop_range: "in_range r \<Longrightarrow> in_range (load_loop stod now i es r)"
  by (induction es arbitrary: i r) (simp_all add: load_entry_range)

lemma in_range_empty [simp]: "in_range Map.empty"
  by (simp add: in_range_def)

lemmas event_defs = queryResponseEvent_def badPacketEvent_def transferFailureEvent_def naResourceEvent_def
  deceptiveResourceEvent_def clientResourceEvaluation_def

lemma re_do_range: "in_range r \<Longrightarrow> in_range (re_do stod c r)"
  by (cases c) (auto simp: event_defs mergeRemoteScores_def event_range merge_loop_range re_load_def load_text_def load_loop_range
      split: option.splits prod.splits)

interpretation re: machine "re_do stod" in_range for stod
  by unfold_locales (rule re_do_range)

section \<open>Decay\<close>

lemma decayed_Fin: "decayed h (Fin s) = Fin (1 / 2 + (s - 1 / 2) * (99 / 100) powr h)"
  by (simp add: decayed_def kDecayRatePerHr_def kDecayTarget_def)

lemma decayed_nan [simp]: "decayed h s = NaN \<longleftrightarrow> s = NaN"
  by (cases s) (auto simp: decayed_def dsub_def dinf_def kDecayRatePerHr_def)

lemma decayed_of_nan [simp]: "decayed h NaN = NaN"
  by simp

lemma decayed_zero: "decayed 0 s = s"
  by (cases s) (simp_all add: decayed_def kDecayRatePerHr_def kDecayTarget_def dsub_def dinf_def)

lemma powr_decay: "0 \<le> h \<Longrightarrow> (99 / 100 :: real) powr h \<le> 1"
  using powr_mono' [of 0 h "99 / 100"] by simp

lemma decayed_range:
  assumes "0 \<le> h" "unit_or_nan s"
  shows "unit_or_nan (decayed h s)"
  using assms(2)
proof (cases s rule: unit_or_nan_cases)
  case (fin x)
  let ?d = "(x - 1 / 2) * (99 / 100) powr h"
  have "\<bar>?d\<bar> = \<bar>x - 1 / 2\<bar> * (99 / 100) powr h" by (simp add: abs_mult)
  also have "\<dots> \<le> \<bar>x - 1 / 2\<bar> * 1" by (rule mult_left_mono) (use assms powr_decay in auto)
  also have "\<dots> \<le> 1 / 2" unfolding mult_1_right using fin by linarith
  finally have "\<bar>?d\<bar> \<le> 1 / 2" .
  then show ?thesis unfolding fin(1) decayed_Fin unit_or_nan_simps by linarith
qed simp

text \<open>What a reader sees at the time an event decays the score is what the event starts from.\<close>

lemma getScore_decay:
  assumes "in_range r"
  shows "getScore now i r = score (applyDecay now (case r i of None \<Rightarrow> t_PeerRating_new t | Some x \<Rightarrow> x))"
proof (cases "r i")
  case None
  then show ?thesis by (simp add: getScore_def applyDecay_def t_PeerRating_new_def kInitialScore_def decayed_Fin Let_def)
next
  case (Some x)
  then have "unit_or_nan (score x)" using assms by (auto simp: in_range_def)
  with Some decayed_range [of "hours (now - lastUpdate x)" "score x"] show ?thesis
    by (simp add: getScore_def applyDecay_def Let_def clamp_id)
qed

lemma getScore_range:
  assumes "in_range r"
  shows "unit_or_nan (getScore now i r)"
proof (cases "r i")
  case None
  then show ?thesis by (simp add: getScore_def kInitialScore_def)
next
  case (Some x)
  then have "unit_or_nan (score x)" using assms by (auto simp: in_range_def)
  with Some show ?thesis by (simp add: getScore_def Let_def)
qed

lemma getScore_dist:
  assumes "in_range r" "r i = Some x" "score x = Fin s" "lastUpdate x \<le> now"
  shows "\<exists>y. getScore now i r = Fin y \<and> \<bar>y - 1 / 2\<bar> = \<bar>s - 1 / 2\<bar> * (99 / 100) powr hours (now - lastUpdate x)"
proof -
  have h: "0 \<le> hours (now - lastUpdate x)" using assms(4) by (simp add: hours_def)
  have "getScore now i r = decayed (hours (now - lastUpdate x)) (Fin s)"
    using getScore_decay [OF assms(1), of now i 0] assms(2,3) h decayed_zero [of "Fin s"] by (auto simp: applyDecay_def Let_def not_less)
  then show ?thesis by (simp add: decayed_Fin abs_mult)
qed

section \<open>Scores that are not numbers\<close>

definition nan_at :: "ulong \<Rightarrow> ratings \<Rightarrow> bool" where
  "nan_at i r \<longleftrightarrow> (\<exists>x. r i = Some x \<and> score x = NaN)"

definition count_of :: "ratings \<Rightarrow> ulong \<Rightarrow> ulong" where
  "count_of r i = (case r i of None \<Rightarrow> 0 | Some x \<Rightarrow> interactions x)"

text \<open>What can make the score of peer \<open>i\<close> not a number: a remote score that is infinite or not a number itself, a remote
  count that wraps the sum of the counts to 0, or such a text in the configuration.\<close>

definition merge_source :: "ulong \<Rightarrow> t_ScoreEntry list \<Rightarrow> ulong \<Rightarrow> ratings \<Rightarrow> bool" where
  "merge_source m es i r \<longleftrightarrow> (\<exists>e\<in>set es. se_peerId e = i \<and> m \<le> se_interactions e \<and>
     (\<not> finite_double (se_score e) \<or> count_of r i + se_interactions e = 0))"

definition load_source :: "(string \<Rightarrow> double option) \<Rightarrow> Configuration \<Rightarrow> ulong \<Rightarrow> bool" where
  "load_source stod cfg i \<longleftrightarrow> (\<exists>t. cfg_getValue ''rating.peerScores'' cfg = Some t \<and>
     (\<exists>entry\<in>set (split_on (CHR '';'') t). \<exists>a b c d. entry_fields entry = Some (a, b, c, d) \<and> std_stoul a = Some i \<and> stod b = Some NaN))"

fun nan_source :: "(string \<Rightarrow> double option) \<Rightarrow> re_call \<Rightarrow> ulong \<Rightarrow> ratings \<Rightarrow> bool" where
  "nan_source stod (ReMerge now m es) i r = merge_source m es i r"
| "nan_source stod (ReLoad now cfg) i r = load_source stod cfg i"
| "nan_source stod c i r = False"

fun is_load :: "re_call \<Rightarrow> bool" where
  "is_load (ReLoad now cfg) = True"
| "is_load c = False"

lemma applyDelta_nan: "score (applyDelta t1 t2 d ok x) = NaN \<longleftrightarrow> score x = NaN"
  by (cases "score (applyDecay t1 x)") (auto simp: applyDelta_def applyDecay_def Let_def split: if_splits)

lemma event_nan: "nan_at i (fst (snd (rating_event d ok q now p r))) \<longleftrightarrow> nan_at i r"
  by (auto simp: rating_event_def rate_peer_def nan_at_def applyDelta_nan t_PeerRating_new_def split: option.splits)

lemma dadd_finite: "finite_double a \<Longrightarrow> finite_double b \<Longrightarrow> dadd a b \<noteq> NaN"
  by (auto simp: finite_double_iff)

lemma weighted_finite:
  assumes "finite_double a" "finite_double b" "n \<noteq> 0"
  shows "dadd (dmul a (ddiv x n)) (dmul b (ddiv y n)) \<noteq> NaN"
  using assms by (auto simp: finite_double_iff ddiv_def)

lemma merge_entry_nan:
  assumes "in_range r" "nan_at i (merge_entry now m e r)" "\<not> nan_at i r"
  shows "merge_source m [e] i r"
proof (rule ccontr)
  assume no: "\<not> merge_source m [e] i r"
  have e: "\<not> se_interactions e < m" "m \<le> se_interactions e" "se_peerId e = i" using assms(2,3)
    by (auto simp: merge_entry_def nan_at_def not_less split: if_splits option.splits)
  then have fin: "finite_double (se_score e)" "count_of r i + se_interactions e \<noteq> 0" using no by (auto simp: merge_source_def)
  show False
  proof (cases "r i")
    case None
    with assms(2) e fin show False by (auto simp: merge_entry_def nan_at_def)
  next
    case (Some x)
    have "unit_or_nan (score x)" "score x \<noteq> NaN" using assms(1,3) Some by (auto simp: in_range_def nan_at_def)
    then have x: "finite_double (score x)" by (auto elim: unit_or_nan_cases)
    have "unat (interactions x + se_interactions e) \<noteq> 0" using fin(2) by (simp add: count_of_def Some unat_eq_0)
    then have n: "real (unat (interactions x + se_interactions e)) \<noteq> 0" unfolding of_nat_eq_0_iff .
    with Some assms(2) e show False
      using weighted_finite [OF x fin(1) n] x fin(1)
      by (auto simp: merge_entry_def nan_at_def Let_def finite_double_iff split: if_splits)
  qed
qed

lemma merge_entry_count: "count_of (merge_entry now m e r) i = count_of r i"
  by (auto simp: merge_entry_def count_of_def interactions_def Let_def split: option.splits)

lemma merge_entry_keeps_nan: "nan_at i r \<Longrightarrow> nan_at i (merge_entry now m e r)"
  by (auto simp: merge_entry_def nan_at_def Let_def split: option.splits)

lemma merge_loop_nan:
  "in_range r \<Longrightarrow> nan_at i (merge_loop now k m es r) \<Longrightarrow> \<not> nan_at i r \<Longrightarrow> merge_source m es i r"
proof (induction es arbitrary: k r)
  case (Cons e es)
  let ?r = "merge_entry (now k) m e r"
  show ?case
  proof (cases "nan_at i ?r")
    case True
    then show ?thesis using merge_entry_nan [OF Cons.prems(1) True Cons.prems(3)] by (simp add: merge_source_def)
  next
    case False
    then have "merge_source m es i ?r" using Cons.IH [OF merge_entry_range [OF Cons.prems(1)]] Cons.prems(2) by simp
    then show ?thesis by (auto simp: merge_source_def merge_entry_count)
  qed
qed simp

lemma merge_loop_keeps_nan: "nan_at i r \<Longrightarrow> nan_at i (merge_loop now k m es r)"
  by (induction es arbitrary: k r) (simp_all add: merge_entry_keeps_nan)

lemma load_loop_nan:
  "nan_at i (load_loop stod now k es r) \<Longrightarrow> \<not> nan_at i r \<Longrightarrow>
    \<exists>entry\<in>set es. \<exists>a b c d. entry_fields entry = Some (a, b, c, d) \<and> std_stoul a = Some i \<and> stod b = Some NaN"
proof (induction es arbitrary: k r)
  case (Cons e es)
  let ?r = "load_entry stod (now k) e r"
  show ?case
  proof (cases "nan_at i ?r")
    case True
    then have "\<exists>a b c d. entry_fields e = Some (a, b, c, d) \<and> std_stoul a = Some i \<and> stod b = Some NaN" using Cons.prems(2)
      by (auto simp: load_entry_def nan_at_def split: option.splits Option.bind_splits if_splits)
    then show ?thesis by auto
  next
    case False
    then show ?thesis using Cons.IH [of "k + 1" ?r] Cons.prems(1) by auto
  qed
qed simp

lemma re_do_nan:
  assumes "in_range r" "nan_at i (re_do stod c r)" "\<not> nan_at i r"
  shows "nan_source stod c i r"
proof (cases c)
  case (ReMerge now m es)
  with assms show ?thesis by (simp add: mergeRemoteScores_def merge_loop_nan)
next
  case (ReLoad now cfg)
  with assms(2,3) obtain t where t: "cfg_getValue ''rating.peerScores'' cfg = Some t" "nan_at i (load_text stod now t)"
    by (auto simp: re_load_def split: option.splits if_splits)
  have "\<not> nan_at i Map.empty" by (simp add: nan_at_def)
  with t ReLoad show ?thesis using load_loop_nan [of i stod now 0] by (auto simp: load_source_def load_text_def)
qed (use assms in \<open>auto simp: event_defs event_nan split: prod.splits\<close>)

lemma re_do_keeps_nan: "nan_at i r \<Longrightarrow> \<not> is_load c \<Longrightarrow> nan_at i (re_do stod c r)"
  by (cases c) (auto simp: event_defs event_nan mergeRemoteScores_def merge_loop_keeps_nan split: prod.splits)

section \<open>Merging\<close>

text \<open>A merge with weights that add up stays between the two scores.\<close>

lemma merge_convex:
  assumes "0 \<le> a" "0 \<le> (b :: real)" "0 < a + b"
  shows "min s t \<le> s * (a / (a + b)) + t * (b / (a + b))" "s * (a / (a + b)) + t * (b / (a + b)) \<le> max s t"
proof -
  let ?m = "s * (a / (a + b)) + t * (b / (a + b))"
  have m: "?m = (s * a + t * b) / (a + b)" by (simp add: add_divide_distrib)
  have "min s t * a \<le> s * a" "min s t * b \<le> t * b" "s * a \<le> max s t * a" "t * b \<le> max s t * b"
    using assms by (intro mult_right_mono; simp)+
  then have "min s t * (a + b) \<le> s * a + t * b" "s * a + t * b \<le> max s t * (a + b)" by (simp_all add: distrib_left)
  then show "min s t \<le> ?m" "?m \<le> max s t" unfolding m using assms(3) by (simp_all add: pos_le_divide_eq pos_divide_le_eq)
qed

section \<open>The saved text\<close>

lemma length_pad_left: "length s \<le> n \<Longrightarrow> length (pad_left n s) = n"
  by (simp add: pad_left_def)

lemma set_pad_left: "c \<in> set (pad_left n s) \<Longrightarrow> c = CHR ''0'' \<or> c \<in> set s"
  by (auto simp: pad_left_def split: if_splits)

lemma is_digit_zero [simp]: "is_digit CHR ''0''"
  by (simp add: is_digit_def)

lemma millionths_chars: "c \<in> set (millionths k) \<Longrightarrow> is_digit c \<or> c = CHR ''.''"
  using show_dec_digits set_pad_left unfolding millionths_def by fastforce

lemma fixed6_unit: "0 \<le> s \<Longrightarrow> fixed6 (Fin s) = millionths (nat (round_even (s * 1000000)))"
  by (simp add: fixed6_def Let_def)

lemma round_even_dist: "\<bar>of_int (round_even x) - x\<bar> \<le> 1 / 2"
proof -
  have "0 \<le> x - of_int \<lfloor>x\<rfloor>" "x - of_int \<lfloor>x\<rfloor> < 1" by linarith+
  then show ?thesis unfolding round_even_def by (auto simp: abs_le_iff)
qed

lemma round_even_range:
  assumes "0 \<le> x" "x \<le> of_nat n"
  shows "0 \<le> round_even x" "round_even x \<le> int n"
proof -
  have "- (1 / 2) \<le> (of_int (round_even x) :: real)" "(of_int (round_even x) :: real) \<le> of_nat n + 1 / 2"
    using round_even_dist [of x] assms by linarith+
  then show "0 \<le> round_even x" "round_even x \<le> int n" by linarith+
qed

text \<open>What is relied on of \<^verbatim>\<open>std::stod\<close>: it reads a decimal with six digits after the point exactly.\<close>

locale decimal_reader =
  fixes stod :: "string \<Rightarrow> double option"
  assumes stod_millionths: "k \<le> 1000000 \<Longrightarrow> stod (millionths k) = Some (Fin (real k / 1000000))"
begin

lemma stod_fixed6:
  assumes "0 \<le> s" "s \<le> 1"
  obtains s' where "stod (fixed6 (Fin s)) = Some (Fin s')" "0 \<le> s'" "s' \<le> 1" "\<bar>s' - s\<bar> \<le> 1 / 2000000"
proof -
  let ?k = "round_even (s * 1000000)"
  have k: "0 \<le> ?k" "?k \<le> 1000000" using round_even_range [of "s * 1000000" 1000000] assms by simp_all
  then have "stod (fixed6 (Fin s)) = Some (Fin (real (nat ?k) / 1000000))" using assms by (simp add: fixed6_unit stod_millionths)
  moreover have "\<bar>real (nat ?k) / 1000000 - s\<bar> \<le> 1 / 2000000"
    using round_even_dist [of "s * 1000000"] k by (simp add: abs_le_iff field_simps)
  ultimately show thesis using k by (intro that [of "real (nat ?k) / 1000000"]) simp_all
qed

end

text \<open>A reader of plain decimals, one of those \<^verbatim>\<open>std::stod\<close> may be.\<close>

definition stod_ref :: "string \<Rightarrow> double option" where
  "stod_ref s = (case split_on (CHR ''.'') s of
       [a, b] \<Rightarrow> if list_all is_digit (a @ b) then Some (Fin (real (digits_val a) + real (digits_val b) / 10 ^ length b)) else None
     | _ \<Rightarrow> None)"

lemma digits_val_pad: "digits_val (pad_left n s) = digits_val s"
proof -
  have "foldl (\<lambda>v c. 10 * v + digit_val c) 0 (replicate m (CHR ''0'')) = 0" for m
    by (induction m) (simp_all add: digit_val_def)
  then show ?thesis by (simp add: pad_left_def digits_val_def)
qed

interpretation stod_ref: decimal_reader stod_ref
proof
  fix k :: nat
  assume "k \<le> 1000000"
  have len: "length (show_dec (k mod 1000000)) \<le> 6" by (simp add: show_dec_length)
  have digits: "list_all is_digit (show_dec (k div 1000000) @ pad_left 6 (show_dec (k mod 1000000)))"
    using show_dec_digits set_pad_left by (fastforce simp: list_all_iff)
  then have "CHR ''.'' \<notin> set (show_dec (k div 1000000))" "CHR ''.'' \<notin> set (pad_left 6 (show_dec (k mod 1000000)))"
    using not_digit_punct(1) unfolding list_all_iff set_append by blast+
  then have "split_on (CHR ''.'') (millionths k) = [show_dec (k div 1000000), pad_left 6 (show_dec (k mod 1000000))]"
    by (simp add: millionths_def split_on_cons)
  moreover have "real k = real (k div 1000000) * 1000000 + real (k mod 1000000)"
    by (metis div_mult_mod_eq of_nat_add of_nat_mult of_nat_numeral)
  ultimately show "stod_ref (millionths k) = Some (Fin (real k / 1000000))"
    using digits length_pad_left [OF len] by (simp add: stod_ref_def digits_val_pad add_divide_distrib)
qed

lemma no_separator:
  "c \<in> {CHR '':'', CHR '';''} \<Longrightarrow> c \<notin> set (show_dec n)" "c \<in> {CHR '':'', CHR '';''} \<Longrightarrow> 0 \<le> s \<Longrightarrow> c \<notin> set (fixed6 (Fin s))"
proof -
  assume c: "c \<in> {CHR '':'', CHR '';''}"
  then have "\<not> is_digit c" "c \<noteq> CHR ''.''" by (auto simp: is_digit_def)
  then show "c \<notin> set (show_dec n)" "0 \<le> s \<Longrightarrow> c \<notin> set (fixed6 (Fin s))"
    using show_dec_no_char millionths_chars by (auto simp: fixed6_unit)
qed

fun nonneg_double :: "double \<Rightarrow> bool" where
  "nonneg_double (Fin x) = (0 \<le> x)"
| "nonneg_double a = False"

lemma nonneg_doubleE: "nonneg_double a \<Longrightarrow> (\<And>x. a = Fin x \<Longrightarrow> 0 \<le> x \<Longrightarrow> P) \<Longrightarrow> P"
  by (cases a) auto

lemma unit_nonneg: "unit_double a \<Longrightarrow> nonneg_double a"
  by (cases a) auto

lemma entry_fields_text:
  assumes "nonneg_double (score x)"
  shows "entry_fields (rating_text (i, x)) =
    Some (show_dec (unat i), fixed6 (score x), show_dec (unat (successCount x)), show_dec (unat (failureCount x)))"
  using assms by (auto elim!: nonneg_doubleE simp: entry_fields_def rating_text_def split_on_cons no_separator)

lemma text_no_separator: "nonneg_double (score x) \<Longrightarrow> CHR '';'' \<notin> set (rating_text (i, x))" "rating_text e \<noteq> []"
  by (auto elim!: nonneg_doubleE simp: rating_text_def no_separator split: prod.split)

lemma split_persist:
  assumes "\<forall>e\<in>set es. nonneg_double (score (snd e))" "ser \<noteq> []"
  shows "split_on (CHR '';'') (persist_loop es ser) = butlast (split_on (CHR '';'') ser) @ [last (split_on (CHR '';'') ser)] @ map rating_text es"
proof -
  have app: "split_on d (u @ d # v) = split_on d u @ split_on d v" for d u v
    by (induction u) (auto split: list.split)
  show ?thesis using assms
  proof (induction es arbitrary: ser)
    case (Cons e es)
    obtain i x where e: "e = (i, x)" by (cases e)
    have "split_on (CHR '';'') (ser @ CHR '';'' # rating_text e) = split_on (CHR '';'') ser @ [rating_text e]"
      using Cons.prems(1) text_no_separator(1) [of x i] by (simp add: e app split_on_cons)
    with Cons show ?case by (simp add: butlast_append)
  qed simp
qed

definition restored :: "t_PeerRating \<Rightarrow> t_PeerRating option \<Rightarrow> bool" where
  "restored x y \<longleftrightarrow> (\<exists>x' s s'. y = Some x' \<and> score x = Fin s \<and> score x' = Fin s' \<and> \<bar>s' - s\<bar> \<le> 1 / 2000000 \<and> successCount x' = successCount x \<and>
     failureCount x' = failureCount x)"

definition saveable :: "(ulong \<times> t_PeerRating) list \<Rightarrow> bool" where
  "saveable es \<longleftrightarrow> distinct (map fst es) \<and> (\<forall>e\<in>set es. unit_double (score (snd e)))"

context decimal_reader begin

lemma load_entry_text:
  assumes "unit_double (score x)"
  shows "restored x (load_entry stod t (rating_text (i, x)) r i)" "j \<noteq> i \<Longrightarrow> load_entry stod t (rating_text (i, x)) r j = r j"
proof -
  obtain s where s: "score x = Fin s" "0 \<le> s" "s \<le> 1" using assms by (cases "score x") auto
  obtain s' where s': "stod (fixed6 (Fin s)) = Some (Fin s')" "0 \<le> s'" "s' \<le> 1" "\<bar>s' - s\<bar> \<le> 1 / 2000000"
    using stod_fixed6 [OF s(2,3)] by blast
  then have "load_entry stod t (rating_text (i, x)) r = r(i \<mapsto> \<lparr>score = Fin s', successCount = successCount x,
      failureCount = failureCount x, lastUpdate = t\<rparr>)"
    using unit_nonneg [OF assms] by (simp add: load_entry_def entry_fields_text clamp_id s)
  with s'(4) show "restored x (load_entry stod t (rating_text (i, x)) r i)"
    "j \<noteq> i \<Longrightarrow> load_entry stod t (rating_text (i, x)) r j = r j" by (simp_all add: restored_def s)
qed

lemma load_loop_text:
  assumes "saveable es"
  shows "(\<forall>e\<in>set es. restored (snd e) (load_loop stod now n (map rating_text es) r (fst e))) \<and>
    (\<forall>j. j \<notin> fst ` set es \<longrightarrow> load_loop stod now n (map rating_text es) r j = r j)"
  using assms
proof (induction es arbitrary: n r)
  case (Cons e es)
  obtain i x where e: "e = (i, x)" by (cases e)
  have x: "unit_double (score x)" "saveable es" "i \<notin> fst ` set es" using Cons.prems by (auto simp: saveable_def e)
  show ?case using Cons.IH [OF x(2), of "n + 1" "load_entry stod (now n) (rating_text (i, x)) r"] load_entry_text [OF x(1)] x(3)
    by (auto simp: e)
qed simp

end

section \<open>Properties\<close>

text \<open>C20: the type of a score. After any events, merges of remote scores (true or not) and reloads, with any texts and
  any readings of the clock, the stored score of every peer is a number between 0 and 1 or not a number, and so is
  every answer to a reader. The score of a peer turns into the second only when a call brings in an infinite score or
  one that is not a number, or a remote count that together with the peer's own wraps to 0; from then on no event and no
  merge makes it a number again.\<close>

theorem rating_in_range:
  "let r = fold (re_do stod) calls Map.empty in
     (\<forall>i x. r i = Some x \<longrightarrow> unit_or_nan (score x)) \<and> (\<forall>now i. unit_or_nan (getScore now i r)) \<and>
     (\<forall>c i. nan_at i (re_do stod c r) \<longrightarrow> nan_at i r \<or> nan_source stod c i r) \<and>
     (\<forall>c i. nan_at i r \<and> \<not> is_load c \<longrightarrow> nan_at i (re_do stod c r))"
proof -
  have r: "in_range (fold (re_do stod) calls Map.empty)" by (rule re.run_inv) simp
  then show ?thesis using getScore_range [OF r] re_do_nan [OF r] re_do_keeps_nan unfolding Let_def in_range_def by blast
qed

definition demo_profile :: "AlpinePeerProfile option" where
  "demo_profile = Some (AlpinePeerProfile_of 7)"

text \<open>An event of weight zero about peer 7, then the score 0 with a remote count of 2^64 - 1: the score is not a
  number, and stays so.\<close>

definition poison :: "re_call list" where
  "poison = [ReEvaluation (\<lambda>_. 5) demo_profile Average, ReMerge (\<lambda>_. 6) 1 [\<lparr>se_peerId = 7, se_score = Fin 0, se_interactions = - 1\<rparr>]]"

lemma poisoned: "nan_at 7 (fold (re_do stod) poison Map.empty)"
  by (simp add: poison_def demo_profile_def clientResourceEvaluation_def resource_delta_def rating_event_def re_getPeerId_def rate_peer_def
      AlpinePeerProfile_of_def applyDelta_def applyDecay_def hours_def t_PeerRating_new_def mergeRemoteScores_def merge_entry_def
      interactions_def clampScore_def kMinScore_def kMaxScore_def ddiv_def dinf_def nan_at_def Let_def)

theorem rating_in_range_witness:
  "nan_at 7 (re_do stod_ref (ReBadPacket (\<lambda>_. 9) demo_profile) (fold (re_do stod_ref) poison Map.empty)) \<and>
   unit_or_nan (getScore 9 7 (fold (re_do stod_ref) poison Map.empty))"
  using rating_in_range [where calls = poison and stod = stod_ref] poisoned [of stod_ref] unfolding Let_def by (metis is_load.simps(3))

text \<open>The effect of an event. The new score of the peer, known or not, is what a reader would have been told
  at that moment plus a tenth of the event's weight, cut to the range; one of its two counters is raised;
  no other peer is touched. Between events a score only decays towards one half, by one percent of the
  distance in an hour.\<close>

lemma rating_event_effect:
  assumes "in_range r" and "rating_event delta isSuccess q now (Some p) r = (ok, r', q')"
  shows "ok \<and> q' = Some q \<and> (\<forall>j. j \<noteq> pf_peerId p \<longrightarrow> r' j = r j) \<and>
    (\<exists>x. r' (pf_peerId p) = Some x \<and> lastUpdate x = now 2 \<and>
       score x = clampScore (dadd (getScore (now 1) (pf_peerId p) r) (Fin (delta / 10))) \<and>
       interactions x = (case r (pf_peerId p) of None \<Rightarrow> 0 | Some y \<Rightarrow> interactions y) + 1 \<and>
       (\<forall>t s. now 2 \<le> t \<longrightarrow> score x = Fin s \<longrightarrow>
          (\<exists>y. getScore t (pf_peerId p) r' = Fin y \<and> \<bar>y - 1 / 2\<bar> = \<bar>s - 1 / 2\<bar> * (99 / 100) powr hours (t - now 2))))"
proof -
  let ?i = "pf_peerId p"
  define y where "y = (case r ?i of None \<Rightarrow> t_PeerRating_new (now 0) | Some y \<Rightarrow> y)"
  define x where "x = applyDelta (now 1) (now 2) delta isSuccess y"
  have r': "ok" "q' = Some q" "r' = r(?i \<mapsto> x)"
    using assms(2) by (auto simp: rating_event_def re_getPeerId_def rate_peer_def x_def y_def)
  have range: "in_range r'" unfolding r'(3) x_def by (intro in_range_update assms(1) applyDelta_range)
  have i: "r' ?i = Some x" by (simp add: r'(3))
  have score: "score x = clampScore (dadd (getScore (now 1) ?i r) (Fin (delta / 10)))"
    unfolding getScore_decay [OF assms(1), of _ _ "now 0"] x_def y_def by (simp add: applyDelta_def kAlpha_def Let_def)
  have lu: "lastUpdate x = now 2" by (simp add: x_def applyDelta_def Let_def)
  have "interactions (applyDecay t z) = interactions z" for t z
    by (simp add: applyDecay_def interactions_def Let_def)
  then have "interactions x = interactions y + 1" by (simp add: x_def applyDelta_def interactions_def Let_def)
  also have "interactions y = (case r ?i of None \<Rightarrow> 0 | Some y \<Rightarrow> interactions y)"
    by (simp add: y_def interactions_def t_PeerRating_new_def split: option.splits)
  finally have "r' ?i = Some x \<and> lastUpdate x = now 2 \<and> score x = clampScore (dadd (getScore (now 1) ?i r) (Fin (delta / 10))) \<and>
      interactions x = (case r ?i of None \<Rightarrow> 0 | Some y \<Rightarrow> interactions y) + 1 \<and>
      (\<forall>t s. now 2 \<le> t \<longrightarrow> score x = Fin s \<longrightarrow>
         (\<exists>y. getScore t ?i r' = Fin y \<and> \<bar>y - 1 / 2\<bar> = \<bar>s - 1 / 2\<bar> * (99 / 100) powr hours (t - now 2)))"
    using i lu score getScore_dist [OF range i, unfolded lu] by blast
  then show ?thesis using r'(1,2) by (intro conjI exI [of _ x]) (simp_all add: r'(3))
qed

lemma rating_event_effect_witness:
  "\<exists>x. fst (snd (rating_event (- 5 / 10) False (- 5) (\<lambda>i. 5) (Some (AlpinePeerProfile_of 7)) Map.empty)) 7 = Some x \<and>
     score x = Fin (1 / 2 - 5 / 100) \<and> interactions x = 1"
proof -
  from rating_event_effect [OF in_range_empty, of "- 5 / 10" False "- 5" "\<lambda>i. 5" "AlpinePeerProfile_of 7" _ _ _, OF surjective_pairing [THEN trans, OF arg_cong2 [OF refl surjective_pairing, of Pair]]]
  show ?thesis by (auto simp: AlpinePeerProfile_of_def getScore_def kInitialScore_def clampScore_def kMinScore_def kMaxScore_def)
qed

text \<open>Gossip. A remote score with too few interactions changes nothing; merged into a known peer it moves
  the score to a value between the old and the remote one, provided the two counters do not wrap. When
  they do, the weights no longer add up: a remote score of 0.2 lifts a peer from 0.1 to 1.\<close>

lemma rating_merge_between:
  assumes "in_range r" and "r (se_peerId e) = Some x" and "score x = Fin a" and "se_score e = Fin b" and "0 \<le> b" and "b \<le> 1"
    and "m \<le> se_interactions e" and "unat (interactions x) + unat (se_interactions e) < 2 ^ 64" and "0 < m"
  shows "\<exists>y c. merge_entry now m e r = r(se_peerId e \<mapsto> y) \<and> interactions y = interactions x \<and> score y = Fin c \<and>
    min a b \<le> c \<and> c \<le> max a b"
proof -
  let ?n = "real (unat (interactions x))" and ?k = "real (unat (se_interactions e))"
  let ?s = "if interactions x < m then a * (1 / 2) + b * (1 / 2) else a * (?n / (?n + ?k)) + b * (?k / (?n + ?k))"
  have x: "0 \<le> a" "a \<le> 1" using assms(1-3) by (fastforce simp: in_range_def)+
  have "0 < unat (se_interactions e)" using assms(7,9) by (simp add: word_less_nat_alt word_le_nat_alt)
  then have pos: "0 < ?n + ?k" by linarith
  have sum: "real (unat (interactions x + se_interactions e)) = ?n + ?k"
    using assms(8) by (simp add: unat_word_ariths)
  have bounds: "min a b \<le> ?s \<and> ?s \<le> max a b"
  proof (cases "interactions x < m")
    case True
    then show ?thesis using merge_convex [of 1 1 a b] by simp
  next
    case False
    show ?thesis unfolding if_not_P [OF False] by (intro conjI merge_convex of_nat_0_le_iff pos(1))
  qed
  then have "unit_or_nan (Fin ?s)" unfolding unit_or_nan_simps using x assms(5,6) by linarith
  then have clamp: "clampScore (Fin ?s) = Fin ?s" by (rule clamp_id)
  have "merge_entry now m e r = r(se_peerId e \<mapsto> x\<lparr>score := clampScore (Fin ?s), lastUpdate := now\<rparr>)"
    using assms(2-4,7) pos leD [OF assms(7)] by (simp add: merge_entry_def ddiv_def sum [simplified] Let_def)
  then show ?thesis using bounds unfolding clamp
    by (intro exI [of _ "x\<lparr>score := Fin ?s, lastUpdate := now\<rparr>"] exI [of _ ?s]) (simp add: interactions_def)
qed

definition demo_rating :: t_PeerRating where
  "demo_rating = \<lparr>score = Fin (1 / 10), successCount = 10, failureCount = 0, lastUpdate = 0\<rparr>"

lemma rating_merge_between_witness:
  "\<exists>y c. merge_entry 5 10 \<lparr>se_peerId = 7, se_score = Fin (1 / 5), se_interactions = 30\<rparr> [7 \<mapsto> demo_rating] = [7 \<mapsto> y] \<and>
     score y = Fin c \<and> 1 / 10 \<le> c \<and> c \<le> 1 / 5"
proof -
  have "in_range [7 \<mapsto> demo_rating]" by (simp add: in_range_def demo_rating_def)
  from rating_merge_between [OF this, of "\<lparr>se_peerId = 7, se_score = Fin (1 / 5), se_interactions = 30\<rparr>" demo_rating "1 / 10" "1 / 5" 10 5]
  show ?thesis by (auto simp: demo_rating_def interactions_def)
qed

lemma merge_overflow:
  "merge_entry 5 10 \<lparr>se_peerId = 7, se_score = Fin (1 / 5), se_interactions = - 9\<rparr> [7 \<mapsto> demo_rating] =
     [7 \<mapsto> demo_rating\<lparr>score := Fin 1, lastUpdate := 5\<rparr>]"
  "merge_entry 5 10 \<lparr>se_peerId = 7, se_score = Fin 0, se_interactions = - 10\<rparr> [7 \<mapsto> demo_rating] =
     [7 \<mapsto> demo_rating\<lparr>score := NaN, lastUpdate := 5\<rparr>]"
  by (simp_all add: merge_entry_def demo_rating_def interactions_def clampScore_def kMaxScore_def kMinScore_def ddiv_def dinf_def Let_def
      word_less_nat_alt unat_minus_one)

text \<open>What \<open>persist\<close> writes, \<open>load\<close> reads back: every peer with both counters and its score up to half a
  millionth, and no other peer. The engine saves through \<open>Configuration::setValue\<close>, which stores nothing,
  so that text never reaches a later \<open>load\<close>.\<close>

lemma rating_roundtrip:
  assumes "decimal_reader stod" and "saveable es" and "es \<noteq> []"
  shows "(\<forall>(i, x)\<in>set es. restored x (load_text stod now (persist_loop es []) i)) \<and>
    (\<forall>j. j \<notin> fst ` set es \<longrightarrow> load_text stod now (persist_loop es []) j = None) \<and>
    re_load stod now (snd (re_persist es cfg)) r = re_load stod now cfg r"
proof -
  obtain e rest where es: "es = e # rest" using assms(3) by (cases es) auto
  have "\<forall>x\<in>set es. nonneg_double (score (snd x))" using assms(2) by (simp add: saveable_def unit_nonneg)
  then have "split_on (CHR '';'') (persist_loop es []) = map rating_text es"
    using split_persist [of rest "rating_text e"] text_no_separator(1) [of "snd e" "fst e"]
    by (simp add: es text_no_separator(2) split_on_cons)
  then have "load_text stod now (persist_loop es []) = load_loop stod now 0 (map rating_text es) Map.empty"
    by (simp add: load_text_def)
  with decimal_reader.load_loop_text [OF assms(1,2), of now 0 Map.empty] show ?thesis
    by (auto simp: re_persist_def cfg_setValue_def)
qed

lemma rating_roundtrip_witness:
  "restored demo_rating (load_text stod_ref (\<lambda>i. 5) (persist_loop [(7, demo_rating)] []) 7)"
  using rating_roundtrip [OF stod_ref.decimal_reader_axioms, of "[(7, demo_rating)]" "\<lambda>i. 5"]
  by (simp add: saveable_def demo_rating_def)

end
