(* ===== verification/Feedback.thy ===== *)
theory Feedback
  imports RatingEngine "HOL-Library.Signed_Division"
begin

text \<open>
  Implicit feedback: the register of downloaded files (base/ResourceStore/ResourceStore.cpp) and the
  aggregator that turns file accesses into ratings (protocols/Alpine/AlpineFeedbackAggregator.cpp), over the
  rating engine. \<^verbatim>\<open>std::filesystem::weakly_canonical\<close> is the argument \<open>canonical\<close>, which gives the path
  itself where the call fails and may be another function at every call. Shown: a path resolves to the download that was registered for it, only the
  peer that served a file is rated, and a resource is rated at most once in a debounce interval.
\<close>

section \<open>The register\<close>

record t_Entry =
  en_resourceId :: ulong
  en_peerId :: ulong
  en_fsPath :: string

record ResourceStore =
  rs_root_m :: string
  rs_byPath_m :: "string \<rightharpoonup> t_Entry"
  rs_idToPath_m :: "ulong \<rightharpoonup> string"

definition ResourceStore_new :: ResourceStore where
  "ResourceStore_new = \<lparr>rs_root_m = [], rs_byPath_m = Map.empty, rs_idToPath_m = Map.empty\<rparr>"

text \<open>\<open>made\<close> is whether the directory could be created, \<open>rootPath\<close> its canonical path if that could be found.\<close>

definition rs_initialize :: "bool \<Rightarrow> string option \<Rightarrow> string \<Rightarrow> ResourceStore \<Rightarrow> bool \<times> ResourceStore" where
  "rs_initialize made rootPath rootDirectory rs =
     (if rootDirectory = [] then (False, rs)
      else if \<not> made then (False, rs)
      else (case rootPath of
          None \<Rightarrow> (False, rs)
        | Some canonicalRoot \<Rightarrow> (True, \<lparr>rs_root_m = canonicalRoot, rs_byPath_m = Map.empty, rs_idToPath_m = Map.empty\<rparr>)))"

definition rs_shutdown :: "ResourceStore \<Rightarrow> ResourceStore" where
  "rs_shutdown rs = rs\<lparr>rs_byPath_m := Map.empty, rs_idToPath_m := Map.empty\<rparr>"

definition registerDownload :: "(string \<Rightarrow> string) \<Rightarrow> ulong \<Rightarrow> ulong \<Rightarrow> string \<Rightarrow> ResourceStore \<Rightarrow> bool \<times> ResourceStore" where
  "registerDownload canonical resourceId peerId fsPath rs =
     (if resourceId = 0 \<or> peerId = 0 \<or> fsPath = [] then (False, rs)
      else
        let c = canonical fsPath in
        if rs_root_m rs = [] \<or> take (length (rs_root_m rs)) c \<noteq> rs_root_m rs then (False, rs)
        else
          let rs1 = (case rs_idToPath_m rs resourceId of
                 Some old \<Rightarrow> if old \<noteq> c
                   then rs\<lparr>rs_byPath_m := (rs_byPath_m rs)(old := None), rs_idToPath_m := (rs_idToPath_m rs)(resourceId \<mapsto> c)\<rparr>
                   else rs
               | None \<Rightarrow> rs\<lparr>rs_idToPath_m := (rs_idToPath_m rs)(resourceId \<mapsto> c)\<rparr>)
          in (True, rs1\<lparr>rs_byPath_m := (rs_byPath_m rs1)(c \<mapsto> \<lparr>en_resourceId = resourceId, en_peerId = peerId, en_fsPath = c\<rparr>)\<rparr>))"

definition resolvePath :: "(string \<Rightarrow> string) \<Rightarrow> string \<Rightarrow> ResourceStore \<Rightarrow> (ulong \<times> ulong) option" where
  "resolvePath canonical fsPath rs =
     map_option (\<lambda>e. (en_resourceId e, en_peerId e)) (rs_byPath_m rs (canonical fsPath))"

definition rs_unregister :: "ulong \<Rightarrow> ResourceStore \<Rightarrow> bool \<times> ResourceStore" where
  "rs_unregister resourceId rs = (case rs_idToPath_m rs resourceId of
       None \<Rightarrow> (False, rs)
     | Some p \<Rightarrow> (True, rs\<lparr>rs_byPath_m := (rs_byPath_m rs)(p := None), rs_idToPath_m := (rs_idToPath_m rs)(resourceId := None)\<rparr>))"

section \<open>The aggregator\<close>

datatype t_FsOp = FsOpen | FsRead | FsClose

record FsEvent =
  fe_fsPath :: string
  fe_op :: t_FsOp
  fe_bytes :: ulong
  fe_pid :: int
  fe_ts :: int

record t_FbConfig =
  dwellMinMs :: ulong
  completionHigh :: real
  completionLow :: real
  debounceSec :: ulong

definition t_FbConfig_new :: t_FbConfig where
  "t_FbConfig_new = \<lparr>dwellMinMs = 500, completionHigh = 9 / 10, completionLow = 1 / 10, debounceSec = 5\<rparr>"

record t_Session =
  ss_openedAt :: int
  ss_readCount :: ulong
  ss_bytesRead :: ulong

text \<open>The aggregator, with the ratings of the engine it drives and the texts it published.\<close>

record Feedback =
  fb_cfg_m :: t_FbConfig
  fb_sessions_m :: "int \<times> string \<rightharpoonup> t_Session"
  fb_lastEmit_m :: "ulong \<rightharpoonup> int"
  fb_totalEvents_m :: ulong
  fb_totalRatings_m :: ulong
  fb_ratings :: ratings
  fb_published :: "string list"

definition Feedback_new :: "t_FbConfig \<Rightarrow> ratings \<Rightarrow> Feedback" where
  "Feedback_new cfg r = \<lparr>fb_cfg_m = cfg, fb_sessions_m = Map.empty, fb_lastEmit_m = Map.empty, fb_totalEvents_m = 0,
     fb_totalRatings_m = 0, fb_ratings = r, fb_published = []\<rparr>"

text \<open>Durations are cut to whole units.\<close>

definition shouldDebounce :: "int \<Rightarrow> uint \<Rightarrow> ulong \<Rightarrow> Feedback \<Rightarrow> bool \<times> Feedback" where
  "shouldDebounce now uid resourceId fb =
     (let key = or (push_bit 32 (ucast uid)) resourceId in
      if (case fb_lastEmit_m fb key of None \<Rightarrow> False
          | Some t \<Rightarrow> (of_int ((now - t) sdiv 1000000000) :: ulong) < debounceSec (fb_cfg_m fb))
      then (True, fb)
      else (False, fb\<lparr>fb_lastEmit_m := (fb_lastEmit_m fb)(key \<mapsto> now)\<rparr>))"

definition classify :: "t_FbConfig \<Rightarrow> int \<Rightarrow> t_Session \<Rightarrow> t_ResourceRating" where
  "classify cfg now s =
     (let dwell = (now - ss_openedAt s) sdiv 1000000 in
      if ss_readCount s = 0 \<or> (of_int dwell :: ulong) < dwellMinMs cfg then Low
      else if ss_bytesRead s > 0 \<and> ss_readCount s \<ge> 4 then High
      else Average)"

fun ratingName :: "t_ResourceRating \<Rightarrow> string" where
  "ratingName High = ''High''"
| "ratingName Low = ''Low''"
| "ratingName Average = ''Average''"

definition access_text :: "ulong \<Rightarrow> ulong \<Rightarrow> t_ResourceRating \<Rightarrow> int \<Rightarrow> string" where
  "access_text peerId resourceId rating delta =
     ''peer='' @ show_dec (unat peerId) @ '' resource='' @ show_dec (unat resourceId) @ '' rating='' @ ratingName rating @
     '' delta='' @ to_string_int delta"

text \<open>The clock is read for the dwell time (\<open>now 3\<close>), for the debouncing (\<open>now 4\<close>) and by the engine.\<close>

definition finalizeSession :: "(string \<Rightarrow> string) \<Rightarrow> ResourceStore \<Rightarrow> (nat \<Rightarrow> int) \<Rightarrow> string \<Rightarrow> t_Session \<Rightarrow> Feedback \<Rightarrow> Feedback" where
  "finalizeSession canonical store now fsPath session fb = (case resolvePath canonical fsPath store of
       None \<Rightarrow> fb
     | Some (resourceId, peerId) \<Rightarrow>
         let rating = classify (fb_cfg_m fb) (now 3) session;
             (debounced, fb1) = shouldDebounce (now 4) 0 resourceId fb in
         if debounced then fb1
         else (case clientResourceEvaluation now (Some (AlpinePeerProfile_of peerId)) rating (fb_ratings fb1) of
             (True, r, Some delta) \<Rightarrow> fb1\<lparr>fb_totalRatings_m := fb_totalRatings_m fb1 + 1, fb_ratings := r,
                 fb_published := fb_published fb1 @ [access_text peerId resourceId rating delta]\<rparr>
           | (ok, r, d) \<Rightarrow> fb1\<lparr>fb_ratings := r\<rparr>))"

definition fb_onEvent :: "(string \<Rightarrow> string) \<Rightarrow> ResourceStore \<Rightarrow> (nat \<Rightarrow> int) \<Rightarrow> FsEvent \<Rightarrow> Feedback \<Rightarrow> Feedback" where
  "fb_onEvent canonical store now event fb =
     (let fb1 = fb\<lparr>fb_totalEvents_m := fb_totalEvents_m fb + 1\<rparr>;
          key = (fe_pid event, fe_fsPath event) in
      case fe_op event of
        FsOpen \<Rightarrow> fb1\<lparr>fb_sessions_m := (fb_sessions_m fb1)(key \<mapsto> \<lparr>ss_openedAt = fe_ts event, ss_readCount = 0, ss_bytesRead = 0\<rparr>)\<rparr>
      | FsRead \<Rightarrow>
          (case fb_sessions_m fb1 key of
             None \<Rightarrow> fb1
           | Some s \<Rightarrow> fb1\<lparr>fb_sessions_m := (fb_sessions_m fb1)(key \<mapsto>
                 s\<lparr>ss_readCount := ss_readCount s + 1, ss_bytesRead := ss_bytesRead s + fe_bytes event\<rparr>)\<rparr>)
      | FsClose \<Rightarrow>
          (case fb_sessions_m fb1 key of
             Some s \<Rightarrow> finalizeSession canonical store now (fe_fsPath event) s (fb1\<lparr>fb_sessions_m := (fb_sessions_m fb1)(key := None)\<rparr>)
           | None \<Rightarrow> finalizeSession canonical store now (fe_fsPath event)
               \<lparr>ss_openedAt = fe_ts event, ss_readCount = (if fe_bytes event > 0 then 1 else 0), ss_bytesRead = fe_bytes event\<rparr> fb1))"

section \<open>What the register knows\<close>

datatype rs_call = RsInit bool "string option" string | RsShutdown | RsRegister "string \<Rightarrow> string" ulong ulong string | RsUnregister ulong

fun rs_step :: "rs_call \<Rightarrow> ResourceStore \<Rightarrow> ResourceStore" where
  "rs_step (RsInit made rootPath dir) rs = snd (rs_initialize made rootPath dir rs)"
| "rs_step RsShutdown rs = rs_shutdown rs"
| "rs_step (RsRegister canonical i peer p) rs = snd (registerDownload canonical i peer p rs)"
| "rs_step (RsUnregister i) rs = snd (rs_unregister i rs)"

text \<open>Every entry was registered by a call of \<open>calls\<close>, starts with the text of the root and is the place of its resource.\<close>

definition rs_inv :: "rs_call set \<Rightarrow> ResourceStore \<Rightarrow> bool" where
  "rs_inv calls rs \<longleftrightarrow> (\<forall>c e. rs_byPath_m rs c = Some e \<longrightarrow>
     rs_idToPath_m rs (en_resourceId e) = Some c \<and> take (length (rs_root_m rs)) c = rs_root_m rs \<and>
     en_resourceId e \<noteq> 0 \<and> en_peerId e \<noteq> 0 \<and>
     (\<exists>canonical p. RsRegister canonical (en_resourceId e) (en_peerId e) p \<in> calls \<and> canonical p = c))"

lemma rs_step_inv:
  assumes "rs_inv calls rs" "call \<in> calls"
  shows "rs_inv calls (rs_step call rs)"
proof (cases call)
  case (RsInit made rootPath dir)
  then show ?thesis using assms(1) by (auto simp: rs_initialize_def rs_inv_def split: option.splits)
next
  case RsShutdown
  then show ?thesis by (simp add: rs_shutdown_def rs_inv_def)
next
  case (RsRegister canonical i peer p)
  let ?c = "canonical p"
  show ?thesis
  proof (cases "fst (registerDownload canonical i peer p rs)")
    case True
    then have ok: "i \<noteq> 0" "peer \<noteq> 0" "take (length (rs_root_m rs)) ?c = rs_root_m rs"
      by (auto simp: registerDownload_def Let_def split: if_splits)
    have "rs_byPath_m rs c = Some e \<Longrightarrow> en_resourceId e = i \<Longrightarrow> rs_idToPath_m rs i = Some c" for c e
      using assms(1) by (auto simp: rs_inv_def)
    then show ?thesis using assms ok True RsRegister unfolding rs_inv_def
      by (auto simp: registerDownload_def Let_def split: option.splits if_splits)
  next
    case False
    then have "snd (registerDownload canonical i peer p rs) = rs"
      by (auto simp: registerDownload_def Let_def split: if_splits)
    then show ?thesis using assms(1) RsRegister by simp
  qed
next
  case (RsUnregister i)
  then show ?thesis using assms(1) unfolding rs_inv_def by (auto simp: rs_unregister_def split: option.splits)
qed

lemma rs_run_inv: "set cs \<subseteq> calls \<Longrightarrow> rs_inv calls rs \<Longrightarrow> rs_inv calls (fold rs_step cs rs)"
  by (induction cs arbitrary: rs) (auto intro: rs_step_inv)

section \<open>Ratings\<close>

definition rated_by :: "(string \<Rightarrow> string) \<Rightarrow> ResourceStore \<Rightarrow> ulong \<Rightarrow> (nat \<Rightarrow> int) \<Rightarrow> FsEvent \<Rightarrow> Feedback \<Rightarrow> bool" where
  "rated_by canonical store i now event fb \<longleftrightarrow> map_option fst (resolvePath canonical (fe_fsPath event) store) = Some i \<and>
     fb_published (fb_onEvent canonical store now event fb) \<noteq> fb_published fb"

lemma evaluation_ok:
  "clientResourceEvaluation now (Some p) rating r =
     (True, rate_peer now (pf_peerId p) (fst (resource_delta rating)) (snd (resource_delta rating)) r,
      Some (cast_short (fst (resource_delta rating) * 10)))"
  by (simp add: clientResourceEvaluation_def rating_event_def re_getPeerId_def split: prod.split)

text \<open>The waiting time in nanoseconds.\<close>

definition debounce :: "t_FbConfig \<Rightarrow> int" where
  "debounce cfg = int (unat (debounceSec cfg)) * 1000000000"

lemma int_div_less: "0 < b \<Longrightarrow> a div b < c \<longleftrightarrow> a < c * (b :: int)"
proof
  assume b: "0 < b"
  have "a mod b < b" using b by simp
  then have lt: "a < (a div b + 1) * b" using div_mult_mod_eq [of a b] unfolding distrib_right by linarith
  show "a < c * b" if "a div b < c"
    using lt mult_right_mono [of "a div b + 1" c b] that b by linarith
  show "a div b < c" if "a < c * b"
  proof (rule ccontr)
    assume "\<not> a div b < c"
    then have "c * b \<le> a div b * b" using b by (intro mult_right_mono) auto
    also have "\<dots> \<le> a" using b div_mult_mod_eq [of a b] pos_mod_sign [OF b, of a] by linarith
    finally show False using that by simp
  qed
qed

lemma debounced_iff:
  assumes "t \<le> now" "now - t < 2 ^ 63"
  shows "(of_int ((now - t) sdiv 1000000000) :: ulong) < debounceSec cfg \<longleftrightarrow> now - t < debounce cfg"
proof -
  let ?d = "(now - t) div 1000000000"
  have s: "(now - t) sdiv 1000000000 = ?d" using assms(1) by (simp add: signed_divide_int_def sgn_if zdiv_int)
  have "0 \<le> ?d" "?d < 2 ^ 64" using assms by (auto simp: pos_imp_zdiv_nonneg_iff intro: le_less_trans [OF zdiv_mono1])
  then have "unat (of_int ?d :: ulong) = nat ?d" by (simp add: unat_eq_nat_uint uint_word_of_int)
  then have "(of_int ?d :: ulong) < debounceSec cfg \<longleftrightarrow> ?d < int (unat (debounceSec cfg))"
    using \<open>0 \<le> ?d\<close> by (simp add: word_less_nat_alt nat_less_iff)
  also have "\<dots> \<longleftrightarrow> now - t < debounce cfg" by (simp add: debounce_def int_div_less)
  finally show ?thesis by (simp add: s)
qed

text \<open>The end of a session: nothing, a debounced rating or a rating.\<close>

lemma finalize_cases:
  fixes fb :: Feedback
  assumes "fb' = finalizeSession canonical store now p s fb"
  obtains (none) "fb' = fb" "resolvePath canonical p store = None"
  | (debounced) i peer where "resolvePath canonical p store = Some (i, peer)" "fb' = fb" "fst (shouldDebounce (now 4) 0 i fb)"
  | (rated) i peer rating msg where "resolvePath canonical p store = Some (i, peer)" "\<not> fst (shouldDebounce (now 4) 0 i fb)"
      "fb_published fb' = fb_published fb @ [msg]" "fb_lastEmit_m fb' = (fb_lastEmit_m fb)(i \<mapsto> now 4)"
      "fb_cfg_m fb' = fb_cfg_m fb" "fb_ratings fb' = fst (snd (clientResourceEvaluation now (Some (AlpinePeerProfile_of peer)) rating (fb_ratings fb)))"
proof (cases "resolvePath canonical p store")
  case None
  then show thesis using assms none by (simp add: finalizeSession_def)
next
  case (Some ip)
  then obtain i peer where ip: "resolvePath canonical p store = Some (i, peer)" by (cases ip) auto
  show thesis
  proof (cases "fst (shouldDebounce (now 4) 0 i fb)")
    case True
    moreover from this have "snd (shouldDebounce (now 4) 0 i fb) = fb"
      by (auto simp: shouldDebounce_def Let_def split: if_splits)
    ultimately have "fb' = fb" using assms ip by (simp add: finalizeSession_def Let_def case_prod_unfold)
    with ip True show thesis by (intro debounced)
  next
    case False
    then have "snd (shouldDebounce (now 4) 0 i fb) = fb\<lparr>fb_lastEmit_m := (fb_lastEmit_m fb)(i \<mapsto> now 4)\<rparr>"
      by (auto simp: shouldDebounce_def Let_def split: if_splits)
    with False ip assms show thesis
      by (intro rated) (auto simp: finalizeSession_def Let_def case_prod_unfold evaluation_ok)
  qed
qed

lemma onEvent_cases:
  fixes fb :: Feedback
  assumes "fb' = fb_onEvent canonical store now event fb"
  obtains (quiet) "fb_published fb' = fb_published fb" "fb_lastEmit_m fb' = fb_lastEmit_m fb" "fb_cfg_m fb' = fb_cfg_m fb"
      "fb_ratings fb' = fb_ratings fb"
  | (rated) i peer rating msg where "fe_op event = FsClose" "resolvePath canonical (fe_fsPath event) store = Some (i, peer)"
      "\<not> fst (shouldDebounce (now 4) 0 i fb)" "fb_published fb' = fb_published fb @ [msg]"
      "fb_lastEmit_m fb' = (fb_lastEmit_m fb)(i \<mapsto> now 4)" "fb_cfg_m fb' = fb_cfg_m fb"
      "fb_ratings fb' = fst (snd (clientResourceEvaluation now (Some (AlpinePeerProfile_of peer)) rating (fb_ratings fb)))"
proof -
  have same: "fst (shouldDebounce t u i (fb\<lparr>fb_totalEvents_m := n, fb_sessions_m := ss\<rparr>)) = fst (shouldDebounce t u i fb)"
    "fst (shouldDebounce t u i (fb\<lparr>fb_totalEvents_m := n\<rparr>)) = fst (shouldDebounce t u i fb)" for t u i n ss
    by (simp_all add: shouldDebounce_def Let_def split: option.split)
  show thesis
  proof (cases "fe_op event")
    case FsClose
    define fb1 where "fb1 = fb\<lparr>fb_totalEvents_m := fb_totalEvents_m fb + 1\<rparr>"
    obtain s fb2 where fb2: "fb2 = fb1 \<or> (\<exists>ss. fb2 = fb1\<lparr>fb_sessions_m := ss\<rparr>)" "fb' = finalizeSession canonical store now (fe_fsPath event) s fb2"
      using assms FsClose by (auto simp: fb_onEvent_def Let_def fb1_def split: option.splits)
    have eq: "fb_published fb2 = fb_published fb" "fb_lastEmit_m fb2 = fb_lastEmit_m fb" "fb_cfg_m fb2 = fb_cfg_m fb"
      "fb_ratings fb2 = fb_ratings fb" "fst (shouldDebounce t u i fb2) = fst (shouldDebounce t u i fb)" for t u i
      using fb2(1) by (auto simp: fb1_def same)
    from fb2(2) show thesis
      by (cases rule: finalize_cases) (use FsClose eq quiet rated in \<open>auto\<close>)
  qed (use assms quiet in \<open>auto simp: fb_onEvent_def Let_def split: option.splits\<close>)
qed

text \<open>A run: the events with the readings of the clock and the file system at each, and the times of the ratings of a resource.\<close>

type_synonym fb_event = "(nat \<Rightarrow> int) \<times> (string \<Rightarrow> string) \<times> FsEvent"

definition fb_run :: "ResourceStore \<Rightarrow> fb_event list \<Rightarrow> Feedback \<Rightarrow> Feedback" where
  "fb_run store = fold (\<lambda>(now, canonical, event). fb_onEvent canonical store now event)"

fun rating_times :: "ResourceStore \<Rightarrow> ulong \<Rightarrow> fb_event list \<Rightarrow> Feedback \<Rightarrow> int list" where
  "rating_times store i [] fb = []"
| "rating_times store i ((now, canonical, event) # es) fb =
     (if rated_by canonical store i now event fb then [now 4] else []) @
     rating_times store i es (fb_onEvent canonical store now event fb)"

definition clock_ok :: "fb_event list \<Rightarrow> bool" where
  "clock_ok es \<longleftrightarrow> sorted (map (\<lambda>e. fst e 4) es) \<and> (\<forall>e\<in>set es. 0 \<le> fst e 4 \<and> fst e 4 < 2 ^ 63)"

lemma rated_step:
  fixes fb :: Feedback and canonical store now event
  defines "fb' \<equiv> fb_onEvent canonical store now event fb"
  assumes "\<forall>t. fb_lastEmit_m fb i = Some t \<longrightarrow> t \<le> now 4 \<and> now 4 - t < 2 ^ 63"
  shows "fb_cfg_m fb' = fb_cfg_m fb"
    "rated_by canonical store i now event fb \<Longrightarrow> fb_lastEmit_m fb' i = Some (now 4)"
    "rated_by canonical store i now event fb \<Longrightarrow> fb_lastEmit_m fb i = Some t \<Longrightarrow> t + debounce (fb_cfg_m fb) \<le> now 4"
    "\<not> rated_by canonical store i now event fb \<Longrightarrow> fb_lastEmit_m fb' i = fb_lastEmit_m fb i"
proof -
  have fb': "fb' = fb_onEvent canonical store now event fb" by (simp add: fb'_def)
  have d: "t + debounce (fb_cfg_m fb) \<le> now 4" if "\<not> fst (shouldDebounce (now 4) 0 i fb)" "fb_lastEmit_m fb i = Some t" for t
    using that debounced_iff [of t "now 4" "fb_cfg_m fb"] assms(2)
    by (auto simp: shouldDebounce_def Let_def split: if_splits)
  show "fb_cfg_m fb' = fb_cfg_m fb" by (cases rule: onEvent_cases [OF fb']) simp_all
  show "fb_lastEmit_m fb' i = Some (now 4)" if "rated_by canonical store i now event fb"
    using that by (cases rule: onEvent_cases [OF fb']) (auto simp: rated_by_def fb')
  show "t + debounce (fb_cfg_m fb) \<le> now 4" if "rated_by canonical store i now event fb" "fb_lastEmit_m fb i = Some t"
    using that d by (cases rule: onEvent_cases [OF fb']) (auto simp: rated_by_def fb')
  show "fb_lastEmit_m fb' i = fb_lastEmit_m fb i" if "\<not> rated_by canonical store i now event fb"
    using that by (cases rule: onEvent_cases [OF fb']) (auto simp: rated_by_def fb')
qed

lemma rating_times_spaced:
  assumes "clock_ok es" "\<forall>t. fb_lastEmit_m fb i = Some t \<longrightarrow> 0 \<le> t \<and> (\<forall>e\<in>set es. t \<le> fst e 4)"
  shows "sorted_wrt (\<lambda>a b. a + debounce (fb_cfg_m fb) \<le> b) (rating_times store i es fb) \<and>
    (\<forall>t a. fb_lastEmit_m fb i = Some t \<longrightarrow> a \<in> set (rating_times store i es fb) \<longrightarrow> t + debounce (fb_cfg_m fb) \<le> a)"
  using assms
proof (induction es arbitrary: fb)
  case (Cons e es)
  obtain now canonical event where e: "e = (now, canonical, event)" by (cases e)
  let ?fb = "fb_onEvent canonical store now event fb" and ?r = "rated_by canonical store i now event fb"
  have es: "clock_ok es" "\<forall>x\<in>set es. now 4 \<le> fst x 4" and now: "0 \<le> now 4" "now 4 < 2 ^ 63"
    using Cons.prems(1) by (auto simp: clock_ok_def e)
  have last: "\<forall>t. fb_lastEmit_m fb i = Some t \<longrightarrow> t \<le> now 4 \<and> now 4 - t < 2 ^ 63"
    using Cons.prems(2) now(2) by (auto simp: e)
  note step = rated_step [where event = event and now = now and canonical = canonical and store = store, OF last]
  have "\<forall>t. fb_lastEmit_m ?fb i = Some t \<longrightarrow> 0 \<le> t \<and> (\<forall>x\<in>set es. t \<le> fst x 4)"
    using step(2,4) es(2) now(1) Cons.prems(2) by (cases ?r) (auto simp: e)
  note IH = Cons.IH [OF es(1) this, unfolded step(1)]
  have "0 \<le> debounce (fb_cfg_m fb)" by (simp add: debounce_def)
  then have "t + debounce (fb_cfg_m fb) \<le> a" if ?r "fb_lastEmit_m fb i = Some t" "a \<in> set (rating_times store i es ?fb)" for t a
    using IH step(2) [OF that(1)] step(3) [OF that(1,2)] that(3) by fastforce
  then show ?case using IH step(2,3,4) by (cases ?r) (auto simp: e)
qed simp

section \<open>Properties\<close>

text \<open>C21: who is rated. After any history of the register and during any run of accesses, with a file system that may change between
  any two calls, a peer's rating changes only at the end of a session on a path that resolves to a download which was registered
  for that very peer under the same canonical path, and that path starts with the text of the root in force. It need not lie in the
  directory of the root, as the interface demands: below the root \<^verbatim>\<open>/d\<close> a download at \<^verbatim>\<open>/d-evil/x\<close> is accepted too.\<close>

theorem feedback_attribution:
  assumes "store = fold rs_step calls ResourceStore_new"
    and "fb_ratings (fb_onEvent canonical store now event fb) peer \<noteq> fb_ratings fb peer"
  shows "fe_op event = FsClose \<and> (\<exists>i canonical' p. resolvePath canonical (fe_fsPath event) store = Some (i, peer) \<and>
    RsRegister canonical' i peer p \<in> set calls \<and> canonical' p = canonical (fe_fsPath event) \<and>
    take (length (rs_root_m store)) (canonical' p) = rs_root_m store)"
proof (cases rule: onEvent_cases [OF refl, of canonical store now event fb])
  case (2 i peer' rating msg)
  have inv: "rs_inv (set calls) store" unfolding assms(1)
    by (rule rs_run_inv) (auto simp: rs_inv_def ResourceStore_new_def)
  from 2(2) obtain e where e: "rs_byPath_m store (canonical (fe_fsPath event)) = Some e" "i = en_resourceId e" "peer' = en_peerId e"
    by (auto simp: resolvePath_def)
  with inv obtain canonical' p where p: "RsRegister canonical' i peer' p \<in> set calls" "canonical' p = canonical (fe_fsPath event)"
    "take (length (rs_root_m store)) (canonical' p) = rs_root_m store"
    unfolding rs_inv_def by metis
  moreover have "peer = peer'"
    using assms(2) 2(7) by (auto simp: evaluation_ok AlpinePeerProfile_of_def rate_peer_def split: if_splits)
  ultimately show ?thesis using 2(1,2) by blast
qed (use assms(2) in simp)

definition demo_close :: FsEvent where
  "demo_close = \<lparr>fe_fsPath = ''/d-evil/x'', fe_op = FsClose, fe_bytes = 0, fe_pid = 1, fe_ts = 0\<rparr>"

theorem feedback_attribution_witness:
  "\<exists>i c. RsRegister c i 7 ''/d-evil/x'' \<in> set [RsInit True (Some ''/d'') ''/d'', RsRegister id 3 7 ''/d-evil/x''] \<and>
     resolvePath id (fe_fsPath demo_close) (fold rs_step [RsInit True (Some ''/d'') ''/d'', RsRegister id 3 7 ''/d-evil/x''] ResourceStore_new) = Some (i, 7)"
proof -
  let ?calls = "[RsInit True (Some ''/d'') ''/d'', RsRegister id 3 7 ''/d-evil/x'']" and ?fb = "Feedback_new t_FbConfig_new Map.empty"
  let ?store = "fold rs_step ?calls ResourceStore_new"
  have "resolvePath id ''/d-evil/x'' ?store = Some (3, 7)"
    by (simp add: resolvePath_def registerDownload_def rs_initialize_def ResourceStore_new_def Let_def)
  then have "fb_ratings (fb_onEvent id ?store (\<lambda>i. 0) demo_close ?fb) 7 \<noteq> fb_ratings ?fb 7"
    by (simp add: fb_onEvent_def demo_close_def finalizeSession_def shouldDebounce_def evaluation_ok rate_peer_def Feedback_new_def
        AlpinePeerProfile_of_def Let_def)
  from feedback_attribution [OF refl this] show ?thesis by (auto simp: demo_close_def)
qed

text \<open>The debounce. Whatever processes open, read and close a file, and however often, two ratings of the
  same resource are at least the configured number of seconds apart.\<close>

lemma feedback_debounced:
  assumes "clock_ok es"
  shows "sorted_wrt (\<lambda>a b. a + int (unat (debounceSec cfg)) * 1000000000 \<le> b)
    (rating_times store i es (Feedback_new cfg r))"
  using rating_times_spaced [OF assms, of "Feedback_new cfg r" i store]
  by (simp add: Feedback_new_def debounce_def)

lemma feedback_debounced_witness:
  "sorted_wrt (\<lambda>a b. a + 5 * 1000000000 \<le> b)
    (rating_times ResourceStore_new 3 [(\<lambda>i. 5, id, demo_close), (\<lambda>i. 6, id, demo_close)] (Feedback_new t_FbConfig_new Map.empty))"
  using feedback_debounced [of "[(\<lambda>i. 5, id, demo_close), (\<lambda>i. 6, id, demo_close)]" t_FbConfig_new ResourceStore_new 3 Map.empty]
  by (simp add: clock_ok_def t_FbConfig_new_def)

end
