(* ===== verification/ProfileIndex.thy ===== *)
theory ProfileIndex
  imports RatingEngine
begin

text \<open>
  protocols/Alpine/AlpinePeerProfileIndex.cpp: the profiles of a group's peers in an array, linked in both
  directions by quality, with a list of free records and an index by peer. An access outside the array
  or through a null profile is \<open>None\<close>, and so is a search along the links that does not end. Shown:
  what the index answers about its peers, the lists for weighted selection, and the calls that leave the array.
\<close>

section \<open>State\<close>

record t_ProfileRecord =
  pr_profile :: "AlpinePeerProfile option"
  pr_next :: int
  pr_prev :: int

record ProfileIndex =
  pi_size_m :: nat
  pi_numRecords_m :: nat
  pi_array_m :: "t_ProfileRecord list"
  pi_free_m :: "nat list"
  pi_index_m :: "ulong \<rightharpoonup> nat"
  pi_highest_m :: int
  pi_lowest_m :: int
  pi_base_m :: int

definition linkEnd :: int where "linkEnd = - 1"
definition minReserve :: int where "minReserve = 128"
definition defaultReserve :: int where "defaultReserve = 1024"

definition free_record :: t_ProfileRecord where
  "free_record = \<lparr>pr_profile = None, pr_next = linkEnd, pr_prev = linkEnd\<rparr>"

definition ProfileIndex_new :: "int \<Rightarrow> ProfileIndex" where
  "ProfileIndex_new reserve =
     (let n = nat (if reserve < minReserve then defaultReserve else reserve)
      in \<lparr>pi_size_m = n, pi_numRecords_m = 0, pi_array_m = replicate n free_record, pi_free_m = [0..<n],
          pi_index_m = Map.empty, pi_highest_m = linkEnd, pi_lowest_m = linkEnd, pi_base_m = linkEnd\<rparr>)"

text \<open>Access to a record and to the quality of its profile.\<close>

definition rec_at :: "int \<Rightarrow> ProfileIndex \<Rightarrow> t_ProfileRecord option" where
  "rec_at i x = (if 0 \<le> i \<and> i < int (length (pi_array_m x)) then Some (pi_array_m x ! nat i) else None)"

definition upd_at :: "int \<Rightarrow> (t_ProfileRecord \<Rightarrow> t_ProfileRecord) \<Rightarrow> ProfileIndex \<Rightarrow> ProfileIndex option" where
  "upd_at i f x = (if 0 \<le> i \<and> i < int (length (pi_array_m x))
     then Some (x\<lparr>pi_array_m := (pi_array_m x)[nat i := f (pi_array_m x ! nat i)]\<rparr>) else None)"

definition profile_at :: "int \<Rightarrow> ProfileIndex \<Rightarrow> AlpinePeerProfile option" where
  "profile_at i x = do { r \<leftarrow> rec_at i x; pr_profile r }"

definition quality_at :: "int \<Rightarrow> ProfileIndex \<Rightarrow> int option" where
  "quality_at i x = do { p \<leftarrow> profile_at i x; Some (sint (pf_quality p)) }"

section \<open>Creating and erasing\<close>

definition pi_resize :: "nat \<Rightarrow> ProfileIndex \<Rightarrow> ProfileIndex" where
  "pi_resize n x = x\<lparr>pi_size_m := n,
     pi_array_m := take (pi_size_m x) (pi_array_m x) @ replicate (n - pi_size_m x) free_record,
     pi_free_m := [pi_size_m x..<n]\<rparr>"

text \<open>The new record goes below the base record, or above it when the base has a negative quality.\<close>

definition link_new :: "int \<Rightarrow> ProfileIndex \<Rightarrow> ProfileIndex option" where
  "link_new i x = do {
     base \<leftarrow> rec_at (pi_base_m x) x;
     quality \<leftarrow> quality_at (pi_base_m x) x;
     if quality < 0 then do {
       x1 \<leftarrow> upd_at i (\<lambda>r. r\<lparr>pr_next := pr_next base, pr_prev := pi_base_m x\<rparr>) x;
       x2 \<leftarrow> (if pr_next base \<noteq> linkEnd then upd_at (pr_next base) (\<lambda>r. r\<lparr>pr_prev := i\<rparr>) x1 else Some x1);
       x3 \<leftarrow> upd_at (pi_base_m x) (\<lambda>r. r\<lparr>pr_next := i\<rparr>) x2;
       Some (if pi_highest_m x3 = pi_base_m x then x3\<lparr>pi_highest_m := i\<rparr> else x3)
     } else do {
       x1 \<leftarrow> upd_at i (\<lambda>r. r\<lparr>pr_next := pi_base_m x, pr_prev := pr_prev base\<rparr>) x;
       x2 \<leftarrow> (if pr_prev base \<noteq> linkEnd then upd_at (pr_prev base) (\<lambda>r. r\<lparr>pr_next := i\<rparr>) x1 else Some x1);
       x3 \<leftarrow> upd_at (pi_base_m x) (\<lambda>r. r\<lparr>pr_prev := i\<rparr>) x2;
       Some (if pi_lowest_m x3 = pi_base_m x then x3\<lparr>pi_lowest_m := i\<rparr> else x3)
     } }"

definition pi_create :: "ulong \<Rightarrow> ProfileIndex \<Rightarrow> (bool \<times> ProfileIndex) option" where
  "pi_create peerId x =
     (if pi_index_m x peerId \<noteq> None then Some (False, x)
      else
        let x0 = (if pi_numRecords_m x \<ge> pi_size_m x then pi_resize (pi_size_m x * 2) x else x) in
        case pi_free_m x0 of
          [] \<Rightarrow> None
        | currIndex # free \<Rightarrow> do {
            let i = int currIndex;
            x1 \<leftarrow> upd_at i (\<lambda>r. r\<lparr>pr_profile := Some (AlpinePeerProfile_of peerId)\<rparr>) (x0\<lparr>pi_free_m := free\<rparr>);
            let x2 = x1\<lparr>pi_index_m := (pi_index_m x1)(peerId \<mapsto> currIndex)\<rparr>;
            if pi_numRecords_m x2 = 0 then do {
              x3 \<leftarrow> upd_at i (\<lambda>r. r\<lparr>pr_next := linkEnd, pr_prev := linkEnd\<rparr>) x2;
              Some (True, x3\<lparr>pi_numRecords_m := 1, pi_highest_m := i, pi_lowest_m := i, pi_base_m := i\<rparr>)
            } else do {
              x3 \<leftarrow> link_new i x2;
              Some (True, x3\<lparr>pi_numRecords_m := pi_numRecords_m x3 + 1, pi_base_m := i\<rparr>)
            } })"

text \<open>The three indices when the record \<open>i\<close>, with its links \<open>r\<close>, leaves its place.\<close>

definition leave_ends :: "int \<Rightarrow> t_ProfileRecord \<Rightarrow> ProfileIndex \<Rightarrow> ProfileIndex" where
  "leave_ends i r x = (let x1 = x\<lparr>pi_highest_m := linkEnd, pi_lowest_m := linkEnd\<rparr> in
     x1\<lparr>pi_highest_m := (if pi_highest_m x1 = i then pr_prev r else pi_highest_m x1),
        pi_lowest_m := (if pi_lowest_m x1 = i then pr_next r else pi_lowest_m x1),
        pi_base_m := (if pi_base_m x1 = i then if pr_prev r \<noteq> linkEnd then pr_prev r else pr_next r else pi_base_m x1)\<rparr>)"

definition unlink :: "t_ProfileRecord \<Rightarrow> ProfileIndex \<Rightarrow> ProfileIndex option" where
  "unlink r x = do {
     x1 \<leftarrow> (if pr_prev r \<noteq> linkEnd then upd_at (pr_prev r) (\<lambda>q. q\<lparr>pr_next := pr_next r\<rparr>) x else Some x);
     (if pr_next r \<noteq> linkEnd then upd_at (pr_next r) (\<lambda>q. q\<lparr>pr_prev := pr_prev r\<rparr>) x1 else Some x1) }"

definition pi_erase :: "ulong \<Rightarrow> ProfileIndex \<Rightarrow> (bool \<times> ProfileIndex) option" where
  "pi_erase peerId x =
     (if pi_numRecords_m x = 0 then Some (False, x)
      else case pi_index_m x peerId of
          None \<Rightarrow> Some (False, x)
        | Some currIndex \<Rightarrow> do {
            r \<leftarrow> rec_at (int currIndex) x;
            x1 \<leftarrow> unlink r (leave_ends (int currIndex) r (x\<lparr>pi_index_m := (pi_index_m x)(peerId := None)\<rparr>));
            Some (True, x1\<lparr>pi_numRecords_m := pi_numRecords_m x1 - 1, pi_free_m := pi_free_m x1 @ [currIndex]\<rparr>) })"

section \<open>Moving a record to its place\<close>

text \<open>The distance of a quality from the base value, as the code stores it in a \<open>short\<close>.\<close>

definition distance :: "int \<Rightarrow> int" where
  "distance v = sint (of_int \<bar>v\<bar> :: ushort)"

text \<open>The base moves to \<open>i\<close> when it is \<open>j\<close> and \<open>i\<close> is closer to the base value than the record \<open>k\<close>.\<close>

definition rebase :: "int \<Rightarrow> int \<Rightarrow> int \<Rightarrow> ProfileIndex \<Rightarrow> ProfileIndex option" where
  "rebase i v k x = do { q \<leftarrow> quality_at k x; Some (if distance v < distance q then x\<lparr>pi_base_m := i\<rparr> else x) }"

partial_function (option) find_up :: "ProfileIndex \<Rightarrow> int \<Rightarrow> int \<Rightarrow> (int \<times> int) option" where
  "find_up x v nextIndex = do {
     r \<leftarrow> rec_at nextIndex x;
     q \<leftarrow> quality_at nextIndex x;
     if q \<ge> v then Some (nextIndex, pr_next r) else find_up x v (pr_next r) }"

partial_function (option) find_down :: "ProfileIndex \<Rightarrow> int \<Rightarrow> int \<Rightarrow> (int \<times> int) option" where
  "find_down x v prevIndex = do {
     r \<leftarrow> rec_at prevIndex x;
     q \<leftarrow> quality_at prevIndex x;
     if q < v then Some (prevIndex, pr_prev r) else find_down x v (pr_prev r) }"

text \<open>\<open>n\<close> is the record above, \<open>ins\<close> where the search stopped, \<open>nxt\<close> the record above that and \<open>k\<close> the
  record the pointer of the search is on.\<close>

definition move_up :: "int \<Rightarrow> int \<Rightarrow> int \<Rightarrow> ProfileIndex \<Rightarrow> ProfileIndex option" where
  "move_up i v n x = do {
     r \<leftarrow> rec_at n x;
     (ins, nxt, k) \<leftarrow> (if pr_next r = linkEnd then Some (linkEnd, linkEnd, n)
        else do { (ins, nxt) \<leftarrow> find_up x v (pr_next r); Some (ins, nxt, ins) });
     if nxt = linkEnd then do {
       x1 \<leftarrow> upd_at k (\<lambda>r. r\<lparr>pr_next := i\<rparr>) x;
       x2 \<leftarrow> upd_at i (\<lambda>r. r\<lparr>pr_next := linkEnd, pr_prev := ins\<rparr>) x1;
       let x3 = x2\<lparr>pi_highest_m := i\<rparr>;
       if pi_base_m x3 = ins then rebase i v k x3 else Some x3
     } else do {
       rk \<leftarrow> rec_at k x;
       x1 \<leftarrow> upd_at k (\<lambda>r. r\<lparr>pr_prev := i\<rparr>) x;
       x2 \<leftarrow> upd_at (pr_prev rk) (\<lambda>r. r\<lparr>pr_next := i\<rparr>) x1;
       x3 \<leftarrow> upd_at i (\<lambda>r. r\<lparr>pr_next := ins, pr_prev := pr_prev rk\<rparr>) x2;
       if pi_base_m x3 = pr_prev rk then rebase i v (pr_prev rk) x3
       else if pi_base_m x3 = ins then rebase i v k x3 else Some x3
     } }"

definition move_down :: "int \<Rightarrow> int \<Rightarrow> int \<Rightarrow> ProfileIndex \<Rightarrow> ProfileIndex option" where
  "move_down i v p x = do {
     r \<leftarrow> rec_at p x;
     (ins, prv, k) \<leftarrow> (if pr_prev r = linkEnd then Some (linkEnd, linkEnd, p)
        else do { (ins, prv) \<leftarrow> find_down x v (pr_prev r); Some (ins, prv, ins) });
     if prv = linkEnd then do {
       x1 \<leftarrow> upd_at k (\<lambda>r. r\<lparr>pr_prev := i\<rparr>) x;
       x2 \<leftarrow> upd_at i (\<lambda>r. r\<lparr>pr_next := ins, pr_prev := linkEnd\<rparr>) x1;
       let x3 = x2\<lparr>pi_lowest_m := i\<rparr>;
       if pi_base_m x3 = ins then rebase i v k x3 else Some x3
     } else do {
       rk \<leftarrow> rec_at k x;
       x1 \<leftarrow> upd_at k (\<lambda>r. r\<lparr>pr_next := i\<rparr>) x;
       x2 \<leftarrow> upd_at (pr_next rk) (\<lambda>r. r\<lparr>pr_prev := i\<rparr>) x1;
       x3 \<leftarrow> upd_at i (\<lambda>r. r\<lparr>pr_next := pr_next rk, pr_prev := ins\<rparr>) x2;
       if pi_base_m x3 = pr_next rk then rebase i v (pr_next rk) x3
       else if pi_base_m x3 = ins then rebase i v k x3 else Some x3
     } }"

definition relocate :: "int \<Rightarrow> int \<Rightarrow> ProfileIndex \<Rightarrow> ProfileIndex option" where
  "relocate i v x = do {
     r \<leftarrow> rec_at i x;
     nextQuality \<leftarrow> (if pr_next r \<noteq> linkEnd then quality_at (pr_next r) x else Some v);
     prevQuality \<leftarrow> (if pr_prev r \<noteq> linkEnd then quality_at (pr_prev r) x else Some v);
     if v \<le> nextQuality \<and> v \<ge> prevQuality then Some x
     else do {
       x1 \<leftarrow> unlink r (leave_ends i r x);
       if v > nextQuality then move_up i v (pr_next r) x1 else move_down i v (pr_prev r) x1
     } }"

section \<open>Operations on a profile\<close>

definition change_profile :: "ulong \<Rightarrow> (AlpinePeerProfile \<Rightarrow> AlpinePeerProfile) \<Rightarrow> ProfileIndex \<Rightarrow> (nat \<times> AlpinePeerProfile \<times> ProfileIndex) option" where
  "change_profile peerId f x = do {
     i \<leftarrow> pi_index_m x peerId;
     p \<leftarrow> profile_at (int i) x;
     x1 \<leftarrow> upd_at (int i) (\<lambda>r. r\<lparr>pr_profile := Some (f p)\<rparr>) x;
     Some (i, f p, x1) }"

definition pi_adjustQuality :: "ulong \<Rightarrow> ushort \<Rightarrow> ProfileIndex \<Rightarrow> (bool \<times> ProfileIndex) option" where
  "pi_adjustQuality peerId delta x =
     (if pi_index_m x peerId = None then Some (False, x)
      else do {
        (i, p, x1) \<leftarrow> change_profile peerId (modifyRelativeQuality delta) x;
        x2 \<leftarrow> relocate (int i) (sint (pf_quality p)) x1;
        Some (True, x2) })"

definition pi_querySent :: "ulong \<Rightarrow> ProfileIndex \<Rightarrow> (bool \<times> ProfileIndex) option" where
  "pi_querySent peerId x =
     (if pi_index_m x peerId = None then Some (False, x)
      else do { (i, p, x1) \<leftarrow> change_profile peerId incrTotalQueries x; Some (True, x1) })"

text \<open>The three events that ask the rating engine for the change of the quality. The engine is given the profile
  by pointer; its status is always true for one that is not null.\<close>

definition rated_change :: "(AlpinePeerProfile option \<Rightarrow> ratings \<Rightarrow> bool \<times> ratings \<times> int option) \<Rightarrow>
    (AlpinePeerProfile \<Rightarrow> AlpinePeerProfile) \<Rightarrow> ulong \<Rightarrow> ProfileIndex \<times> ratings \<Rightarrow> (bool \<times> ProfileIndex \<times> ratings) option" where
  "rated_change event f peerId xr = (case xr of (x, r) \<Rightarrow>
     (if pi_index_m x peerId = None then Some (False, x, r)
      else do {
        (i, p, x1) \<leftarrow> change_profile peerId f x;
        case event (Some p) r of
          (False, r1, d) \<Rightarrow> Some (False, x1, r1)
        | (True, r1, None) \<Rightarrow> None
        | (True, r1, Some d) \<Rightarrow> do {
            (j, p1, x2) \<leftarrow> change_profile peerId (modifyRelativeQuality (of_int d)) x1;
            x3 \<leftarrow> relocate (int j) (sint (pf_quality p1)) x2;
            Some (True, x3, r1) } }))"

definition pi_responseReceived :: "(nat \<Rightarrow> int) \<Rightarrow> ulong \<Rightarrow> ProfileIndex \<times> ratings \<Rightarrow> (bool \<times> ProfileIndex \<times> ratings) option" where
  "pi_responseReceived now = rated_change (queryResponseEvent now) incrTotalQueries"

definition pi_badPacketReceived :: "(nat \<Rightarrow> int) \<Rightarrow> ulong \<Rightarrow> ProfileIndex \<times> ratings \<Rightarrow> (bool \<times> ProfileIndex \<times> ratings) option" where
  "pi_badPacketReceived now = rated_change (badPacketEvent now) id"

definition pi_reliableTransferFailed :: "(nat \<Rightarrow> int) \<Rightarrow> ulong \<Rightarrow> ProfileIndex \<times> ratings \<Rightarrow> (bool \<times> ProfileIndex \<times> ratings) option" where
  "pi_reliableTransferFailed now = rated_change (transferFailureEvent now) id"

section \<open>Questions\<close>

definition pi_exists :: "ulong \<Rightarrow> ProfileIndex \<Rightarrow> bool" where
  "pi_exists peerId x = (pi_index_m x peerId \<noteq> None)"

definition pi_locate :: "ulong \<Rightarrow> ProfileIndex \<Rightarrow> (bool \<times> AlpinePeerProfile option) option" where
  "pi_locate peerId x = (case pi_index_m x peerId of
       None \<Rightarrow> Some (False, None)
     | Some i \<Rightarrow> do { r \<leftarrow> rec_at (int i) x; Some (True, pr_profile r) })"

definition highestQuality :: "ProfileIndex \<Rightarrow> (bool \<times> ulong) option" where
  "highestQuality x = (if pi_numRecords_m x = 0 then Some (False, 0)
     else do { p \<leftarrow> profile_at (pi_highest_m x) x; Some (True, pf_peerId p) })"

definition lowestQuality :: "ProfileIndex \<Rightarrow> (bool \<times> ulong) option" where
  "lowestQuality x = (if pi_numRecords_m x = 0 then Some (False, 0)
     else do { p \<leftarrow> profile_at (pi_lowest_m x) x; Some (True, pf_peerId p) })"

text \<open>The order in which the index is visited is an argument: a list of its peers.\<close>

definition getAllPeers :: "((ulong \<rightharpoonup> nat) \<Rightarrow> ulong list) \<Rightarrow> ProfileIndex \<Rightarrow> ulong list" where
  "getAllPeers order x = (if pi_numRecords_m x = 0 then [] else order (pi_index_m x))"

section \<open>Weighted selection\<close>

definition kBanThreshold :: double where "kBanThreshold = Fin (1 / 10)"
definition kUnscoredWeight :: real where "kUnscoredWeight = 1 / 4"

text \<open>The heap is the sorted list of its pairs; the smallest comes first.\<close>

type_synonym reservoir = "(real \<times> ulong) list"

definition key_less :: "real \<times> ulong \<Rightarrow> real \<times> ulong \<Rightarrow> bool" where
  "key_less a b \<longleftrightarrow> fst a < fst b \<or> fst a = fst b \<and> snd a < snd b"

fun heap_push :: "real \<times> ulong \<Rightarrow> reservoir \<Rightarrow> reservoir" where
  "heap_push a [] = [a]"
| "heap_push a (b # h) = (if key_less b a then b # heap_push a h else a # b # h)"

text \<open>One round: the peer enters while there is room, else it replaces the smallest key when it has a larger one.\<close>

definition reservoir_add :: "nat \<Rightarrow> real \<times> ulong \<Rightarrow> reservoir \<Rightarrow> reservoir" where
  "reservoir_add selectCount a h =
     (if length h < selectCount then heap_push a h
      else if h \<noteq> [] \<and> fst a > fst (hd h) then heap_push a (tl h) else h)"

fun sample :: "nat \<Rightarrow> (nat \<Rightarrow> real) \<Rightarrow> nat \<Rightarrow> (ulong \<times> real) list \<Rightarrow> reservoir \<Rightarrow> reservoir" where
  "sample selectCount draw n [] h = h"
| "sample selectCount draw n ((peerId, weight) # ps) h =
     sample selectCount draw (n + 1) ps (reservoir_add selectCount (draw n powr (1 / weight), peerId) h)"

fun weight :: "double \<Rightarrow> real" where
  "weight (Fin x) = x * x"
| "weight a = 0"

definition scored_peers :: "(ulong \<Rightarrow> double) \<Rightarrow> ulong list \<Rightarrow> (ulong \<times> real) list" where
  "scored_peers scores peers =
     map (\<lambda>i. (i, weight (scores i))) (filter (\<lambda>i. scores i \<noteq> Fin (1 / 2) \<and> \<not> dless (scores i) kBanThreshold) peers)"

definition unscored_peers :: "(ulong \<Rightarrow> double) \<Rightarrow> ulong list \<Rightarrow> (ulong \<times> real) list" where
  "unscored_peers scores peers = map (\<lambda>i. (i, kUnscoredWeight)) (filter (\<lambda>i. scores i = Fin (1 / 2)) peers)"

text \<open>\<open>None\<close>: the score of a peer is not a number. It is taken as scored, its key is not a number either, and the heap
  is left without an order; what is selected then is not modelled.\<close>

definition getWeightedPeerList :: "((ulong \<rightharpoonup> nat) \<Rightarrow> ulong list) \<Rightarrow> (ulong \<Rightarrow> int) \<Rightarrow> (nat \<Rightarrow> real) \<Rightarrow> nat \<Rightarrow> ratings \<Rightarrow> ProfileIndex \<Rightarrow>
    ulong list option" where
  "getWeightedPeerList order now draw limit r x =
     (if pi_numRecords_m x = 0 then Some []
      else
        let peers = order (pi_index_m x);
            scores = (\<lambda>i. getScore (now i) i r);
            scored = scored_peers scores peers;
            unscored = unscored_peers scores peers;
            selectCount = (if limit = 0 then length scored + length unscored else limit);
            h = sample selectCount draw 0 scored [];
            h1 = (if length h < selectCount then sample selectCount draw (length scored) unscored h else h)
        in if list_ex (\<lambda>i. scores i = NaN) peers then None else Some (rev (map snd h1)))"

section \<open>What links do not change\<close>

type_synonym peer_view = "nat \<times> nat \<times> nat list \<times> (ulong \<rightharpoonup> nat) \<times> AlpinePeerProfile option list"

definition peers_of :: "ProfileIndex \<Rightarrow> peer_view" where
  "peers_of x = (pi_size_m x, pi_numRecords_m x, pi_free_m x, pi_index_m x, map pr_profile (pi_array_m x))"

lemma peers_of_ends [simp]:
  "peers_of (x\<lparr>pi_highest_m := i\<rparr>) = peers_of x" "peers_of (x\<lparr>pi_lowest_m := i\<rparr>) = peers_of x"
  "peers_of (x\<lparr>pi_base_m := i\<rparr>) = peers_of x" "peers_of (leave_ends i r x) = peers_of x"
  by (simp_all add: peers_of_def leave_ends_def Let_def)

lemma upd_links:
  assumes "upd_at i f x = Some y" "\<And>r. pr_profile (f r) = pr_profile r"
  shows "peers_of y = peers_of x"
proof -
  have "map pr_profile (xs[k := f (xs ! k)]) = map pr_profile xs" if "k < length xs" for xs k
    using that by (simp add: map_update assms(2) list_update_same_conv)
  then show ?thesis using assms(1) by (auto simp: upd_at_def peers_of_def split: if_splits)
qed

text \<open>Rules for the steps of an operation on links.\<close>

definition keeps :: "peer_view \<Rightarrow> ProfileIndex option \<Rightarrow> bool" where
  "keeps v m \<longleftrightarrow> (\<forall>y. m = Some y \<longrightarrow> peers_of y = v)"

lemma keeps_rules:
  "peers_of y = v \<Longrightarrow> keeps v (Some y)"
  "peers_of x = v \<Longrightarrow> (\<And>r. pr_profile (f r) = pr_profile r) \<Longrightarrow> keeps v (upd_at i f x)"
  "keeps v m \<Longrightarrow> keeps v n \<Longrightarrow> keeps v (if b then m else n)"
  "(\<And>a b. keeps v (h a b)) \<Longrightarrow> keeps v (case p of (a, b) \<Rightarrow> h a b)"
  "keeps v m \<Longrightarrow> (\<And>y. peers_of y = v \<Longrightarrow> keeps v (g y)) \<Longrightarrow> keeps v (m \<bind> g)"
  by (auto simp: keeps_def upd_links bind_eq_Some_conv split: prod.split)

lemma keeps_bind: "(\<And>a. keeps v (g a)) \<Longrightarrow> keeps v (m \<bind> g)"
  by (auto simp: keeps_def bind_eq_Some_conv)

lemma link_new_keeps: "peers_of x = v \<Longrightarrow> keeps v (link_new i x)"
  unfolding link_new_def by (rule keeps_rules keeps_bind | simp)+

lemma unlink_keeps: "peers_of x = v \<Longrightarrow> keeps v (unlink r x)"
  unfolding unlink_def by (rule keeps_rules keeps_bind | simp)+

lemma rebase_keeps: "peers_of x = v \<Longrightarrow> keeps v (rebase i w k x)"
  unfolding rebase_def by (rule keeps_rules keeps_bind | simp)+

lemma move_up_keeps: "peers_of x = v \<Longrightarrow> keeps v (move_up i w n x)"
  unfolding move_up_def Let_def by (rule keeps_rules rebase_keeps keeps_bind | simp)+

lemma move_down_keeps: "peers_of x = v \<Longrightarrow> keeps v (move_down i w p x)"
  unfolding move_down_def Let_def by (rule keeps_rules rebase_keeps keeps_bind | simp)+

lemma relocate_keeps: "peers_of x = v \<Longrightarrow> keeps v (relocate i w x)"
  unfolding relocate_def by (rule keeps_rules unlink_keeps move_up_keeps move_down_keeps keeps_bind | simp)+

lemma links_peers:
  "link_new i x = Some y \<Longrightarrow> peers_of y = peers_of x"
  "unlink r x = Some y \<Longrightarrow> peers_of y = peers_of x"
  "relocate i w x = Some y \<Longrightarrow> peers_of y = peers_of x"
  using link_new_keeps [OF refl, of x i] unlink_keeps [OF refl, of x r] relocate_keeps [OF refl, of x i w]
  by (simp_all add: keeps_def)

section \<open>The invariant\<close>

definition view_ok :: "peer_view \<Rightarrow> bool" where
  "view_ok v \<longleftrightarrow> (case v of (n, k, free, idx, ps) \<Rightarrow>
     length ps = n \<and> 0 < n \<and> distinct free \<and> set free \<subseteq> {..<n} \<and> finite (dom idx) \<and> k = card (dom idx) \<and>
     length free + k = n \<and>
     (\<forall>a i. idx a = Some i \<longrightarrow> i < n \<and> i \<notin> set free \<and> (\<exists>p. ps ! i = Some p \<and> pf_peerId p = a)))"

definition pi_inv :: "ProfileIndex \<Rightarrow> bool" where
  "pi_inv x \<longleftrightarrow> view_ok (peers_of x)"

lemma pi_inv_new: "pi_inv (ProfileIndex_new n)"
  by (auto simp: pi_inv_def peers_of_def view_ok_def ProfileIndex_new_def Let_def minReserve_def defaultReserve_def)

lemma view_resize:
  assumes "view_ok (n, k, free, idx, ps)" "n \<le> k"
  shows "view_ok (2 * n, k, [n..<2 * n], idx, ps @ replicate n None)"
  using assms by (fastforce simp: view_ok_def nth_append)

lemma resize_inv:
  assumes "pi_inv x" "pi_size_m x \<le> pi_numRecords_m x"
  shows "pi_inv (pi_resize (pi_size_m x * 2) x)"
proof -
  have "length (pi_array_m x) = pi_size_m x" using assms(1) by (simp add: pi_inv_def peers_of_def view_ok_def)
  moreover have "pi_size_m x * 2 - pi_size_m x = pi_size_m x" by simp
  ultimately have "peers_of (pi_resize (pi_size_m x * 2) x) = (2 * pi_size_m x, pi_numRecords_m x, [pi_size_m x..<2 * pi_size_m x],
      pi_index_m x, map pr_profile (pi_array_m x) @ replicate (pi_size_m x) None)"
    by (simp add: pi_resize_def peers_of_def free_record_def mult.commute)
  then show ?thesis using view_resize assms by (simp add: pi_inv_def peers_of_def)
qed

lemma view_add:
  assumes "view_ok (n, k, i # free, idx, ps)" "idx a = None" "pf_peerId p = a"
  shows "view_ok (n, Suc k, free, idx(a \<mapsto> i), ps[i := Some p])"
  using assms by (auto simp: view_ok_def nth_list_update domIff insert_absorb)

lemma view_remove:
  assumes "view_ok (n, k, free, idx, ps)" "idx a = Some i"
  shows "view_ok (n, k - 1, free @ [i], idx(a := None), ps)"
proof -
  have fin: "finite (dom idx)" "a \<in> dom idx" using assms by (auto simp: view_ok_def)
  then have "card (dom idx) > 0" "card (dom idx - {a}) = card (dom idx) - 1" by (auto simp: card_gt_0_iff)
  moreover have "j \<noteq> i" if "idx b = Some j" "b \<noteq> a" for b j
  proof -
    have "\<exists>p. ps ! j = Some p \<and> pf_peerId p = b" "\<exists>p. ps ! i = Some p \<and> pf_peerId p = a"
      using assms that by (auto simp: view_ok_def)
    with that(2) show ?thesis by auto
  qed
  ultimately show ?thesis using assms by (auto simp: view_ok_def)
qed

lemma view_change:
  assumes "view_ok (n, k, free, idx, ps)" "ps ! i = Some p" "pf_peerId q = pf_peerId p"
  shows "view_ok (n, k, free, idx, ps[i := Some q])"
proof (cases "i < length ps")
  case True
  with assms show ?thesis by (fastforce simp: view_ok_def nth_list_update)
next
  case False
  with assms(1) show ?thesis by (simp add: list_update_beyond)
qed

lemma upd_profile:
  "upd_at i (\<lambda>r. r\<lparr>pr_profile := q\<rparr>) x = Some y \<Longrightarrow>
     0 \<le> i \<and> nat i < length (pi_array_m x) \<and>
     peers_of y = (pi_size_m x, pi_numRecords_m x, pi_free_m x, pi_index_m x, (map pr_profile (pi_array_m x))[nat i := q])"
  by (auto simp: upd_at_def peers_of_def map_update nat_less_iff split: if_splits)

lemma create_inv:
  assumes "pi_inv x" "pi_create a x = Some (ok, y)"
  shows "pi_inv y" "ok \<longleftrightarrow> pi_index_m x a = None" "dom (pi_index_m y) = insert a (dom (pi_index_m x))"
proof -
  have "pi_inv y \<and> (ok \<longleftrightarrow> pi_index_m x a = None) \<and> dom (pi_index_m y) = insert a (dom (pi_index_m x))"
  proof (cases "pi_index_m x a")
    case (Some i)
    then show ?thesis using assms by (auto simp: pi_create_def)
  next
    case None
    define x0 where "x0 = (if pi_numRecords_m x \<ge> pi_size_m x then pi_resize (pi_size_m x * 2) x else x)"
    have x0: "pi_inv x0" "pi_index_m x0 = pi_index_m x" using assms(1) resize_inv by (auto simp: x0_def pi_resize_def)
    obtain i free where free: "pi_free_m x0 = i # free"
      using assms(2) None by (cases "pi_free_m x0") (auto simp: pi_create_def x0_def)
    obtain x1 where x1: "upd_at (int i) (\<lambda>r. r\<lparr>pr_profile := Some (AlpinePeerProfile_of a)\<rparr>) (x0\<lparr>pi_free_m := free\<rparr>) = Some x1"
      using assms(2) None free by (auto simp: pi_create_def x0_def Let_def split: Option.bind_splits)
    define x2 where "x2 = x1\<lparr>pi_index_m := (pi_index_m x1)(a \<mapsto> i)\<rparr>"
    from upd_profile [OF x1] have "peers_of x1 = (pi_size_m x0, pi_numRecords_m x0, free, pi_index_m x,
        (map pr_profile (pi_array_m x0))[i := Some (AlpinePeerProfile_of a)])" by (simp add: x0(2))
    then have x2: "peers_of x2 = (pi_size_m x0, pi_numRecords_m x0, free, (pi_index_m x)(a \<mapsto> i),
        (map pr_profile (pi_array_m x0))[i := Some (AlpinePeerProfile_of a)])" by (simp add: x2_def peers_of_def)
    have y: "peers_of y = (pi_size_m x0, Suc (pi_numRecords_m x0), free, (pi_index_m x)(a \<mapsto> i),
        (map pr_profile (pi_array_m x0))[i := Some (AlpinePeerProfile_of a)]) \<and> ok"
    proof (cases "pi_numRecords_m x2 = 0")
      case True
      then obtain x3 where "upd_at (int i) (\<lambda>r. r\<lparr>pr_next := linkEnd, pr_prev := linkEnd\<rparr>) x2 = Some x3"
        "y = x3\<lparr>pi_numRecords_m := 1, pi_highest_m := int i, pi_lowest_m := int i, pi_base_m := int i\<rparr>" ok
        using assms(2) None free x1 by (auto simp: pi_create_def x0_def x2_def Let_def split: Option.bind_splits)
      with upd_links [of "int i" _ x2 x3] x2 True show ?thesis by (simp add: peers_of_def)
    next
      case False
      then obtain x3 where "link_new (int i) x2 = Some x3" "y = x3\<lparr>pi_numRecords_m := pi_numRecords_m x3 + 1, pi_base_m := int i\<rparr>" ok
        using assms(2) None free x1 by (auto simp: pi_create_def x0_def x2_def Let_def split: Option.bind_splits)
      with links_peers(1) [of "int i" x2 x3] x2 show ?thesis by (simp add: peers_of_def)
    qed
    have "view_ok (pi_size_m x0, pi_numRecords_m x0, i # free, pi_index_m x, map pr_profile (pi_array_m x0))"
      using x0 free by (simp add: pi_inv_def peers_of_def)
    from view_add [OF this None, of "AlpinePeerProfile_of a"] y None show ?thesis
      by (auto simp: pi_inv_def AlpinePeerProfile_of_def peers_of_def)
  qed
  then show "pi_inv y" "ok \<longleftrightarrow> pi_index_m x a = None" "dom (pi_index_m y) = insert a (dom (pi_index_m x))" by auto
qed

lemma erase_inv:
  assumes "pi_inv x" "pi_erase a x = Some (ok, y)"
  shows "pi_inv y \<and> dom (pi_index_m y) = dom (pi_index_m x) - {a}"
proof (cases "pi_numRecords_m x = 0 \<or> pi_index_m x a = None")
  case True
  moreover have "pi_numRecords_m x = 0 \<Longrightarrow> pi_index_m x a = None"
    using assms(1) by (auto simp: pi_inv_def peers_of_def view_ok_def)
  ultimately show ?thesis using assms by (auto simp: pi_erase_def split: if_splits)
next
  case False
  then obtain i where i: "pi_index_m x a = Some i" by auto
  let ?x = "x\<lparr>pi_index_m := (pi_index_m x)(a := None)\<rparr>"
  obtain r x1 where x1: "unlink r (leave_ends (int i) r ?x) = Some x1"
    "y = x1\<lparr>pi_numRecords_m := pi_numRecords_m x1 - 1, pi_free_m := pi_free_m x1 @ [i]\<rparr>"
    using assms(2) False i by (auto simp: pi_erase_def split: Option.bind_splits)
  then have "peers_of x1 = peers_of ?x" using links_peers(2) [OF x1(1)] by simp
  then have "peers_of y = (pi_size_m x, pi_numRecords_m x - 1, pi_free_m x @ [i], (pi_index_m x)(a := None), map pr_profile (pi_array_m x))"
    by (simp add: x1(2) peers_of_def)
  with view_remove [of "pi_size_m x" "pi_numRecords_m x" "pi_free_m x" "pi_index_m x" "map pr_profile (pi_array_m x)" a i] i assms(1)
  show ?thesis by (simp add: pi_inv_def) (simp add: peers_of_def)
qed

lemma change_inv:
  assumes "pi_inv x" "change_profile a f x = Some (i, q, y)" "\<And>p. pf_peerId (f p) = pf_peerId p"
  shows "pi_inv y" "pi_index_m y = pi_index_m x"
proof -
  obtain p where p: "profile_at (int i) x = Some p" "upd_at (int i) (\<lambda>r. r\<lparr>pr_profile := Some (f p)\<rparr>) x = Some y"
    using assms(2) by (auto simp: change_profile_def split: Option.bind_splits)
  from upd_profile [OF p(2)] have y: "i < length (pi_array_m x)" "peers_of y = (pi_size_m x, pi_numRecords_m x, pi_free_m x, pi_index_m x,
      (map pr_profile (pi_array_m x))[i := Some (f p)])" by simp_all
  have "map pr_profile (pi_array_m x) ! i = Some p" using p(1) y(1) by (auto simp: profile_at_def rec_at_def)
  with view_change [of "pi_size_m x" "pi_numRecords_m x" "pi_free_m x" "pi_index_m x" _ i p "f p"] y(2) assms(1,3)
  show "pi_inv y" by (simp add: pi_inv_def peers_of_def)
  show "pi_index_m y = pi_index_m x" using y(2) by (simp add: peers_of_def)
qed

lemma relocate_inv: "pi_inv x \<Longrightarrow> relocate i w x = Some y \<Longrightarrow> pi_inv y \<and> pi_index_m y = pi_index_m x"
  using links_peers(3) by (fastforce simp: pi_inv_def peers_of_def)

lemma profile_ops [simp]:
  "pf_peerId (modifyRelativeQuality d p) = pf_peerId p" "pf_peerId (incrTotalQueries p) = pf_peerId p"
  by (simp_all add: modifyRelativeQuality_def incrTotalQueries_def)

lemma adjust_inv:
  assumes "pi_inv x" "change_profile a (modifyRelativeQuality d) x = Some (j, q, x1)" "relocate i w x1 = Some y"
  shows "pi_inv y \<and> pi_index_m y = pi_index_m x"
proof -
  have "pi_inv x1" "pi_index_m x1 = pi_index_m x" using change_inv [OF assms(1,2)] by simp_all
  with relocate_inv [OF _ assms(3)] show ?thesis by simp
qed

lemma rated_inv:
  assumes "pi_inv x" "rated_change event f a (x, r) = Some (ok, y, r')" "\<And>p. pf_peerId (f p) = pf_peerId p"
  shows "pi_inv y \<and> pi_index_m y = pi_index_m x"
proof (cases "pi_index_m x a")
  case (Some i)
  then obtain i q x1 where x1: "change_profile a f x = Some (i, q, x1)"
    and rest: "y = x1 \<or> (\<exists>d j q' x2. change_profile a (modifyRelativeQuality d) x1 = Some (j, q', x2) \<and>
      relocate (int j) (sint (pf_quality q')) x2 = Some y)"
    using assms(2) by (auto simp: rated_change_def split: Option.bind_splits option.splits bool.splits prod.splits)
  note c = change_inv [OF assms(1) x1 assms(3)]
  show ?thesis using rest c adjust_inv [OF c(1)] by auto
qed (use assms in \<open>simp add: rated_change_def\<close>)

section \<open>Runs\<close>

datatype pi_call = PiCreate ulong | PiErase ulong | PiAdjust ulong ushort | PiQuerySent ulong | PiResponse "nat \<Rightarrow> int" ulong
  | PiBadPacket "nat \<Rightarrow> int" ulong | PiTransferFailed "nat \<Rightarrow> int" ulong

fun pi_do :: "pi_call \<Rightarrow> ProfileIndex \<times> ratings \<Rightarrow> (ProfileIndex \<times> ratings) option" where
  "pi_do (PiCreate a) (x, r) = map_option (\<lambda>y. (snd y, r)) (pi_create a x)"
| "pi_do (PiErase a) (x, r) = map_option (\<lambda>y. (snd y, r)) (pi_erase a x)"
| "pi_do (PiAdjust a d) (x, r) = map_option (\<lambda>y. (snd y, r)) (pi_adjustQuality a d x)"
| "pi_do (PiQuerySent a) (x, r) = map_option (\<lambda>y. (snd y, r)) (pi_querySent a x)"
| "pi_do (PiResponse now a) s = map_option snd (pi_responseReceived now a s)"
| "pi_do (PiBadPacket now a) s = map_option snd (pi_badPacketReceived now a s)"
| "pi_do (PiTransferFailed now a) s = map_option snd (pi_reliableTransferFailed now a s)"

definition pi_step :: "pi_call \<Rightarrow> (ProfileIndex \<times> ratings) option \<Rightarrow> (ProfileIndex \<times> ratings) option" where
  "pi_step c s = Option.bind s (pi_do c)"

text \<open>The peers an index should have.\<close>

fun members :: "pi_call \<Rightarrow> ulong set \<Rightarrow> ulong set" where
  "members (PiCreate a) L = insert a L"
| "members (PiErase a) L = L - {a}"
| "members c L = L"

lemma pi_do_inv:
  assumes "pi_inv x" "pi_do c (x, r) = Some (y, r')"
  shows "pi_inv y \<and> dom (pi_index_m y) = members c (dom (pi_index_m x))"
proof (cases c)
  case (PiCreate a)
  then obtain ok where "pi_create a x = Some (ok, y)" using assms(2) by auto
  from create_inv [OF assms(1) this] show ?thesis by (simp add: PiCreate)
next
  case (PiErase a)
  then obtain ok where "pi_erase a x = Some (ok, y)" using assms(2) by auto
  from erase_inv [OF assms(1) this] show ?thesis by (simp add: PiErase)
next
  case (PiAdjust a d)
  then have "x = y \<or> (\<exists>i q x1. change_profile a (modifyRelativeQuality d) x = Some (i, q, x1) \<and>
      relocate (int i) (sint (pf_quality q)) x1 = Some y)"
    using assms(2) by (auto simp: pi_adjustQuality_def split: Option.bind_splits if_splits)
  then show ?thesis using adjust_inv [OF assms(1)] assms(1) PiAdjust by auto
next
  case (PiQuerySent a)
  then have "x = y \<or> (\<exists>i q. change_profile a incrTotalQueries x = Some (i, q, y))"
    using assms(2) by (auto simp: pi_querySent_def split: Option.bind_splits if_splits)
  then show ?thesis using change_inv [OF assms(1)] assms(1) PiQuerySent by fastforce
qed (use assms rated_inv in \<open>fastforce simp: pi_responseReceived_def pi_badPacketReceived_def pi_reliableTransferFailed_def\<close>)+

lemma pi_run_inv:
  assumes "pi_inv x" "fold pi_step calls (Some (x, r)) = Some (y, r')"
  shows "pi_inv y \<and> dom (pi_index_m y) = fold members calls (dom (pi_index_m x))"
  using assms
proof (induction calls arbitrary: x r)
  case (Cons c calls)
  have stuck: "fold pi_step cs None = None" for cs by (induction cs) (simp_all add: pi_step_def)
  have step: "fold pi_step calls (pi_do c (x, r)) = Some (y, r')" using Cons.prems(2) by (simp add: pi_step_def [of c])
  then obtain x1 r1 where "pi_do c (x, r) = Some (x1, r1)" "fold pi_step calls (Some (x1, r1)) = Some (y, r')"
    by (cases "pi_do c (x, r)") (auto simp: stuck)
  with pi_do_inv [OF Cons.prems(1)] Cons.IH show ?case by fastforce
qed simp

section \<open>The sample\<close>

lemma heap_push_props:
  "set (heap_push a h) = insert a (set h)" "length (heap_push a h) = Suc (length h)"
  "distinct (map snd (heap_push a h)) \<longleftrightarrow> snd a \<notin> snd ` set h \<and> distinct (map snd h)"
  by (induction h) auto

lemma reservoir_add_props:
  assumes "length h \<le> k" "0 < k"
  shows "length (reservoir_add k a h) = min k (Suc (length h))"
    "snd ` set (reservoir_add k a h) \<subseteq> insert (snd a) (snd ` set h)"
    "snd a \<notin> snd ` set h \<Longrightarrow> distinct (map snd h) \<Longrightarrow> distinct (map snd (reservoir_add k a h))"
    "length h < k \<Longrightarrow> snd ` set (reservoir_add k a h) = insert (snd a) (snd ` set h)"
proof -
  have "length (reservoir_add k a h) = min k (Suc (length h)) \<and>
      snd ` set (reservoir_add k a h) \<subseteq> insert (snd a) (snd ` set h) \<and>
      (snd a \<notin> snd ` set h \<longrightarrow> distinct (map snd h) \<longrightarrow> distinct (map snd (reservoir_add k a h)))"
  proof (cases "length h < k")
    case True
    then show ?thesis by (simp add: reservoir_add_def heap_push_props)
  next
    case False
    with assms obtain b t where "h = b # t" by (cases h) auto
    with False assms show ?thesis by (auto simp: reservoir_add_def heap_push_props)
  qed
  then show "length (reservoir_add k a h) = min k (Suc (length h))"
    "snd ` set (reservoir_add k a h) \<subseteq> insert (snd a) (snd ` set h)"
    "snd a \<notin> snd ` set h \<Longrightarrow> distinct (map snd h) \<Longrightarrow> distinct (map snd (reservoir_add k a h))" by blast+
  show "length h < k \<Longrightarrow> snd ` set (reservoir_add k a h) = insert (snd a) (snd ` set h)"
    by (simp add: reservoir_add_def heap_push_props)
qed

lemma sample_props:
  assumes "length h \<le> k" "0 < k" "distinct (map fst ps)" "fst ` set ps \<inter> snd ` set h = {}" "distinct (map snd h)"
  shows "length (sample k draw n ps h) = min k (length h + length ps) \<and> distinct (map snd (sample k draw n ps h)) \<and>
    snd ` set (sample k draw n ps h) \<subseteq> snd ` set h \<union> fst ` set ps \<and>
    (length h + length ps \<le> k \<longrightarrow> snd ` set (sample k draw n ps h) = snd ` set h \<union> fst ` set ps)"
  using assms
proof (induction ps arbitrary: n h)
  case (Cons q ps)
  obtain i w where q: "q = (i, w)" by (cases q)
  let ?h = "reservoir_add k (draw n powr (1 / w), i) h"
  have i: "i \<notin> snd ` set h" "i \<notin> fst ` set ps" using Cons.prems(3,4) by (auto simp: q)
  note r = reservoir_add_props [OF Cons.prems(1,2), of "(draw n powr (1 / w), i)", simplified]
  have d: "distinct (map snd ?h)" using r(3) i(1) Cons.prems(5) by simp
  have disj: "fst ` set ps \<inter> snd ` set ?h = {}"
  proof -
    have "fst ` set ps \<inter> snd ` set h = {}" using Cons.prems(4) by (auto simp: q)
    with r(2) i(2) show ?thesis by blast
  qed
  have len: "length ?h \<le> k" and dps: "distinct (map fst ps)" using r(1) Cons.prems(3) by simp_all
  note IH = Cons.IH [OF len Cons.prems(2) dps disj d, of "n + 1"]
  have step: "sample k draw n (q # ps) h = sample k draw (n + 1) ps ?h" by (simp add: q)
  have "length (sample k draw (n + 1) ps ?h) = min k (length h + length (q # ps))" using IH r(1) by simp
  moreover have "snd ` set (sample k draw (n + 1) ps ?h) \<subseteq> snd ` set h \<union> fst ` set (q # ps)"
    using IH r(2) unfolding q set_simps image_insert fst_conv by blast
  moreover have "snd ` set (sample k draw (n + 1) ps ?h) = snd ` set h \<union> fst ` set (q # ps)"
    if "length h + length (q # ps) \<le> k"
  proof -
    have "length ?h + length ps \<le> k" "length h < k" using that r(1) by auto
    then have "snd ` set (sample k draw (n + 1) ps ?h) = snd ` set ?h \<union> fst ` set ps" "snd ` set ?h = insert i (snd ` set h)"
      using IH r(4) by simp_all
    then show ?thesis by (simp add: q)
  qed
  ultimately show ?case unfolding step using IH by blast
qed simp

section \<open>Properties\<close>

text \<open>C22: whatever calls a group has made, as long as none of them left the array, the index knows exactly the
  peers that were created and not erased, its size is their number, and it gives each of them its own profile.\<close>

theorem profile_index_consistent:
  assumes "fold pi_step calls (Some (ProfileIndex_new n, r)) = Some (x, r')"
  shows "pi_numRecords_m x = card (fold members calls {}) \<and>
    (\<forall>a. pi_exists a x \<longleftrightarrow> a \<in> fold members calls {}) \<and>
    (\<forall>a\<in>fold members calls {}. \<exists>p. pi_locate a x = Some (True, Some p) \<and> pf_peerId p = a)"
proof -
  have "dom (pi_index_m (ProfileIndex_new n)) = {}" by (simp add: ProfileIndex_new_def Let_def)
  with pi_run_inv [OF pi_inv_new assms] have x: "pi_inv x" "dom (pi_index_m x) = fold members calls {}" by simp_all
  have "\<exists>p. pi_locate a x = Some (True, Some p) \<and> pf_peerId p = a" if "a \<in> dom (pi_index_m x)" for a
  proof -
    from that obtain i where "pi_index_m x a = Some i" by auto
    moreover from this obtain p where "i < length (pi_array_m x)" "pr_profile (pi_array_m x ! i) = Some p" "pf_peerId p = a"
      using x(1) by (fastforce simp: pi_inv_def peers_of_def view_ok_def)
    ultimately show ?thesis by (simp add: pi_locate_def rec_at_def)
  qed
  with x show ?thesis by (auto simp: pi_inv_def peers_of_def view_ok_def pi_exists_def)
qed

text \<open>The weighted list. No peer appears twice; every peer that appears is a member of the index whose
  score is at least a tenth or exactly one half, which counts as unscored, all scores being numbers; the list is as long as the limit
  and the eligible peers allow; when the scored peers fill it no unscored peer is in it, and when it has
  room for all eligible peers they are all in it.\<close>

lemma weighted_selection:
  assumes "pi_inv x" and "distinct (order (pi_index_m x))" and "set (order (pi_index_m x)) = dom (pi_index_m x)"
    and "S = {i \<in> dom (pi_index_m x). getScore (now i) i r \<noteq> Fin (1 / 2) \<and> \<not> dless (getScore (now i) i r) (Fin (1 / 10))}"
    and "U = {i \<in> dom (pi_index_m x). getScore (now i) i r = Fin (1 / 2)}"
    and "k = (if limit = 0 then card S + card U else limit)" and "getWeightedPeerList order now draw limit r x = Some l"
  shows "distinct l \<and> set l \<subseteq> S \<union> U \<and> length l = min k (card S + card U) \<and>
    (k \<le> card S \<longrightarrow> set l \<subseteq> S) \<and> (card S + card U \<le> k \<longrightarrow> set l = S \<union> U)"
proof (cases "pi_numRecords_m x = 0")
  case True
  then have "S = {}" "U = {}" "l = []" using assms(1,4,5,7) by (auto simp: pi_inv_def peers_of_def view_ok_def getWeightedPeerList_def)
  then show ?thesis by simp
next
  case False
  let ?peers = "order (pi_index_m x)"
  define scores where "scores = (\<lambda>i. getScore (now i) i r)"
  let ?s = "scored_peers scores ?peers" and ?u = "unscored_peers scores ?peers"
  have sets: "fst ` set ?s = S" "fst ` set ?u = U" "S \<inter> U = {}"
    using assms(3,4,5) by (force simp: scored_peers_def unscored_peers_def kBanThreshold_def scores_def image_image)+
  have dist: "distinct (map fst ?s)" "distinct (map fst ?u)"
    using assms(2) by (simp_all add: scored_peers_def unscored_peers_def comp_def)
  then have len: "length ?s = card S" "length ?u = card U" using sets distinct_card by (metis length_map set_map)+
  have k: "k = (if limit = 0 then length ?s + length ?u else limit)" using assms(6) len by simp
  let ?h = "sample k draw 0 ?s []" and ?g = "sample k draw (length ?s) ?u (sample k draw 0 ?s [])"
  have l: "l = rev (map snd (if length ?h < k then ?g else ?h))"
    using False assms(7) by (simp add: getWeightedPeerList_def Let_def k scores_def split: if_splits)
  show ?thesis
  proof (cases "0 < k")
    case True
    then have h: "length ?h = min k (card S)" "distinct (map snd ?h)" "snd ` set ?h \<subseteq> S" "card S \<le> k \<Longrightarrow> snd ` set ?h = S"
      using sample_props [of "[]" k ?s draw 0] dist(1) sets(1) len(1) by auto
    have g: "length ?g = min k (length ?h + card U) \<and> distinct (map snd ?g) \<and> snd ` set ?g \<subseteq> snd ` set ?h \<union> U \<and>
        (length ?h + card U \<le> k \<longrightarrow> snd ` set ?g = snd ` set ?h \<union> U)"
      using sample_props [of ?h k ?u draw "length ?s"] True h(1-3) dist(2) sets(2,3) len(2) by auto
    show ?thesis
    proof (cases "length ?h < k")
      case room: True
      then have S: "card S < k" "snd ` set ?h = S" "length ?h = card S" using h(1,4) by (auto simp: min_def split: if_splits)
      with g S room show ?thesis by (auto simp: l)
    next
      case False
      then show ?thesis using h by (auto simp: l min_def split: if_splits)
    qed
  next
    case False
    then have "limit = 0" "?s = []" "?u = []" using k by (auto split: if_splits)
    then show ?thesis using sets False l by auto
  qed
qed

section \<open>Three peers\<close>

text \<open>The index after three peers have been created, the third lowest.\<close>

definition three_peers :: "ulong \<Rightarrow> ulong \<Rightarrow> ulong \<Rightarrow> t_ProfileRecord list \<Rightarrow> ProfileIndex" where
  "three_peers a b c rest = \<lparr>pi_size_m = 128, pi_numRecords_m = 3,
     pi_array_m = \<lparr>pr_profile = Some (AlpinePeerProfile_of a), pr_next = -1, pr_prev = 1\<rparr> #
       \<lparr>pr_profile = Some (AlpinePeerProfile_of b), pr_next = 0, pr_prev = 2\<rparr> #
       \<lparr>pr_profile = Some (AlpinePeerProfile_of c), pr_next = 1, pr_prev = -1\<rparr> # rest,
     pi_free_m = [3..<128], pi_index_m = [a \<mapsto> 0, b \<mapsto> 1, c \<mapsto> 2], pi_highest_m = 0, pi_lowest_m = 2, pi_base_m = 2\<rparr>"

lemma three_peers_created:
  assumes "a \<noteq> b" "a \<noteq> c" "b \<noteq> c"
  shows "fold pi_step [PiCreate a, PiCreate b, PiCreate c] (Some (ProfileIndex_new 128, r)) =
    Some (three_peers a b c (replicate 125 free_record), r)"
proof -
  have free: "[0..<128] = 0 # 1 # 2 # [3..<128]" by (simp add: upt_conv_Cons)
  have "replicate 128 free_record = free_record # free_record # free_record # replicate 125 free_record"
    by (simp add: numeral_eq_Suc)
  note start = this free
  have "pi_do (PiCreate a) (ProfileIndex_new 128, r) = Some (\<lparr>pi_size_m = 128, pi_numRecords_m = 1,
     pi_array_m = \<lparr>pr_profile = Some (AlpinePeerProfile_of a), pr_next = -1, pr_prev = -1\<rparr> # free_record # free_record # replicate 125 free_record,
     pi_free_m = 1 # 2 # [3..<128], pi_index_m = [a \<mapsto> 0], pi_highest_m = 0, pi_lowest_m = 0, pi_base_m = 0\<rparr>, r)"
    by (simp add: pi_create_def ProfileIndex_new_def minReserve_def upd_at_def start linkEnd_def Let_def)
  moreover have "pi_do (PiCreate b) (\<lparr>pi_size_m = 128, pi_numRecords_m = 1,
     pi_array_m = \<lparr>pr_profile = Some (AlpinePeerProfile_of a), pr_next = -1, pr_prev = -1\<rparr> # free_record # free_record # replicate 125 free_record,
     pi_free_m = 1 # 2 # [3..<128], pi_index_m = [a \<mapsto> 0], pi_highest_m = 0, pi_lowest_m = 0, pi_base_m = 0\<rparr>, r) =
     Some (\<lparr>pi_size_m = 128, pi_numRecords_m = 2,
     pi_array_m = \<lparr>pr_profile = Some (AlpinePeerProfile_of a), pr_next = -1, pr_prev = 1\<rparr> #
       \<lparr>pr_profile = Some (AlpinePeerProfile_of b), pr_next = 0, pr_prev = -1\<rparr> # free_record # replicate 125 free_record,
     pi_free_m = 2 # [3..<128], pi_index_m = [a \<mapsto> 0, b \<mapsto> 1], pi_highest_m = 0, pi_lowest_m = 1, pi_base_m = 1\<rparr>, r)"
    using assms by (simp add: pi_create_def link_new_def rec_at_def quality_at_def profile_at_def upd_at_def linkEnd_def AlpinePeerProfile_of_def Let_def)
  moreover have "pi_do (PiCreate c) (\<lparr>pi_size_m = 128, pi_numRecords_m = 2,
     pi_array_m = \<lparr>pr_profile = Some (AlpinePeerProfile_of a), pr_next = -1, pr_prev = 1\<rparr> #
       \<lparr>pr_profile = Some (AlpinePeerProfile_of b), pr_next = 0, pr_prev = -1\<rparr> # free_record # replicate 125 free_record,
     pi_free_m = 2 # [3..<128], pi_index_m = [a \<mapsto> 0, b \<mapsto> 1], pi_highest_m = 0, pi_lowest_m = 1, pi_base_m = 1\<rparr>, r) =
     Some (three_peers a b c (replicate 125 free_record), r)"
    using assms by (simp add: three_peers_def pi_create_def link_new_def rec_at_def quality_at_def profile_at_def upd_at_def linkEnd_def
        AlpinePeerProfile_of_def Let_def numeral_2_eq_2)
  ultimately show ?thesis by (simp only: fold.simps o_apply id_apply pi_step_def Option.bind.bind_lunit)
qed

text \<open>The index breaks on short runs. With three peers of equal quality, to raise the lowest of them above the
  other two leaves the array, because the search for its place does not stop at the highest record; and after
  a peer is erased neither the highest nor the lowest peer can be read, although two peers are left.\<close>

lemma profile_index_faults:
  assumes "a \<noteq> b" "a \<noteq> c" "b \<noteq> c" and "0 < sint d" "e \<in> {a, b, c}"
  shows "\<exists>x y. fold pi_step [PiCreate a, PiCreate b, PiCreate c] (Some (ProfileIndex_new 128, r)) = Some (x, r) \<and>
    pi_adjustQuality c d x = None \<and>
    pi_erase e x = Some (True, y) \<and> pi_numRecords_m y = 2 \<and> highestQuality y = None \<and> lowestQuality y = None"
proof -
  let ?x = "three_peers a b c (replicate 125 free_record)"
  have "pi_adjustQuality c d ?x = None" using assms(1-4)
    by (simp add: three_peers_def pi_adjustQuality_def change_profile_def relocate_def unlink_def leave_ends_def move_up_def
      rec_at_def quality_at_def profile_at_def upd_at_def linkEnd_def modifyRelativeQuality_def AlpinePeerProfile_of_def Let_def
      numeral_2_eq_2 find_up.simps)
  moreover have "\<exists>y. pi_erase e ?x = Some (True, y) \<and> pi_numRecords_m y = 2 \<and> highestQuality y = None \<and> lowestQuality y = None"
    using assms by (auto simp: three_peers_def pi_erase_def unlink_def leave_ends_def rec_at_def upd_at_def linkEnd_def Let_def
      highestQuality_def lowestQuality_def profile_at_def)
  ultimately show ?thesis using three_peers_created [OF assms(1-3)] by blast
qed

lemma profile_index_faults_witness:
  "\<exists>x y. fold pi_step [PiCreate 7, PiCreate 8, PiCreate 9] (Some (ProfileIndex_new 128, Map.empty)) = Some (x, Map.empty) \<and>
    pi_adjustQuality 9 1 x = None \<and>
    pi_erase 8 x = Some (True, y) \<and> pi_numRecords_m y = 2 \<and> highestQuality y = None \<and> lowestQuality y = None"
  by (rule profile_index_faults) simp_all

theorem profile_index_consistent_witness:
  "pi_numRecords_m (three_peers 7 8 9 (replicate 125 free_record)) = card {7, 8, 9 :: ulong} \<and>
    pi_exists 8 (three_peers 7 8 9 (replicate 125 free_record)) \<and> \<not> pi_exists 6 (three_peers 7 8 9 (replicate 125 free_record))"
proof -
  have "fold pi_step [PiCreate 7, PiCreate 8, PiCreate 9] (Some (ProfileIndex_new 128, Map.empty)) =
      Some (three_peers 7 8 9 (replicate 125 free_record), Map.empty)" by (rule three_peers_created) simp_all
  from profile_index_consistent [OF this] show ?thesis by (auto simp: insert_commute)
qed

lemma weighted_selection_witness:
  "map_option set (getWeightedPeerList (\<lambda>_. [7, 8, 9]) (\<lambda>_. 0) (\<lambda>_. 1 / 2) 0 Map.empty (three_peers 7 8 9 (replicate 125 free_record))) =
    Some {7, 8, 9}"
proof -
  let ?x = "three_peers 7 8 9 (replicate 125 free_record)"
  have "fold pi_step [PiCreate 7, PiCreate 8, PiCreate 9] (Some (ProfileIndex_new 128, Map.empty)) = Some (?x, Map.empty)"
    by (rule three_peers_created) simp_all
  then have inv: "pi_inv ?x" using pi_run_inv [OF pi_inv_new] by blast
  have dom: "dom (pi_index_m ?x) = {7, 8, 9}" by (auto simp: three_peers_def)
  have score: "getScore 0 i Map.empty = Fin (1 / 2)" for i by (simp add: getScore_def kInitialScore_def)
  have "pi_numRecords_m ?x \<noteq> 0" by (simp add: three_peers_def)
  then obtain l where l: "getWeightedPeerList (\<lambda>_. [7, 8, 9]) (\<lambda>_. 0) (\<lambda>_. 1 / 2) 0 Map.empty ?x = Some l"
    by (simp add: getWeightedPeerList_def score Let_def)
  have "distinct l \<and> set l \<subseteq> {} \<union> {7, 8, 9} \<and> length l = min 3 (card ({} :: ulong set) + card {7, 8, 9 :: ulong}) \<and>
      (3 \<le> card ({} :: ulong set) \<longrightarrow> set l \<subseteq> {}) \<and> (card ({} :: ulong set) + card {7, 8, 9 :: ulong} \<le> 3 \<longrightarrow> set l = {} \<union> {7, 8, 9})"
  proof (rule weighted_selection [OF inv _ _ _ _ _ l])
    show "{} = {i \<in> dom (pi_index_m ?x). getScore 0 i Map.empty \<noteq> Fin (1 / 2) \<and> \<not> dless (getScore 0 i Map.empty) (Fin (1 / 10))}" by (simp add: score)
    show "{7, 8, 9} = {i \<in> dom (pi_index_m ?x). getScore 0 i Map.empty = Fin (1 / 2)}" by (auto simp: score dom)
  qed (simp_all add: dom)
  with l show ?thesis by simp
qed

end
