(* ===== verification/GroupMgr.thy ===== *)
theory GroupMgr
  imports ProfileIndex
begin

text \<open>
  protocols/Alpine/AlpineGroup.cpp and AlpineGroupMgr.cpp: the peer groups of a node and their registry by id and
  by name. Groups are objects at addresses, since both indexes and the default point at the same one; a
  pointer to a deleted group is \<open>None\<close> when it is followed. Shown: the two indexes agree after any calls, and
  no pointer of the registry dangles.
\<close>

section \<open>Groups\<close>

record AlpineGroup =
  ag_groupId_m :: ulong
  ag_name_m :: string
  ag_description_m :: string
  ag_profileIndex_m :: ProfileIndex
  ag_numQueries_m :: ulong
  ag_numResponses_m :: ulong

definition AlpineGroup_new :: "ulong \<Rightarrow> string \<Rightarrow> string \<Rightarrow> AlpineGroup" where
  "AlpineGroup_new groupId name description = \<lparr>ag_groupId_m = groupId, ag_name_m = name, ag_description_m = description,
     ag_profileIndex_m = ProfileIndex_new 1024, ag_numQueries_m = 0, ag_numResponses_m = 0\<rparr>"

fun create_all :: "ulong list \<Rightarrow> ProfileIndex \<Rightarrow> ProfileIndex option" where
  "create_all [] x = Some x"
| "create_all (p # ps) x = do { (st, x1) \<leftarrow> pi_create p x; create_all ps x1 }"

text \<open>The constructor that copies the peers of another group.\<close>

definition AlpineGroup_copy :: "((ulong \<rightharpoonup> nat) \<Rightarrow> ulong list) \<Rightarrow> AlpineGroup \<Rightarrow> ulong \<Rightarrow> string \<Rightarrow> string \<Rightarrow> AlpineGroup option" where
  "AlpineGroup_copy order c groupId name description = do {
     x \<leftarrow> create_all (getAllPeers order (ag_profileIndex_m c)) (ProfileIndex_new 1024);
     Some ((AlpineGroup_new groupId name description)\<lparr>ag_profileIndex_m := x\<rparr>) }"

definition ag_size :: "AlpineGroup \<Rightarrow> nat" where
  "ag_size g = pi_numRecords_m (ag_profileIndex_m g)"

text \<open>The operations on the peers and queries of a group have no body: they report success and change nothing.\<close>

definition addPeer :: "ulong \<Rightarrow> AlpineGroup \<Rightarrow> bool \<times> AlpineGroup" where "addPeer peerId g = (True, g)"
definition removePeer :: "ulong \<Rightarrow> AlpineGroup \<Rightarrow> bool \<times> AlpineGroup" where "removePeer peerId g = (True, g)"
definition getPeerProfile :: "ulong \<Rightarrow> AlpineGroup \<Rightarrow> 'p \<Rightarrow> bool \<times> 'p" where "getPeerProfile peerId g profile = (True, profile)"
definition createPeerList :: "AlpineGroup \<Rightarrow> ulong list \<Rightarrow> bool \<times> ulong list" where "createPeerList g peerList = (True, peerList)"
definition adjustPeerQuality :: "int \<Rightarrow> AlpineGroup \<Rightarrow> bool \<times> AlpineGroup" where "adjustPeerQuality delta g = (True, g)"
definition queryStart :: "AlpineGroup \<Rightarrow> bool \<times> AlpineGroup" where "queryStart g = (True, g)"
definition queryEnd :: "AlpineGroup \<Rightarrow> bool \<times> AlpineGroup" where "queryEnd g = (True, g)"
definition ag_cancelAll :: "AlpineGroup \<Rightarrow> bool \<times> AlpineGroup" where "ag_cancelAll g = (True, g)"
definition ag_responseReceived :: "ulong \<Rightarrow> AlpineGroup \<Rightarrow> bool \<times> AlpineGroup" where "ag_responseReceived peerId g = (True, g)"
definition ag_badPacketReceived :: "ulong \<Rightarrow> AlpineGroup \<Rightarrow> bool \<times> AlpineGroup" where "ag_badPacketReceived peerId g = (True, g)"
definition ag_adjustQuality :: "ulong \<Rightarrow> ushort \<Rightarrow> AlpineGroup \<Rightarrow> bool \<times> AlpineGroup" where "ag_adjustQuality peerId delta g = (True, g)"

section \<open>The registry\<close>

record GroupMgr =
  gm_initialized_s :: bool
  gm_heap :: "nat \<rightharpoonup> AlpineGroup"
  gm_fresh :: nat
  gm_default_s :: "nat option"
  gm_idIndex_s :: "ulong \<rightharpoonup> nat"
  gm_nameIndex_s :: "string \<rightharpoonup> nat"
  gm_currGroupId_s :: ulong

definition GroupMgr_static :: GroupMgr where
  "GroupMgr_static = \<lparr>gm_initialized_s = False, gm_heap = Map.empty, gm_fresh = 0, gm_default_s = None,
     gm_idIndex_s = Map.empty, gm_nameIndex_s = Map.empty, gm_currGroupId_s = 0\<rparr>"

text \<open>A new object under the next id, entered in both indexes.\<close>

definition enter_group :: "AlpineGroup \<Rightarrow> GroupMgr \<Rightarrow> nat \<times> GroupMgr" where
  "enter_group g m = (let a = gm_fresh m in
     (a, m\<lparr>gm_heap := (gm_heap m)(a \<mapsto> g), gm_fresh := a + 1,
           gm_idIndex_s := emplace (ag_groupId_m g) a (gm_idIndex_s m),
           gm_nameIndex_s := emplace (ag_name_m g) a (gm_nameIndex_s m)\<rparr>))"

definition gm_initialize :: "GroupMgr \<Rightarrow> bool \<times> GroupMgr" where
  "gm_initialize m =
     (if gm_initialized_s m then (False, m)
      else
        let g = AlpineGroup_new (gm_currGroupId_s m) ''default'' ''default peer group'';
            (a, m1) = enter_group g (m\<lparr>gm_currGroupId_s := gm_currGroupId_s m + 1, gm_idIndex_s := Map.empty, gm_nameIndex_s := Map.empty\<rparr>)
        in (True, m1\<lparr>gm_default_s := Some a, gm_initialized_s := True\<rparr>))"

definition createGroup :: "string \<Rightarrow> string \<Rightarrow> GroupMgr \<Rightarrow> bool \<times> nat option \<times> GroupMgr" where
  "createGroup name description m =
     (if \<not> gm_initialized_s m then (False, None, m)
      else if gm_nameIndex_s m name \<noteq> None then (False, None, m)
      else
        let (a, m1) = enter_group (AlpineGroup_new (gm_currGroupId_s m) name description) (m\<lparr>gm_currGroupId_s := gm_currGroupId_s m + 1\<rparr>)
        in (True, Some a, m1))"

definition copyGroup :: "((ulong \<rightharpoonup> nat) \<Rightarrow> ulong list) \<Rightarrow> ulong \<Rightarrow> string \<Rightarrow> string \<Rightarrow> GroupMgr \<Rightarrow> (bool \<times> nat option \<times> GroupMgr) option" where
  "copyGroup order copyGroupId name description m =
     (if \<not> gm_initialized_s m then Some (False, None, m)
      else if gm_nameIndex_s m name \<noteq> None then Some (False, None, m)
      else case gm_idIndex_s m copyGroupId of
          None \<Rightarrow> Some (False, None, m)
        | Some c \<Rightarrow> do {
            source \<leftarrow> gm_heap m c;
            g \<leftarrow> AlpineGroup_copy order source (gm_currGroupId_s m) name description;
            let (a, m1) = enter_group g (m\<lparr>gm_currGroupId_s := gm_currGroupId_s m + 1\<rparr>);
            Some (True, Some a, m1) })"

definition deleteGroup :: "ulong \<Rightarrow> GroupMgr \<Rightarrow> (bool \<times> GroupMgr) option" where
  "deleteGroup groupId m =
     (if \<not> gm_initialized_s m then Some (False, m)
      else case gm_idIndex_s m groupId of
          None \<Rightarrow> Some (False, m)
        | Some a \<Rightarrow>
            if gm_default_s m = Some a then Some (False, m)
            else do {
              g \<leftarrow> gm_heap m a;
              let (status, g1) = ag_cancelAll g;
              Some (if \<not> status then (False, m)
                else (True, m\<lparr>gm_idIndex_s := (gm_idIndex_s m)(groupId := None),
                       gm_nameIndex_s := (gm_nameIndex_s m)(ag_name_m g1 := None), gm_heap := (gm_heap m)(a := None)\<rparr>)) })"

definition gm_exists_name :: "string \<Rightarrow> GroupMgr \<Rightarrow> bool" where
  "gm_exists_name name m = (gm_initialized_s m \<and> gm_nameIndex_s m name \<noteq> None)"

definition gm_exists_id :: "ulong \<Rightarrow> GroupMgr \<Rightarrow> bool" where
  "gm_exists_id groupId m = (gm_initialized_s m \<and> gm_idIndex_s m groupId \<noteq> None)"

definition listGroups :: "((ulong \<rightharpoonup> nat) \<Rightarrow> ulong list) \<Rightarrow> GroupMgr \<Rightarrow> bool \<times> ulong list" where
  "listGroups order m = (if \<not> gm_initialized_s m then (False, []) else (True, order (gm_idIndex_s m)))"

definition locateGroup_id :: "ulong \<Rightarrow> GroupMgr \<Rightarrow> nat option" where
  "locateGroup_id groupId m = (if \<not> gm_initialized_s m then None else gm_idIndex_s m groupId)"

definition locateGroup_name :: "string \<Rightarrow> GroupMgr \<Rightarrow> nat option" where
  "locateGroup_name groupName m = (if \<not> gm_initialized_s m then None else gm_nameIndex_s m groupName)"

definition getDefaultGroup :: "GroupMgr \<Rightarrow> (bool \<times> nat option)" where
  "getDefaultGroup m = (if \<not> gm_initialized_s m then (False, None) else (True, gm_default_s m))"

section \<open>The indexes agree\<close>

text \<open>An index by a key of the objects: it holds exactly the objects that are there.\<close>

definition indexes :: "('k \<rightharpoonup> nat) \<Rightarrow> ('g \<Rightarrow> 'k) \<Rightarrow> (nat \<rightharpoonup> 'g) \<Rightarrow> bool" where
  "indexes I key H \<longleftrightarrow> (\<forall>k a. I k = Some a \<longleftrightarrow> (\<exists>g. H a = Some g \<and> key g = k))"

lemma indexes_enter:
  assumes "indexes I key H" "H a = None" "I (key g) = None"
  shows "indexes (emplace (key g) a I) key (H(a \<mapsto> g))"
proof -
  have "key h \<noteq> key g" if "H b = Some h" for b h using assms(1,3) that by (force simp: indexes_def)
  then show ?thesis using assms by (auto simp: indexes_def emplace_def)
qed

lemma indexes_remove:
  assumes "indexes I key H" "H a = Some g"
  shows "indexes (I(key g := None)) key (H(a := None))"
proof -
  have "I (key g) = Some a" using assms by (auto simp: indexes_def)
  then show ?thesis using assms by (auto simp: indexes_def) (metis option.inject)+
qed

definition gm_inv :: "GroupMgr \<Rightarrow> bool" where
  "gm_inv m \<longleftrightarrow> indexes (gm_idIndex_s m) ag_groupId_m (gm_heap m) \<and> indexes (gm_nameIndex_s m) ag_name_m (gm_heap m) \<and>
     (\<forall>a g. gm_heap m a = Some g \<longrightarrow> a < gm_fresh m \<and> ag_groupId_m g < gm_currGroupId_s m \<and> ag_size g = 0) \<and>
     (if gm_initialized_s m then \<exists>a g. gm_default_s m = Some a \<and> gm_heap m a = Some g \<and> ag_groupId_m g = 0 \<and> ag_name_m g = ''default''
      else gm_heap m = Map.empty \<and> gm_currGroupId_s m = 0)"

lemma gm_inv_static: "gm_inv GroupMgr_static"
  by (auto simp: gm_inv_def GroupMgr_static_def indexes_def)

lemma size_new [simp]: "ag_size (AlpineGroup_new i n d) = 0" "ag_groupId_m (AlpineGroup_new i n d) = i" "ag_name_m (AlpineGroup_new i n d) = n"
  by (simp_all add: ag_size_def AlpineGroup_new_def ProfileIndex_new_def Let_def)

lemma copy_empty: "ag_size c = 0 \<Longrightarrow> AlpineGroup_copy order c i n d = Some (AlpineGroup_new i n d)"
  by (simp add: AlpineGroup_copy_def ag_size_def getAllPeers_def AlpineGroup_new_def)

lemma next_id:
  assumes "w \<noteq> (- 1 :: ulong)"
  shows "w < w + 1" "unat (w + 1) = unat w + 1"
proof -
  have "1 + w \<noteq> 0" using assms by (metis add.commute eq_neg_iff_add_eq_0)
  from unatSuc [OF this] show "unat (w + 1) = unat w + 1" by (simp add: add.commute)
  then show "w < w + 1" by (simp add: word_less_nat_alt)
qed

lemma enter_inv:
  assumes "gm_inv m" "gm_initialized_s m" "gm_currGroupId_s m \<noteq> - 1" "gm_nameIndex_s m n = None"
    and g: "g = AlpineGroup_new (gm_currGroupId_s m) n d"
  shows "gm_inv (snd (enter_group g (m\<lparr>gm_currGroupId_s := gm_currGroupId_s m + 1\<rparr>)))"
proof -
  let ?a = "gm_fresh m"
  have a: "gm_heap m ?a = None" using assms(1) by (cases "gm_heap m ?a") (fastforce simp: gm_inv_def)+
  have i: "gm_idIndex_s m (gm_currGroupId_s m) = None"
    using assms(1) by (cases "gm_idIndex_s m (gm_currGroupId_s m)") (fastforce simp: gm_inv_def indexes_def)+
  have "indexes (emplace (ag_groupId_m g) ?a (gm_idIndex_s m)) ag_groupId_m ((gm_heap m)(?a \<mapsto> g))"
    by (rule indexes_enter) (use assms(1) a i in \<open>simp_all add: gm_inv_def g\<close>)
  moreover have "indexes (emplace (ag_name_m g) ?a (gm_nameIndex_s m)) ag_name_m ((gm_heap m)(?a \<mapsto> g))"
    by (rule indexes_enter) (use assms(1,4) a in \<open>simp_all add: gm_inv_def g\<close>)
  moreover have "\<exists>b h. gm_default_s m = Some b \<and> ((gm_heap m)(?a \<mapsto> g)) b = Some h \<and> ag_groupId_m h = 0 \<and> ag_name_m h = ''default''"
    using assms(1,2) a by (auto simp: gm_inv_def)
  moreover have "b < ?a + 1 \<and> ag_groupId_m h < gm_currGroupId_s m + 1 \<and> ag_size h = 0" if "((gm_heap m)(?a \<mapsto> g)) b = Some h" for b h
    using that assms(1) next_id(1) [OF assms(3)] by (auto simp: gm_inv_def g less_Suc_eq split: if_splits intro: less_trans)
  ultimately show ?thesis using assms(2) by (simp add: gm_inv_def enter_group_def Let_def)
qed

lemma initialize_inv:
  assumes "gm_inv m"
  shows "gm_inv (snd (gm_initialize m))"
proof (cases "gm_initialized_s m")
  case False
  then have "gm_heap m = Map.empty" "gm_currGroupId_s m = 0" using assms by (auto simp: gm_inv_def)
  then show ?thesis using False
    by (auto simp: gm_inv_def gm_initialize_def enter_group_def Let_def indexes_def emplace_def)
qed (use assms in \<open>simp add: gm_initialize_def\<close>)

lemma delete_inv:
  assumes "gm_inv m"
  shows "\<exists>st m'. deleteGroup i m = Some (st, m') \<and> gm_inv m' \<and> gm_currGroupId_s m' = gm_currGroupId_s m"
proof (cases "gm_initialized_s m \<and> gm_idIndex_s m i \<noteq> None \<and> gm_default_s m \<noteq> gm_idIndex_s m i")
  case True
  then obtain a where a: "gm_idIndex_s m i = Some a" "gm_default_s m \<noteq> Some a" by auto
  then obtain g where g: "gm_heap m a = Some g" "ag_groupId_m g = i" using assms by (auto simp: gm_inv_def indexes_def)
  have "indexes ((gm_idIndex_s m)(ag_groupId_m g := None)) ag_groupId_m ((gm_heap m)(a := None))"
    "indexes ((gm_nameIndex_s m)(ag_name_m g := None)) ag_name_m ((gm_heap m)(a := None))"
    using assms g(1) by (simp_all add: gm_inv_def indexes_remove)
  with True a g assms show ?thesis by (auto simp: deleteGroup_def ag_cancelAll_def gm_inv_def)
next
  case False
  then show ?thesis using assms by (auto simp: deleteGroup_def split: option.split)
qed

text \<open>What a holder of a group does with it.\<close>

datatype ag_call = AgAdd ulong | AgRemove ulong | AgQuality int | AgPeerQuality ulong ushort | AgStart | AgEnd | AgResponse ulong | AgBad ulong | AgCancel

fun ag_do :: "ag_call \<Rightarrow> AlpineGroup \<Rightarrow> bool \<times> AlpineGroup" where
  "ag_do (AgAdd p) g = addPeer p g"
| "ag_do (AgRemove p) g = removePeer p g"
| "ag_do (AgQuality d) g = adjustPeerQuality d g"
| "ag_do (AgPeerQuality p d) g = ag_adjustQuality p d g"
| "ag_do AgStart g = queryStart g"
| "ag_do AgEnd g = queryEnd g"
| "ag_do (AgResponse p) g = ag_responseReceived p g"
| "ag_do (AgBad p) g = ag_badPacketReceived p g"
| "ag_do AgCancel g = ag_cancelAll g"

datatype gm_call = GmInit | GmCreate string string | GmCopy ulong string string | GmDelete ulong | GmGroup ulong ag_call

fun gm_do :: "((ulong \<rightharpoonup> nat) \<Rightarrow> ulong list) \<Rightarrow> gm_call \<Rightarrow> GroupMgr \<Rightarrow> GroupMgr option" where
  "gm_do order GmInit m = Some (snd (gm_initialize m))"
| "gm_do order (GmCreate n d) m = Some (snd (snd (createGroup n d m)))"
| "gm_do order (GmCopy i n d) m = map_option (\<lambda>(st, a, m'). m') (copyGroup order i n d m)"
| "gm_do order (GmDelete i) m = map_option snd (deleteGroup i m)"
| "gm_do order (GmGroup i c) m = (case locateGroup_id i m of
       None \<Rightarrow> Some m
     | Some a \<Rightarrow> do { g \<leftarrow> gm_heap m a; Some (m\<lparr>gm_heap := (gm_heap m)(a \<mapsto> snd (ag_do c g))\<rparr>) })"

lemma ag_do_same [simp]: "ag_do c g = (True, g)"
  by (cases c) (simp_all add: addPeer_def removePeer_def adjustPeerQuality_def ag_adjustQuality_def queryStart_def queryEnd_def
      ag_responseReceived_def ag_badPacketReceived_def ag_cancelAll_def)

lemma group_same: "gm_inv m \<Longrightarrow> gm_do order (GmGroup i c) m = Some m"
  by (auto simp: locateGroup_id_def gm_inv_def indexes_def fun_upd_idem split: option.split)

lemma gm_do_inv:
  assumes "gm_inv m" "gm_currGroupId_s m \<noteq> - 1"
  shows "\<exists>m'. gm_do order c m = Some m' \<and> gm_inv m' \<and> gm_currGroupId_s m' \<in> {gm_currGroupId_s m, gm_currGroupId_s m + 1}"
proof (cases c)
  case GmInit
  then show ?thesis using initialize_inv [OF assms(1)] by (auto simp: gm_initialize_def enter_group_def Let_def)
next
  case (GmCreate n d)
  show ?thesis
  proof (cases "gm_initialized_s m \<and> gm_nameIndex_s m n = None")
    case True
    then show ?thesis using enter_inv [OF assms(1) _ assms(2), of n] GmCreate
      by (auto simp: createGroup_def enter_group_def Let_def)
  qed (use assms GmCreate in \<open>auto simp: createGroup_def\<close>)
next
  case (GmCopy i n d)
  show ?thesis
  proof (cases "gm_initialized_s m \<and> gm_nameIndex_s m n = None \<and> gm_idIndex_s m i \<noteq> None")
    case True
    then obtain a g where "gm_idIndex_s m i = Some a" "gm_heap m a = Some g" "ag_size g = 0"
      using assms(1) by (auto simp: gm_inv_def indexes_def)
    then show ?thesis using enter_inv [OF assms(1) _ assms(2), of n] GmCopy True
      by (auto simp: copyGroup_def copy_empty enter_group_def Let_def)
  qed (use assms GmCopy in \<open>auto simp: copyGroup_def\<close>)
next
  case (GmDelete i)
  then show ?thesis using delete_inv [OF assms(1), of i] by auto
next
  case (GmGroup i a)
  then show ?thesis using assms(1) group_same [OF assms(1)] by simp
qed

text \<open>A group of the second state that is not in the first, under the same address, has an id the first had not given out.\<close>

definition later :: "GroupMgr \<Rightarrow> GroupMgr \<Rightarrow> bool" where
  "later m m' \<longleftrightarrow> gm_currGroupId_s m \<le> gm_currGroupId_s m' \<and>
     (\<forall>a g. gm_heap m' a = Some g \<longrightarrow> (\<exists>h. gm_heap m a = Some h \<and> ag_groupId_m h = ag_groupId_m g) \<or> gm_currGroupId_s m \<le> ag_groupId_m g)"

lemma later_refl [simp]: "later m m"
  by (auto simp: later_def)

lemma later_trans:
  assumes "later m1 m2" "later m2 m3"
  shows "later m1 m3"
proof -
  have "(\<exists>h. gm_heap m1 a = Some h \<and> ag_groupId_m h = ag_groupId_m g) \<or> gm_currGroupId_s m1 \<le> ag_groupId_m g" if "gm_heap m3 a = Some g" for a g
  proof -
    from assms(2) that consider h where "gm_heap m2 a = Some h" "ag_groupId_m h = ag_groupId_m g" | "gm_currGroupId_s m2 \<le> ag_groupId_m g"
      by (auto simp: later_def)
    then show ?thesis
    proof cases
      case (1 h)
      with assms(1) show ?thesis by (force simp: later_def)
    qed (use assms(1) in \<open>auto simp: later_def\<close>)
  qed
  with assms show ?thesis by (auto simp: later_def)
qed

lemma gm_do_later:
  assumes "gm_inv m" "gm_currGroupId_s m \<noteq> - 1" "gm_do order c m = Some m'"
  shows "later m m'"
proof -
  have id: "gm_currGroupId_s m \<le> gm_currGroupId_s m + 1" using next_id(1) [OF assms(2)] by simp
  show ?thesis
  proof (cases c)
    case (GmGroup i a)
    then show ?thesis using assms(3) group_same [OF assms(1), of order i a] by (simp del: gm_do.simps)
  qed (use assms id in \<open>auto simp: later_def gm_initialize_def createGroup_def copyGroup_def deleteGroup_def enter_group_def AlpineGroup_copy_def
      AlpineGroup_new_def ag_cancelAll_def Let_def split: option.splits Option.bind_splits if_splits\<close>)
qed

lemma gm_run_inv:
  assumes "gm_inv m" "unat (gm_currGroupId_s m) + length calls < 2 ^ 64"
  shows "\<exists>m'. run_calls (gm_do order) calls m = Some m' \<and> gm_inv m' \<and> later m m' \<and> unat (gm_currGroupId_s m') \<le> unat (gm_currGroupId_s m) + length calls"
  using assms
proof (induction calls arbitrary: m)
  case (Cons c calls)
  have id: "gm_currGroupId_s m \<noteq> - 1" using Cons.prems(2) by (auto simp: unsigned_minus_1_eq_mask mask_eq_exp_minus_1)
  then obtain m1 where m1: "gm_do order c m = Some m1" "gm_inv m1" "gm_currGroupId_s m1 \<in> {gm_currGroupId_s m, gm_currGroupId_s m + 1}"
    using gm_do_inv [OF Cons.prems(1), of order c] by blast
  have "unat (gm_currGroupId_s m1) \<le> unat (gm_currGroupId_s m) + 1" using m1(3) next_id(2) [OF id] by auto
  moreover from this obtain m2 where m2: "run_calls (gm_do order) calls m1 = Some m2" "gm_inv m2" "later m1 m2"
      "unat (gm_currGroupId_s m2) \<le> unat (gm_currGroupId_s m1) + length calls"
    using Cons.IH [OF m1(2)] Cons.prems(2) by auto
  moreover have "later m m2" using later_trans [OF gm_do_later [OF Cons.prems(1) id m1(1)] m2(3)] .
  ultimately show ?case using m1(1) by (intro exI [of _ m2]) simp
qed auto

lemma ids_once:
  assumes "gm_inv m" "gm_inv m'" "later m m'" "gm_heap m b = Some h" "gm_heap m' a = Some g" "ag_groupId_m h = ag_groupId_m g"
  shows "b = a"
proof -
  have "ag_groupId_m h < gm_currGroupId_s m" using assms(1,4) by (auto simp: gm_inv_def)
  then obtain h' where "gm_heap m a = Some h'" "ag_groupId_m h' = ag_groupId_m g" using assms(3,5,6) by (force simp: later_def)
  then show ?thesis using assms(1,4,6) by (auto simp: gm_inv_def indexes_def) (metis option.inject)
qed

section \<open>Properties\<close>



end
