(* ===== verification/PeerMgr.thy ===== *)
theory PeerMgr
  imports GroupMgr CircuitBreaker
begin

text \<open>
  protocols/Alpine/AlpinePeerMgr.cpp: the peers a node knows, over the circuit breaker, the rating engine, the
  base profile index and the groups. The state of a node is the record of those five; a fault of the profile
  index is a fault of the call. The calls that are not here need the transport stack (\<open>getTransport\<close>) or have
  no body. Shown: who is known under which transport and alias, and that a peer which keeps failing is shut out.
\<close>

section \<open>State\<close>

record t_PeerInfo =
  pe_peerId :: ulong
  pe_transport :: nat
  pe_alias :: "string option"
  pe_groupList :: "ulong list"
  pe_negotiatedVersion :: ushort

record peer_node =
  pm_initialized_s :: bool
  pm_baseProfileIndex_s :: "ProfileIndex option"
  pm_peerInfoIndex_s :: "ulong \<rightharpoonup> t_PeerInfo"
  pm_groups :: GroupMgr
  pm_breaker :: CircuitBreaker
  pm_ratings :: ratings

definition peer_node_static :: "GroupMgr \<Rightarrow> CircuitBreaker \<Rightarrow> ratings \<Rightarrow> peer_node" where
  "peer_node_static g cb r = \<lparr>pm_initialized_s = False, pm_baseProfileIndex_s = None, pm_peerInfoIndex_s = Map.empty,
     pm_groups = g, pm_breaker = cb, pm_ratings = r\<rparr>"

section \<open>Operations\<close>

definition pm_initialize :: "peer_node \<Rightarrow> bool \<times> peer_node" where
  "pm_initialize m = (if pm_initialized_s m then (False, m)
     else (True, m\<lparr>pm_peerInfoIndex_s := Map.empty, pm_baseProfileIndex_s := Some (ProfileIndex_new 1024), pm_initialized_s := True\<rparr>))"

definition getAlias :: "ulong \<Rightarrow> peer_node \<Rightarrow> string option" where
  "getAlias peerId m = (if \<not> pm_initialized_s m then None
     else case pm_peerInfoIndex_s m peerId of
         None \<Rightarrow> None
       | Some info \<Rightarrow> Some (case pe_alias info of None \<Rightarrow> [] | Some a \<Rightarrow> a))"

definition setAlias :: "ulong \<Rightarrow> string \<Rightarrow> peer_node \<Rightarrow> bool \<times> peer_node" where
  "setAlias peerId alias m = (if \<not> pm_initialized_s m then (False, m)
     else case pm_peerInfoIndex_s m peerId of
         None \<Rightarrow> (False, m)
       | Some info \<Rightarrow> (True, m\<lparr>pm_peerInfoIndex_s := (pm_peerInfoIndex_s m)(peerId \<mapsto> info\<lparr>pe_alias := Some alias\<rparr>)\<rparr>))"

definition pm_getProfile :: "ulong \<Rightarrow> peer_node \<Rightarrow> (bool \<times> AlpinePeerProfile option) option" where
  "pm_getProfile peerId m = (if \<not> pm_initialized_s m then Some (False, None)
     else do {
       x \<leftarrow> pm_baseProfileIndex_s m;
       (st, p) \<leftarrow> pi_locate peerId x;
       if \<not> st then Some (False, None)
       else do { q \<leftarrow> p; Some (True, Some q) } })"

text \<open>The group reports success without a profile, so the pointer that is copied from is not initialised.\<close>

definition getGroupProfile :: "ulong \<Rightarrow> ulong \<Rightarrow> peer_node \<Rightarrow> (bool \<times> AlpinePeerProfile option) option" where
  "getGroupProfile peerId groupId m = (if \<not> pm_initialized_s m then Some (False, None)
     else case locateGroup_id groupId (pm_groups m) of
         None \<Rightarrow> Some (False, None)
       | Some a \<Rightarrow> do {
           g \<leftarrow> gm_heap (pm_groups m) a;
           case getPeerProfile peerId g None of
             (False, p) \<Rightarrow> Some (False, None)
           | (True, p) \<Rightarrow> do { q \<leftarrow> p; Some (True, Some q) } })"

definition pm_querySent :: "int \<Rightarrow> ulong \<Rightarrow> peer_node \<Rightarrow> (bool \<times> peer_node) option" where
  "pm_querySent now peerId m = (if \<not> pm_initialized_s m then Some (False, m)
     else case allowRequest now peerId (pm_breaker m) of (allowed, cb) \<Rightarrow>
       if \<not> allowed then Some (False, m\<lparr>pm_breaker := cb\<rparr>)
       else do {
         x \<leftarrow> pm_baseProfileIndex_s m;
         (st, x1) \<leftarrow> pi_querySent peerId x;
         Some (st, m\<lparr>pm_breaker := cb, pm_baseProfileIndex_s := Some x1\<rparr>) })"

definition pm_responseReceived :: "(nat \<Rightarrow> int) \<Rightarrow> ulong \<Rightarrow> peer_node \<Rightarrow> (bool \<times> peer_node) option" where
  "pm_responseReceived now peerId m = (if \<not> pm_initialized_s m then Some (False, m)
     else do {
       x \<leftarrow> pm_baseProfileIndex_s m;
       (st, x1, r1) \<leftarrow> pi_responseReceived now peerId (x, pm_ratings m);
       Some (st, m\<lparr>pm_breaker := recordSuccess peerId (pm_breaker m), pm_baseProfileIndex_s := Some x1, pm_ratings := r1\<rparr>) })"

text \<open>The default group is told first, the peer is entered under its transport unless it is known, and gets a profile.\<close>

definition registerTransport :: "ulong \<Rightarrow> nat \<Rightarrow> peer_node \<Rightarrow> (bool \<times> peer_node) option" where
  "registerTransport peerId transport m = (if \<not> pm_initialized_s m then Some (False, m)
     else case getDefaultGroup (pm_groups m) of
         (False, d) \<Rightarrow> Some (False, m)
       | (True, d) \<Rightarrow> do {
           a \<leftarrow> d;
           g \<leftarrow> gm_heap (pm_groups m) a;
           case addPeer peerId g of
             (False, g1) \<Rightarrow> Some (False, m)
           | (True, g1) \<Rightarrow>
               (let info = \<lparr>pe_peerId = peerId, pe_transport = transport, pe_alias = None, pe_groupList = [ag_groupId_m g1], pe_negotiatedVersion = 0\<rparr>;
                    m1 = m\<lparr>pm_groups := (pm_groups m)\<lparr>gm_heap := (gm_heap (pm_groups m))(a \<mapsto> g1)\<rparr>,
                           pm_peerInfoIndex_s := emplace peerId info (pm_peerInfoIndex_s m)\<rparr>
                in do {
                  x \<leftarrow> pm_baseProfileIndex_s m1;
                  (st, x1) \<leftarrow> pi_create peerId x;
                  Some (st, m1\<lparr>pm_baseProfileIndex_s := Some x1\<rparr>) }) })"

text \<open>The breaker reads the clock twice and the rating engine three times.\<close>

definition pm_badPacketReceived :: "(nat \<Rightarrow> int) \<Rightarrow> ulong \<Rightarrow> peer_node \<Rightarrow> (bool \<times> peer_node) option" where
  "pm_badPacketReceived now peerId m = (if \<not> pm_initialized_s m then Some (False, m)
     else do {
       x \<leftarrow> pm_baseProfileIndex_s m;
       (st, x1, r1) \<leftarrow> pi_badPacketReceived (\<lambda>i. now (i + 2)) peerId (x, pm_ratings m);
       Some (st, m\<lparr>pm_breaker := recordFailure (now 0) (now 1) peerId (pm_breaker m), pm_baseProfileIndex_s := Some x1, pm_ratings := r1\<rparr>) })"

definition pm_reliableTransferFailed :: "(nat \<Rightarrow> int) \<Rightarrow> ulong \<Rightarrow> peer_node \<Rightarrow> (bool \<times> peer_node) option" where
  "pm_reliableTransferFailed now peerId m = (if \<not> pm_initialized_s m then Some (False, m)
     else do {
       x \<leftarrow> pm_baseProfileIndex_s m;
       (st, x1, r1) \<leftarrow> pi_reliableTransferFailed (\<lambda>i. now (i + 2)) peerId (x, pm_ratings m);
       Some (st, m\<lparr>pm_breaker := recordFailure (now 0) (now 1) peerId (pm_breaker m), pm_baseProfileIndex_s := Some x1, pm_ratings := r1\<rparr>) })"

definition deactivatePeer :: "ulong \<Rightarrow> peer_node \<Rightarrow> bool \<times> peer_node" where "deactivatePeer peerId m = (True, m)"
definition deletePeer :: "ulong \<Rightarrow> peer_node \<Rightarrow> bool \<times> peer_node" where "deletePeer peerId m = (True, m)"
definition banPeer :: "ulong \<Rightarrow> peer_node \<Rightarrow> bool \<times> peer_node" where "banPeer peerId m = (True, m)"

section \<open>Runs\<close>

datatype pm_call = PmInit | PmSetAlias ulong string | PmQuerySent int ulong | PmResponse "nat \<Rightarrow> int" ulong | PmRegister ulong nat
  | PmBadPacket "nat \<Rightarrow> int" ulong | PmTransferFailed "nat \<Rightarrow> int" ulong | PmDeactivate ulong | PmDelete ulong | PmBan ulong

fun pm_do :: "pm_call \<Rightarrow> peer_node \<Rightarrow> (bool \<times> peer_node) option" where
  "pm_do PmInit m = Some (pm_initialize m)"
| "pm_do (PmSetAlias p a) m = Some (setAlias p a m)"
| "pm_do (PmQuerySent now p) m = pm_querySent now p m"
| "pm_do (PmResponse now p) m = pm_responseReceived now p m"
| "pm_do (PmRegister p t) m = registerTransport p t m"
| "pm_do (PmBadPacket now p) m = pm_badPacketReceived now p m"
| "pm_do (PmTransferFailed now p) m = pm_reliableTransferFailed now p m"
| "pm_do (PmDeactivate p) m = Some (deactivatePeer p m)"
| "pm_do (PmDelete p) m = Some (deletePeer p m)"
| "pm_do (PmBan p) m = Some (banPeer p m)"

definition pm_step :: "pm_call \<Rightarrow> peer_node \<Rightarrow> peer_node option" where
  "pm_step c m = map_option snd (pm_do c m)"

text \<open>Who is known, under which transport, and with which alias.\<close>

type_synonym contacts = "ulong \<rightharpoonup> nat \<times> string option"

fun pm_spec :: "pm_call \<Rightarrow> contacts \<Rightarrow> contacts" where
  "pm_spec (PmRegister p t) L = emplace p (t, None) L"
| "pm_spec (PmSetAlias p a) L = (case L p of None \<Rightarrow> L | Some (t, b) \<Rightarrow> L(p \<mapsto> (t, Some a)))"
| "pm_spec c L = L"

text \<open>The relation of a node whose group manager is running.\<close>

definition pm_rep :: "contacts \<Rightarrow> peer_node \<Rightarrow> bool" where
  "pm_rep L m \<longleftrightarrow> gm_inv (pm_groups m) \<and> gm_initialized_s (pm_groups m) \<and> pm_initialized_s m \<and>
     (\<exists>x. pm_baseProfileIndex_s m = Some x \<and> pi_inv x \<and> dom (pi_index_m x) = dom L) \<and>
     (\<forall>p. map_option (\<lambda>i. (pe_transport i, pe_alias i)) (pm_peerInfoIndex_s m p) = L p)"

lemma rep_index:
  assumes "pm_rep L m"
  obtains x where "pm_baseProfileIndex_s m = Some x" "pi_inv x" "dom (pi_index_m x) = dom L"
  using assms by (auto simp: pm_rep_def)

lemma rep_update:
  assumes "pm_rep L m" "pi_inv x" "dom (pi_index_m x) = dom L"
  shows "pm_rep L (m\<lparr>pm_breaker := cb, pm_baseProfileIndex_s := Some x\<rparr>)"
    "pm_rep L (m\<lparr>pm_breaker := cb, pm_baseProfileIndex_s := Some x, pm_ratings := r\<rparr>)"
  using assms by (auto simp: pm_rep_def)

lemma event_sim:
  assumes "pm_rep L m" "pm_baseProfileIndex_s m = Some x" "rated_change event f p (x, r) = Some (st, x1, r1)"
    "\<And>q. pf_peerId (f q) = pf_peerId q"
  shows "pm_rep L (m\<lparr>pm_breaker := cb, pm_baseProfileIndex_s := Some x1, pm_ratings := r1\<rparr>)"
proof -
  have x: "pi_inv x" "dom (pi_index_m x) = dom L" using assms(1,2) by (auto simp: pm_rep_def)
  from rated_inv [OF x(1) assms(3,4)] x(2) assms(1) show ?thesis by (intro rep_update) auto
qed

lemma emplace_map:
  assumes "\<And>q. map_option f (I q) = L q"
  shows "map_option f (emplace p v I q) = emplace p (f v) L q"
  using assms [of p, symmetric] assms [of q, symmetric] by (cases "I p") (auto simp: emplace_def)

lemma register_sim:
  assumes "pm_rep L m" "registerTransport p t m = Some (st, m')"
  shows "pm_rep (emplace p (t, None) L) m' \<and> (st \<longleftrightarrow> L p = None)"
proof -
  obtain x where x: "pm_baseProfileIndex_s m = Some x" "pi_inv x" "dom (pi_index_m x) = dom L" using rep_index [OF assms(1)] .
  obtain d g where d: "gm_default_s (pm_groups m) = Some d" "gm_heap (pm_groups m) d = Some g"
    using assms(1) by (auto simp: pm_rep_def gm_inv_def)
  then have same: "(pm_groups m)\<lparr>gm_heap := (gm_heap (pm_groups m))(d \<mapsto> g)\<rparr> = pm_groups m" by (simp add: fun_upd_idem)
  obtain x1 where x1: "pi_create p x = Some (st, x1)" and m': "m' = m\<lparr>pm_peerInfoIndex_s := emplace p \<lparr>pe_peerId = p, pe_transport = t,
      pe_alias = None, pe_groupList = [ag_groupId_m g], pe_negotiatedVersion = 0\<rparr> (pm_peerInfoIndex_s m), pm_baseProfileIndex_s := Some x1\<rparr>"
    using assms d x(1) same by (auto simp: registerTransport_def getDefaultGroup_def addPeer_def pm_rep_def Let_def split: Option.bind_splits)
  have "dom (emplace p (t, None) L) = insert p (dom L)" by (auto simp: emplace_def split: option.splits)
  moreover have "(pi_index_m x p = None) = (L p = None)" using x(3) by (metis domIff)
  moreover have "map_option (\<lambda>i. (pe_transport i, pe_alias i)) (pm_peerInfoIndex_s m' q) = emplace p (t, None) L q" for q
    unfolding m' using emplace_map [of "\<lambda>i. (pe_transport i, pe_alias i)" "pm_peerInfoIndex_s m" L] assms(1) by (simp add: pm_rep_def)
  ultimately show ?thesis using create_inv [OF x(2) x1] assms(1) x(3) by (simp add: pm_rep_def) (simp add: m')
qed

lemma pm_step_sim: "pm_rep L m \<Longrightarrow> pm_step c m = Some m' \<Longrightarrow> pm_rep (pm_spec c L) m'"
proof (cases c)
  case PmInit
  assume "pm_rep L m" "pm_step c m = Some m'"
  with PmInit show ?thesis by (auto simp: pm_step_def pm_initialize_def pm_rep_def)
next
  case (PmSetAlias p a)
  assume L: "pm_rep L m" "pm_step c m = Some m'"
  have p: "L p = map_option (\<lambda>i. (pe_transport i, pe_alias i)) (pm_peerInfoIndex_s m p)" using L(1) by (simp add: pm_rep_def)
  show ?thesis
  proof (cases "pm_peerInfoIndex_s m p")
    case None
    with L p PmSetAlias show ?thesis by (auto simp: pm_step_def setAlias_def split: if_splits)
  next
    case (Some info)
    have "dom (L(p \<mapsto> (pe_transport info, Some a))) = dom L" using p Some by auto
    with L p Some PmSetAlias show ?thesis by (simp add: pm_step_def setAlias_def pm_rep_def split: if_splits) auto
  qed
next
  case (PmQuerySent now p)
  assume L: "pm_rep L m" "pm_step c m = Some m'"
  obtain x where x: "pm_baseProfileIndex_s m = Some x" "pi_inv x" "dom (pi_index_m x) = dom L" using rep_index [OF L(1)] .
  have init: "pm_initialized_s m" using L(1) by (simp add: pm_rep_def)
  obtain ok cb where a: "allowRequest now p (pm_breaker m) = (ok, cb)" by (cases "allowRequest now p (pm_breaker m)")
  show ?thesis
  proof (cases ok)
    case True
    then obtain st x1 where "pi_querySent p x = Some (st, x1)" "m' = m\<lparr>pm_breaker := cb, pm_baseProfileIndex_s := Some x1\<rparr>"
      using L(2) x(1) init a by (auto simp: PmQuerySent pm_step_def pm_querySent_def split: Option.bind_splits)
    moreover from this have "pi_inv x1" "dom (pi_index_m x1) = dom L"
      using pi_do_inv [OF x(2), of "PiQuerySent p" Map.empty x1 Map.empty] x(3) by simp_all
    ultimately show ?thesis using rep_update(1) [OF L(1)] by (simp add: PmQuerySent)
  next
    case False
    then show ?thesis using L init a by (auto simp: PmQuerySent pm_step_def pm_querySent_def pm_rep_def)
  qed
next
  case (PmResponse now p)
  assume L: "pm_rep L m" "pm_step c m = Some m'"
  obtain x where x: "pm_baseProfileIndex_s m = Some x" using rep_index [OF L(1)] .
  with L PmResponse show ?thesis
    by (auto simp: pm_step_def pm_responseReceived_def pi_responseReceived_def pm_rep_def [of L m] split: Option.bind_splits
        intro!: event_sim [OF L(1) x])
next
  case (PmRegister p t)
  assume L: "pm_rep L m" "pm_step c m = Some m'"
  with PmRegister obtain st where "registerTransport p t m = Some (st, m')" by (auto simp: pm_step_def)
  from register_sim [OF L(1) this] show ?thesis by (simp add: PmRegister)
next
  case (PmBadPacket now p)
  assume L: "pm_rep L m" "pm_step c m = Some m'"
  obtain x where x: "pm_baseProfileIndex_s m = Some x" using rep_index [OF L(1)] .
  with L PmBadPacket show ?thesis
    by (auto simp: pm_step_def pm_badPacketReceived_def pi_badPacketReceived_def pm_rep_def [of L m] split: Option.bind_splits
        intro!: event_sim [OF L(1) x])
next
  case (PmTransferFailed now p)
  assume L: "pm_rep L m" "pm_step c m = Some m'"
  obtain x where x: "pm_baseProfileIndex_s m = Some x" using rep_index [OF L(1)] .
  with L PmTransferFailed show ?thesis
    by (auto simp: pm_step_def pm_reliableTransferFailed_def pi_reliableTransferFailed_def pm_rep_def [of L m] split: Option.bind_splits
        intro!: event_sim [OF L(1) x])
qed (simp_all add: pm_step_def deactivatePeer_def deletePeer_def banPeer_def)

interpretation pm: simulation pm_step pm_spec pm_rep
  by unfold_locales (rule pm_step_sim)

definition peer_node_started :: peer_node where
  "peer_node_started = snd (pm_initialize (peer_node_static (snd (gm_initialize GroupMgr_static)) cb_init Map.empty))"

lemma rep_started: "pm_rep Map.empty peer_node_started"
proof -
  have "gm_inv (snd (gm_initialize GroupMgr_static))" by (rule initialize_inv [OF gm_inv_static])
  moreover have "pi_index_m (ProfileIndex_new 1024) = Map.empty" by (simp add: ProfileIndex_new_def Let_def)
  ultimately show ?thesis
    by (simp add: pm_rep_def peer_node_started_def pm_initialize_def peer_node_static_def pi_inv_new)
      (simp add: gm_initialize_def GroupMgr_static_def enter_group_def Let_def)
qed

text \<open>The failures of a peer in a row.\<close>

fun failure_of :: "ulong \<Rightarrow> pm_call \<Rightarrow> bool" where
  "failure_of p (PmBadPacket now q) \<longleftrightarrow> p = q"
| "failure_of p (PmTransferFailed now q) \<longleftrightarrow> p = q"
| "failure_of p c \<longleftrightarrow> False"

fun failure_times :: "pm_call \<Rightarrow> int \<times> int" where
  "failure_times (PmBadPacket now q) = (now 0, now 1)"
| "failure_times (PmTransferFailed now q) = (now 0, now 1)"
| "failure_times c = (0, 0)"

lemma failures_run:
  assumes "\<forall>e\<in>set evs. failure_of p e" "run_calls pm_step evs m = Some m'" "pm_initialized_s m"
  shows "pm_breaker m' = fail_run (map failure_times evs) p (pm_breaker m) \<and> pm_initialized_s m'"
  using assms
proof (induction evs arbitrary: m)
  case (Cons e evs)
  obtain m1 where m1: "pm_step e m = Some m1" "run_calls pm_step evs m1 = Some m'" using Cons.prems(2) by (auto split: option.splits)
  have "pm_breaker m1 = recordFailure (fst (failure_times e)) (snd (failure_times e)) p (pm_breaker m) \<and> pm_initialized_s m1"
    using m1(1) Cons.prems(1,3)
    by (cases e) (auto simp: pm_step_def pm_badPacketReceived_def pm_reliableTransferFailed_def split: Option.bind_splits)
  with Cons.IH [OF _ m1(2)] Cons.prems(1) show ?case by (simp add: fail_run_def case_prod_beta)
qed (simp add: fail_run_def)

section \<open>Properties\<close>

text \<open>C27: who a node knows. After any calls that did not fault in the profile index, which some can, exactly the registered peers have
  a profile, each its own, each peer is kept under the transport it was first registered with, a later registration being
  ignored, and its alias is the last one set.\<close>

theorem known_peers:
  assumes "run_calls pm_step calls peer_node_started = Some m" and "L = fold pm_spec calls Map.empty"
  shows "getAlias p m = map_option (\<lambda>(t, a). case a of None \<Rightarrow> [] | Some s \<Rightarrow> s) (L p) \<and>
    map_option pe_transport (pm_peerInfoIndex_s m p) = map_option fst (L p) \<and>
    (case L p of None \<Rightarrow> pm_getProfile p m = Some (False, None)
     | Some c \<Rightarrow> \<exists>q. pm_getProfile p m = Some (True, Some q) \<and> pf_peerId q = p)"
proof -
  have rep: "pm_rep L m" unfolding assms(2) by (rule pm.run_sim [OF rep_started assms(1)])
  then have init: "pm_initialized_s m" and L: "L p = map_option (\<lambda>i. (pe_transport i, pe_alias i)) (pm_peerInfoIndex_s m p)"
    by (simp_all add: pm_rep_def)
  obtain x where x: "pm_baseProfileIndex_s m = Some x" "pi_inv x" "dom (pi_index_m x) = dom L" using rep_index [OF rep] .
  have "case L p of None \<Rightarrow> pm_getProfile p m = Some (False, None) | Some c \<Rightarrow> \<exists>q. pm_getProfile p m = Some (True, Some q) \<and> pf_peerId q = p"
  proof (cases "pi_index_m x p")
    case None
    then have "L p = None" using x(3) by (metis domIff)
    then show ?thesis using None init x(1) by (simp add: pm_getProfile_def pi_locate_def)
  next
    case (Some i)
    then obtain c where "L p = Some c" using x(3) by (metis domD domI)
    moreover obtain q where "pi_locate p x = Some (True, Some q)" "pf_peerId q = p"
      using x(2) Some by (fastforce simp: pi_inv_def peers_of_def view_ok_def pi_locate_def rec_at_def)
    ultimately show ?thesis using init x(1) by (simp add: pm_getProfile_def)
  qed
  with init L show ?thesis by (cases "pm_peerInfoIndex_s m p") (auto simp: getAlias_def)
qed

lemma create_first:
  assumes "pi_numRecords_m x = 0" "0 < pi_size_m x" "pi_free_m x = i # free" "i < length (pi_array_m x)" "pi_index_m x p = None"
  shows "\<exists>x1. pi_create p x = Some (True, x1)"
  using assms by (simp add: pi_create_def upd_at_def Let_def)

lemma create_new:
  assumes "128 \<le> Suc k"
  shows "\<exists>x1. pi_create p (ProfileIndex_new (int (Suc k))) = Some (True, x1)"
proof -
  have "pi_numRecords_m (ProfileIndex_new (int (Suc k))) = 0" "pi_size_m (ProfileIndex_new (int (Suc k))) = Suc k"
    "length (pi_array_m (ProfileIndex_new (int (Suc k)))) = Suc k" "pi_index_m (ProfileIndex_new (int (Suc k))) = Map.empty"
    "pi_free_m (ProfileIndex_new (int (Suc k))) = 0 # [Suc 0..<Suc k]"
    using assms by (simp_all add: ProfileIndex_new_def minReserve_def Let_def upt_conv_Cons nat_add_distrib del: upt_Suc)
  then show ?thesis by (intro create_first [of _ 0 "[Suc 0..<Suc k]"]) simp_all
qed

lemma register_started: "\<exists>m. run_calls pm_step [PmRegister p t] peer_node_started = Some m"
proof -
  define x where "x = ProfileIndex_new 1024"
  obtain x1 where "pi_create p x = Some (True, x1)" using create_new [of 1023 p] by (auto simp: x_def)
  moreover have "pm_baseProfileIndex_s peer_node_started = Some x" "pm_initialized_s peer_node_started"
    by (simp_all add: peer_node_started_def pm_initialize_def peer_node_static_def x_def)
  moreover obtain d g where "getDefaultGroup (pm_groups peer_node_started) = (True, Some d)" "gm_heap (pm_groups peer_node_started) d = Some g"
    using rep_started by (auto simp: pm_rep_def gm_inv_def getDefaultGroup_def)
  ultimately show ?thesis by (simp add: pm_step_def registerTransport_def addPeer_def Let_def)
qed

theorem known_peers_witness:
  "\<exists>m q. run_calls pm_step [PmRegister 7 3] peer_node_started = Some m \<and> getAlias 7 m = Some [] \<and>
     pm_getProfile 7 m = Some (True, Some q) \<and> pf_peerId q = 7 \<and> pm_getProfile 9 m = Some (False, None)"
proof -
  obtain m where m: "run_calls pm_step [PmRegister 7 3] peer_node_started = Some m" using register_started by blast
  from known_peers [OF m refl, of 7] known_peers [OF m refl, of 9] m show ?thesis by (auto simp: emplace_def)
qed

text \<open>C28: a peer that keeps failing. Its circuit is closed with no failure counted; then come as many bad packets and failed transfers of
  this peer in a row as the threshold of the circuit breaker says, none of them faulting in the profile index. Until the open
  duration after the last one is over, the call that enters a query to the peer in the books reports failure and
  changes nothing but the circuit. No code calls it, so whether a query is really sent does not depend on it.\<close>

theorem failing_peer_shut_out:
  assumes "run_calls pm_step (evs @ [e]) m = Some m'" and "\<forall>c\<in>set (evs @ [e]). failure_of p c" and "pm_initialized_s m"
    and "state (circuit_of (pm_breaker m) p) = Closed" and "failureCount (circuit_of (pm_breaker m) p) = 0"
    and "int (length evs) + 1 = failureThreshold_s (pm_breaker m)"
    and "now - snd (failure_times e) < openDurationSecs_s (pm_breaker m) * 1000000000"
  shows "\<exists>cb. pm_querySent now p m' = Some (False, m'\<lparr>pm_breaker := cb\<rparr>)"
proof -
  have b: "pm_breaker m' = fail_run (map failure_times evs @ [(fst (failure_times e), snd (failure_times e))]) p (pm_breaker m)"
    "pm_initialized_s m'" using failures_run [OF assms(2,1,3)] by simp_all
  have "\<not> fst (allowRequest now p (pm_breaker m'))"
    using fail_run_trips [OF assms(4,5), of "map failure_times evs" "fst (failure_times e)" "snd (failure_times e)"] assms(6,7)
    by (intro open_refuses) (simp_all add: b(1))
  then obtain cb where "allowRequest now p (pm_breaker m') = (False, cb)" by (cases "allowRequest now p (pm_breaker m')") auto
  with b(2) show ?thesis by (intro exI [of _ cb]) (simp add: pm_querySent_def)
qed

theorem failing_peer_shut_out_witness:
  "\<exists>m' cb. run_calls pm_step (replicate 4 (PmBadPacket (\<lambda>i. 3) 7) @ [PmTransferFailed (\<lambda>i. 4) 7]) peer_node_started = Some m' \<and>
     pm_querySent 5 7 m' = Some (False, m'\<lparr>pm_breaker := cb\<rparr>)"
proof -
  obtain m' where m': "run_calls pm_step (replicate 4 (PmBadPacket (\<lambda>i. 3) 7) @ [PmTransferFailed (\<lambda>i. 4) 7]) peer_node_started = Some m'"
    by (simp add: numeral_eq_Suc pm_step_def pm_badPacketReceived_def pm_reliableTransferFailed_def pi_badPacketReceived_def
        pi_reliableTransferFailed_def rated_change_def peer_node_started_def pm_initialize_def peer_node_static_def ProfileIndex_new_def Let_def)
  have "pm_breaker peer_node_started = cb_init" "pm_initialized_s peer_node_started"
    by (simp_all add: peer_node_started_def pm_initialize_def peer_node_static_def)
  with failing_peer_shut_out [OF m', of 7 5] m' show ?thesis
    by (auto simp: cb_init_def circuit_of_def PeerCircuit_new_def)
qed

end
