(* ===== verification/QueryResults.thy ===== *)
theory QueryResults
  imports AlpineQueryPacket
begin

text \<open>
  protocols/Alpine/AlpineResourceDescSet.cpp, AlpineQueryOptions.cpp and AlpineQueryResults.cpp: what a node
  keeps of the answers to one of its queries. A set of descriptors is an array of pointers that grows by
  doubling its needs; an access outside the array or through a null pointer is \<open>None\<close>. Calls of the peer
  manager are reported in the order they are made. A variable that is read before it is set is an argument.
  The copy constructor of a descriptor leaves the extension pointer of a copy without an extension
  uninitialised, and the destructor deletes it when it is not null: whether the memory of the copies is zero is the
  argument \<open>zeroed\<close>, and a copy with a stray pointer is a fault.
\<close>

section \<open>Sets of descriptors\<close>

record 'o ResourceDescSet =
  ds_arraySize_m :: nat
  ds_numResources_m :: nat
  ds_currOffset_m :: nat
  ds_resourceList_m :: "'o AlpineResourceDesc option list"

definition ds_defaultReserve :: nat where "ds_defaultReserve = 256"
definition maxResourceListSize_s :: nat where "maxResourceListSize_s = 4096"

text \<open>The copy constructor sets the extension only when there is one. Otherwise the pointer of the copy is what was in
  memory: null when the memory was zero, else a stray pointer, which the destructor of the copy deletes. That fault is reported when
  the copy is made.\<close>

definition rd_extended :: "'o AlpineResourceDesc \<Rightarrow> bool" where
  "rd_extended d \<longleftrightarrow> rd_optionId_m d \<noteq> 0 \<and> rd_optionData_m d \<noteq> None"

definition rd_copy :: "bool \<Rightarrow> 'o AlpineResourceDesc \<Rightarrow> 'o AlpineResourceDesc option" where
  "rd_copy zeroed d = (if rd_extended d then Some d else if zeroed then Some (d\<lparr>rd_optionData_m := None\<rparr>) else None)"

fun copy_slots :: "bool \<Rightarrow> 'o AlpineResourceDesc option list \<Rightarrow> 'o AlpineResourceDesc option list option" where
  "copy_slots zeroed [] = Some []"
| "copy_slots zeroed (None # ds) = map_option (\<lambda>cs. None # cs) (copy_slots zeroed ds)"
| "copy_slots zeroed (Some d # ds) = do { c \<leftarrow> rd_copy zeroed d; cs \<leftarrow> copy_slots zeroed ds; Some (Some c # cs) }"

definition ResourceDescSet_new :: "'o ResourceDescSet" where
  "ResourceDescSet_new = \<lparr>ds_arraySize_m = ds_defaultReserve, ds_numResources_m = 0, ds_currOffset_m = 0,
     ds_resourceList_m = replicate ds_defaultReserve None\<rparr>"

text \<open>Copy constructor and assignment fill a new array with copies.\<close>

definition ResourceDescSet_copy :: "bool \<Rightarrow> 'o ResourceDescSet \<Rightarrow> 'o ResourceDescSet option" where
  "ResourceDescSet_copy zeroed c =
     (if ds_numResources_m c \<le> length (ds_resourceList_m c) \<and> ds_numResources_m c \<le> ds_arraySize_m c
      then map_option (\<lambda>cs. c\<lparr>ds_resourceList_m := cs @ replicate (ds_arraySize_m c - ds_numResources_m c) None\<rparr>)
             (copy_slots zeroed (take (ds_numResources_m c) (ds_resourceList_m c)))
      else None)"

definition ds_clear :: "'o ResourceDescSet \<Rightarrow> bool \<times> 'o ResourceDescSet" where
  "ds_clear s = (True, s\<lparr>ds_numResources_m := 0, ds_currOffset_m := 0,
     ds_resourceList_m := replicate (length (ds_resourceList_m s)) None\<rparr>)"

definition ds_resize :: "nat \<Rightarrow> 'o ResourceDescSet \<Rightarrow> 'o ResourceDescSet option" where
  "ds_resize newSize s =
     (if ds_numResources_m s \<le> length (ds_resourceList_m s) \<and> ds_numResources_m s \<le> newSize
      then Some (s\<lparr>ds_arraySize_m := newSize,
        ds_resourceList_m := take (ds_numResources_m s) (ds_resourceList_m s) @ replicate (newSize - ds_numResources_m s) None\<rparr>)
      else None)"

definition ds_reserve :: "nat \<Rightarrow> 'o ResourceDescSet \<Rightarrow> (bool \<times> 'o ResourceDescSet) option" where
  "ds_reserve n s = (if ds_arraySize_m s \<ge> n then Some (True, s)
     else do { s1 \<leftarrow> ds_resize n s; Some (True, s1) })"

text \<open>The bytes a descriptor takes in a reply; the length of an extension is read through its pointer.\<close>

definition getResourceDescSize :: "'o option_api \<Rightarrow> 'o AlpineResourceDesc \<Rightarrow> nat option" where
  "getResourceDescSize api d = (let n = 18 + sum_list (map (\<lambda>l. length l + 1) (rd_locatorList_m d)) + (length (rd_description_m d) + 1) + 8 in
     if rd_optionId_m d \<noteq> 0 then do { opt \<leftarrow> rd_getOptionData d; Some (n + opt_len api opt) } else Some n)"

text \<open>The loop that fills a packet: its list, from the current offset on. It ends with a status, the descriptors taken
  and how far the offset has moved.\<close>

fun pack_loop :: "bool \<Rightarrow> 'o option_api \<Rightarrow> 'o AlpineResourceDesc option list \<Rightarrow> nat \<Rightarrow> (bool \<times> 'o AlpineResourceDesc list \<times> nat) option" where
  "pack_loop zeroed api [] bytesRemaining = None"
| "pack_loop zeroed api (None # ds) bytesRemaining = Some (False, [], 0)"
| "pack_loop zeroed api (Some d # ds) bytesRemaining = do {
     recordSize \<leftarrow> getResourceDescSize api d;
     if recordSize > maxResourceListSize_s then Some (False, [], 0)
     else if recordSize > bytesRemaining then Some (True, [], 0)
     else do {
       c \<leftarrow> rd_copy zeroed d;
       (st, ls, n) \<leftarrow> pack_loop zeroed api ds (bytesRemaining - recordSize);
       Some (st, c # ls, n + 1) } }"

definition getRemaining :: "'o ResourceDescSet \<Rightarrow> ulong" where
  "getRemaining s = of_nat (ds_numResources_m s) - (of_nat (ds_currOffset_m s) + 1)"

definition getResourceDataPacket :: "bool \<Rightarrow> 'o option_api \<Rightarrow> 'o AlpineQueryPacket \<Rightarrow> 'o ResourceDescSet \<Rightarrow>
    (bool \<times> 'o AlpineQueryPacket \<times> 'o ResourceDescSet) option" where
  "getResourceDataPacket zeroed api q s =
     (if ds_numResources_m s = 0 then Some (False, q, s)
      else if getRemaining s \<le> 0 then Some (False, q, s)
      else do {
        (st, ls, n) \<leftarrow> pack_loop zeroed api (drop (ds_currOffset_m s) (ds_resourceList_m s)) maxResourceListSize_s;
        let s1 = s\<lparr>ds_currOffset_m := ds_currOffset_m s + n\<rparr>;
        Some (if st then (True, snd (q_setResourceDescList ls q), s1) else (False, q, s1)) })"

text \<open>Copies of the descriptors are stored at the current offset, which moves on.\<close>

fun store_list :: "bool \<Rightarrow> 'o AlpineResourceDesc list \<Rightarrow> 'o ResourceDescSet \<Rightarrow> 'o ResourceDescSet option" where
  "store_list zeroed [] s = Some s"
| "store_list zeroed (d # ds) s =
     (if ds_currOffset_m s < length (ds_resourceList_m s)
      then do {
        c \<leftarrow> rd_copy zeroed d;
        store_list zeroed ds (s\<lparr>ds_resourceList_m := (ds_resourceList_m s)[ds_currOffset_m s := Some c],
             ds_currOffset_m := ds_currOffset_m s + 1, ds_numResources_m := ds_numResources_m s + 1\<rparr>) }
      else None)"

definition addResourceList :: "bool \<Rightarrow> 'o AlpineResourceDesc list \<Rightarrow> 'o ResourceDescSet \<Rightarrow> (bool \<times> 'o ResourceDescSet) option" where
  "addResourceList zeroed ds s = do {
     s1 \<leftarrow> (if length ds > ds_arraySize_m s - ds_currOffset_m s then ds_resize (ds_arraySize_m s + length ds * 2) s else Some s);
     s2 \<leftarrow> store_list zeroed ds s1;
     Some (True, s2) }"

definition addResource :: "bool \<Rightarrow> 'o AlpineResourceDesc \<Rightarrow> 'o ResourceDescSet \<Rightarrow> (bool \<times> 'o ResourceDescSet) option" where
  "addResource zeroed d s = do {
     s1 \<leftarrow> (if ds_arraySize_m s - ds_currOffset_m s < 1 then ds_resize (ds_arraySize_m s + ds_arraySize_m s * 2) s else Some s);
     s2 \<leftarrow> store_list zeroed [d] s1;
     Some (True, s2) }"

definition addResourceDataPacket :: "bool \<Rightarrow> 'o AlpineQueryPacket \<Rightarrow> 'o ResourceDescSet \<Rightarrow> (bool \<times> 'o ResourceDescSet) option" where
  "addResourceDataPacket zeroed q s = (case q_getResourceDescList q of
       None \<Rightarrow> Some (False, s)
     | Some ds \<Rightarrow> do {
         s1 \<leftarrow> (if length ds > ds_arraySize_m s - ds_currOffset_m s then ds_resize (ds_arraySize_m s + length ds * 2) s else Some s);
         s2 \<leftarrow> store_list zeroed ds s1;
         Some (True, s2) })"

definition getResourceList :: "bool \<Rightarrow> 'o ResourceDescSet \<Rightarrow> 'o AlpineResourceDesc list option" where
  "getResourceList zeroed s = (if ds_numResources_m s \<le> length (ds_resourceList_m s)
     then Option.bind (copy_slots zeroed (take (ds_numResources_m s) (ds_resourceList_m s))) those else None)"

section \<open>Query options\<close>

record 'o AlpineQueryOptions =
  qo_group_m :: string
  qo_autoHaltLimit_m :: ulong
  qo_maxDescPerPeer_m :: ulong
  qo_query_m :: "byte list"
  qo_optionId_m :: ulong
  qo_optionData_m :: "'o option"
  qo_priority_m :: byte

definition AlpineQueryOptions_new :: "'o AlpineQueryOptions" where
  "AlpineQueryOptions_new = \<lparr>qo_group_m = ''default'', qo_autoHaltLimit_m = 10, qo_maxDescPerPeer_m = 128,
     qo_query_m = [], qo_optionId_m = 0, qo_optionData_m = None, qo_priority_m = 128\<rparr>"

definition qo_setMaxDescPerPeer :: "ulong \<Rightarrow> 'o AlpineQueryOptions \<Rightarrow> bool \<times> 'o AlpineQueryOptions" where
  "qo_setMaxDescPerPeer maxDesc p = (True, p\<lparr>qo_maxDescPerPeer_m := maxDesc\<rparr>)"

definition qo_setAutoHalt :: "ulong \<Rightarrow> 'o AlpineQueryOptions \<Rightarrow> bool \<times> 'o AlpineQueryOptions" where
  "qo_setAutoHalt numHits p = (True, p\<lparr>qo_autoHaltLimit_m := numHits\<rparr>)"

definition qo_setQuery :: "byte list \<Rightarrow> 'o AlpineQueryOptions \<Rightarrow> bool \<times> 'o AlpineQueryOptions" where
  "qo_setQuery query p = (if query = [] then (False, p) else (True, p\<lparr>qo_query_m := query\<rparr>))"

definition qo_setOptionId :: "ulong \<Rightarrow> 'o AlpineQueryOptions \<Rightarrow> bool \<times> 'o AlpineQueryOptions" where
  "qo_setOptionId optionId p = (if optionId \<noteq> 0 then (False, p) else (True, p\<lparr>qo_optionId_m := optionId\<rparr>))"

definition qo_setPriority :: "byte \<Rightarrow> 'o AlpineQueryOptions \<Rightarrow> bool \<times> 'o AlpineQueryOptions" where
  "qo_setPriority priority p = (True, p\<lparr>qo_priority_m := priority\<rparr>)"

section \<open>Results of a query\<close>

datatype notice = BadPacket ulong | BanPeer ulong

record 'o t_ReplyState =
  st_peerId :: ulong
  st_expectedTotal :: ulong
  st_duplicateCount :: ushort
  st_resourceDescSet :: "'o ResourceDescSet"

record 'o QueryResults =
  qr_queryId_m :: ulong
  qr_expectedResourceTotal_m :: ulong
  qr_currResourceTotal_m :: ulong
  qr_numPeers_m :: ulong
  qr_replyIndex_m :: "ulong \<rightharpoonup> 'o t_ReplyState"
  qr_queryOptions_m :: "'o AlpineQueryOptions"
  qr_seenResources_m :: "ulong set"

definition maxDuplicateRecv_s :: ushort where "maxDuplicateRecv_s = 10"

definition QueryResults_new :: "ulong \<Rightarrow> 'o AlpineQueryOptions \<Rightarrow> 'o QueryResults" where
  "QueryResults_new queryId opts = \<lparr>qr_queryId_m = queryId, qr_expectedResourceTotal_m = 0, qr_currResourceTotal_m = 0,
     qr_numPeers_m = 0, qr_replyIndex_m = Map.empty, qr_queryOptions_m = opts, qr_seenResources_m = {}\<rparr>"

definition numPending :: "'o QueryResults \<Rightarrow> ulong" where
  "numPending r = qr_expectedResourceTotal_m r - qr_currResourceTotal_m r"

definition qr_getResourceList :: "bool \<Rightarrow> ulong \<Rightarrow> 'o QueryResults \<Rightarrow> (bool \<times> 'o AlpineResourceDesc list) option" where
  "qr_getResourceList zeroed peerId r = (case qr_replyIndex_m r peerId of
       None \<Rightarrow> Some (False, [])
     | Some st \<Rightarrow> do { ds \<leftarrow> getResourceList zeroed (st_resourceDescSet st); Some (True, ds) })"

text \<open>One more duplicate; at the limit the state is thrown away and the peer banned.\<close>

definition count_duplicate :: "ulong \<Rightarrow> 'o t_ReplyState \<Rightarrow> 'o QueryResults \<Rightarrow> 'o QueryResults \<times> notice list" where
  "count_duplicate peerId st r =
     (let st1 = st\<lparr>st_duplicateCount := st_duplicateCount st + 1\<rparr> in
      if st_duplicateCount st1 \<ge> maxDuplicateRecv_s
      then (r\<lparr>qr_expectedResourceTotal_m := qr_expectedResourceTotal_m r - st_expectedTotal st1,
              qr_replyIndex_m := (qr_replyIndex_m r)(peerId := None)\<rparr>, [BanPeer peerId])
      else (r\<lparr>qr_replyIndex_m := (qr_replyIndex_m r)(peerId \<mapsto> st1)\<rparr>, []))"

text \<open>\<open>getQueryId\<close> stores the variable of the caller, \<open>junk\<close>, in the packet.\<close>

definition verifyQueryOffer :: "ulong \<Rightarrow> ulong \<Rightarrow> 'o AlpineQueryPacket \<Rightarrow> 'o QueryResults \<Rightarrow>
    bool \<times> 'o AlpineQueryPacket \<times> 'o QueryResults \<times> notice list" where
  "verifyQueryOffer junk peerId offer r =
     (if q_packetType_m offer \<noteq> queryOffer then (False, offer, r, [BadPacket peerId])
      else case q_getQueryId junk offer of (status, queryId, offer1) \<Rightarrow>
        if queryId \<noteq> qr_queryId_m r then (False, offer1, r, [BadPacket peerId])
        else case qr_replyIndex_m r peerId of
          None \<Rightarrow> (True, offer1, r\<lparr>qr_replyIndex_m := (qr_replyIndex_m r)(peerId \<mapsto>
              \<lparr>st_peerId = peerId, st_expectedTotal = 0, st_duplicateCount = 0, st_resourceDescSet = ResourceDescSet_new\<rparr>),
              qr_numPeers_m := qr_numPeers_m r + 1\<rparr>, [])
        | Some st \<Rightarrow> (False, offer1, count_duplicate peerId st r))"

definition verifyQueryReply :: "ulong \<Rightarrow> ulong \<Rightarrow> 'o AlpineQueryPacket \<Rightarrow> 'o QueryResults \<Rightarrow>
    bool \<times> 'o AlpineQueryPacket \<times> 'o QueryResults \<times> notice list" where
  "verifyQueryReply junk peerId reply r =
     (if q_packetType_m reply \<noteq> queryReply then (False, reply, r, [BadPacket peerId])
      else case q_getQueryId junk reply of (status, queryId, reply1) \<Rightarrow>
        if queryId \<noteq> qr_queryId_m r then (False, reply1, r, [BadPacket peerId])
        else case qr_replyIndex_m r peerId of
          None \<Rightarrow> (False, reply1, r, [BadPacket peerId])
        | Some st \<Rightarrow>
            (let currOffset = q_getOffset reply1; expectedOffset = (of_nat (ds_currOffset_m (st_resourceDescSet st)) :: ulong) in
            if currOffset > expectedOffset then (False, reply1, r, [BadPacket peerId])
            else if currOffset \<noteq> expectedOffset then (False, reply1, count_duplicate peerId st r)
            else (True, reply1, r, [])))"

definition populateQueryRequest :: "'o t_ReplyState \<Rightarrow> 'o QueryResults \<Rightarrow> 'o AlpineQueryPacket \<Rightarrow> 'o AlpineQueryPacket" where
  "populateQueryRequest st r request =
     (let currOffset = (of_nat (ds_currOffset_m (st_resourceDescSet st)) :: ulong);
          desired = st_expectedTotal st - currOffset;
          desired1 = (if desired > 65535 then 65535 else desired)
      in snd (q_setOptionId 0 (snd (q_setReplySetSize (ucast desired1) (snd (q_setOffset currOffset
           (snd (q_setQueryString (qo_query_m (qr_queryOptions_m r))
             (snd (q_setQueryId (qr_queryId_m r) (snd (q_setPacketType queryRequest request))))))))))))"

definition processQueryOffer :: "ulong \<Rightarrow> ulong \<Rightarrow> 'o AlpineQueryPacket \<Rightarrow> 'o AlpineQueryPacket \<Rightarrow> 'o QueryResults \<Rightarrow>
    bool \<times> 'o AlpineQueryPacket \<times> 'o AlpineQueryPacket \<times> 'o QueryResults \<times> notice list" where
  "processQueryOffer junk peerId offer request r =
     (case verifyQueryOffer junk peerId offer r of (status, offer1, r1, ns) \<Rightarrow>
      if \<not> status then (False, offer1, request, r1, ns)
      else case qr_replyIndex_m r1 peerId of
        None \<Rightarrow> (False, offer1, request, r1, ns)
      | Some st \<Rightarrow>
          (let hits = min (q_getNumHits offer1) (qo_maxDescPerPeer_m (qr_queryOptions_m r1));
              st1 = st\<lparr>st_expectedTotal := hits\<rparr>;
              r2 = r1\<lparr>qr_replyIndex_m := (qr_replyIndex_m r1)(peerId \<mapsto> st1),
                      qr_expectedResourceTotal_m := qr_expectedResourceTotal_m r1 + hits\<rparr>
          in (True, offer1, populateQueryRequest st1 r2 request, r2, ns)))"

text \<open>The resources of a reply that no peer has sent before, recognised by a hash of the first locator and the size.\<close>

definition resource_hash :: "(byte list \<Rightarrow> ulong) \<Rightarrow> (ulong \<Rightarrow> ulong) \<Rightarrow> 'o AlpineResourceDesc \<Rightarrow> ulong" where
  "resource_hash hs hu d = xor (hs (if rd_locatorList_m d = [] then [] else hd (rd_locatorList_m d))) (push_bit 1 (hu (rd_size_m d)))"

fun count_unique :: "ulong list \<Rightarrow> ulong set \<Rightarrow> ushort \<Rightarrow> ushort \<times> ulong set" where
  "count_unique [] seen n = (n, seen)"
| "count_unique (h # hs) seen n = (if h \<in> seen then count_unique hs seen n else count_unique hs (insert h seen) (n + 1))"

definition processQueryReply :: "bool \<Rightarrow> (byte list \<Rightarrow> ulong) \<Rightarrow> (ulong \<Rightarrow> ulong) \<Rightarrow> ulong \<Rightarrow> ulong \<Rightarrow> 'o AlpineQueryPacket \<Rightarrow>
    'o AlpineQueryPacket \<Rightarrow> 'o QueryResults \<Rightarrow>
    (bool \<times> 'o AlpineQueryPacket \<times> 'o AlpineQueryPacket \<times> 'o QueryResults \<times> notice list) option" where
  "processQueryReply zeroed hs hu junk peerId reply request r =
     (case verifyQueryReply junk peerId reply r of (status, reply1, r1, ns) \<Rightarrow>
      if \<not> status then Some (False, reply1, request, r1, ns)
      else case qr_replyIndex_m r1 peerId of
        None \<Rightarrow> Some (False, reply1, request, r1, ns)
      | Some st \<Rightarrow> do {
          (added, ds) \<leftarrow> addResourceDataPacket zeroed reply1 (st_resourceDescSet st);
          let st1 = st\<lparr>st_resourceDescSet := ds\<rparr>;
          let r2 = r1\<lparr>qr_replyIndex_m := (qr_replyIndex_m r1)(peerId \<mapsto> st1)\<rparr>;
          if \<not> added then Some (False, reply1, request, r2, ns)
          else
            let resources = (case q_getResourceDescList reply1 of None \<Rightarrow> [] | Some l \<Rightarrow> l);
                (unique, seen) = count_unique (map (resource_hash hs hu) resources) (qr_seenResources_m r2) 0;
                r3 = r2\<lparr>qr_seenResources_m := seen, qr_currResourceTotal_m := qr_currResourceTotal_m r2 + ucast unique\<rparr>
            in Some (True, reply1, populateQueryRequest st1 r3 request, r3, ns) })"

section \<open>A set is a list that grows\<close>

text \<open>A copy that is made without a fault.\<close>

definition rd_clean :: "'o AlpineResourceDesc \<Rightarrow> 'o AlpineResourceDesc" where
  "rd_clean d = (if rd_extended d then d else d\<lparr>rd_optionData_m := None\<rparr>)"

definition copyable :: "bool \<Rightarrow> 'o AlpineResourceDesc \<Rightarrow> bool" where
  "copyable z d \<longleftrightarrow> z \<or> rd_extended d"

definition ds_rep :: "bool \<Rightarrow> 'o AlpineResourceDesc list \<Rightarrow> 'o ResourceDescSet \<Rightarrow> bool" where
  "ds_rep z ls s \<longleftrightarrow> (\<forall>d\<in>set ls. copyable z d \<and> rd_clean d = d) \<and> ds_numResources_m s = length ls \<and> ds_currOffset_m s = length ls \<and>
     0 < ds_arraySize_m s \<and> length ls \<le> ds_arraySize_m s \<and>
     ds_resourceList_m s = map Some ls @ replicate (ds_arraySize_m s - length ls) None"

lemma rd_extended_cut [simp]: "\<not> rd_extended (d\<lparr>rd_optionData_m := None\<rparr>)"
  by (simp add: rd_extended_def)

lemma rd_clean_idem [simp]: "rd_clean (rd_clean d) = rd_clean d"
  by (simp add: rd_clean_def)

lemma copyable_clean [simp]: "copyable z (rd_clean d) = copyable z d" "copyable True d"
  by (simp_all add: copyable_def rd_clean_def)

lemma rd_copy_clean: "rd_copy z d = (if copyable z d then Some (rd_clean d) else None)"
  by (simp add: rd_copy_def copyable_def rd_clean_def)

lemma copy_slots_Some: "\<forall>d\<in>set ls. copyable z d \<and> rd_clean d = d \<Longrightarrow> copy_slots z (map Some ls) = Some (map Some ls)"
  by (induction ls) (auto simp: rd_copy_clean)

lemma those_Some: "those (map Some xs) = Some xs"
  by (induction xs) auto

lemma ds_rep_new: "ds_rep z [] ResourceDescSet_new"
  by (simp add: ds_rep_def ResourceDescSet_new_def ds_defaultReserve_def)

lemma ds_rep_resize:
  assumes "ds_rep z ls s" "ds_arraySize_m s \<le> n"
  shows "\<exists>s'. ds_resize n s = Some s' \<and> ds_rep z ls s' \<and> ds_arraySize_m s' = n"
  using assms by (auto simp: ds_rep_def ds_resize_def)

lemma ds_rep_store:
  assumes "ds_rep z ls s" "length ls + length ds \<le> ds_arraySize_m s"
  shows "if \<forall>d\<in>set ds. copyable z d then \<exists>s'. store_list z ds s = Some s' \<and> ds_rep z (ls @ map rd_clean ds) s' else store_list z ds s = None"
  using assms
proof (induction ds arbitrary: ls s)
  case (Cons d ds)
  let ?s = "s\<lparr>ds_resourceList_m := (ds_resourceList_m s)[ds_currOffset_m s := Some (rd_clean d)],
    ds_currOffset_m := ds_currOffset_m s + 1, ds_numResources_m := ds_numResources_m s + 1\<rparr>"
  show ?case
  proof (cases "copyable z d")
    case True
    obtain k where "ds_arraySize_m s - length ls = Suc k" using Cons.prems(2) by (cases "ds_arraySize_m s - length ls") auto
    then have "ds_rep z (ls @ [rd_clean d]) ?s" using Cons.prems True by (auto simp: ds_rep_def list_update_append)
    moreover have "ds_currOffset_m s < length (ds_resourceList_m s)" using Cons.prems by (simp add: ds_rep_def)
    ultimately show ?thesis using Cons.IH [of "ls @ [rd_clean d]" ?s] Cons.prems(2) True
      by (cases "\<forall>x\<in>set ds. copyable z x") (simp_all add: rd_copy_clean)
  qed (simp add: rd_copy_clean)
qed simp

lemma ds_rep_add_list:
  assumes "ds_rep z ls s"
  shows "if \<forall>d\<in>set ds. copyable z d then \<exists>s'. addResourceList z ds s = Some (True, s') \<and> ds_rep z (ls @ map rd_clean ds) s'
    else addResourceList z ds s = None"
proof (cases "length ds > ds_arraySize_m s - ds_currOffset_m s")
  case True
  have "ds_arraySize_m s \<le> ds_arraySize_m s + length ds * 2" by simp
  from ds_rep_resize [OF assms this] obtain s1 where s1: "ds_resize (ds_arraySize_m s + length ds * 2) s = Some s1"
    "ds_rep z ls s1" "ds_arraySize_m s1 = ds_arraySize_m s + length ds * 2" by blast
  moreover have "length ls \<le> ds_arraySize_m s" using assms by (simp add: ds_rep_def)
  ultimately show ?thesis using ds_rep_store [OF s1(2), of ds] True by (auto simp: addResourceList_def split: if_splits)
next
  case False
  moreover have "ds_currOffset_m s = length ls" "length ls \<le> ds_arraySize_m s" using assms by (simp_all add: ds_rep_def)
  ultimately have "length ls + length ds \<le> ds_arraySize_m s" by linarith
  from ds_rep_store [OF assms this] False show ?thesis by (auto simp: addResourceList_def split: if_splits)
qed

lemma ds_rep_add:
  assumes "ds_rep z ls s"
  shows "if copyable z d then \<exists>s'. addResource z d s = Some (True, s') \<and> ds_rep z (ls @ [rd_clean d]) s' else addResource z d s = None"
proof (cases "ds_arraySize_m s - ds_currOffset_m s < 1")
  case True
  have "ds_arraySize_m s \<le> ds_arraySize_m s + ds_arraySize_m s * 2" by simp
  from ds_rep_resize [OF assms this] obtain s1 where s1: "ds_resize (ds_arraySize_m s + ds_arraySize_m s * 2) s = Some s1"
    "ds_rep z ls s1" "ds_arraySize_m s1 = ds_arraySize_m s + ds_arraySize_m s * 2" by blast
  moreover have "length ls \<le> ds_arraySize_m s" "0 < ds_arraySize_m s" using assms by (simp_all add: ds_rep_def)
  ultimately show ?thesis using ds_rep_store [OF s1(2), of "[d]"] True
    by (auto simp: addResource_def simp del: store_list.simps split: if_splits)
next
  case False
  moreover have "ds_currOffset_m s = length ls" "length ls \<le> ds_arraySize_m s" using assms by (simp_all add: ds_rep_def)
  ultimately have "length ls + length [d] \<le> ds_arraySize_m s" by simp
  from ds_rep_store [OF assms this] False show ?thesis by (auto simp: addResource_def simp del: store_list.simps split: if_splits)
qed

lemma addResourceDataPacket_list:
  "addResourceDataPacket z q s = (case q_getResourceDescList q of None \<Rightarrow> Some (False, s) | Some ds \<Rightarrow> addResourceList z ds s)"
  by (simp add: addResourceDataPacket_def addResourceList_def split: option.split)

lemma ds_rep_copy: "ds_rep z ls s \<Longrightarrow> \<exists>s'. ResourceDescSet_copy z s = Some s' \<and> ds_rep z ls s'"
  using copy_slots_Some [of ls z] by (auto simp: ResourceDescSet_copy_def ds_rep_def)

lemma ds_rep_list: "ds_rep z ls s \<Longrightarrow> getResourceList z s = Some ls"
  using copy_slots_Some [of ls z] by (simp add: getResourceList_def ds_rep_def those_Some)

text \<open>With the offset behind the last descriptor, the number that remains wraps around and the first record read is
  empty, or beyond the array.\<close>

lemma ds_rep_packet:
  assumes "ds_rep z ls s"
  shows "getResourceDataPacket z api q s = (if ls \<noteq> [] \<and> length ls = ds_arraySize_m s then None else Some (False, q, s))"
proof -
  have "getRemaining s = - 1" using assms by (simp add: getRemaining_def ds_rep_def)
  moreover have "drop (ds_currOffset_m s) (ds_resourceList_m s) = replicate (ds_arraySize_m s - length ls) None"
    using assms by (simp add: ds_rep_def)
  moreover have "length ls \<le> ds_arraySize_m s" "ds_numResources_m s = length ls" "0 < ds_arraySize_m s" using assms by (simp_all add: ds_rep_def)
  ultimately show ?thesis by (cases "ds_arraySize_m s - length ls") (auto simp: getResourceDataPacket_def)
qed

datatype 'o ds_call = DsClear | DsReserve nat | DsAdd "'o AlpineResourceDesc" | DsAddList "'o AlpineResourceDesc list"
  | DsAddPacket "'o AlpineQueryPacket" | DsGetPacket "'o option_api" "'o AlpineQueryPacket" | DsCopy

fun ds_do :: "bool \<Rightarrow> 'o ds_call \<Rightarrow> 'o ResourceDescSet \<Rightarrow> 'o ResourceDescSet option" where
  "ds_do z DsClear s = Some (snd (ds_clear s))"
| "ds_do z (DsReserve n) s = map_option snd (ds_reserve n s)"
| "ds_do z (DsAdd d) s = map_option snd (addResource z d s)"
| "ds_do z (DsAddList ds) s = map_option snd (addResourceList z ds s)"
| "ds_do z (DsAddPacket q) s = map_option snd (addResourceDataPacket z q s)"
| "ds_do z (DsGetPacket api q) s = map_option (\<lambda>(st, q', s'). s') (getResourceDataPacket z api q s)"
| "ds_do z DsCopy s = ResourceDescSet_copy z s"

fun ds_spec :: "'o ds_call \<Rightarrow> 'o AlpineResourceDesc list \<Rightarrow> 'o AlpineResourceDesc list" where
  "ds_spec DsClear ls = []"
| "ds_spec (DsAdd d) ls = ls @ [rd_clean d]"
| "ds_spec (DsAddList ds) ls = ls @ map rd_clean ds"
| "ds_spec (DsAddPacket q) ls = (case q_getResourceDescList q of None \<Rightarrow> ls | Some ds \<Rightarrow> ls @ map rd_clean ds)"
| "ds_spec c ls = ls"

text \<open>The descriptors a call copies.\<close>

fun ds_new :: "'o ds_call \<Rightarrow> 'o AlpineResourceDesc list" where
  "ds_new (DsAdd d) = [d]"
| "ds_new (DsAddList ds) = ds"
| "ds_new (DsAddPacket q) = (case q_getResourceDescList q of None \<Rightarrow> [] | Some ds \<Rightarrow> ds)"
| "ds_new c = []"

definition ds_copies :: "bool \<Rightarrow> 'o ds_call \<Rightarrow> bool" where
  "ds_copies z c \<longleftrightarrow> (\<forall>d\<in>set (ds_new c). copyable z d)"

lemma ds_do_sim:
  assumes "ds_rep z ls s" "\<And>api q. c \<noteq> DsGetPacket api q"
  shows "if ds_copies z c then \<exists>s'. ds_do z c s = Some s' \<and> ds_rep z (ds_spec c ls) s' else ds_do z c s = None"
proof (cases c)
  case DsClear
  then show ?thesis using assms by (auto simp: ds_clear_def ds_rep_def ds_copies_def)
next
  case (DsReserve n)
  then show ?thesis using assms ds_rep_resize [OF assms(1), of n] by (auto simp: ds_reserve_def ds_copies_def)
next
  case (DsAdd d)
  then show ?thesis using ds_rep_add [OF assms(1), of d] by (auto simp: ds_copies_def split: if_splits)
next
  case (DsAddList ds)
  then show ?thesis using ds_rep_add_list [OF assms(1), of ds] by (auto simp: ds_copies_def split: if_splits)
next
  case (DsAddPacket q)
  then show ?thesis using assms(1) ds_rep_add_list [OF assms(1), of "the (q_getResourceDescList q)"]
    by (auto simp: addResourceDataPacket_list ds_copies_def split: option.splits if_splits)
next
  case DsCopy
  then show ?thesis using ds_rep_copy [OF assms(1)] by (simp add: ds_copies_def)
qed (use assms(2) in blast)

lemma ds_do_rep: "ds_rep z ls s \<Longrightarrow> ds_do z c s = Some s' \<Longrightarrow> ds_rep z (ds_spec c ls) s'"
proof (cases "\<exists>api q. c = DsGetPacket api q")
  case True
  assume "ds_rep z ls s" "ds_do z c s = Some s'"
  with True show ?thesis using ds_rep_packet [of z ls s] by (auto split: if_splits)
next
  case False
  assume "ds_rep z ls s" "ds_do z c s = Some s'"
  with False show ?thesis using ds_do_sim [of z ls s c] by (auto split: if_splits)
qed

interpretation ds: simulation "ds_do z" ds_spec "ds_rep z"
  by unfold_locales (rule ds_do_rep)

lemma ds_run:
  assumes "ds_rep z ls s" "\<forall>api q. DsGetPacket api q \<notin> set calls"
  shows "run_calls (ds_do z) calls s \<noteq> None \<longleftrightarrow> list_all (ds_copies z) calls"
  using assms
proof (induction calls arbitrary: ls s)
  case (Cons c calls)
  then show ?case using ds_do_sim [OF Cons.prems(1), of c] by (fastforce split: if_splits option.splits)
qed simp

section \<open>The results of a query\<close>

definition qr_inv :: "'o QueryResults \<Rightarrow> bool" where
  "qr_inv r \<longleftrightarrow> finite (dom (qr_replyIndex_m r)) \<and>
     (\<forall>p st. qr_replyIndex_m r p = Some st \<longrightarrow> st_peerId st = p \<and> st_duplicateCount st < 10 \<and> (\<exists>ls. ds_rep True ls (st_resourceDescSet st))) \<and>
     qr_expectedResourceTotal_m r = (\<Sum>p\<in>dom (qr_replyIndex_m r). st_expectedTotal (the (qr_replyIndex_m r p)))"

lemma sum_index_update:
  fixes g :: "'v \<Rightarrow> ulong"
  assumes "finite (dom m)"
  shows "(\<Sum>p\<in>dom (m(k \<mapsto> v)). g (the ((m(k \<mapsto> v)) p))) = (\<Sum>p\<in>dom m. g (the (m p))) - (case m k of None \<Rightarrow> 0 | Some w \<Rightarrow> g w) + g v"
    and "(\<Sum>p\<in>dom (m(k := None)). g (the ((m(k := None)) p))) = (\<Sum>p\<in>dom m. g (the (m p))) - (case m k of None \<Rightarrow> 0 | Some w \<Rightarrow> g w)"
proof -
  have rest: "(\<Sum>p\<in>dom m - {k}. g (the ((m(k := x)) p))) = (\<Sum>p\<in>dom m - {k}. g (the (m p)))" for x
    by (rule sum.cong) auto
  have m: "(\<Sum>p\<in>dom m. g (the (m p))) = (case m k of None \<Rightarrow> 0 | Some w \<Rightarrow> g w) + (\<Sum>p\<in>dom m - {k}. g (the (m p)))"
    using assms by (cases "m k") (auto simp: sum.remove [of _ k] domIff)
  have d: "dom (m(k \<mapsto> v)) = insert k (dom m - {k})" by auto
  show "(\<Sum>p\<in>dom (m(k \<mapsto> v)). g (the ((m(k \<mapsto> v)) p))) = (\<Sum>p\<in>dom m. g (the (m p))) - (case m k of None \<Rightarrow> 0 | Some w \<Rightarrow> g w) + g v"
    unfolding d using assms rest [of "Some v"] by (subst sum.insert) (simp_all add: m)
  have "dom (m(k := None)) = dom m - {k}" by auto
  then show "(\<Sum>p\<in>dom (m(k := None)). g (the ((m(k := None)) p))) = (\<Sum>p\<in>dom m. g (the (m p))) - (case m k of None \<Rightarrow> 0 | Some w \<Rightarrow> g w)"
    using rest [of None] by (simp add: m)
qed

lemma duplicate_inv:
  assumes "qr_inv r" "qr_replyIndex_m r p = Some st"
  shows "qr_inv (fst (count_duplicate p st r))"
proof (cases "st_duplicateCount st + 1 \<ge> maxDuplicateRecv_s")
  case True
  with assms show ?thesis
    using sum_index_update(2) [of "qr_replyIndex_m r" st_expectedTotal p] by (auto simp: qr_inv_def count_duplicate_def Let_def)
next
  case False
  then have "st_duplicateCount st + 1 < 10" by (simp add: maxDuplicateRecv_s_def)
  with assms False show ?thesis
    using sum_index_update(1) [of "qr_replyIndex_m r" st_expectedTotal p "st\<lparr>st_duplicateCount := st_duplicateCount st + 1\<rparr>"]
    by (auto simp: qr_inv_def count_duplicate_def Let_def)
qed

lemma offer_refused:
  "q_packetType_m offer \<noteq> queryOffer \<Longrightarrow> processQueryOffer j p offer req r = (False, offer, req, r, [BadPacket p])"
  "q_packetType_m offer = queryOffer \<Longrightarrow> j \<noteq> qr_queryId_m r \<Longrightarrow>
     processQueryOffer j p offer req r = (False, offer\<lparr>q_queryId_m := j\<rparr>, req, r, [BadPacket p])"
  "q_packetType_m offer = queryOffer \<Longrightarrow> j = qr_queryId_m r \<Longrightarrow> qr_replyIndex_m r p = Some st \<Longrightarrow>
     processQueryOffer j p offer req r = (False, offer\<lparr>q_queryId_m := j\<rparr>, req, count_duplicate p st r)"
  by (simp_all add: processQueryOffer_def verifyQueryOffer_def q_getQueryId_def split: prod.split)

lemma offer_accepted:
  fixes r :: "'o QueryResults" and offer :: "'o AlpineQueryPacket"
  assumes "q_packetType_m offer = queryOffer" "j = qr_queryId_m r" "qr_replyIndex_m r p = None"
  defines "hits \<equiv> min (q_numHits_m offer) (qo_maxDescPerPeer_m (qr_queryOptions_m r))"
  defines "st \<equiv> \<lparr>st_peerId = p, st_expectedTotal = hits, st_duplicateCount = 0, st_resourceDescSet = ResourceDescSet_new\<rparr> :: 'o t_ReplyState"
  shows "\<exists>r'. processQueryOffer j p offer req r = (True, offer\<lparr>q_queryId_m := j\<rparr>, populateQueryRequest st r' req, r', []) \<and>
    qr_replyIndex_m r' = (qr_replyIndex_m r)(p \<mapsto> st) \<and> qr_expectedResourceTotal_m r' = qr_expectedResourceTotal_m r + hits \<and>
    qr_queryId_m r' = qr_queryId_m r \<and> qr_queryOptions_m r' = qr_queryOptions_m r"
  using assms(1-3) by (simp add: processQueryOffer_def verifyQueryOffer_def q_getQueryId_def q_getNumHits_def Let_def hits_def st_def)

lemma offer_inv:
  assumes "qr_inv r" "processQueryOffer j p offer req r = (ok, offer', req', r', ns)"
  shows "qr_inv r'"
proof -
  consider "r' = r" | st where "qr_replyIndex_m r p = Some st" "r' = fst (count_duplicate p st r)"
    | hits where "qr_replyIndex_m r p = None" "qr_replyIndex_m r' = (qr_replyIndex_m r)(p \<mapsto>
        \<lparr>st_peerId = p, st_expectedTotal = hits, st_duplicateCount = 0, st_resourceDescSet = ResourceDescSet_new\<rparr>)"
        "qr_expectedResourceTotal_m r' = qr_expectedResourceTotal_m r + hits"
  proof (cases "q_packetType_m offer = queryOffer \<and> j = qr_queryId_m r")
    case True
    then show ?thesis
    proof (cases "qr_replyIndex_m r p")
      case None
      with offer_accepted [of offer j r p req] True assms(2) that(3) show ?thesis by fastforce
    next
      case (Some st)
      with offer_refused(3) [of offer j r p st req] True assms(2) that(2) show ?thesis by (metis fst_conv prod.inject)
    qed
  next
    case False
    then show ?thesis using assms(2) offer_refused(1,2) [of offer] that(1) by (metis prod.inject)
  qed
  then show ?thesis
  proof cases
    case (3 hits)
    have "qr_expectedResourceTotal_m r' = (\<Sum>p\<in>dom (qr_replyIndex_m r'). st_expectedTotal (the (qr_replyIndex_m r' p)))"
      unfolding 3(2) using sum_index_update(1) [of "qr_replyIndex_m r" st_expectedTotal p] assms(1) 3(1,3) by (simp add: qr_inv_def)
    moreover have "finite (dom (qr_replyIndex_m r'))" unfolding 3(2) using assms(1) by (simp add: qr_inv_def)
    moreover have "st_peerId st = q \<and> st_duplicateCount st < 10 \<and> (\<exists>ls. ds_rep True ls (st_resourceDescSet st))"
      if "qr_replyIndex_m r' q = Some st" for q st
      using that assms(1) ds_rep_new [where z = True] unfolding 3(2) by (cases "q = p") (auto simp: qr_inv_def)
    ultimately show ?thesis unfolding qr_inv_def by blast
  qed (use assms(1) duplicate_inv in auto)
qed

lemma reply_inv:
  assumes "qr_inv r"
  shows "\<exists>ok reply' req' r' ns. processQueryReply True hs hu j p reply req r = Some (ok, reply', req', r', ns) \<and> qr_inv r'"
proof -
  obtain ok reply1 r1 ns where v: "verifyQueryReply j p reply r = (ok, reply1, r1, ns)" by (cases "verifyQueryReply j p reply r") auto
  then consider "\<not> ok" "r1 = r \<or> (\<exists>st. qr_replyIndex_m r p = Some st \<and> r1 = fst (count_duplicate p st r))"
    | st where "ok" "r1 = r" "qr_replyIndex_m r p = Some st"
    by (auto simp: verifyQueryReply_def Let_def split: if_splits option.splits prod.splits)
  then show ?thesis
  proof cases
    case 1
    with v assms duplicate_inv show ?thesis by (auto simp: processQueryReply_def)
  next
    case (2 st)
    with assms obtain ls where ls: "ds_rep True ls (st_resourceDescSet st)" by (auto simp: qr_inv_def)
    obtain added ds ls' where ds: "addResourceDataPacket True reply1 (st_resourceDescSet st) = Some (added, ds)" "ds_rep True ls' ds"
    proof (cases "q_getResourceDescList reply1")
      case None
      then show ?thesis using that [of False] ls by (simp add: addResourceDataPacket_list)
    next
      case (Some ds)
      then show ?thesis using that ds_rep_add_list [OF ls, of ds] by (auto simp: addResourceDataPacket_list)
    qed
    let ?r = "r\<lparr>qr_replyIndex_m := (qr_replyIndex_m r)(p \<mapsto> st\<lparr>st_resourceDescSet := ds\<rparr>)\<rparr>"
    have inv: "qr_inv ?r"
      using assms 2(3) ds(2) sum_index_update(1) [of "qr_replyIndex_m r" st_expectedTotal p "st\<lparr>st_resourceDescSet := ds\<rparr>"]
      by (auto simp: qr_inv_def)
    then have "qr_inv (?r\<lparr>qr_seenResources_m := seen, qr_currResourceTotal_m := n\<rparr>)" for seen n by (simp add: qr_inv_def)
    with inv v 2 ds(1) show ?thesis by (auto simp: processQueryReply_def Let_def split: prod.splits)
  qed
qed

text \<open>What goes through in any memory goes through in zeroed memory, with the same outcome.\<close>

lemma store_list_zeroed: "store_list z ds s = Some s' \<Longrightarrow> store_list True ds s = Some s'"
  by (induction ds arbitrary: s) (auto simp: rd_copy_def split: if_splits)

lemma addResourceDataPacket_zeroed: "addResourceDataPacket z q s = Some x \<Longrightarrow> addResourceDataPacket True q s = Some x"
  by (auto simp: addResourceDataPacket_def dest: store_list_zeroed split: option.splits Option.bind_splits if_splits)

lemma reply_zeroed: "processQueryReply z hs hu j p reply req r = Some x \<Longrightarrow> processQueryReply True hs hu j p reply req r = Some x"
  by (auto simp: processQueryReply_def dest: addResourceDataPacket_zeroed split: option.splits Option.bind_splits if_splits prod.splits)

text \<open>Packets for one query, from any peers, in any order.\<close>

datatype 'o qr_call = QrOffer ulong ulong "'o AlpineQueryPacket" | QrReply ulong ulong "'o AlpineQueryPacket"

fun qr_do :: "(byte list \<Rightarrow> ulong) \<Rightarrow> (ulong \<Rightarrow> ulong) \<Rightarrow> 'o qr_call \<Rightarrow> 'o QueryResults \<Rightarrow> 'o QueryResults option" where
  "qr_do hs hu (QrOffer j p offer) r = (case processQueryOffer j p offer AlpineQueryPacket_new r of (ok, offer', req, r', ns) \<Rightarrow> Some r')"
| "qr_do hs hu (QrReply j p reply) r = map_option (\<lambda>(ok, reply', req, r', ns). r') (processQueryReply True hs hu j p reply AlpineQueryPacket_new r)"

interpretation qr: simulation "qr_do hs hu" "\<lambda>c (u :: unit). u" "\<lambda>u. qr_inv"
proof
  fix a :: unit and s s' :: "'a QueryResults" and e
  assume a: "qr_inv s" "qr_do hs hu e s = Some s'"
  then show "qr_inv s'"
  proof (cases e)
    case (QrReply j p reply)
    with a reply_inv [OF a(1), of hs hu j p reply AlpineQueryPacket_new] show ?thesis by auto
  qed (auto intro: offer_inv split: prod.splits)
qed

lemma qr_inv_new: "qr_inv (QueryResults_new i opts)"
  by (simp add: qr_inv_def QueryResults_new_def)

lemma qr_do_total: "qr_inv r \<Longrightarrow> qr_do hs hu c r \<noteq> None"
  using reply_inv by (cases c) (fastforce split: prod.splits)+

text \<open>The packets a peer sends in a row.\<close>

fun offers_run :: "ulong \<Rightarrow> ulong \<Rightarrow> 'o AlpineQueryPacket list \<Rightarrow> 'o QueryResults \<Rightarrow> (bool \<times> notice list) list" where
  "offers_run j p [] r = []"
| "offers_run j p (q # qs) r = (case processQueryOffer j p q AlpineQueryPacket_new r of (ok, q', req, r', ns) \<Rightarrow>
     (ok, ns) # offers_run j p qs r')"

text \<open>Each reply comes with what the variable that \<open>getQueryId\<close> does not set happens to hold.\<close>

fun replies_run :: "(byte list \<Rightarrow> ulong) \<Rightarrow> (ulong \<Rightarrow> ulong) \<Rightarrow> ulong \<Rightarrow> (ulong \<times> 'o AlpineQueryPacket) list \<Rightarrow> 'o QueryResults \<Rightarrow>
    ((bool \<times> 'o AlpineQueryPacket) list \<times> 'o QueryResults) option" where
  "replies_run hs hu p [] r = Some ([], r)"
| "replies_run hs hu p ((j, q) # qs) r = do {
     (ok, q', req, r', ns) \<leftarrow> processQueryReply True hs hu j p q AlpineQueryPacket_new r;
     (outs, r'') \<leftarrow> replies_run hs hu p qs r';
     Some ((ok, req) # outs, r'') }"

lemma duplicate_effect:
  "count_duplicate p st r = (r', ns) \<Longrightarrow> qr_queryId_m r' = qr_queryId_m r \<and>
     (if st_duplicateCount st + 1 \<ge> maxDuplicateRecv_s then ns = [BanPeer p] \<and> qr_replyIndex_m r' p = None
      else ns = [] \<and> qr_replyIndex_m r' p = Some (st\<lparr>st_duplicateCount := st_duplicateCount st + 1\<rparr>))"
  by (auto simp: count_duplicate_def Let_def split: if_splits)

lemma offers_phase:
  assumes "\<forall>q\<in>set qs. q_packetType_m q = queryOffer" "j = qr_queryId_m r" "k < 11"
    and "if k = 0 then qr_replyIndex_m r p = None else \<exists>st. qr_replyIndex_m r p = Some st \<and> st_duplicateCount st = of_nat (k - 1)"
  shows "offers_run j p qs r = map (\<lambda>i. ((k + i) mod 11 = 0, if (k + i) mod 11 = 10 then [BanPeer p] else [])) [0..<length qs]"
  using assms
proof (induction qs arbitrary: r k)
  case (Cons q qs)
  let ?out = "\<lambda>k i. ((k + i) mod 11 = (0 :: nat), if (k + i) mod 11 = 10 then [BanPeer p] else [])"
  have shift: "map (?out k) [0..<length (q # qs)] = ?out k 0 # map (?out ((k + 1) mod 11)) [0..<length qs]"
    by (simp add: upt_conv_Cons map_Suc_upt [symmetric] mod_simps del: upt_Suc)
  obtain ok q' req r' ns where p: "processQueryOffer j p q AlpineQueryPacket_new r = (ok, q', req, r', ns)"
    by (cases "processQueryOffer j p q AlpineQueryPacket_new r") auto
  have "(ok, ns) = ?out k 0 \<and> qr_queryId_m r' = qr_queryId_m r \<and> (if (k + 1) mod 11 = 0 then qr_replyIndex_m r' p = None
      else \<exists>st. qr_replyIndex_m r' p = Some st \<and> st_duplicateCount st = of_nat ((k + 1) mod 11 - 1))"
  proof (cases "k = 0")
    case True
    with Cons.prems offer_accepted [of q j r p AlpineQueryPacket_new] p show ?thesis by auto
  next
    case False
    then obtain st where st: "qr_replyIndex_m r p = Some st" "st_duplicateCount st = of_nat (k - 1)" using Cons.prems(4) by auto
    have c: "st_duplicateCount st + 1 = of_nat k" using False st(2) by (simp add: of_nat_diff)
    have "(of_nat k :: ushort) \<ge> 10 \<longleftrightarrow> k = 10" using Cons.prems(3) by (simp add: word_le_nat_alt unat_of_nat) arith
    with offer_refused(3) [of q j r p st AlpineQueryPacket_new] duplicate_effect [of p st r r' ns] p st Cons.prems False c show ?thesis
      by (auto simp: maxDuplicateRecv_s_def)
  qed
  note r' = this [THEN conjunct1] this [THEN conjunct2, THEN conjunct1] this [THEN conjunct2, THEN conjunct2]
  from r'(2) have j: "j = qr_queryId_m r'" using Cons.prems(2) by simp
  have "offers_run j p qs r' = map (?out ((k + 1) mod 11)) [0..<length qs]"
    using Cons.prems(1) by (intro Cons.IH j r'(3)) simp_all
  with r'(1) show ?case unfolding shift offers_run.simps p by simp
qed simp

lemma reply_accepted:
  assumes "q_packetType_m reply = queryReply" "j = qr_queryId_m r" "qr_replyIndex_m r p = Some st"
    and "ds_rep True ls (st_resourceDescSet st)" "q_getOffset reply = of_nat (length ls)" "q_getResourceDescList reply = Some ds"
  shows "\<exists>r' st'. processQueryReply True hs hu j p reply req r = Some (True, reply\<lparr>q_queryId_m := j\<rparr>, populateQueryRequest st' r' req, r', []) \<and>
    qr_replyIndex_m r' = (qr_replyIndex_m r)(p \<mapsto> st') \<and> ds_rep True (ls @ map rd_clean ds) (st_resourceDescSet st') \<and>
    qr_queryId_m r' = qr_queryId_m r"
proof -
  have v: "verifyQueryReply j p reply r = (True, reply\<lparr>q_queryId_m := j\<rparr>, r, [])"
    using assms by (simp add: verifyQueryReply_def q_getQueryId_def q_getOffset_def ds_rep_def Let_def)
  obtain s where "addResourceDataPacket True (reply\<lparr>q_queryId_m := j\<rparr>) (st_resourceDescSet st) = Some (True, s)" "ds_rep True (ls @ map rd_clean ds) s"
    using ds_rep_add_list [OF assms(4), of ds] assms(6) by (auto simp: addResourceDataPacket_list q_getResourceDescList_def)
  then show ?thesis using assms(3) by (auto simp: processQueryReply_def v Let_def split: prod.split)
qed

lemma populate_fields:
  "q_packetType_m (populateQueryRequest st r req) = queryRequest"
  "q_getOffset (populateQueryRequest st r req) = of_nat (ds_currOffset_m (st_resourceDescSet st))"
  by (simp_all add: populateQueryRequest_def q_setPacketType_def q_setQueryId_def q_setQueryString_def q_setOffset_def
      q_setReplySetSize_def q_setOptionId_def q_getOffset_def Let_def)

text \<open>Replies that continue where the last one stopped, and the requests they should be answered with.\<close>

fun in_order :: "nat \<Rightarrow> 'o AlpineQueryPacket list \<Rightarrow> bool" where
  "in_order n [] \<longleftrightarrow> True"
| "in_order n (q # qs) \<longleftrightarrow> q_packetType_m q = queryReply \<and> q_getOffset q = of_nat n \<and>
     (case q_getResourceDescList q of None \<Rightarrow> False | Some ds \<Rightarrow> in_order (n + length ds) qs)"

fun received :: "'o AlpineQueryPacket list \<Rightarrow> 'o AlpineResourceDesc list" where
  "received [] = []"
| "received (q # qs) = map rd_clean (case q_getResourceDescList q of None \<Rightarrow> [] | Some ds \<Rightarrow> ds) @ received qs"

text \<open>The replies for which the variable holds the id of the query.\<close>

definition heard :: "ulong \<Rightarrow> (ulong \<times> 'o AlpineQueryPacket) list \<Rightarrow> 'o AlpineQueryPacket list" where
  "heard i qs = map snd (filter (\<lambda>(j, q). j = i) qs)"

lemma reply_refused: "j \<noteq> qr_queryId_m r \<Longrightarrow> \<exists>q' ns. processQueryReply z hs hu j p q req r = Some (False, q', req, r, ns)"
  by (auto simp: processQueryReply_def verifyQueryReply_def q_getQueryId_def)

lemma replies_sim:
  assumes "in_order (length ls) (heard i qs)" "i = qr_queryId_m r" "qr_replyIndex_m r p = Some st" "ds_rep True ls (st_resourceDescSet st)"
  shows "\<exists>outs r' st'. replies_run hs hu p qs r = Some (outs, r') \<and> qr_replyIndex_m r' = (qr_replyIndex_m r)(p \<mapsto> st') \<and>
    ds_rep True (ls @ received (heard i qs)) (st_resourceDescSet st') \<and> map fst outs = map (\<lambda>(j, q). j = i) qs \<and>
    map (\<lambda>out. q_getOffset (snd out)) (filter fst outs) =
      map (\<lambda>k. of_nat (length (ls @ received (take (Suc k) (heard i qs))))) [0..<length (heard i qs)]"
  using assms
proof (induction qs arbitrary: ls r st)
  case Nil
  then have "(qr_replyIndex_m r)(p \<mapsto> st) = qr_replyIndex_m r" by (simp add: fun_upd_idem)
  with Nil show ?case by (intro exI [of _ "[]"] exI [of _ r] exI [of _ st]) (simp add: heard_def)
next
  case (Cons jq qs)
  obtain j q where jq: "jq = (j, q)" by (cases jq)
  show ?case
  proof (cases "j = i")
    case False
    then have h: "heard i (jq # qs) = heard i qs" by (simp add: heard_def jq)
    obtain q' ns where "processQueryReply True hs hu j p q AlpineQueryPacket_new r = Some (False, q', AlpineQueryPacket_new, r, ns)"
      using reply_refused [of j r] False Cons.prems(2) by metis
    moreover obtain outs r' st' where "replies_run hs hu p qs r = Some (outs, r')" "qr_replyIndex_m r' = (qr_replyIndex_m r)(p \<mapsto> st')"
      "ds_rep True (ls @ received (heard i qs)) (st_resourceDescSet st')" "map fst outs = map (\<lambda>(j, q). j = i) qs"
      "map (\<lambda>out. q_getOffset (snd out)) (filter fst outs) =
        map (\<lambda>k. of_nat (length (ls @ received (take (Suc k) (heard i qs))))) [0..<length (heard i qs)]"
      using Cons.IH [OF Cons.prems(1) [unfolded h] Cons.prems(2-4)] by blast
    ultimately show ?thesis unfolding h using False
      by (intro exI [of _ "(False, AlpineQueryPacket_new) # outs"] exI [of _ r'] exI [of _ st']) (simp add: jq)
  next
    case True
    then have h: "heard i (jq # qs) = q # heard i qs" by (simp add: heard_def jq)
    obtain ds where q: "q_packetType_m q = queryReply" "q_getOffset q = of_nat (length ls)" "q_getResourceDescList q = Some ds"
      "in_order (length (ls @ map rd_clean ds)) (heard i qs)" using Cons.prems(1) h by (auto split: option.splits)
    obtain r1 st1 where 1: "processQueryReply True hs hu j p q AlpineQueryPacket_new r = Some (True, q\<lparr>q_queryId_m := j\<rparr>,
        populateQueryRequest st1 r1 AlpineQueryPacket_new, r1, [])"
      "qr_replyIndex_m r1 = (qr_replyIndex_m r)(p \<mapsto> st1)" "ds_rep True (ls @ map rd_clean ds) (st_resourceDescSet st1)" "qr_queryId_m r1 = qr_queryId_m r"
      using reply_accepted [OF q(1) _ Cons.prems(3,4) q(2,3), of j] Cons.prems(2) True by blast
    have st1: "qr_replyIndex_m r1 p = Some st1" using 1(2) by simp
    have i: "i = qr_queryId_m r1" using Cons.prems(2) 1(4) by simp
    obtain outs r' st' where IH: "replies_run hs hu p qs r1 = Some (outs, r')" "qr_replyIndex_m r' = (qr_replyIndex_m r1)(p \<mapsto> st')"
      "ds_rep True ((ls @ map rd_clean ds) @ received (heard i qs)) (st_resourceDescSet st')" "map fst outs = map (\<lambda>(j, q). j = i) qs"
      "map (\<lambda>out. q_getOffset (snd out)) (filter fst outs) =
        map (\<lambda>k. of_nat (length ((ls @ map rd_clean ds) @ received (take (Suc k) (heard i qs))))) [0..<length (heard i qs)]"
      using Cons.IH [OF q(4) i st1 1(3)] by blast
    have "q_getOffset (populateQueryRequest st1 r1 AlpineQueryPacket_new) = of_nat (length (ls @ map rd_clean ds))"
      using 1(3) by (simp add: populate_fields ds_rep_def)
    then show ?thesis unfolding h using 1 IH q(3) True
      by (auto simp: jq map_Suc_upt [symmetric] upt_conv_Cons simp del: upt_Suc intro!: exI [of _ st'])
  qed
qed

section \<open>Properties\<close>

text \<open>C23: a set is the list of the copies of the descriptors added since it was cleared, in the order they were added, under any calls
  but the one that fills a reply packet. Such calls go through exactly if the memory of every copy is zero where the copy constructor
  leaves the extension pointer as it finds it, or every descriptor that is copied has an extension; none leaves the array.\<close>

theorem resource_set_refines:
  assumes "\<forall>api q. DsGetPacket api q \<notin> set calls"
  shows "if list_all (ds_copies zeroed) calls
    then \<exists>s. run_calls (ds_do zeroed) calls ResourceDescSet_new = Some s \<and> getResourceList zeroed s = Some (fold ds_spec calls []) \<and>
      ds_currOffset_m s = length (fold ds_spec calls [])
    else run_calls (ds_do zeroed) calls ResourceDescSet_new = None"
proof (cases "list_all (ds_copies zeroed) calls")
  case True
  then obtain s where s: "run_calls (ds_do zeroed) calls ResourceDescSet_new = Some s" using ds_run [OF ds_rep_new assms] by blast
  from ds.run_sim [OF ds_rep_new this] ds_rep_list True show ?thesis by (auto simp: s ds_rep_def)
next
  case False
  then show ?thesis using ds_run [OF ds_rep_new assms, of zeroed] by simp
qed

theorem resource_set_refines_witness:
  "\<exists>s. run_calls (ds_do True) [DsAdd AlpineResourceDesc_new, DsClear, DsReserve 300, DsAddList [AlpineResourceDesc_new, AlpineResourceDesc_new]]
      ResourceDescSet_new = Some s \<and> getResourceList True s = Some [AlpineResourceDesc_new, AlpineResourceDesc_new] \<and>
    run_calls (ds_do False) [DsAdd AlpineResourceDesc_new] (ResourceDescSet_new :: unit ResourceDescSet) = None"
  using resource_set_refines [of "[DsAdd AlpineResourceDesc_new, DsClear, DsReserve 300, DsAddList [AlpineResourceDesc_new, AlpineResourceDesc_new]]" True]
    resource_set_refines [of "[DsAdd (AlpineResourceDesc_new :: unit AlpineResourceDesc)]" False]
  by (auto simp: ds_copies_def copyable_def rd_clean_def rd_extended_def AlpineResourceDesc_new_def simp del: run_calls.simps)

text \<open>A set that has been filled never gives a reply packet, whatever was added and whatever was asked for before:
  the call fails, or leaves the array when the array is full.\<close>

lemma resource_set_never_served:
  assumes "run_calls (ds_do z) calls ResourceDescSet_new = Some s"
  shows "getResourceDataPacket z api q s = Some (False, q, s) \<or>
    getResourceDataPacket z api q s = None \<and> ds_currOffset_m s = ds_arraySize_m s"
  using ds_rep_packet [OF ds.run_sim [OF ds_rep_new assms]] ds.run_sim [OF ds_rep_new assms] by (auto simp: ds_rep_def)

lemma resource_set_never_served_witness:
  "\<exists>s. getResourceList True s = Some [AlpineResourceDesc_new :: unit AlpineResourceDesc] \<and>
     getResourceDataPacket True demo_api AlpineQueryPacket_new s =
       Some (False, AlpineQueryPacket_new, s)"
proof -
  let ?d = "AlpineResourceDesc_new :: unit AlpineResourceDesc"
  have "(replicate 256 None)[0 := v] = v # replicate 255 None" for v :: "unit AlpineResourceDesc option" by (simp add: numeral_eq_Suc)
  then obtain s where s: "run_calls (ds_do True) [DsAdd ?d] ResourceDescSet_new = Some s" "getResourceList True s = Some [?d]" "ds_currOffset_m s \<noteq> ds_arraySize_m s"
    by (simp add: addResource_def ResourceDescSet_new_def ds_defaultReserve_def getResourceList_def rd_copy_def rd_extended_def AlpineResourceDesc_new_def)
  from resource_set_never_served [OF s(1)] s(2,3) show ?thesis by auto
qed

text \<open>C24: the bookkeeping of a query. In zeroed memory, whatever packets arrive, from whatever peers, none makes the code leave an array;
  the expected total is always the sum over the peers that are kept, every peer that is kept has sent
  fewer than ten duplicates, and its list can be read.\<close>

theorem query_results_consistent:
  shows "\<exists>r. run_calls (qr_do hs hu) calls (QueryResults_new i opts) = Some r \<and>
    qr_expectedResourceTotal_m r = (\<Sum>p\<in>dom (qr_replyIndex_m r). st_expectedTotal (the (qr_replyIndex_m r p))) \<and>
    (\<forall>p st. qr_replyIndex_m r p = Some st \<longrightarrow> st_peerId st = p \<and> st_duplicateCount st < 10 \<and> (\<exists>ls. qr_getResourceList True p r = Some (True, ls)))"
proof -
  have "run_calls (qr_do hs hu) calls (QueryResults_new i opts) \<noteq> None"
    using qr.run_total [OF _ qr_inv_new] qr_do_total by blast
  then obtain r where r: "run_calls (qr_do hs hu) calls (QueryResults_new i opts) = Some r" by blast
  have "qr_inv r" using qr.run_sim [OF qr_inv_new r] .
  moreover from this have "\<exists>ls. qr_getResourceList True p r = Some (True, ls)" if "qr_replyIndex_m r p = Some st" for p st
    using that ds_rep_list by (fastforce simp: qr_inv_def qr_getResourceList_def)
  ultimately show ?thesis using r by (auto simp: qr_inv_def)
qed

theorem query_results_consistent_witness:
  "\<exists>r. run_calls (qr_do (\<lambda>_. 0) (\<lambda>_. 0)) [QrOffer 5 7 ((AlpineQueryPacket_new :: unit AlpineQueryPacket)\<lparr>q_packetType_m := queryOffer\<rparr>),
       QrReply 6 8 AlpineQueryPacket_new] (QueryResults_new 5 AlpineQueryOptions_new) = Some r \<and>
     qr_expectedResourceTotal_m r = (\<Sum>p\<in>dom (qr_replyIndex_m r). st_expectedTotal (the (qr_replyIndex_m r p)))"
  using query_results_consistent by blast

text \<open>C25: the transfer of a peer's resources, in zeroed memory. The id a reply is checked against the query with is not that of the packet but
  what a variable happens to hold that \<open>getQueryId\<close> does not set. The replies for which it holds another value are refused and change
  nothing. If the others each continue where the last of them stopped, they are all accepted, are kept in order behind what was there, leave
  the lists of all other peers alone, and every one is answered with a request for what comes next.\<close>

theorem replies_in_order:
  assumes "qr_inv r" and "qr_getResourceList True p r = Some (True, ls)" and "in_order (length ls) (heard (qr_queryId_m r) qs)"
  shows "\<exists>outs r'. replies_run hs hu p qs r = Some (outs, r') \<and>
    qr_getResourceList True p r' = Some (True, ls @ received (heard (qr_queryId_m r) qs)) \<and>
    (\<forall>p'. p' \<noteq> p \<longrightarrow> qr_getResourceList True p' r' = qr_getResourceList True p' r) \<and>
    map fst outs = map (\<lambda>(j, q). j = qr_queryId_m r) qs \<and>
    map (\<lambda>out. q_getOffset (snd out)) (filter fst outs) =
      map (\<lambda>k. of_nat (length (ls @ received (take (Suc k) (heard (qr_queryId_m r) qs))))) [0..<length (heard (qr_queryId_m r) qs)]"
proof -
  obtain st where st: "qr_replyIndex_m r p = Some st" "getResourceList True (st_resourceDescSet st) = Some ls"
    using assms(2) by (auto simp: qr_getResourceList_def split: option.splits Option.bind_splits)
  have "ds_rep True ls (st_resourceDescSet st)" using assms(1) st ds_rep_list [where z = True] by (fastforce simp: qr_inv_def)
  from replies_sim [OF assms(3) refl st(1) this, of hs hu] obtain outs r' st' where
    "replies_run hs hu p qs r = Some (outs, r')" "qr_replyIndex_m r' = (qr_replyIndex_m r)(p \<mapsto> st')"
    "ds_rep True (ls @ received (heard (qr_queryId_m r) qs)) (st_resourceDescSet st')" "map fst outs = map (\<lambda>(j, q). j = qr_queryId_m r) qs"
    "map (\<lambda>out. q_getOffset (snd out)) (filter fst outs) =
      map (\<lambda>k. of_nat (length (ls @ received (take (Suc k) (heard (qr_queryId_m r) qs))))) [0..<length (heard (qr_queryId_m r) qs)]" by blast
  then show ?thesis using ds_rep_list [of True "ls @ received (heard (qr_queryId_m r) qs)" "st_resourceDescSet st'"]
    by (intro exI [of _ outs] exI [of _ r']) (auto simp: qr_getResourceList_def)
qed

theorem replies_in_order_witness:
  "\<exists>r outs r'. fst (processQueryOffer 5 7 ((AlpineQueryPacket_new :: unit AlpineQueryPacket)\<lparr>q_packetType_m := queryOffer\<rparr>) AlpineQueryPacket_new
       (QueryResults_new 5 AlpineQueryOptions_new)) \<and>
     replies_run (\<lambda>_. 0) (\<lambda>_. 0) 7 [(6, AlpineQueryPacket_new), (5, (AlpineQueryPacket_new :: unit AlpineQueryPacket)\<lparr>q_packetType_m := queryReply,
       q_resourceList_m := Some [AlpineResourceDesc_new]\<rparr>)] r = Some (outs, r') \<and> map fst outs = [False, True] \<and>
     qr_getResourceList True 7 r' = Some (True, [AlpineResourceDesc_new])"
proof -
  let ?o = "(AlpineQueryPacket_new :: unit AlpineQueryPacket)\<lparr>q_packetType_m := queryOffer\<rparr>"
  let ?q = "(AlpineQueryPacket_new :: unit AlpineQueryPacket)\<lparr>q_packetType_m := queryReply, q_resourceList_m := Some [AlpineResourceDesc_new]\<rparr>"
  let ?qs = "[(6, AlpineQueryPacket_new), (5, ?q)] :: (ulong \<times> unit AlpineQueryPacket) list"
  obtain r st where r: "processQueryOffer 5 7 ?o AlpineQueryPacket_new (QueryResults_new 5 AlpineQueryOptions_new) =
      (True, ?o\<lparr>q_queryId_m := 5\<rparr>, populateQueryRequest st r AlpineQueryPacket_new, r, [])" "qr_queryId_m r = 5"
    "qr_replyIndex_m r 7 = Some st" "st_resourceDescSet st = ResourceDescSet_new"
    using offer_accepted [of ?o 5 "QueryResults_new 5 AlpineQueryOptions_new" 7 AlpineQueryPacket_new]
    by (auto simp: QueryResults_new_def)
  have "qr_inv r" using offer_inv [OF qr_inv_new r(1)] .
  moreover have "qr_getResourceList True 7 r = Some (True, [])"
    using r(3,4) by (simp add: qr_getResourceList_def ds_rep_list [OF ds_rep_new])
  moreover have h: "heard (qr_queryId_m r) ?qs = [?q]" by (simp add: heard_def r(2))
  then have "in_order (length []) (heard (qr_queryId_m r) ?qs)"
    by (simp add: q_getOffset_def q_getResourceDescList_def AlpineQueryPacket_new_def)
  ultimately obtain outs r' where "replies_run (\<lambda>_. 0) (\<lambda>_. 0) 7 ?qs r = Some (outs, r')"
    "qr_getResourceList True 7 r' = Some (True, [] @ received [?q])" "map fst outs = map (\<lambda>(j, q). j = qr_queryId_m r) ?qs"
    using replies_in_order [of r 7 "[]" ?qs "\<lambda>_. 0" "\<lambda>_. 0"] unfolding h by blast
  moreover have "received [?q] = [AlpineResourceDesc_new]"
    by (simp add: q_getResourceDescList_def rd_clean_def rd_extended_def AlpineResourceDesc_new_def)
  ultimately show ?thesis using r(1,2)
    by (intro exI [of _ r] exI [of _ outs] exI [of _ r']) (simp del: replies_run.simps)
qed

text \<open>A peer that keeps sending offers for a query. The first one opens its state, the next nine are ignored and
  the tenth of them bans the peer; the ban does not last, and the same begins again with the offer after it.\<close>

lemma offers_cycle:
  assumes "\<forall>q\<in>set qs. q_packetType_m q = queryOffer" and "qr_replyIndex_m r p = None"
  shows "offers_run (qr_queryId_m r) p qs r = map (\<lambda>i. (i mod 11 = 0, if i mod 11 = 10 then [BanPeer p] else [])) [0..<length qs]"
  using offers_phase [OF assms(1) refl, where k = 0 and p = p] assms(2) by simp

lemma offers_cycle_witness:
  "offers_run 5 7 (replicate 12 ((AlpineQueryPacket_new :: unit AlpineQueryPacket)\<lparr>q_packetType_m := queryOffer\<rparr>)) (QueryResults_new 5 AlpineQueryOptions_new) ! 11 = (True, [])"
  using offers_cycle [of "replicate 12 ((AlpineQueryPacket_new :: unit AlpineQueryPacket)\<lparr>q_packetType_m := queryOffer\<rparr>)" "QueryResults_new 5 AlpineQueryOptions_new" 7]
  by (simp add: QueryResults_new_def)

end
