(* ===== verification/QueryMgr.thy ===== *)
theory QueryMgr
  imports QueryResults GroupMgr
begin

text \<open>
  protocols/Alpine/AlpineQuery.cpp and AlpineQueryMgr.cpp: the queries of a node, active and past, and the packets
  of their peers. The outcome of a send through the stack is an argument: the id of the transfer, or \<open>None\<close>.
  Other outside calls are reported in order. A null or uninitialised pointer that is followed is \<open>None\<close>; a
  variable that is read before it is set is an argument. The write-ahead log, a build option, is left out.
  Shown: the life of a query, what the events of the manager can never do, and when a reply faults.
\<close>

section \<open>A query\<close>

record 'o AlpineQuery =
  aq_options_m :: "'o AlpineQueryOptions"
  aq_queryActive_m :: bool
  aq_group_m :: "nat option"
  aq_packets :: bool

text \<open>\<open>aq_packets\<close>: the broadcast and packet pointers are set. They are not when the group is unknown.\<close>

definition AlpineQuery_new :: "GroupMgr \<Rightarrow> 'o AlpineQueryOptions \<Rightarrow> 'o AlpineQuery" where
  "AlpineQuery_new groups opts = (case locateGroup_name (qo_group_m opts) groups of
       None \<Rightarrow> \<lparr>aq_options_m = opts, aq_queryActive_m = False, aq_group_m = snd (getDefaultGroup groups), aq_packets = False\<rparr>
     | Some g \<Rightarrow> \<lparr>aq_options_m = opts, aq_queryActive_m = False, aq_group_m = Some g, aq_packets = True\<rparr>)"

definition startQuery :: "GroupMgr \<Rightarrow> bool \<Rightarrow> 'o AlpineQuery \<Rightarrow> (bool \<times> 'o AlpineQuery) option" where
  "startQuery groups sent q =
     (if aq_queryActive_m q then Some (False, q)
      else case aq_group_m q of
          None \<Rightarrow> Some (False, q)
        | Some a \<Rightarrow> do {
            g \<leftarrow> gm_heap groups a;
            case createPeerList g [] of
              (False, peers) \<Rightarrow> Some (False, q)
            | (True, peers) \<Rightarrow>
                if \<not> fst (queryStart g) then Some (False, q)
                else if \<not> aq_packets q then None
                else if \<not> sent then Some (False, q)
                else Some (True, q\<lparr>aq_queryActive_m := True\<rparr>) })"

text \<open>The rest of a query has no body: it reports success and changes nothing.\<close>

definition aq_inProgress :: "'o AlpineQuery \<Rightarrow> bool" where "aq_inProgress q = True"
definition aq_getStatus :: "'o AlpineQuery \<Rightarrow> 's \<Rightarrow> bool \<times> 's" where "aq_getStatus q queryStatus = (True, queryStatus)"
definition aq_getPeerIdList :: "'o AlpineQuery \<Rightarrow> ulong list \<Rightarrow> bool \<times> ulong list" where "aq_getPeerIdList q peerIdList = (True, peerIdList)"
definition aq_halt :: "'o AlpineQuery \<Rightarrow> bool \<times> 'o AlpineQuery" where "aq_halt q = (True, q)"
definition aq_resume :: "'o AlpineQuery \<Rightarrow> bool \<times> 'o AlpineQuery" where "aq_resume q = (True, q)"
definition aq_cancel :: "'o AlpineQuery \<Rightarrow> bool \<times> 'o AlpineQuery" where "aq_cancel q = (True, q)"

text \<open>The destructor deletes the packets.\<close>

definition aq_destroy :: "'o AlpineQuery \<Rightarrow> unit option" where
  "aq_destroy q = (if aq_packets q then Some () else None)"

section \<open>The manager\<close>

datatype qm_notice = Results notice | TransferFailed ulong | Acknowledged ulong ulong | CalledBack nat ulong ulong

record 'o t_QueryState =
  qs_queryId :: ulong
  qs_priority :: byte
  qs_query :: "'o AlpineQuery option"
  qs_results :: "'o QueryResults"
  qs_pending :: "(ulong \<rightharpoonup> ulong) option"
  qs_onResultCallback :: "nat option"

record 'o QueryMgr =
  qm_initialized_s :: bool
  qm_maxConncurent_s :: ulong
  qm_currQueryId_s :: ulong
  qm_active_s :: "ulong \<rightharpoonup> 'o t_QueryState"
  qm_past_s :: "ulong \<rightharpoonup> 'o t_QueryState"
  qm_activePeer_s :: "ulong \<rightharpoonup> ulong list"
  qm_pastPeer_s :: "ulong \<rightharpoonup> ulong list"

definition QueryMgr_static :: "'o QueryMgr" where
  "QueryMgr_static = \<lparr>qm_initialized_s = False, qm_maxConncurent_s = 0, qm_currQueryId_s = 0, qm_active_s = Map.empty,
     qm_past_s = Map.empty, qm_activePeer_s = Map.empty, qm_pastPeer_s = Map.empty\<rparr>"

definition qm_initialize :: "ulong \<Rightarrow> 'o QueryMgr \<Rightarrow> bool \<times> 'o QueryMgr" where
  "qm_initialize maxConcurrent m = (if qm_initialized_s m then (False, m)
     else (True, m\<lparr>qm_maxConncurent_s := maxConcurrent, qm_active_s := Map.empty, qm_past_s := Map.empty,
            qm_activePeer_s := Map.empty, qm_pastPeer_s := Map.empty, qm_initialized_s := True\<rparr>))"

text \<open>A query is added to the list of each of its peers.\<close>

fun index_peers :: "ulong \<Rightarrow> ulong list \<Rightarrow> (ulong \<rightharpoonup> ulong list) \<Rightarrow> (ulong \<rightharpoonup> ulong list)" where
  "index_peers queryId [] idx = idx"
| "index_peers queryId (p # ps) idx = index_peers queryId ps (idx(p \<mapsto> (case idx p of None \<Rightarrow> [] | Some l \<Rightarrow> l) @ [queryId]))"

definition createQuery :: "GroupMgr \<Rightarrow> bool \<Rightarrow> 'o AlpineQueryOptions \<Rightarrow> 'o QueryMgr \<Rightarrow> (bool \<times> ulong \<times> 'o QueryMgr) option" where
  "createQuery groups sent opts m =
     (if \<not> qm_initialized_s m then Some (False, 0, m)
      else
        let queryId = qm_currQueryId_s m;
            m1 = m\<lparr>qm_currQueryId_s := queryId + 1\<rparr>;
            q = AlpineQuery_new groups opts;
            (listed, peers) = aq_getPeerIdList q []
        in if \<not> listed then do { u \<leftarrow> aq_destroy q; Some (False, queryId, m1) }
           else do {
             (started, q1) \<leftarrow> startQuery groups sent q;
             if \<not> started then do { u \<leftarrow> aq_destroy q1; Some (False, queryId, m1) }
             else
               let st = \<lparr>qs_queryId = queryId, qs_priority = qo_priority_m opts, qs_query = Some q1,
                     qs_results = QueryResults_new queryId opts, qs_pending = None, qs_onResultCallback = None\<rparr>
               in Some (True, queryId, m1\<lparr>qm_active_s := emplace queryId st (qm_active_s m1),
                     qm_activePeer_s := index_peers queryId peers (qm_activePeer_s m1)\<rparr>) })"

text \<open>The status of a query is given as its share that is complete and whether it is active.\<close>

definition getQueryStatus :: "ulong \<Rightarrow> real \<times> bool \<Rightarrow> 'o QueryMgr \<Rightarrow> bool \<times> real \<times> bool" where
  "getQueryStatus queryId status m =
     (if \<not> qm_initialized_s m then (False, status)
      else case qm_active_s m queryId of
          Some st \<Rightarrow> (case qs_query st of
              None \<Rightarrow> (True, 100, False)
            | Some q \<Rightarrow> aq_getStatus q status)
        | None \<Rightarrow> (case qm_past_s m queryId of
              None \<Rightarrow> (False, status)
            | Some st \<Rightarrow> (True, 100, False)))"

definition qm_exists :: "ulong \<Rightarrow> 'o QueryMgr \<Rightarrow> bool" where
  "qm_exists queryId m = (qm_initialized_s m \<and> (qm_active_s m queryId \<noteq> None \<or> qm_past_s m queryId \<noteq> None))"

definition isActive :: "ulong \<Rightarrow> 'o QueryMgr \<Rightarrow> bool" where
  "isActive queryId m = (qm_initialized_s m \<and> qm_active_s m queryId \<noteq> None)"

definition qm_inProgress :: "ulong \<Rightarrow> 'o QueryMgr \<Rightarrow> bool option" where
  "qm_inProgress queryId m = (if \<not> qm_initialized_s m then Some False
     else case qm_active_s m queryId of None \<Rightarrow> Some False | Some st \<Rightarrow> map_option aq_inProgress (qs_query st))"

definition pauseQuery :: "ulong \<Rightarrow> 'o QueryMgr \<Rightarrow> (bool \<times> 'o QueryMgr) option" where
  "pauseQuery queryId m = (if \<not> qm_initialized_s m then Some (False, m)
     else case qm_active_s m queryId of
         None \<Rightarrow> Some (False, m)
       | Some st \<Rightarrow> do {
           q \<leftarrow> qs_query st;
           if \<not> aq_inProgress q then Some (True, m)
           else case aq_halt q of (status, q1) \<Rightarrow>
             Some (status, m\<lparr>qm_active_s := (qm_active_s m)(queryId \<mapsto> st\<lparr>qs_query := Some q1\<rparr>)\<rparr>) })"

definition resumeQuery :: "ulong \<Rightarrow> 'o QueryMgr \<Rightarrow> (bool \<times> 'o QueryMgr) option" where
  "resumeQuery queryId m = (if \<not> qm_initialized_s m then Some (False, m)
     else case qm_active_s m queryId of
         None \<Rightarrow> Some (False, m)
       | Some st \<Rightarrow> do {
           q \<leftarrow> qs_query st;
           if aq_inProgress q then Some (True, m)
           else case aq_resume q of (status, q1) \<Rightarrow>
             Some (status, m\<lparr>qm_active_s := (qm_active_s m)(queryId \<mapsto> st\<lparr>qs_query := Some q1\<rparr>)\<rparr>) })"

text \<open>The peers of a cancelled query move it from their active to their past list.\<close>

fun unindex_peers :: "ulong \<Rightarrow> ulong list \<Rightarrow> (ulong \<rightharpoonup> ulong list) \<times> (ulong \<rightharpoonup> ulong list) \<Rightarrow>
    (ulong \<rightharpoonup> ulong list) \<times> (ulong \<rightharpoonup> ulong list)" where
  "unindex_peers queryId [] idx = idx"
| "unindex_peers queryId (p # ps) (act, pst) = unindex_peers queryId ps (case act p of
       None \<Rightarrow> (act, pst)
     | Some l \<Rightarrow> (act(p \<mapsto> filter (\<lambda>i. i \<noteq> queryId) l), pst(p \<mapsto> (case pst p of None \<Rightarrow> [] | Some k \<Rightarrow> k) @ [queryId])))"

definition cancelQuery :: "ulong \<Rightarrow> 'o QueryMgr \<Rightarrow> (bool \<times> 'o QueryMgr) option" where
  "cancelQuery queryId m = (if \<not> qm_initialized_s m then Some (False, m)
     else case qm_active_s m queryId of
         None \<Rightarrow> Some (False, m)
       | Some st \<Rightarrow> do {
           q \<leftarrow> qs_query st;
           case aq_cancel q of (cancelled, q1) \<Rightarrow>
           case aq_getPeerIdList q1 [] of (listed, peers) \<Rightarrow>
             if \<not> cancelled \<or> \<not> listed then Some (False, m)
             else do {
               u \<leftarrow> aq_destroy q1;
               let (act, pst) = unindex_peers queryId peers (qm_activePeer_s m, qm_pastPeer_s m);
               Some (True, m\<lparr>qm_active_s := (qm_active_s m)(queryId := None),
                 qm_past_s := emplace queryId (st\<lparr>qs_query := None\<rparr>) (qm_past_s m), qm_activePeer_s := act, qm_pastPeer_s := pst\<rparr>) } })"

text \<open>The lists of ids are filled in a copy of the list that is passed.\<close>

definition getAllActiveQueryIds :: "((ulong \<rightharpoonup> 'o t_QueryState) \<Rightarrow> ulong list) \<Rightarrow> ulong list \<Rightarrow> 'o QueryMgr \<Rightarrow> bool \<times> ulong list" where
  "getAllActiveQueryIds order queryIdList m = (if \<not> qm_initialized_s m then (False, queryIdList)
     else let copy = order (qm_active_s m) in (True, queryIdList))"

definition getQueryResults :: "ulong \<Rightarrow> 'o QueryMgr \<Rightarrow> 'o QueryResults option" where
  "getQueryResults queryId m = (if \<not> qm_initialized_s m then None else map_option qs_results (qm_active_s m queryId))"

definition registerResultCallback :: "ulong \<Rightarrow> nat \<Rightarrow> 'o QueryMgr \<Rightarrow> bool \<times> 'o QueryMgr" where
  "registerResultCallback queryId callback m = (if \<not> qm_initialized_s m then (False, m)
     else case qm_active_s m queryId of
         None \<Rightarrow> (False, m)
       | Some st \<Rightarrow> (True, m\<lparr>qm_active_s := (qm_active_s m)(queryId \<mapsto> st\<lparr>qs_onResultCallback := Some callback\<rparr>)\<rparr>))"

definition getPeerActiveQueryList :: "ulong \<Rightarrow> 'o QueryMgr \<Rightarrow> bool \<times> ulong list" where
  "getPeerActiveQueryList peerId m = (if \<not> qm_initialized_s m then (False, [])
     else (True, case qm_activePeer_s m peerId of None \<Rightarrow> [] | Some l \<Rightarrow> l))"

definition getPeerPastQueryList :: "ulong \<Rightarrow> 'o QueryMgr \<Rightarrow> bool \<times> ulong list" where
  "getPeerPastQueryList peerId m = (if \<not> qm_initialized_s m then (False, [])
     else (True, case qm_pastPeer_s m peerId of None \<Rightarrow> [] | Some l \<Rightarrow> l))"

section \<open>Packets and timers\<close>

text \<open>\<open>j1\<close> and \<open>j2\<close> are the variables that are handed to \<open>getQueryId\<close> unset, \<open>sent\<close> the outcome of the response, \<open>zeroed\<close> whether
  the descriptors are copied into zeroed memory.\<close>

definition handleQueryOffer :: "ulong \<Rightarrow> ulong \<Rightarrow> ulong option \<Rightarrow> ulong \<Rightarrow> 'o AlpineQueryPacket \<Rightarrow> 'o QueryMgr \<Rightarrow>
    bool \<times> 'o QueryMgr \<times> qm_notice list" where
  "handleQueryOffer j1 j2 sent peerId offer m =
     (if \<not> qm_initialized_s m then (False, m, [])
      else case q_getQueryId j1 offer of (status, queryId, offer1) \<Rightarrow>
        case qm_active_s m queryId of
          None \<Rightarrow> (False, m, [Results (BadPacket peerId)])
        | Some st \<Rightarrow>
            (case processQueryOffer j2 peerId offer1 AlpineQueryPacket_new (qs_results st) of (ok, offer2, response, r, ns) \<Rightarrow>
              let st1 = st\<lparr>qs_results := r\<rparr>; m1 = m\<lparr>qm_active_s := (qm_active_s m)(queryId \<mapsto> st1)\<rparr> in
              if \<not> ok then (False, m1, map Results ns @ [Results (BadPacket peerId)])
              else case sent of
                  None \<Rightarrow> (False, m1, map Results ns)
                | Some requestId \<Rightarrow>
                    let pending = (case qs_pending st1 of None \<Rightarrow> Map.empty | Some p \<Rightarrow> p);
                        st2 = st1\<lparr>qs_pending := Some (emplace peerId requestId pending)\<rparr>
                    in (True, m\<lparr>qm_active_s := (qm_active_s m)(queryId \<mapsto> st2)\<rparr>, map Results ns)))"

definition handleQueryReply :: "bool \<Rightarrow> (byte list \<Rightarrow> ulong) \<Rightarrow> (ulong \<Rightarrow> ulong) \<Rightarrow> ulong \<Rightarrow> ulong \<Rightarrow> ulong option \<Rightarrow> ulong \<Rightarrow> 'o AlpineQueryPacket \<Rightarrow>
    'o QueryMgr \<Rightarrow> (bool \<times> 'o QueryMgr \<times> qm_notice list) option" where
  "handleQueryReply zeroed hs hu j1 j2 sent peerId reply m =
     (if \<not> qm_initialized_s m then Some (False, m, [])
      else case q_getQueryId j1 reply of (status, queryId, reply1) \<Rightarrow>
        case qm_active_s m queryId of
          None \<Rightarrow> Some (False, m, [Results (BadPacket peerId)])
        | Some st \<Rightarrow> do {
            (ok, reply2, response, r, ns) \<leftarrow> processQueryReply zeroed hs hu j2 peerId reply1 AlpineQueryPacket_new (qs_results st);
            let st1 = st\<lparr>qs_results := r\<rparr>;
            if \<not> ok then Some (False, m\<lparr>qm_active_s := (qm_active_s m)(queryId \<mapsto> st1)\<rparr>, map Results ns @ [Results (BadPacket peerId)])
            else do {
              pending \<leftarrow> qs_pending st1;
              let acks = (case pending peerId of None \<Rightarrow> [] | Some requestId \<Rightarrow> [Acknowledged peerId requestId]);
              let pending1 = pending(peerId := None);
              case sent of
                None \<Rightarrow> Some (False, m\<lparr>qm_active_s := (qm_active_s m)(queryId \<mapsto> st1\<lparr>qs_pending := Some pending1\<rparr>)\<rparr>, map Results ns @ acks)
              | Some requestId \<Rightarrow>
                  let st2 = st1\<lparr>qs_pending := Some (emplace peerId requestId pending1)\<rparr>;
                      called = (case qs_onResultCallback st2 of None \<Rightarrow> [] | Some c \<Rightarrow> [CalledBack c queryId peerId])
                  in Some (True, m\<lparr>qm_active_s := (qm_active_s m)(queryId \<mapsto> st2)\<rparr>, map Results ns @ acks @ called) } })"

text \<open>Handlers without a body beyond the check.\<close>

definition handleQueryDiscover :: "ulong \<Rightarrow> 'o AlpineQueryPacket \<Rightarrow> 'o QueryMgr \<Rightarrow> bool \<times> 'o QueryMgr" where
  "handleQueryDiscover peerId discoverPacket m = (qm_initialized_s m, m)"

definition handleQueryRequest :: "ulong \<Rightarrow> 'o AlpineQueryPacket \<Rightarrow> 'o QueryMgr \<Rightarrow> bool \<times> 'o QueryMgr" where
  "handleQueryRequest peerId requestPacket m = (qm_initialized_s m, m)"

fun remove_pending :: "ulong \<Rightarrow> ulong list \<Rightarrow> (ulong \<rightharpoonup> 'o t_QueryState) \<Rightarrow> bool \<times> (ulong \<rightharpoonup> 'o t_QueryState)" where
  "remove_pending peerId [] act = (True, act)"
| "remove_pending peerId (i # is) act = (case act i of
       None \<Rightarrow> (False, act)
     | Some st \<Rightarrow> (case qs_pending st of
           None \<Rightarrow> remove_pending peerId is act
         | Some p \<Rightarrow> if p peerId \<noteq> None then (True, act(i \<mapsto> st\<lparr>qs_pending := Some (p(peerId := None))\<rparr>))
             else remove_pending peerId is act))"

definition removePendingRequest :: "ulong \<Rightarrow> ulong \<Rightarrow> 'o QueryMgr \<Rightarrow> bool \<times> 'o QueryMgr" where
  "removePendingRequest peerId requestId m = (case qm_activePeer_s m peerId of
       None \<Rightarrow> (True, m)
     | Some l \<Rightarrow> (case remove_pending peerId l (qm_active_s m) of (status, act) \<Rightarrow> (status, m\<lparr>qm_active_s := act\<rparr>)))"

definition qm_handleSendReceived :: "ulong \<Rightarrow> ulong \<Rightarrow> 'o QueryMgr \<Rightarrow> bool \<times> 'o QueryMgr" where
  "qm_handleSendReceived peerId requestId m = (if \<not> qm_initialized_s m then (False, m) else removePendingRequest peerId requestId m)"

definition qm_handleSendFailure :: "ulong \<Rightarrow> ulong \<Rightarrow> 'o QueryMgr \<Rightarrow> bool \<times> 'o QueryMgr \<times> qm_notice list" where
  "qm_handleSendFailure peerId requestId m = (if \<not> qm_initialized_s m then (False, m, [])
     else case removePendingRequest peerId requestId m of (status, m1) \<Rightarrow> (status, m1, [TransferFailed peerId]))"

fun cancel_list :: "ulong list \<Rightarrow> 'o QueryMgr \<Rightarrow> 'o QueryMgr option" where
  "cancel_list [] m = Some m"
| "cancel_list (i # is) m = do { (st, m1) \<leftarrow> cancelQuery i m; cancel_list is m1 }"

definition qm_cancelAll :: "((ulong \<rightharpoonup> 'o t_QueryState) \<Rightarrow> ulong list) \<Rightarrow> ulong \<Rightarrow> 'o QueryMgr \<Rightarrow> (bool \<times> 'o QueryMgr) option" where
  "qm_cancelAll order peerId m = (if \<not> qm_initialized_s m then Some (False, m)
     else case getAllActiveQueryIds order [] m of (status, ids) \<Rightarrow>
       if \<not> status then Some (False, m) else do { m1 \<leftarrow> cancel_list ids m; Some (True, m1) })"

text \<open>The finished queries, those of higher priority first.\<close>

definition qm_processTimedEvents :: "((ulong \<rightharpoonup> 'o t_QueryState) \<Rightarrow> ulong list) \<Rightarrow> 'o QueryMgr \<Rightarrow> ulong list" where
  "qm_processTimedEvents order m = (if \<not> qm_initialized_s m then []
     else filter (\<lambda>i. case qm_active_s m i of None \<Rightarrow> False | Some st \<Rightarrow> (case qs_query st of None \<Rightarrow> False | Some q \<Rightarrow> \<not> aq_inProgress q))
       (sort_key (\<lambda>i. case qm_active_s m i of None \<Rightarrow> 0 | Some st \<Rightarrow> - int (unat (qs_priority st))) (order (qm_active_s m))))"

definition qm_cleanUp :: "'o QueryMgr \<Rightarrow> 'o QueryMgr" where
  "qm_cleanUp m = (if \<not> qm_initialized_s m then m
     else m\<lparr>qm_active_s := Map.empty, qm_past_s := Map.empty, qm_activePeer_s := Map.empty, qm_pastPeer_s := Map.empty, qm_initialized_s := False\<rparr>)"

section \<open>The life of a query\<close>

datatype 'o qm_call = QmInit ulong | QmCreate GroupMgr bool "'o AlpineQueryOptions" | QmPause ulong | QmResume ulong | QmCancel ulong
  | QmCallback ulong nat | QmOffer ulong ulong "ulong option" ulong "'o AlpineQueryPacket"
  | QmReply ulong ulong "ulong option" ulong "'o AlpineQueryPacket" | QmSendReceived ulong ulong | QmSendFailure ulong ulong
  
  | QmCancelAll "(ulong \<rightharpoonup> 'o t_QueryState) \<Rightarrow> ulong list" ulong | QmCleanUp

fun qm_do :: "bool \<Rightarrow> (byte list \<Rightarrow> ulong) \<Rightarrow> (ulong \<Rightarrow> ulong) \<Rightarrow> 'o qm_call \<Rightarrow> 'o QueryMgr \<Rightarrow> 'o QueryMgr option" where
  "qm_do zeroed hs hu (QmInit n) m = Some (snd (qm_initialize n m))"
| "qm_do zeroed hs hu (QmCreate groups sent opts) m = map_option (\<lambda>(st, i, m'). m') (createQuery groups sent opts m)"
| "qm_do zeroed hs hu (QmPause i) m = map_option snd (pauseQuery i m)"
| "qm_do zeroed hs hu (QmResume i) m = map_option snd (resumeQuery i m)"
| "qm_do zeroed hs hu (QmCancel i) m = map_option snd (cancelQuery i m)"
| "qm_do zeroed hs hu (QmCallback i c) m = Some (snd (registerResultCallback i c m))"
| "qm_do zeroed hs hu (QmOffer j1 j2 sent p offer) m = Some (fst (snd (handleQueryOffer j1 j2 sent p offer m)))"
| "qm_do zeroed hs hu (QmReply j1 j2 sent p reply) m = map_option (\<lambda>(st, m', ns). m') (handleQueryReply zeroed hs hu j1 j2 sent p reply m)"
| "qm_do zeroed hs hu (QmSendReceived p i) m = Some (snd (qm_handleSendReceived p i m))"
| "qm_do zeroed hs hu (QmSendFailure p i) m = Some (fst (snd (qm_handleSendFailure p i m)))"
| "qm_do zeroed hs hu (QmCancelAll order p) m = map_option snd (qm_cancelAll order p m)"
| "qm_do zeroed hs hu QmCleanUp m = Some (qm_cleanUp m)"

text \<open>The abstract state: the number of calls, whether the manager runs, the next id, and which queries are active
  (true) or past (false).\<close>

type_synonym query_life = "nat \<times> bool \<times> ulong \<times> (ulong \<rightharpoonup> bool)"

fun qm_spec :: "'o qm_call \<Rightarrow> query_life \<Rightarrow> query_life" where
  "qm_spec (QmInit k) (n, run, i, L) = (Suc n, True, i, if run then L else Map.empty)"
| "qm_spec (QmCreate groups sent opts) (n, run, i, L) =
     (if run then (Suc n, True, i + 1, if sent then L(i \<mapsto> True) else L) else (Suc n, run, i, L))"
| "qm_spec (QmCancel k) (n, run, i, L) = (Suc n, run, i, if L k = Some True then L(k \<mapsto> False) else L)"
| "qm_spec QmCleanUp (n, run, i, L) = (Suc n, False, i, Map.empty)"
| "qm_spec c (n, a) = (Suc n, a)"

definition active_ok :: "ulong \<Rightarrow> 'o t_QueryState \<Rightarrow> bool" where
  "active_ok i st \<longleftrightarrow> qs_queryId st = i \<and> (\<exists>q. qs_query st = Some q \<and> aq_packets q) \<and> qr_inv (qs_results st)"

definition qm_core :: "bool \<Rightarrow> ulong \<Rightarrow> (ulong \<rightharpoonup> bool) \<Rightarrow> 'o QueryMgr \<Rightarrow> bool" where
  "qm_core run i L m \<longleftrightarrow> qm_initialized_s m = run \<and> qm_currQueryId_s m = i \<and> (\<forall>k\<in>dom L. k < i) \<and> (run \<or> L = Map.empty) \<and>
     qm_activePeer_s m = Map.empty \<and> qm_pastPeer_s m = Map.empty \<and>
     (\<forall>k. (qm_active_s m k \<noteq> None) = (L k = Some True)) \<and> (\<forall>k. (qm_past_s m k \<noteq> None) = (L k = Some False)) \<and>
     (\<forall>k st. qm_active_s m k = Some st \<longrightarrow> active_ok k st)"

fun qm_rep :: "query_life \<Rightarrow> 'o QueryMgr \<Rightarrow> bool" where
  "qm_rep (n, run, i, L) m \<longleftrightarrow> (n < 2 ^ 64 \<longrightarrow> unat i \<le> n \<and> qm_core run i L m)"

lemma core_update:
  assumes "qm_core run i L m" "qm_active_s m k = Some st" "active_ok k st'"
  shows "qm_core run i L (m\<lparr>qm_active_s := (qm_active_s m)(k \<mapsto> st')\<rparr>)"
proof -
  have "L k = Some True" using assms(1,2) unfolding qm_core_def by (metis option.distinct(1))
  with assms show ?thesis by (auto simp: qm_core_def)
qed

lemma start_cases:
  assumes "startQuery groups sent q = Some (st, q1)" "\<not> aq_queryActive_m q" "aq_packets q1" "aq_packets q \<longrightarrow> aq_group_m q \<noteq> None"
  shows "st = sent \<and> aq_packets q"
proof (cases "aq_group_m q")
  case None
  then show ?thesis using assms by (auto simp: startQuery_def)
next
  case (Some a)
  then obtain g where "gm_heap groups a = Some g" using assms(1,2) by (auto simp: startQuery_def split: Option.bind_splits)
  with Some assms show ?thesis by (auto simp: startQuery_def createPeerList_def queryStart_def split: if_splits)
qed

lemma create_outcome:
  assumes "createQuery groups sent opts m = Some (st, i, m')" "qm_initialized_s m"
  shows "st = sent \<and> i = qm_currQueryId_s m \<and> (\<exists>q1. aq_packets q1 \<and> m' = (let m1 = m\<lparr>qm_currQueryId_s := qm_currQueryId_s m + 1\<rparr> in
    if sent then m1\<lparr>qm_active_s := emplace (qm_currQueryId_s m) \<lparr>qs_queryId = qm_currQueryId_s m, qs_priority = qo_priority_m opts, qs_query = Some q1,
        qs_results = QueryResults_new (qm_currQueryId_s m) opts, qs_pending = None, qs_onResultCallback = None\<rparr> (qm_active_s m)\<rparr> else m1))"
proof -
  define q where "q = AlpineQuery_new groups opts"
  have q: "\<not> aq_queryActive_m q" "aq_packets q \<longrightarrow> aq_group_m q \<noteq> None" by (auto simp: q_def AlpineQuery_new_def split: option.splits)
  obtain started q1 where s: "startQuery groups sent q = Some (started, q1)"
    using assms by (auto simp: createQuery_def aq_getPeerIdList_def q_def Let_def split: Option.bind_splits)
  have "aq_packets q1"
  proof (cases started)
    case True
    then show ?thesis using s by (auto simp: startQuery_def createPeerList_def queryStart_def split: if_splits option.splits Option.bind_splits)
  next
    case False
    then show ?thesis using assms s
      by (cases "aq_packets q1") (simp_all add: createQuery_def aq_getPeerIdList_def aq_destroy_def q_def [symmetric] Let_def)
  qed
  moreover from start_cases [OF s q(1) this q(2)] have "started = sent" by simp
  ultimately show ?thesis using assms s
    by (cases sent) (simp_all add: createQuery_def aq_getPeerIdList_def aq_destroy_def q_def [symmetric] Let_def, blast+)
qed

lemma core_create:
  assumes "qm_core True i L m" "createQuery groups sent opts m = Some (st, i', m')" "i \<noteq> - 1"
  shows "qm_core True (i + 1) (if sent then L(i \<mapsto> True) else L) m' \<and> st = sent \<and> i' = i \<and> L i = None"
proof -
  have m: "qm_initialized_s m" "qm_currQueryId_s m = i" using assms(1) by (simp_all add: qm_core_def)
  have i: "L i = None" "i < i + 1" using assms(1) next_id(1) [OF assms(3)] by (auto simp: qm_core_def)
  have "(qm_active_s m i \<noteq> None) = (L i = Some True)" "(qm_past_s m i \<noteq> None) = (L i = Some False)"
    using assms(1) unfolding qm_core_def by blast+
  with i(1) have none: "qm_active_s m i = None" "qm_past_s m i = None" by simp_all
  have emp: "emplace i x (qm_active_s m) = (qm_active_s m)(i \<mapsto> x)" for x using none(1) by (simp add: emplace_def)
  from create_outcome [OF assms(2) m(1), unfolded m(2) emp] obtain q1 where q1: "aq_packets q1" and m': "m' = (let m1 = m\<lparr>qm_currQueryId_s := i + 1\<rparr> in
    if sent then m1\<lparr>qm_active_s := (qm_active_s m)(i \<mapsto> \<lparr>qs_queryId = i, qs_priority = qo_priority_m opts, qs_query = Some q1,
        qs_results = QueryResults_new i opts, qs_pending = None, qs_onResultCallback = None\<rparr>)\<rparr> else m1)"
    by blast
  have "k < i + 1" if "k \<in> dom L" for k using assms(1) that i(2) by (auto simp: qm_core_def intro: less_trans)
  with assms(1) q1 i none have "qm_core True (i + 1) (if sent then L(i \<mapsto> True) else L) m'"
    unfolding m' qm_core_def by (cases sent) (auto simp: active_ok_def qr_inv_new)
  with create_outcome [OF assms(2) m(1)] m(2) i(1) show ?thesis by simp
qed

lemma core_cancel:
  assumes "qm_core run i L m"
  shows "\<exists>st m'. cancelQuery k m = Some (st, m') \<and> qm_core run i (if L k = Some True then L(k \<mapsto> False) else L) m'"
proof (cases "qm_active_s m k")
  case None
  then have "L k \<noteq> Some True" using assms unfolding qm_core_def by blast
  with None assms show ?thesis by (simp add: cancelQuery_def)
next
  case (Some st)
  then have k: "L k = Some True" and act: "active_ok k st" using assms unfolding qm_core_def by (blast, blast)
  have "(qm_past_s m k \<noteq> None) = (L k = Some False)" using assms unfolding qm_core_def by blast
  then have past: "qm_past_s m k = None" using k by simp
  obtain q where q: "qs_query st = Some q" "aq_packets q" using act by (auto simp: active_ok_def)
  have run: "run" using assms k by (auto simp: qm_core_def)
  have init: "qm_initialized_s m" using assms run by (simp add: qm_core_def)
  have c: "cancelQuery k m = Some (True, m\<lparr>qm_active_s := (qm_active_s m)(k := None), qm_past_s := (qm_past_s m)(k \<mapsto> st\<lparr>qs_query := None\<rparr>)\<rparr>)"
    using Some q init past by (simp add: cancelQuery_def aq_cancel_def aq_getPeerIdList_def aq_destroy_def emplace_def)
  have "dom (L(k \<mapsto> False)) = dom L" using k by auto
  with assms k run c show ?thesis by (auto simp: qm_core_def)
qed

lemma core_offer:
  assumes "qm_core run i L m"
  shows "qm_core run i L (fst (snd (handleQueryOffer j1 j2 sent p offer m)))"
proof (cases "qm_initialized_s m \<and> qm_active_s m j1 \<noteq> None")
  case True
  then obtain st where st: "qm_active_s m j1 = Some st" by auto
  have ok: "active_ok j1 st" using assms st by (auto simp: qm_core_def)
  obtain st' where st': "fst (snd (handleQueryOffer j1 j2 sent p offer m)) = m\<lparr>qm_active_s := (qm_active_s m)(j1 \<mapsto> st')\<rparr>" "active_ok j1 st'"
  proof -
    obtain a b c r ns where p: "processQueryOffer j2 p (offer\<lparr>q_queryId_m := j1\<rparr>) AlpineQueryPacket_new (qs_results st) = (a, b, c, r, ns)"
      by (cases "processQueryOffer j2 p (offer\<lparr>q_queryId_m := j1\<rparr>) AlpineQueryPacket_new (qs_results st)") auto
    have "qr_inv r" using ok offer_inv [OF _ p] by (simp add: active_ok_def)
    then have "active_ok j1 (st\<lparr>qs_results := r\<rparr>)" "active_ok j1 (st\<lparr>qs_results := r, qs_pending := x\<rparr>)" for x
      using ok by (auto simp: active_ok_def)
    then show ?thesis using that True st p by (cases a; cases sent) (auto simp: handleQueryOffer_def q_getQueryId_def Let_def)
  qed
  then show ?thesis using core_update [OF assms st] by simp
qed (use assms in \<open>auto simp: handleQueryOffer_def q_getQueryId_def\<close>)

lemma handle_zeroed: "handleQueryReply z hs hu j1 j2 sent p reply m = Some x \<Longrightarrow> handleQueryReply True hs hu j1 j2 sent p reply m = Some x"
  by (auto simp: handleQueryReply_def dest: reply_zeroed split: option.splits Option.bind_splits if_splits prod.splits)

lemma core_reply:
  assumes "qm_core run i L m" "handleQueryReply z hs hu j1 j2 sent p reply m = Some (ok, m', ns)"
  shows "qm_core run i L m'"
proof (cases "qm_initialized_s m \<and> qm_active_s m j1 \<noteq> None")
  case True
  then obtain st where st: "qm_active_s m j1 = Some st" by auto
  have act: "active_ok j1 st" using assms(1) st by (auto simp: qm_core_def)
  obtain a b c r ns' where p: "processQueryReply True hs hu j2 p (reply\<lparr>q_queryId_m := j1\<rparr>) AlpineQueryPacket_new (qs_results st) = Some (a, b, c, r, ns')" "qr_inv r"
    using reply_inv [of "qs_results st"] act by (fastforce simp: active_ok_def)
  then have "active_ok j1 (st\<lparr>qs_results := r\<rparr>)" "active_ok j1 (st\<lparr>qs_results := r, qs_pending := x\<rparr>)" for x
    using act by (auto simp: active_ok_def)
  moreover have "\<exists>st'. m' = m\<lparr>qm_active_s := (qm_active_s m)(j1 \<mapsto> st')\<rparr> \<and> (st' = st\<lparr>qs_results := r\<rparr> \<or> (\<exists>x. st' = st\<lparr>qs_results := r, qs_pending := x\<rparr>))"
    using handle_zeroed [OF assms(2)] True st p(1) by (cases a; cases sent) (auto simp: handleQueryReply_def q_getQueryId_def Let_def split: Option.bind_splits)
  ultimately show ?thesis using core_update [OF assms(1) st] by auto
qed (use assms in \<open>auto simp: handleQueryReply_def q_getQueryId_def split: if_splits\<close>)

lemma core_other:
  assumes "qm_core run i L m"
  shows "qm_core run i L (snd (registerResultCallback k c m))" "snd (qm_handleSendReceived p t m) = m" "fst (snd (qm_handleSendFailure p t m)) = m"
    "qm_cancelAll order p m = Some (run, m)" "pauseQuery k m = Some (st, m') \<Longrightarrow> m' = m" "resumeQuery k m = Some (st, m') \<Longrightarrow> m' = m"
proof -
  show "qm_core run i L (snd (registerResultCallback k c m))"
  proof (cases "qm_initialized_s m \<and> qm_active_s m k \<noteq> None")
    case True
    then obtain st where st: "qm_active_s m k = Some st" by auto
    have "active_ok k (st\<lparr>qs_onResultCallback := Some c\<rparr>)" using assms st by (auto simp: qm_core_def active_ok_def)
    from core_update [OF assms st this] True st show ?thesis by (simp add: registerResultCallback_def)
  qed (use assms in \<open>auto simp: registerResultCallback_def\<close>)
  show "snd (qm_handleSendReceived p t m) = m" "fst (snd (qm_handleSendFailure p t m)) = m"
    using assms by (auto simp: qm_handleSendReceived_def qm_handleSendFailure_def removePendingRequest_def qm_core_def)
  show "qm_cancelAll order p m = Some (run, m)" using assms by (auto simp: qm_cancelAll_def getAllActiveQueryIds_def Let_def qm_core_def)
  show "pauseQuery k m = Some (st, m') \<Longrightarrow> m' = m"
    by (auto simp: pauseQuery_def aq_halt_def split: if_splits option.splits Option.bind_splits) (simp add: fun_upd_idem)
  show "resumeQuery k m = Some (st, m') \<Longrightarrow> m' = m"
    by (auto simp: resumeQuery_def aq_resume_def split: if_splits option.splits Option.bind_splits) (simp add: fun_upd_idem)
qed

lemma qm_step:
  assumes "qm_rep a m" "qm_do z hs hu c m = Some m'"
  shows "qm_rep (qm_spec c a) m'"
proof -
  obtain n run i L where a: "a = (n, run, i, L)" by (cases a) auto
  show ?thesis
  proof (cases "Suc n < 2 ^ 64")
    case False
    then show ?thesis by (cases c) (auto simp: a)
  next
    case True
    then have i: "unat i \<le> n" "qm_core run i L m" using assms(1) by (auto simp: a)
    have "unat (- 1 :: ulong) = 2 ^ 64 - 1" by (simp add: unsigned_minus_1_eq_mask mask_eq_exp_minus_1)
    then have ne: "i \<noteq> - 1" using i(1) True by auto
    have suc: "unat (i + 1) \<le> Suc n" using next_id(2) [OF ne] i(1) by simp
    have rest: "qm_rep (Suc n, run, i, L) m'" if "qm_core run i L m'" using that i(1) by simp
    show ?thesis
    proof (cases c)
      case (QmCreate groups sent opts)
      show ?thesis
      proof (cases run)
        case True
        have "qm_core True i L m" using i(2) True by simp
        moreover obtain st i' where "createQuery groups sent opts m = Some (st, i', m')" using assms(2) QmCreate by auto
        ultimately have "qm_core True (i + 1) (if sent then L(i \<mapsto> True) else L) m'" using core_create [OF _ _ ne] by blast
        with suc True show ?thesis by (cases sent) (simp_all add: a QmCreate)
      next
        case False
        then have "m' = m" using assms(2) i(2) by (auto simp: QmCreate createQuery_def qm_core_def)
        with False rest i(2) show ?thesis by (simp add: a QmCreate)
      qed
    next
      case (QmCancel k)
      with core_cancel [OF i(2), of k] assms(2) i(1) show ?thesis by (auto simp: a)
    next
      case (QmInit k)
      have "qm_core True i (if run then L else Map.empty) m'" using assms(2) i(2)
        by (cases run) (auto simp: QmInit qm_initialize_def qm_core_def)
      with i(1) show ?thesis by (simp add: a QmInit)
    next
      case QmCleanUp
      have "qm_core False i Map.empty m'" using assms(2) i(2) by (cases run) (auto simp: QmCleanUp qm_cleanUp_def qm_core_def)
      with i(1) show ?thesis by (simp add: a QmCleanUp)
    next
      case (QmReply j1 j2 sent p reply)
      with assms(2) obtain st ns where "handleQueryReply z hs hu j1 j2 sent p reply m = Some (st, m', ns)" by auto
      with rest core_reply [OF i(2)] QmReply show ?thesis by (simp add: a)
    next
      case (QmPause k)
      with assms(2) obtain st where "pauseQuery k m = Some (st, m')" by auto
      with rest core_other(5) [OF i(2)] i(2) QmPause show ?thesis by (auto simp: a)
    next
      case (QmResume k)
      with assms(2) obtain st where "resumeQuery k m = Some (st, m')" by auto
      with rest core_other(6) [OF i(2)] i(2) QmResume show ?thesis by (auto simp: a)
    qed (use assms(2) i(2) rest core_other(1-4) [OF i(2)] core_offer [OF i(2)] in \<open>auto simp add: a simp del: qm_rep.simps\<close>)
  qed
qed

interpretation qm: simulation "qm_do z hs hu" qm_spec qm_rep
  by unfold_locales (rule qm_step)

lemma qm_rep_static: "qm_rep (0, False, 0, Map.empty) QueryMgr_static"
  by (simp add: qm_core_def QueryMgr_static_def)

lemma qm_calls: "fst (fold qm_spec cs a) = fst a + length cs"
proof (induction cs arbitrary: a)
  case (Cons c cs)
  obtain n run i L where a: "a = (n, run, i, L)" by (cases a) auto
  have "fst (qm_spec c a) = Suc (fst a)" by (cases c) (simp_all add: a)
  with Cons show ?case by simp
qed simp

text \<open>What the manager keeps along any calls.\<close>

lemma qm_reached:
  assumes "run_calls (qm_do z hs hu) cs QueryMgr_static = Some m" "length cs < 2 ^ 64" "snd (fold qm_spec cs (0, False, 0, Map.empty)) = (run, i, L)"
  shows "qm_core run i L m"
proof -
  have "qm_rep (fold qm_spec cs (0, False, 0, Map.empty)) m" by (rule qm.run_sim [OF qm_rep_static assms(1)])
  moreover obtain n where "fold qm_spec cs (0, False, 0, Map.empty) = (n, run, i, L)" using assms(3) by (metis prod.collapse)
  moreover from this have "n < 2 ^ 64" using qm_calls [of cs "(0, False, 0, Map.empty)"] assms(2) by simp
  ultimately show ?thesis by simp
qed

lemma core_lookup:
  assumes "qm_core run i L m"
  shows "qm_exists k m = (L k \<noteq> None)" "isActive k m = (L k = Some True)" "(getQueryResults k m \<noteq> None) = (L k = Some True)"
    "getQueryStatus k s m = (L k \<noteq> None, if L k = Some False then (100, False) else s)"
proof -
  have *: "(qm_active_s m k \<noteq> None) = (L k = Some True)" "(qm_past_s m k \<noteq> None) = (L k = Some False)" "qm_initialized_s m = run"
    and run: "run \<or> L = Map.empty" and ok: "qm_active_s m k = Some st \<Longrightarrow> active_ok k st" for st
    using assms unfolding qm_core_def by blast+
  show "qm_exists k m = (L k \<noteq> None)" "isActive k m = (L k = Some True)" "(getQueryResults k m \<noteq> None) = (L k = Some True)"
    using * run by (auto simp: qm_exists_def isActive_def getQueryResults_def)
  show "getQueryStatus k s m = (L k \<noteq> None, if L k = Some False then (100, False) else s)"
  proof (cases "qm_active_s m k")
    case None
    then show ?thesis using * run by (cases "L k"; cases "qm_past_s m k") (auto simp: getQueryStatus_def)
  next
    case (Some st)
    with ok [OF Some] * run show ?thesis by (auto simp: getQueryStatus_def aq_getStatus_def active_ok_def)
  qed
qed

text \<open>A reply is accepted that continues where the last one stopped; it faults where no request is on record.\<close>

definition reply_fits :: "ulong \<Rightarrow> ulong \<Rightarrow> 'o AlpineQueryPacket \<Rightarrow> 'o QueryResults \<Rightarrow> bool" where
  "reply_fits j p reply r = (q_packetType_m reply = queryReply \<and> j = qr_queryId_m r \<and> q_getResourceDescList reply \<noteq> None \<and>
     (case qr_replyIndex_m r p of None \<Rightarrow> False
      | Some st \<Rightarrow> q_getOffset reply = of_nat (ds_currOffset_m (st_resourceDescSet st))))"

lemma reply_fits_iff:
  assumes "qr_inv r" "processQueryReply True hs hu j p reply req r = Some (ok, x)"
  shows "ok \<longleftrightarrow> reply_fits j p reply r"
proof
  assume "reply_fits j p reply r"
  then obtain st ds where r: "q_packetType_m reply = queryReply" "j = qr_queryId_m r" "qr_replyIndex_m r p = Some st"
      "q_getOffset reply = of_nat (ds_currOffset_m (st_resourceDescSet st))" "q_getResourceDescList reply = Some ds"
    by (auto simp: reply_fits_def split: option.splits)
  obtain ls where ls: "ds_rep True ls (st_resourceDescSet st)" using assms(1) r(3) by (auto simp: qr_inv_def)
  have "q_getOffset reply = of_nat (length ls)" using r(4) ls by (simp add: ds_rep_def)
  from reply_accepted [OF r(1,2,3) ls this r(5), of hs hu req] assms(2) show ok by auto
next
  assume ok
  with assms(2) show "reply_fits j p reply r"
    by (cases "qr_replyIndex_m r p")
      (auto simp: reply_fits_def processQueryReply_def verifyQueryReply_def addResourceDataPacket_def q_getQueryId_def q_getOffset_def
        q_getResourceDescList_def Let_def split: if_splits prod.splits Option.bind_splits option.splits)
qed

lemma createQuery_default:
  assumes "groups = snd (gm_initialize GroupMgr_static)" "qo_group_m opts = ''default''" "qm_initialized_s m"
  shows "\<exists>m'. createQuery groups sent opts m = Some (sent, qm_currQueryId_s m, m')"
proof -
  have "locateGroup_name ''default'' groups = Some 0" "\<exists>g. gm_heap groups 0 = Some g"
    by (auto simp: assms(1) gm_initialize_def GroupMgr_static_def enter_group_def locateGroup_name_def emplace_def Let_def)
  then show ?thesis using assms(2,3)
    by (auto simp: createQuery_def AlpineQuery_new_def aq_getPeerIdList_def startQuery_def createPeerList_def queryStart_def aq_destroy_def Let_def)
qed

text \<open>A manager with one query for the default group.\<close>

lemma created_default:
  obtains m st where "run_calls (qm_do z hs hu) [QmInit 4, QmCreate (snd (gm_initialize GroupMgr_static)) True (AlpineQueryOptions_new :: 'o AlpineQueryOptions)] QueryMgr_static = Some m"
    "qm_initialized_s m" "qm_active_s m 0 = Some st" "qs_pending st = None" "qs_results st = QueryResults_new 0 AlpineQueryOptions_new"
proof -
  let ?m = "snd (qm_initialize 4 (QueryMgr_static :: 'o QueryMgr))"
  have d: "qo_group_m (AlpineQueryOptions_new :: 'o AlpineQueryOptions) = ''default''" "qm_initialized_s ?m"
    by (simp_all add: AlpineQueryOptions_new_def qm_initialize_def QueryMgr_static_def)
  from createQuery_default [OF refl d, of True] obtain m1 where
    m1: "createQuery (snd (gm_initialize GroupMgr_static)) True AlpineQueryOptions_new ?m = Some (True, qm_currQueryId_s ?m, m1)" by blast
  from create_outcome [OF m1 d(2)] m1 that show ?thesis
    by (auto simp: qm_initialize_def QueryMgr_static_def emplace_def)
qed

section \<open>Properties\<close>

text \<open>C29: after any calls that do not fault, in memory that is zeroed or not, fewer than \<open>2 ^ 64\<close>, the manager knows the queries that were
  created and sent, each by an id that no other had; it is active with its results until it is cancelled and then
  past, complete to 100 percent, until the manager is cleaned up, whatever offers, replies, receipts and failures of
  sends, pauses and callbacks come in between; the results of an active query keep their invariant.\<close>

theorem query_lifecycle:
  fixes cs :: "'o qm_call list"
  assumes "run_calls (qm_do z hs hu) cs QueryMgr_static = Some m" "length cs < 2 ^ 64"
    and "snd (fold qm_spec cs (0, False, 0, Map.empty)) = (run, i, L)"
  shows "qm_exists k m = (L k \<noteq> None) \<and> isActive k m = (L k = Some True) \<and>
    getQueryStatus k s m = (L k \<noteq> None, if L k = Some False then (100, False) else s) \<and>
    (case getQueryResults k m of None \<Rightarrow> L k \<noteq> Some True | Some r \<Rightarrow> L k = Some True \<and> qr_inv r) \<and>
    (case createQuery groups sent opts m of None \<Rightarrow> True
     | Some (st, j, m') \<Rightarrow> run \<and> i \<noteq> - 1 \<longrightarrow> st = sent \<and> j = i \<and> L j = None \<and> isActive j m' = sent)"
proof -
  have core: "qm_core run i L m" by (rule qm_reached [OF assms])
  have "case getQueryResults k m of None \<Rightarrow> L k \<noteq> Some True | Some r \<Rightarrow> L k = Some True \<and> qr_inv r"
    using core_lookup(3) [OF core, of k] core
    by (cases "getQueryResults k m") (auto simp: getQueryResults_def qm_core_def active_ok_def split: if_splits)
  moreover have "st = sent \<and> j = i \<and> L j = None \<and> isActive j m' = sent"
    if c: "createQuery groups sent opts m = Some (st, j, m')" "run" "i \<noteq> - 1" for st j m'
  proof -
    have "qm_core True i L m" using core c(2) by simp
    from core_create [OF this c(1,3)] have *: "qm_core True (i + 1) (if sent then L(i \<mapsto> True) else L) m'" "st = sent" "j = i" "L i = None" by simp_all
    with core_lookup(2) [OF *(1), of i] show ?thesis by (cases sent) simp_all
  qed
  ultimately show ?thesis using core_lookup [OF core, of k] by (auto split: option.splits prod.splits)
qed

theorem query_lifecycle_witness:
  "\<exists>m. run_calls (qm_do True (\<lambda>_. 0) (\<lambda>_. 0)) [QmInit 4, QmCreate (snd (gm_initialize GroupMgr_static)) True
       (AlpineQueryOptions_new :: unit AlpineQueryOptions), QmCancel 0] QueryMgr_static = Some m \<and>
     qm_exists 0 m \<and> \<not> isActive 0 m \<and> getQueryStatus 0 (7, True) m = (True, 100, False)"
proof -
  obtain m1 st0 where one: "run_calls (qm_do True (\<lambda>_. 0) (\<lambda>_. 0)) [QmInit 4, QmCreate (snd (gm_initialize GroupMgr_static)) True
       (AlpineQueryOptions_new :: unit AlpineQueryOptions)] QueryMgr_static = Some m1" by (rule created_default)
  have "qm_core True 1 [0 \<mapsto> True] m1" by (rule qm_reached [OF one]) (simp_all)
  from core_cancel [OF this, of 0] obtain st m2 where m2: "cancelQuery 0 m1 = Some (st, m2)" by blast
  have two: "run_calls (qm_do True (\<lambda>_. 0) (\<lambda>_. 0)) [QmInit 4, QmCreate (snd (gm_initialize GroupMgr_static)) True
       (AlpineQueryOptions_new :: unit AlpineQueryOptions), QmCancel 0] QueryMgr_static = Some m2"
    using one m2 by (auto split: option.splits)
  from query_lifecycle [OF two, of True 1 "[0 \<mapsto> False]" 0 "(7, True)"] two show ?thesis by auto
qed

text \<open>What the events of the manager never do. Whatever was called before, cancelling all queries of a peer cancels
  none, the timer finds no query finished, and the receipt or failure of a send leaves every query as it is, so that
  requests stay on record until the next reply of the peer.\<close>

lemma query_events_idle:
  fixes cs :: "'o qm_call list"
  assumes "run_calls (qm_do z hs hu) cs QueryMgr_static = Some m" "length cs < 2 ^ 64"
  shows "map_option snd (qm_cancelAll order p m) = Some m \<and> qm_processTimedEvents order m = [] \<and>
    snd (qm_handleSendReceived p t m) = m \<and> fst (snd (qm_handleSendFailure p t m)) = m"
proof -
  obtain run i L where a: "snd (fold qm_spec cs (0, False, 0, Map.empty)) = (run, i, L)" by (cases "snd (fold qm_spec cs (0, False, 0, Map.empty))") auto
  have "qm_processTimedEvents order m = []"
    by (auto simp: qm_processTimedEvents_def aq_inProgress_def filter_empty_conv split: option.splits)
  then show ?thesis using core_other [OF qm_reached [OF assms a]] by simp
qed

lemma query_events_idle_witness:
  "\<exists>m. run_calls (qm_do True (\<lambda>_. 0) (\<lambda>_. 0)) [QmInit 4 :: unit qm_call] QueryMgr_static = Some m \<and>
     map_option snd (qm_cancelAll (\<lambda>_. [0]) 7 m) = Some m"
proof -
  obtain m where m: "run_calls (qm_do True (\<lambda>_. 0) (\<lambda>_. 0)) [QmInit 4 :: unit qm_call] QueryMgr_static = Some m" by simp
  with query_events_idle [OF m] show ?thesis by simp
qed



end
