(* ===== verification/Json.thy ===== *)
theory Json
  imports HttpMessages Complex_Main
begin

text \<open>
  AlpineRestBridge/JsonWriter.cpp and JsonReader.cpp. The parser of the JSON library is an argument; its values are the
  datatype \<open>json\<close>, an object being its members with distinct names. Shown: what is written for a document is the text of
  that document, which decodes to it, whatever characters its strings hold; and the limits on what is read.
\<close>

section \<open>Values\<close>

datatype json = JNull | JBool bool | JUnsigned ulong | JInteger int | JFloat real | JString string
  | JArray "json list" | JObject "(string \<times> json) list"

section \<open>The writer\<close>

record JsonWriter =
  jw_buffer :: string
  jw_stack :: "(bool \<times> bool) list"
  jw_afterKey :: bool

text \<open>The innermost container is the head of the stack: whether it is an array, and whether its next element needs a
  comma.\<close>

definition JsonWriter_new :: JsonWriter where
  "JsonWriter_new = \<lparr>jw_buffer = [], jw_stack = [], jw_afterKey = False\<rparr>"

definition jw_result :: "JsonWriter \<Rightarrow> string" where
  "jw_result w = jw_buffer w"

definition jw_put :: "string \<Rightarrow> JsonWriter \<Rightarrow> JsonWriter" where
  "jw_put s w = w\<lparr>jw_buffer := jw_buffer w @ s\<rparr>"

definition appendCommaIfNeeded :: "JsonWriter \<Rightarrow> JsonWriter" where
  "appendCommaIfNeeded w = (case jw_stack w of (isArray, True) # st \<Rightarrow> jw_put '','' w | _ \<Rightarrow> w)"

definition jw_element :: "JsonWriter \<Rightarrow> JsonWriter" where
  "jw_element w = (case jw_stack w of (isArray, needsComma) # st \<Rightarrow> w\<lparr>jw_stack := (isArray, True) # st\<rparr> | [] \<Rightarrow> w)"

definition jw_lead :: "JsonWriter \<Rightarrow> JsonWriter" where
  "jw_lead w = (if \<not> jw_afterKey w then appendCommaIfNeeded w else w)\<lparr>jw_afterKey := False\<rparr>"

definition beginObject :: "JsonWriter \<Rightarrow> JsonWriter" where
  "beginObject w = (let w1 = jw_put ''{'' (jw_lead w) in w1\<lparr>jw_stack := (False, False) # jw_stack w1\<rparr>)"

definition endObject :: "JsonWriter \<Rightarrow> JsonWriter" where
  "endObject w = jw_element (jw_put ''}'' (w\<lparr>jw_stack := tl (jw_stack w)\<rparr>))"

definition beginArray :: "JsonWriter \<Rightarrow> JsonWriter" where
  "beginArray w = (let w1 = jw_put ''['' (jw_lead w) in w1\<lparr>jw_stack := (True, False) # jw_stack w1\<rparr>)"

definition endArray :: "JsonWriter \<Rightarrow> JsonWriter" where
  "endArray w = jw_element (jw_put '']'' (w\<lparr>jw_stack := tl (jw_stack w)\<rparr>))"

definition hexDigits :: string where
  "hexDigits = ''0123456789abcdef''"

definition escapeJsonString_char :: "char \<Rightarrow> string" where
  "escapeJsonString_char c =
     (if c = CHR 0x22 then [CHR 0x5C, CHR 0x22]
      else if c = CHR 0x5C then [CHR 0x5C, CHR 0x5C]
      else if c = CHR 0x0A then [CHR 0x5C, CHR ''n'']
      else if c = CHR 0x0D then [CHR 0x5C, CHR ''r'']
      else if c = CHR 0x09 then [CHR 0x5C, CHR ''t'']
      else if c = CHR 0x08 then [CHR 0x5C, CHR ''b'']
      else if c = CHR 0x0C then [CHR 0x5C, CHR ''f'']
      else if (of_char c :: nat) < 0x20
        then [CHR 0x5C, CHR ''u'', CHR ''0'', CHR ''0'', hexDigits ! ((of_char c div 16) mod 16), hexDigits ! (of_char c mod 16)]
      else [c])"

definition escapeJsonString :: "string \<Rightarrow> string" where
  "escapeJsonString sv = concat (map escapeJsonString_char sv)"

definition jw_key :: "string \<Rightarrow> JsonWriter \<Rightarrow> JsonWriter" where
  "jw_key k w = (jw_put (quote @ escapeJsonString k @ quote @ '':'') (appendCommaIfNeeded w))\<lparr>jw_afterKey := True\<rparr>"

definition value_string :: "string \<Rightarrow> JsonWriter \<Rightarrow> JsonWriter" where
  "value_string v w = jw_element (jw_put (quote @ escapeJsonString v @ quote) (jw_lead w))"

definition value_ulong :: "ulong \<Rightarrow> JsonWriter \<Rightarrow> JsonWriter" where
  "value_ulong v w = jw_element (jw_put (show_dec (unat v)) (jw_lead w))"

definition value_bool :: "bool \<Rightarrow> JsonWriter \<Rightarrow> JsonWriter" where
  "value_bool v w = jw_element (jw_put (if v then ''true'' else ''false'') (jw_lead w))"

section \<open>The reader\<close>

definition MAX_STRING_LENGTH :: nat where "MAX_STRING_LENGTH = 4096"
definition MAX_NESTING_DEPTH :: int where "MAX_NESTING_DEPTH = 32"
definition MAX_KEYS_PER_OBJECT :: int where "MAX_KEYS_PER_OBJECT = 256"

record JsonReader =
  jr_doc_m :: json
  jr_valid_m :: bool

lemma member_size:
  "(k, b) \<in> set ms \<Longrightarrow> size b \<le> size_list (size_prod (\<lambda>x. 0) size) ms" "x \<in> set xs \<Longrightarrow> size x \<le> size_list size xs"
  by (induction ms, auto, induction xs, auto)

function checkDepthAndKeys :: "json \<Rightarrow> int \<Rightarrow> bool" where
  "checkDepthAndKeys node depth =
     (if depth > MAX_NESTING_DEPTH then False
      else case node of
          JObject ms \<Rightarrow> int (length ms) \<le> MAX_KEYS_PER_OBJECT \<and> list_all (\<lambda>m. checkDepthAndKeys (snd m) (depth + 1)) ms
        | JArray xs \<Rightarrow> list_all (\<lambda>x. checkDepthAndKeys x (depth + 1)) xs
        | _ \<Rightarrow> True)"
  by pat_completeness auto
termination
  by (relation "measure (\<lambda>(node, d). size node)") (use member_size in \<open>force simp: less_Suc_eq_le\<close>)+

declare checkDepthAndKeys.simps [simp del]

definition is_object :: "json \<Rightarrow> bool" where
  "is_object j = (case j of JObject ms \<Rightarrow> True | _ \<Rightarrow> False)"

definition json_find :: "string \<Rightarrow> json \<Rightarrow> json option" where
  "json_find k j = (case j of JObject ms \<Rightarrow> map_of ms k | _ \<Rightarrow> None)"

text \<open>\<open>parse\<close> is the parser of the library, \<open>None\<close> its exception.\<close>

definition JsonReader_new :: "(string \<Rightarrow> json option) \<Rightarrow> string \<Rightarrow> JsonReader" where
  "JsonReader_new parse text_m =
     (let fresh = \<lparr>jr_doc_m = JNull, jr_valid_m = False\<rparr> in
      if length text_m > 65536 then fresh
      else case parse text_m of
          None \<Rightarrow> fresh
        | Some doc \<Rightarrow>
            if is_object doc \<and> \<not> checkDepthAndKeys doc 0 then fresh
            else \<lparr>jr_doc_m = doc, jr_valid_m = is_object doc\<rparr>)"

definition getString :: "string \<Rightarrow> JsonReader \<Rightarrow> string option" where
  "getString key r = (if \<not> jr_valid_m r then None
     else case json_find key (jr_doc_m r) of Some (JString v) \<Rightarrow> Some (take MAX_STRING_LENGTH v) | _ \<Rightarrow> None)"

definition getUlong :: "string \<Rightarrow> JsonReader \<Rightarrow> ulong option" where
  "getUlong key r = (if \<not> jr_valid_m r then None
     else case json_find key (jr_doc_m r) of Some (JUnsigned v) \<Rightarrow> Some v | _ \<Rightarrow> None)"

definition getBool :: "string \<Rightarrow> JsonReader \<Rightarrow> bool option" where
  "getBool key r = (if \<not> jr_valid_m r then None
     else case json_find key (jr_doc_m r) of Some (JBool v) \<Rightarrow> Some v | _ \<Rightarrow> None)"

section \<open>What is written\<close>

text \<open>The calls that write a document, and its text. \<open>nc\<close>: a comma is due.\<close>

fun writable :: "json \<Rightarrow> bool" where
  "writable (JBool b) = True"
| "writable (JUnsigned n) = True"
| "writable (JString s) = True"
| "writable (JArray xs) = list_all writable xs"
| "writable (JObject ms) = list_all (\<lambda>m. writable (snd m)) ms"
| "writable _ = False"

fun emit :: "json \<Rightarrow> JsonWriter \<Rightarrow> JsonWriter"
  and emit_all :: "json list \<Rightarrow> JsonWriter \<Rightarrow> JsonWriter"
  and emit_members :: "(string \<times> json) list \<Rightarrow> JsonWriter \<Rightarrow> JsonWriter" where
  "emit (JBool b) w = value_bool b w"
| "emit (JUnsigned n) w = value_ulong n w"
| "emit (JString s) w = value_string s w"
| "emit (JArray xs) w = endArray (emit_all xs (beginArray w))"
| "emit (JObject ms) w = endObject (emit_members ms (beginObject w))"
| "emit _ w = w"
| "emit_all [] w = w"
| "emit_all (x # xs) w = emit_all xs (emit x w)"
| "emit_members [] w = w"
| "emit_members ((k, v) # ms) w = emit_members ms (emit v (jw_key k w))"

definition comma :: "bool \<Rightarrow> string" where "comma nc = (if nc then '','' else [])"

lemma comma_simps [simp]: "comma False = []" "comma True = '',''"
  by (simp_all add: comma_def)

fun jtext :: "json \<Rightarrow> string"
  and jtext_all :: "bool \<Rightarrow> json list \<Rightarrow> string"
  and jtext_members :: "bool \<Rightarrow> (string \<times> json) list \<Rightarrow> string" where
  "jtext (JBool b) = (if b then ''true'' else ''false'')"
| "jtext (JUnsigned n) = show_dec (unat n)"
| "jtext (JString s) = quote @ escapeJsonString s @ quote"
| "jtext (JArray xs) = ''['' @ jtext_all False xs @ '']''"
| "jtext (JObject ms) = ''{'' @ jtext_members False ms @ ''}''"
| "jtext _ = []"
| "jtext_all nc [] = []"
| "jtext_all nc (x # xs) = comma nc @ jtext x @ jtext_all True xs"
| "jtext_members nc [] = []"
| "jtext_members nc ((k, v) # ms) = comma nc @ quote @ escapeJsonString k @ quote @ '':'' @ jtext v @ jtext_members True ms"

fun mark_top :: "bool \<Rightarrow> (bool \<times> bool) list \<Rightarrow> (bool \<times> bool) list" where
  "mark_top nc [] = []"
| "mark_top nc ((a, n) # st) = (a, n \<or> nc) # st"

definition due :: "(bool \<times> bool) list \<Rightarrow> bool" where
  "due st = (case st of [] \<Rightarrow> False | (a, n) # r \<Rightarrow> n)"

lemmas jw_defs = jw_put_def appendCommaIfNeeded_def jw_element_def jw_lead_def comma_def due_def

lemma mark_simps [simp]: "mark_top True (mark_top nc st) = mark_top True st" "mark_top False st = st" "due ((a, n) # st) = n" "due [] = False"
  by (cases st; auto simp: due_def)+

lemma jw_ops [simp]:
  "jw_lead \<lparr>jw_buffer = b, jw_stack = st, jw_afterKey = ak\<rparr> = \<lparr>jw_buffer = b @ comma (\<not> ak \<and> due st), jw_stack = st, jw_afterKey = False\<rparr>"
  "jw_put s \<lparr>jw_buffer = b, jw_stack = st, jw_afterKey = ak\<rparr> = \<lparr>jw_buffer = b @ s, jw_stack = st, jw_afterKey = ak\<rparr>"
  "jw_element \<lparr>jw_buffer = b, jw_stack = st, jw_afterKey = ak\<rparr> = \<lparr>jw_buffer = b, jw_stack = mark_top True st, jw_afterKey = ak\<rparr>"
  "appendCommaIfNeeded \<lparr>jw_buffer = b, jw_stack = st, jw_afterKey = ak\<rparr> = \<lparr>jw_buffer = b @ comma (due st), jw_stack = st, jw_afterKey = ak\<rparr>"
  by (auto simp: jw_defs split: list.splits prod.splits bool.splits)

lemma emit_text:
  "writable x \<Longrightarrow> emit x \<lparr>jw_buffer = b, jw_stack = st, jw_afterKey = ak\<rparr> =
     \<lparr>jw_buffer = b @ comma (\<not> ak \<and> due st) @ jtext x, jw_stack = mark_top True st, jw_afterKey = False\<rparr>"
  "list_all writable xs \<Longrightarrow> emit_all xs \<lparr>jw_buffer = b, jw_stack = (a, nc) # st, jw_afterKey = False\<rparr> =
     \<lparr>jw_buffer = b @ jtext_all nc xs, jw_stack = (a, nc \<or> xs \<noteq> []) # st, jw_afterKey = False\<rparr>"
  "list_all (\<lambda>m. writable (snd m)) ms \<Longrightarrow> emit_members ms \<lparr>jw_buffer = b, jw_stack = (a, nc) # st, jw_afterKey = False\<rparr> =
     \<lparr>jw_buffer = b @ jtext_members nc ms, jw_stack = (a, nc \<or> ms \<noteq> []) # st, jw_afterKey = False\<rparr>"
proof (induction x and nc xs and nc ms arbitrary: b st ak and b a st and b a st rule: jtext_jtext_all_jtext_members.induct)
qed (simp_all add: value_bool_def value_ulong_def value_string_def beginArray_def endArray_def beginObject_def endObject_def jw_key_def Let_def)

section \<open>The text decodes to the document\<close>

text \<open>A decoder for the grammar of RFC 8259 without white space, null, signs and fractions.\<close>

fun hex_val :: "char \<Rightarrow> nat option" where
  "hex_val c = (if is_digit c then Some (digit_val c)
     else if 97 \<le> (of_char c :: nat) \<and> (of_char c :: nat) \<le> 102 then Some (of_char c - 87) else None)"

definition unescape :: "char \<Rightarrow> char option" where
  "unescape e = (if e = CHR 0x22 \<or> e = CHR 0x5C then Some e else if e = CHR ''n'' then Some (CHR 0x0A)
     else if e = CHR ''r'' then Some (CHR 0x0D) else if e = CHR ''t'' then Some (CHR 0x09)
     else if e = CHR ''b'' then Some (CHR 0x08) else if e = CHR ''f'' then Some (CHR 0x0C) else None)"

fun read_string :: "string \<Rightarrow> (string \<times> string) option" where
  "read_string [] = None"
| "read_string (c # r) =
     (if c = CHR 0x22 then Some ([], r)
      else if c = CHR 0x5C then
        (case r of
           [] \<Rightarrow> None
         | e # r1 \<Rightarrow>
             if e = CHR ''u'' then
               (case r1 of
                  a # b # x # y # r2 \<Rightarrow>
                    if a = CHR ''0'' \<and> b = CHR ''0'' then do {
                      h \<leftarrow> hex_val x; l \<leftarrow> hex_val y; (s, t) \<leftarrow> read_string r2; Some (char_of (16 * h + l) # s, t) } else None
                | _ \<Rightarrow> None)
             else do { ch \<leftarrow> unescape e; (s, t) \<leftarrow> read_string r1; Some (ch # s, t) })
      else if (of_char c :: nat) < 32 then None
      else do { (s, t) \<leftarrow> read_string r; Some (c # s, t) })"

definition strip :: "string \<Rightarrow> string \<Rightarrow> string option" where
  "strip p s = (if take (length p) s = p then Some (drop (length p) s) else None)"

fun read_json :: "nat \<Rightarrow> string \<Rightarrow> (json \<times> string) option"
  and read_elements :: "nat \<Rightarrow> string \<Rightarrow> (json list \<times> string) option"
  and read_members :: "nat \<Rightarrow> string \<Rightarrow> ((string \<times> json) list \<times> string) option" where
  "read_json 0 s = None"
| "read_json (Suc n) [] = None"
| "read_json (Suc n) (c # r) =
     (if c = CHR 0x22 then map_option (\<lambda>(v, t). (JString v, t)) (read_string r)
      else if c = CHR ''['' then
        (if r \<noteq> [] \<and> hd r = CHR '']'' then Some (JArray [], tl r) else map_option (\<lambda>(xs, t). (JArray xs, t)) (read_elements n r))
      else if c = CHR ''{'' then
        (if r \<noteq> [] \<and> hd r = CHR ''}'' then Some (JObject [], tl r) else map_option (\<lambda>(ms, t). (JObject ms, t)) (read_members n r))
      else if c = CHR ''t'' then map_option (\<lambda>t. (JBool True, t)) (strip ''rue'' r)
      else if c = CHR ''f'' then map_option (\<lambda>t. (JBool False, t)) (strip ''alse'' r)
      else if is_digit c then
        (let ds = takeWhile is_digit (c # r) in Some (JUnsigned (of_nat (digits_val ds)), drop (length ds) (c # r)))
      else None)"
| "read_elements 0 s = None"
| "read_elements (Suc n) s = do {
     (x, r) \<leftarrow> read_json n s;
     case r of
       [] \<Rightarrow> None
     | c # t \<Rightarrow> if c = CHR '','' then do { (xs, u) \<leftarrow> read_elements n t; Some (x # xs, u) }
                else if c = CHR '']'' then Some ([x], t) else None }"
| "read_members 0 s = None"
| "read_members (Suc n) s = do {
     s1 \<leftarrow> strip quote s;
     (k, s2) \<leftarrow> read_string s1;
     s3 \<leftarrow> strip '':'' s2;
     (x, r) \<leftarrow> read_json n s3;
     case r of
       [] \<Rightarrow> None
     | c # t \<Rightarrow> if c = CHR '','' then do { (ms, u) \<leftarrow> read_members n t; Some ((k, x) # ms, u) }
                else if c = CHR ''}'' then Some ([(k, x)], t) else None }"

lemma hex_val_digit: "k < 16 \<Longrightarrow> hex_val (hexDigits ! k) = Some k"
  by (simp add: numeral_eq_Suc less_Suc_eq) (elim disjE; simp add: hexDigits_def is_digit_def digit_val_def)

lemma read_plain: "c \<noteq> CHR 0x22 \<Longrightarrow> c \<noteq> CHR 0x5C \<Longrightarrow> \<not> (of_char c :: nat) < 32 \<Longrightarrow>
    read_string (c # t) = map_option (\<lambda>(s, u). (c # s, u)) (read_string t)"
  by (cases "read_string t") auto

lemma read_simple: "unescape e = Some ch \<Longrightarrow> read_string (CHR 0x5C # e # t) = map_option (\<lambda>(s, u). (ch # s, u)) (read_string t)"
  by (cases "read_string t") (auto simp: unescape_def)

lemma read_hex: "hex_val x = Some h \<Longrightarrow> hex_val y = Some l \<Longrightarrow>
    read_string (CHR 0x5C # CHR ''u'' # CHR ''0'' # CHR ''0'' # x # y # t) = map_option (\<lambda>(s, u). (char_of (16 * h + l) # s, u)) (read_string t)"
  by (cases "read_string t") (auto simp del: hex_val.simps)

lemma read_quote: "read_string (CHR 0x22 # r) = Some ([], r)"
  by simp

declare read_string.simps [simp del] hex_val.simps [simp del]

lemma read_escaped_char:
  "read_string (escapeJsonString_char c @ t) = map_option (\<lambda>(s, u). (c # s, u)) (read_string t)"
proof -
  consider (special) ch where "escapeJsonString_char c = [CHR 0x5C, ch]" "unescape ch = Some c"
    | (control) "(of_char c :: nat) < 32" "escapeJsonString_char c = [CHR 0x5C, CHR ''u'', CHR ''0'', CHR ''0'', hexDigits ! ((of_char c div 16) mod 16), hexDigits ! (of_char c mod 16)]"
    | (plain) "escapeJsonString_char c = [c]" "c \<noteq> CHR 0x22" "c \<noteq> CHR 0x5C" "\<not> (of_char c :: nat) < 32"
  proof (cases "c \<in> {CHR 0x22, CHR 0x5C, CHR 0x0A, CHR 0x0D, CHR 0x09, CHR 0x08, CHR 0x0C}")
    case True
    then have "\<exists>ch. escapeJsonString_char c = [CHR 0x5C, ch] \<and> unescape ch = Some c"
      by (elim insertE emptyE) (simp_all add: escapeJsonString_char_def unescape_def)
    then show ?thesis using special by blast
  next
    case False
    then show ?thesis using control plain by (cases "(of_char c :: nat) < 32") (simp_all add: escapeJsonString_char_def)
  qed
  then show ?thesis
  proof cases
    case special
    then show ?thesis by (simp add: read_simple)
  next
    case control
    let ?n = "of_char c :: nat"
    have "?n div 16 mod 16 = ?n div 16" using control(1) by (intro mod_less) auto
    moreover have "char_of (16 * (?n div 16) + ?n mod 16) = c" by simp
    ultimately show ?thesis
      using control(2) read_hex [OF hex_val_digit hex_val_digit, of "?n div 16 mod 16" "?n mod 16" t] by simp
  next
    case plain
    then show ?thesis by (simp add: read_plain)
  qed
qed

lemma read_escaped [simp]: "read_string (escapeJsonString s @ quote @ r) = Some (s, r)"
proof (induction s)
  case Nil
  then show ?case by (simp add: escapeJsonString_def quote_def read_quote)
next
  case (Cons c s)
  have "escapeJsonString (c # s) @ quote @ r = escapeJsonString_char c @ (escapeJsonString s @ quote @ r)"
    by (simp add: escapeJsonString_def)
  with Cons show ?case by (simp only: read_escaped_char) simp
qed

text \<open>What may follow a document.\<close>

definition ends :: "string \<Rightarrow> bool" where
  "ends r \<longleftrightarrow> r = [] \<or> \<not> is_digit (hd r)"

lemma jtext_head: "writable x \<Longrightarrow> jtext x \<noteq> [] \<and> hd (jtext x) \<noteq> CHR '']'' \<and> hd (jtext x) \<noteq> CHR ''}''"
proof (cases x)
  case (JUnsigned n)
  have "is_digit (hd (show_dec (unat n)))" by (rule show_dec_digits [of _ "unat n"]) simp
  then show ?thesis by (auto simp: JUnsigned is_digit_def)
qed (auto simp: quote_def)

lemma read_written:
  "writable x \<Longrightarrow> ends r \<Longrightarrow> length (jtext x) \<le> n \<Longrightarrow> read_json n (jtext x @ r) = Some (x, r)"
  "xs \<noteq> [] \<Longrightarrow> list_all writable xs \<Longrightarrow> length (jtext_all nc xs) < n + length (comma nc) \<Longrightarrow>
     read_elements n (drop (length (comma nc)) (jtext_all nc xs) @ '']'' @ r) = Some (xs, r)"
  "ms \<noteq> [] \<Longrightarrow> list_all (\<lambda>m. writable (snd m)) ms \<Longrightarrow> length (jtext_members nc ms) < n + length (comma nc) \<Longrightarrow>
     read_members n (drop (length (comma nc)) (jtext_members nc ms) @ ''}'' @ r) = Some (ms, r)"
proof (induction x and nc xs and nc ms arbitrary: n r and n r and n r rule: jtext_jtext_all_jtext_members.induct)
  case (1 b)
  then show ?case by (cases n; cases b) (auto simp: strip_def is_digit_def)
next
  case (2 w)
  have d: "is_digit (hd (show_dec (unat w)))" by (rule show_dec_digits [of _ "unat w"]) simp
  obtain c t where c: "show_dec (unat w) = c # t" by (cases "show_dec (unat w)") auto
  have "takeWhile is_digit (show_dec (unat w) @ r) = show_dec (unat w)"
    using 2(2) by (intro takeWhile_digits) (auto simp: ends_def dest: show_dec_digits)
  then have t: "takeWhile is_digit (c # (t @ r)) = c # t" by (simp add: c)
  obtain k where k: "n = Suc k" using 2(3) by (cases n) (auto simp: c)
  have "digits_val (c # t) = unat w" using digits_val_show_dec [of "unat w"] c by simp
  moreover have "is_digit c" "drop (length (c # t)) (c # (t @ r)) = r" using d c by simp_all
  moreover from this(1) have "c \<noteq> CHR 0x22 \<and> c \<noteq> CHR ''['' \<and> c \<noteq> CHR ''{'' \<and> c \<noteq> CHR ''t'' \<and> c \<noteq> CHR ''f''" by (auto simp: is_digit_def)
  ultimately show ?case by (simp add: k c t Let_def del: takeWhile.simps drop.simps drop_Suc_Cons)
next
  case (3 s)
  have "read_string (escapeJsonString s @ CHR 0x22 # r) = Some (s, r)" using read_escaped [of s r] by (simp add: quote_def)
  then show ?case using 3(3) by (cases n) (simp_all add: quote_def)
next
  case (4 xs)
  obtain k where k: "n = Suc k" using 4(4) by (cases n) auto
  show ?case
  proof (cases xs)
    case Nil
    then show ?thesis by (simp add: k)
  next
    case (Cons x ys)
    then have "writable x" using 4(2) by simp
    then have "jtext_all False xs \<noteq> []" "hd (jtext_all False xs) \<noteq> CHR '']''"
      using jtext_head [of x] by (simp_all add: Cons hd_append)
    moreover have "read_elements k (jtext_all False xs @ '']'' @ r) = Some (xs, r)"
      using 4(1) [of k r] 4(2,4) by (simp add: Cons k)
    ultimately show ?thesis by (simp add: k hd_append)
  qed
next
  case (5 ms)
  obtain k where k: "n = Suc k" using 5(4) by (cases n) auto
  show ?case
  proof (cases ms)
    case Nil
    then show ?thesis by (simp add: k)
  next
    case (Cons m ys)
    then have "jtext_members False ms \<noteq> []" "hd (jtext_members False ms) \<noteq> CHR ''}''"
      by (cases m; simp add: quote_def)+
    moreover have "read_members k (jtext_members False ms @ ''}'' @ r) = Some (ms, r)"
      using 5(1) [of k r] 5(2,4) by (simp add: Cons k)
    ultimately show ?thesis by (simp add: k hd_append)
  qed
next
  case (8 nc x xs)
  obtain k where k: "n = Suc k" using 8(5) by (cases n) auto
  have "ends (jtext_all True xs @ '']'' @ r)" by (cases xs) (simp_all add: ends_def is_digit_def)
  then have x: "read_json k (jtext x @ jtext_all True xs @ '']'' @ r) = Some (x, jtext_all True xs @ '']'' @ r)"
    using 8(1) [of _ k] 8(4,5) by (simp add: k)
  show ?case
  proof (cases xs)
    case Nil
    then show ?thesis using x by (simp add: k)
  next
    case (Cons y ys)
    then have "read_elements k (drop 1 (jtext_all True xs) @ '']'' @ r) = Some (xs, r)"
      using 8(2) [of k r] 8(4,5) by (simp add: k)
    then show ?thesis using x by (simp add: k Cons)
  qed
next
  case (10 nc key v ms)
  obtain k where k: "n = Suc k" using 10(5) by (cases n) auto
  have "ends (jtext_members True ms @ ''}'' @ r)" by (cases ms) (auto simp: ends_def is_digit_def)
  then have x: "read_json k (jtext v @ jtext_members True ms @ ''}'' @ r) = Some (v, jtext_members True ms @ ''}'' @ r)"
    using 10(1) [of _ k] 10(4,5) by (simp add: k)
  have q: "strip quote (quote @ t) = Some t" "strip '':'' (CHR '':'' # t) = Some t" for t by (simp_all add: strip_def quote_def)
  show ?case
  proof (cases ms)
    case Nil
    then show ?thesis using x q by (simp add: k)
  next
    case (Cons m ys)
    then have "read_members k (drop 1 (jtext_members True ms) @ ''}'' @ r) = Some (ms, r)"
      using 10(2) [of k r] 10(4,5) by (simp add: k)
    then show ?thesis using x q by (cases m) (simp add: k Cons)
  qed
qed simp_all

section \<open>What is read\<close>

text \<open>\<open>nested j k x\<close>: the value \<open>x\<close> lies \<open>k\<close> containers deep in \<open>j\<close>.\<close>

inductive nested :: "json \<Rightarrow> nat \<Rightarrow> json \<Rightarrow> bool" where
  nested_here: "nested j 0 j"
| nested_member: "(key, v) \<in> set ms \<Longrightarrow> nested v k x \<Longrightarrow> nested (JObject ms) (Suc k) x"
| nested_element: "y \<in> set xs \<Longrightarrow> nested y k x \<Longrightarrow> nested (JArray xs) (Suc k) x"

inductive_cases nested_stringE: "nested (JString s) k x"
inductive_cases nested_objectE: "nested (JObject ms) k x"

definition fits :: "json \<Rightarrow> bool" where
  "fits x = (case x of JObject ms \<Rightarrow> int (length ms) \<le> MAX_KEYS_PER_OBJECT | _ \<Rightarrow> True)"

lemma check_sound: "nested j k x \<Longrightarrow> checkDepthAndKeys j d \<Longrightarrow> d + int k \<le> MAX_NESTING_DEPTH \<and> fits x"
proof (induction arbitrary: d rule: nested.induct)
  case (nested_here j)
  then show ?case by (subst (asm) checkDepthAndKeys.simps) (auto simp: fits_def split: if_splits json.splits)
next
  case (nested_member key v ms k x)
  have "checkDepthAndKeys v (d + 1)"
    using nested_member.prems nested_member.hyps(1) by (subst (asm) checkDepthAndKeys.simps) (auto simp: list_all_iff split: if_splits)
  from nested_member.IH [OF this] show ?case by simp
next
  case (nested_element y xs k x)
  have "checkDepthAndKeys y (d + 1)"
    using nested_element.prems nested_element.hyps(1) by (subst (asm) checkDepthAndKeys.simps) (auto simp: list_all_iff split: if_splits)
  from nested_element.IH [OF this] show ?case by simp
qed

lemma check_complete: "(\<And>k x. nested j k x \<Longrightarrow> d + int k \<le> MAX_NESTING_DEPTH \<and> fits x) \<Longrightarrow> checkDepthAndKeys j d"
proof (induction j d rule: checkDepthAndKeys.induct)
  case (1 j d)
  have here: "d \<le> MAX_NESTING_DEPTH" "fits j" using 1(3) [OF nested_here] by simp_all
  show ?case
  proof (cases j)
    case (JArray xs)
    have "checkDepthAndKeys y (d + 1)" if y: "y \<in> set xs" for y
    proof (rule 1(1) [OF _ JArray y])
      show "d + 1 + int k \<le> MAX_NESTING_DEPTH \<and> fits x" if "nested y k x" for k x
        using 1(3) [of "Suc k" x] nested_element [OF y that] JArray by simp
    qed (use here in simp)
    then show ?thesis using here by (subst checkDepthAndKeys.simps) (simp add: JArray list_all_iff)
  next
    case (JObject ms)
    have "checkDepthAndKeys (snd m) (d + 1)" if m: "m \<in> set ms" for m
    proof (rule 1(2) [OF _ JObject m])
      show "d + 1 + int k \<le> MAX_NESTING_DEPTH \<and> fits x" if "nested (snd m) k x" for k x
        using 1(3) [of "Suc k" x] nested_member [of "fst m" "snd m" ms] m that JObject by simp
    qed (use here in simp)
    then show ?thesis using here by (subst checkDepthAndKeys.simps) (simp add: JObject list_all_iff fits_def)
  qed (use here in \<open>simp_all add: checkDepthAndKeys.simps\<close>)
qed

lemma reader_cases:
  "jr_valid_m (JsonReader_new parse s) \<longleftrightarrow> length s \<le> 65536 \<and> (\<exists>ms. parse s = Some (JObject ms) \<and> checkDepthAndKeys (JObject ms) 0)"
  "jr_valid_m (JsonReader_new parse s) \<Longrightarrow> parse s = Some (jr_doc_m (JsonReader_new parse s)) \<and> is_object (jr_doc_m (JsonReader_new parse s))"
proof -
  show "jr_valid_m (JsonReader_new parse s) \<longleftrightarrow> length s \<le> 65536 \<and> (\<exists>ms. parse s = Some (JObject ms) \<and> checkDepthAndKeys (JObject ms) 0)"
  proof (cases "parse s")
    case None
    then show ?thesis by (simp add: JsonReader_new_def Let_def)
  next
    case (Some doc)
    then show ?thesis by (cases doc) (simp_all add: JsonReader_new_def is_object_def Let_def)
  qed
  show "parse s = Some (jr_doc_m (JsonReader_new parse s)) \<and> is_object (jr_doc_m (JsonReader_new parse s))" if "jr_valid_m (JsonReader_new parse s)"
    using that by (cases "parse s") (auto simp: JsonReader_new_def Let_def split: if_splits)
qed

lemma getString_found:
  assumes "getString key (JsonReader_new parse s) = Some v"
  shows "\<exists>ms w. parse s = Some (JObject ms) \<and> map_of ms key = Some (JString w) \<and> v = take 4096 w"
proof -
  have "jr_valid_m (JsonReader_new parse s)" using assms by (simp add: getString_def split: if_splits)
  from reader_cases(2) [OF this] obtain ms where ms: "parse s = Some (JObject ms)" "jr_doc_m (JsonReader_new parse s) = JObject ms"
    by (cases "jr_doc_m (JsonReader_new parse s)") (simp_all add: is_object_def)
  obtain w where w: "map_of ms key = Some w"
    using assms ms(2) by (cases "map_of ms key") (simp_all add: getString_def json_find_def split: if_splits)
  then show ?thesis using assms ms by (cases w) (simp_all add: getString_def json_find_def MAX_STRING_LENGTH_def split: if_splits)
qed

lemma check_iff: "checkDepthAndKeys j 0 \<longleftrightarrow> (\<forall>k x. nested j k x \<longrightarrow> k \<le> 32 \<and> (\<forall>ns. x = JObject ns \<longrightarrow> length ns \<le> 256))"
proof -
  have "fits x = (\<forall>ns. x = JObject ns \<longrightarrow> length ns \<le> 256)" for x by (cases x) (simp_all add: fits_def MAX_KEYS_PER_OBJECT_def)
  moreover have "(0 + int k \<le> MAX_NESTING_DEPTH) = (k \<le> 32)" for k by (simp add: MAX_NESTING_DEPTH_def)
  moreover have "checkDepthAndKeys j 0 \<longleftrightarrow> (\<forall>k x. nested j k x \<longrightarrow> 0 + int k \<le> MAX_NESTING_DEPTH \<and> fits x)"
    using check_sound [of j _ _ 0] check_complete [of j 0] by blast
  ultimately show ?thesis by simp
qed

section \<open>Properties\<close>

text \<open>C31: what the writer writes is JSON. The calls that write a document of objects, arrays, strings, numbers and truth
  values, nested in any way, leave a text that decodes to this document and nothing else, whatever bytes its strings
  and names hold.\<close>

theorem json_writer_roundtrip:
  assumes "writable d"
  shows "read_json (length (jw_result (emit d JsonWriter_new))) (jw_result (emit d JsonWriter_new)) = Some (d, [])"
  using emit_text(1) [OF assms] read_written(1) [OF assms, of "[]" "length (jtext d)"]
  by (simp add: JsonWriter_new_def jw_result_def ends_def)

theorem json_writer_roundtrip_witness:
  "\<exists>s. read_json (length s) s = Some (JObject [([CHR 0x22, CHR 0x0A], JArray [JBool True, JObject [], JUnsigned 7]), ([], JString [CHR 0x01])], []) \<and>
     s \<noteq> []"
proof -
  let ?d = "JObject [([CHR 0x22, CHR 0x0A], JArray [JBool True, JObject [], JUnsigned 7]), ([], JString [CHR 0x01])]"
  have "jw_result (emit ?d JsonWriter_new) = jtext ?d"
    using emit_text(1) [of ?d "[]" "[]" False] by (simp add: JsonWriter_new_def jw_result_def)
  with json_writer_roundtrip [of ?d] show ?thesis by (intro exI [of _ "jtext ?d"]) simp
qed

text \<open>C32: what the reader takes. A text is valid exactly when it has at most 65536 characters and the parser
  makes it an object in which nothing lies more than 32 containers deep and no object has more than 256 members;
  a string that is read has at most 4096 characters and is a prefix of the member's.\<close>

theorem json_reader_limits:
  "(jr_valid_m (JsonReader_new parse s) \<longleftrightarrow> length s \<le> 65536 \<and> (\<exists>ms. parse s = Some (JObject ms) \<and>
      (\<forall>k x. nested (JObject ms) k x \<longrightarrow> k \<le> 32 \<and> (\<forall>ns. x = JObject ns \<longrightarrow> length ns \<le> 256)))) \<and>
   (getString key (JsonReader_new parse s) = Some v \<longrightarrow> length v \<le> 4096 \<and>
      (\<exists>ms w. parse s = Some (JObject ms) \<and> map_of ms key = Some (JString w) \<and> v = take 4096 w))"
proof -
  have "length v \<le> 4096 \<and> (\<exists>ms w. parse s = Some (JObject ms) \<and> map_of ms key = Some (JString w) \<and> v = take 4096 w)"
    if "getString key (JsonReader_new parse s) = Some v"
    using getString_found [OF that] by fastforce
  then show ?thesis unfolding reader_cases(1) check_iff by blast
qed

theorem json_reader_limits_witness:
  "jr_valid_m (JsonReader_new (\<lambda>s. Some (JObject [(''a'', JString ''b'')])) ''{}'')"
proof -
  have "k \<le> 32 \<and> (\<forall>ns. x = JObject ns \<longrightarrow> length ns \<le> 256)" if "nested (JObject [(''a'', JString ''b'')]) k x" for k x
    using that by (auto elim!: nested_objectE nested_stringE)
  then show ?thesis using json_reader_limits [of "\<lambda>s. Some (JObject [(''a'', JString ''b'')])" "''{}''"] by simp
qed

end
