(* ===== verification/Access.thy ===== *)
theory Access
  imports Json HttpRouter
begin

text \<open>
  AlpineRestBridge/ApiKeyAuth.cpp, AuthHandler.cpp, RbacPolicy.cpp and base/AppUtils/SecureString.cpp: who may use the REST bridge. Clock
  readings in nanoseconds, random bytes, the files, the JSON parser and the crypto library are arguments. Shown: how long
  a rotated key works, that no handler runs without a key, that a challenge is used once, and what the policy decides.
\<close>

section \<open>Comparison in constant time\<close>

definition ss_byte :: "string \<Rightarrow> nat \<Rightarrow> byte" where
  "ss_byte a i = (if i < length a then of_nat (of_char (a ! i)) else 0xFF)"

definition ss_equals :: "string \<Rightarrow> string \<Rightarrow> bool" where
  "ss_equals a b =
     (let acc = foldl (\<lambda>v i. or v (xor (ss_byte a i) (ss_byte b i))) 0 [0..<max (length a) (length b)]
      in or acc (if length a \<noteq> length b then 1 else 0) = 0)"

lemma or_eq_0: "or v w = 0 \<longleftrightarrow> v = 0 \<and> w = (0 :: byte)"
proof
  assume "or v w = 0"
  then have "bit v n \<or> bit w n \<Longrightarrow> False" for n by (metis bit_0_eq bit_or_iff bot_apply bot_bool_def)
  then show "v = 0 \<and> w = 0" by (auto simp: bit_eq_iff)
qed simp

lemma xor_eq_0: "xor v w = 0 \<longleftrightarrow> v = (w :: byte)"
  by (auto simp: bit_eq_iff bit_xor_iff)

lemma acc_zero: "foldl (\<lambda>v i. or v (f i)) x is = (0 :: byte) \<longleftrightarrow> x = 0 \<and> (\<forall>i\<in>set is. f i = 0)"
  by (induction "is" arbitrary: x) (auto simp: or_eq_0)

lemma foldl_same: "foldl (\<lambda>v i. v) x is = x"
  by (induction "is") simp_all

text \<open>The comparison that does not stop early is equality.\<close>

lemma ss_equals_eq [simp]: "ss_equals a b \<longleftrightarrow> a = b"
proof
  assume e: "ss_equals a b"
  then have len: "length a = length b" by (auto simp: ss_equals_def Let_def or_eq_0 split: if_splits)
  have "ss_byte a i = ss_byte b i" if "i < length a" for i
    using e that len by (auto simp: ss_equals_def Let_def or_eq_0 acc_zero xor_eq_0)
  then have "a ! i = b ! i" if "i < length a" for i
    using that len by (auto simp: ss_byte_def word_of_nat_eq_iff take_bit_eq_mod)
  with len show "a = b" by (intro nth_equalityI) auto
qed (simp add: ss_equals_def Let_def foldl_same)

section \<open>Keys\<close>

definition hex_bytes :: "byte list \<Rightarrow> string" where
  "hex_bytes bs = concat (map (\<lambda>b. [hexDigits ! unat (and (drop_bit 4 b) 0x0F), hexDigits ! unat (and b 0x0F)]) bs)"

record t_ApiKeyEntry =
  ke_key :: string
  ke_expiresAt :: int
  ke_deprecated :: bool

record ApiKeyAuth =
  ka_apiKey_s :: string
  ka_initialized_s :: bool
  ka_keys_s :: "t_ApiKeyEntry list"
  ka_jwt :: "(string \<times> string \<times> string) option"

definition time_max :: int where "time_max = 2 ^ 63 - 1"

definition ApiKeyAuth_static :: ApiKeyAuth where
  "ApiKeyAuth_static = \<lparr>ka_apiKey_s = [], ka_initialized_s = False, ka_keys_s = [], ka_jwt = None\<rparr>"

definition fresh_key :: "string \<Rightarrow> t_ApiKeyEntry" where
  "fresh_key k = \<lparr>ke_key = k, ke_expiresAt = time_max, ke_deprecated = False\<rparr>"

text \<open>The environment variable, the first line of the key file and the random bytes; the new key that is saved is a result.\<close>

definition ka_initialize :: "string option \<Rightarrow> string option \<Rightarrow> byte list option \<Rightarrow> ApiKeyAuth \<Rightarrow> ApiKeyAuth \<times> string option" where
  "ka_initialize envKey fileKey random s =
     (if ka_initialized_s s then (s, None)
      else let use = (\<lambda>k. s\<lparr>ka_apiKey_s := k, ka_initialized_s := True, ka_keys_s := ka_keys_s s @ [fresh_key k]\<rparr>) in
        if envKey \<noteq> None \<and> the envKey \<noteq> [] then (use (the envKey), None)
        else if fileKey \<noteq> None \<and> the fileKey \<noteq> [] then (use (the fileKey), None)
        else case random of
            None \<Rightarrow> (s\<lparr>ka_initialized_s := True\<rparr>, None)
          | Some bs \<Rightarrow> (use (hex_bytes bs), Some (hex_bytes bs)))"

definition bearer :: string where "bearer = ''Bearer ''"

definition auth_header :: "HttpRequest \<Rightarrow> string" where
  "auth_header request = (case headers request ''Authorization'' of
       Some v \<Rightarrow> v
     | None \<Rightarrow> (case headers request ''authorization'' of Some v \<Rightarrow> v | None \<Rightarrow> []))"

text \<open>\<open>jwt\<close> is the check of a token by the library of a build with TLS.\<close>

definition validate :: "(string \<times> string \<times> string \<Rightarrow> string \<Rightarrow> bool) \<Rightarrow> int \<Rightarrow> ApiKeyAuth \<Rightarrow> HttpRequest \<Rightarrow> HttpResponse \<Rightarrow> bool \<times> HttpResponse" where
  "validate jwt now s request response =
     (if http_method request = ''GET'' \<and> take 7 (path request) = ''/status'' then (True, response)
      else if ka_apiKey_s s = [] then
        (False, setJsonBody (''{'' @ quote @ ''error'' @ quote @ '':'' @ quote @ ''Service unavailable '' @ [CHR 0xE2, CHR 0x80, CHR 0x94] @
           '' authentication not configured'' @ quote @ ''}'') response)
      else
        let authHeader = auth_header request; token = drop (length bearer) authHeader in
        if take (length bearer) authHeader = bearer \<and>
           (ss_equals (ka_apiKey_s s) token \<or> list_ex (\<lambda>e. ke_expiresAt e > now \<and> ss_equals (ke_key e) token) (ka_keys_s s) \<or>
            (case ka_jwt s of None \<Rightarrow> False | Some cfg \<Rightarrow> jwt cfg token))
        then (True, response)
        else (False, setJsonBody (''{'' @ quote @ ''error'' @ quote @ '':'' @ quote @ ''Unauthorized'' @ quote @ ''}'') response))"

definition ka_getKey :: "ApiKeyAuth \<Rightarrow> string" where
  "ka_getKey s = ka_apiKey_s s"

text \<open>Time points are 64-bit counts of nanoseconds.\<close>

definition wrap64 :: "int \<Rightarrow> int" where
  "wrap64 i = sint (of_int i :: 64 word)"

definition purgeExpiredKeys :: "int \<Rightarrow> ApiKeyAuth \<Rightarrow> ApiKeyAuth" where
  "purgeExpiredKeys now s = s\<lparr>ka_keys_s := filter (\<lambda>e. \<not> (ke_deprecated e \<and> ke_expiresAt e \<le> now)) (ka_keys_s s)\<rparr>"

definition rotateKey :: "byte list option \<Rightarrow> int \<Rightarrow> int \<Rightarrow> int \<Rightarrow> ApiKeyAuth \<Rightarrow> string \<times> ApiKeyAuth" where
  "rotateKey random now now2 gracePeriod s = (case random of
       None \<Rightarrow> ([], s)
     | Some bs \<Rightarrow>
         let hexKey = hex_bytes bs;
             deprecate = (\<lambda>e. if \<not> ke_deprecated e then e\<lparr>ke_deprecated := True, ke_expiresAt := wrap64 (now + wrap64 (gracePeriod * 1000000000))\<rparr> else e);
             s1 = s\<lparr>ka_keys_s := fresh_key hexKey # map deprecate (ka_keys_s s), ka_apiKey_s := hexKey\<rparr>
         in (hexKey, purgeExpiredKeys now2 s1))"

definition activeKeyCount :: "int \<Rightarrow> ApiKeyAuth \<Rightarrow> ulong" where
  "activeKeyCount now s = of_nat (length (filter (\<lambda>e. ke_expiresAt e > now) (ka_keys_s s)))"

definition configureJwt :: "string \<Rightarrow> string \<Rightarrow> string \<Rightarrow> ApiKeyAuth \<Rightarrow> ApiKeyAuth" where
  "configureJwt secret issuer audience s = s\<lparr>ka_jwt := Some (secret, issuer, audience)\<rparr>"

text \<open>The scopes of a token, from the claim that the library finds in it without checking its signature.\<close>

fun split_scopes :: "string \<Rightarrow> string \<Rightarrow> string list" where
  "split_scopes current [] = (if current = [] then [] else [current])"
| "split_scopes current (c # cs) =
     (if c = CHR 0x20 then (if current = [] then [] else [current]) @ split_scopes [] cs else split_scopes (current @ [c]) cs)"

definition extractJwtScopes :: "(string \<Rightarrow> string option) \<Rightarrow> string \<Rightarrow> string list option" where
  "extractJwtScopes claim token = map_option (split_scopes []) (claim token)"

definition hasScope :: "(string \<Rightarrow> string option) \<Rightarrow> HttpRequest \<Rightarrow> string \<Rightarrow> ApiKeyAuth \<Rightarrow> bool" where
  "hasScope claim request scope s =
     (let authHeader = auth_header request; token = drop (length bearer) authHeader in
      if take (length bearer) authHeader \<noteq> bearer then False
      else if ss_equals (ka_apiKey_s s) token then True
      else case extractJwtScopes claim token of None \<Rightarrow> False | Some scopes \<Rightarrow> list_ex (\<lambda>x. x = scope \<or> x = ''admin'') scopes)"

section \<open>The policy of roles\<close>

record RbacPolicy =
  rb_roles_s :: "string \<rightharpoonup> string set"
  rb_keyRoles_s :: "string \<rightharpoonup> string"
  rb_policyFilePath_s :: string
  rb_enabled_s :: bool

definition RbacPolicy_static :: RbacPolicy where
  "RbacPolicy_static = \<lparr>rb_roles_s = Map.empty, rb_keyRoles_s = Map.empty, rb_policyFilePath_s = [], rb_enabled_s = False\<rparr>"

definition string_elements :: "json \<Rightarrow> string set" where
  "string_elements j = (case j of JArray xs \<Rightarrow> {p. JString p \<in> set xs} | _ \<Rightarrow> {})"

fun load_roles :: "(string \<times> json) list \<Rightarrow> (string \<rightharpoonup> string set) \<Rightarrow> (string \<rightharpoonup> string set)" where
  "load_roles [] roles = roles"
| "load_roles ((roleName, permsArray) # ms) roles = load_roles ms (roles(roleName \<mapsto> string_elements permsArray))"

fun load_keys :: "(string \<times> json) list \<Rightarrow> (string \<rightharpoonup> string) \<Rightarrow> (string \<rightharpoonup> string)" where
  "load_keys [] keys = keys"
| "load_keys ((key, role) # ms) keys = load_keys ms (case role of JString r \<Rightarrow> keys(key \<mapsto> r) | _ \<Rightarrow> keys)"

definition json_members :: "string \<Rightarrow> json \<Rightarrow> (string \<times> json) list" where
  "json_members k doc = (case json_find k doc of Some (JObject ms) \<Rightarrow> ms | _ \<Rightarrow> [])"

text \<open>\<open>file\<close> gives the document of a path; \<open>None\<close>: it cannot be opened or is not JSON.\<close>

definition loadPolicy :: "(string \<Rightarrow> json option) \<Rightarrow> string \<Rightarrow> RbacPolicy \<Rightarrow> bool \<times> RbacPolicy" where
  "loadPolicy file filePath r = (case file filePath of
       None \<Rightarrow> (False, r)
     | Some doc \<Rightarrow> (True, r\<lparr>rb_roles_s := load_roles (json_members ''roles'' doc) Map.empty,
         rb_keyRoles_s := load_keys (json_members ''keys'' doc) Map.empty\<rparr>))"

definition rb_initialize :: "(string \<Rightarrow> json option) \<Rightarrow> string \<Rightarrow> RbacPolicy \<Rightarrow> bool \<times> RbacPolicy" where
  "rb_initialize file policyFilePath r =
     (let r1 = r\<lparr>rb_policyFilePath_s := policyFilePath\<rparr> in
      if policyFilePath = [] then (True, r1)
      else case loadPolicy file policyFilePath r1 of
          (False, r2) \<Rightarrow> (False, r2)
        | (True, r2) \<Rightarrow> (True, r2\<lparr>rb_enabled_s := True\<rparr>))"

definition rb_reload :: "(string \<Rightarrow> json option) \<Rightarrow> RbacPolicy \<Rightarrow> bool \<times> RbacPolicy" where
  "rb_reload file r = (if rb_policyFilePath_s r = [] then (False, r) else loadPolicy file (rb_policyFilePath_s r) r)"

definition hasPermission :: "string \<Rightarrow> string \<Rightarrow> RbacPolicy \<Rightarrow> bool" where
  "hasPermission apiKey permission r =
     (if \<not> rb_enabled_s r then True
      else case rb_keyRoles_s r apiKey of
          None \<Rightarrow> False
        | Some role \<Rightarrow> (case rb_roles_s r role of
              None \<Rightarrow> False
            | Some perms \<Rightarrow> ''*'' \<in> perms \<or> permission \<in> perms))"

definition getRoleForKey :: "string \<Rightarrow> RbacPolicy \<Rightarrow> string" where
  "getRoleForKey apiKey r = (if \<not> rb_enabled_s r then ''admin'' else case rb_keyRoles_s r apiKey of Some role \<Rightarrow> role | None \<Rightarrow> [])"

section \<open>Challenges\<close>

record t_PendingChallenge =
  pc_nonce :: string
  pc_createdAt :: int

record t_EnrolledDevice =
  ed_publicKey :: string
  ed_deviceName :: string
  ed_biometricType :: string
  ed_enrolledAt :: int

record AuthHandler =
  ah_pendingChallenges_s :: "string \<rightharpoonup> t_PendingChallenge"
  ah_enrolledDevices_s :: "string \<rightharpoonup> t_EnrolledDevice"

definition AuthHandler_static :: AuthHandler where
  "AuthHandler_static = \<lparr>ah_pendingChallenges_s = Map.empty, ah_enrolledDevices_s = Map.empty\<rparr>"

definition CHALLENGE_TTL_SECONDS :: int where "CHALLENGE_TTL_SECONDS = 60"
definition MAX_PENDING_CHALLENGES :: nat where "MAX_PENDING_CHALLENGES = 10000"

text \<open>The settings of the responses, the JSON parser and the calls of the crypto library: whether its objects can be made,
  the key of a text, and the steps of a verification.\<close>

record 'k bridge_env =
  be_tls :: bool
  be_cors :: string
  be_parse :: "string \<Rightarrow> json option"
  be_bio :: bool
  be_pubkey :: "string \<Rightarrow> 'k option"
  be_ctx :: bool
  be_verifyInit :: "'k \<Rightarrow> bool"
  be_verifyUpdate :: "'k \<Rightarrow> string \<Rightarrow> bool"
  be_verifyFinal :: "'k \<Rightarrow> string \<Rightarrow> byte list \<Rightarrow> bool"

definition bad_request :: "'k bridge_env \<Rightarrow> string \<Rightarrow> HttpResponse" where
  "bad_request e message = badRequest (be_tls e) (be_cors e) message ''INVALID_PARAMETER''"

definition server_error :: "'k bridge_env \<Rightarrow> string \<Rightarrow> HttpResponse" where
  "server_error e message = serverError (be_tls e) (be_cors e) message ''INTERNAL_ERROR''"

definition json_ok :: "'k bridge_env \<Rightarrow> JsonWriter \<Rightarrow> HttpResponse" where
  "json_ok e w = http_ok (be_tls e) (be_cors e) (jw_result w)"

text \<open>Random bytes as hexadecimal digits; none when there are no random bytes.\<close>

definition readUrandom :: "byte list option \<Rightarrow> string" where
  "readUrandom random = (case random of None \<Rightarrow> [] | Some bs \<Rightarrow> hex_bytes bs)"

definition elapsed_seconds :: "int \<Rightarrow> int \<Rightarrow> int" where
  "elapsed_seconds now t = sgn (now - t) * (\<bar>now - t\<bar> div 1000000000)"

text \<open>A negative count of seconds is a large unsigned one.\<close>

definition older_than :: "int \<Rightarrow> int \<Rightarrow> bool" where
  "older_than seconds ttl \<longleftrightarrow> seconds < 0 \<or> seconds > ttl"

definition enrollDevice :: "'k bridge_env \<Rightarrow> byte list option \<Rightarrow> int \<Rightarrow> HttpRequest \<Rightarrow> AuthHandler \<Rightarrow> HttpResponse \<times> AuthHandler" where
  "enrollDevice e random now request s =
     (let reader = JsonReader_new (be_parse e) (body request) in
      case getString ''publicKey'' reader of
        None \<Rightarrow> (bad_request e ''Missing publicKey'', s)
      | Some publicKey \<Rightarrow>
          if publicKey = [] then (bad_request e ''publicKey must not be empty'', s)
          else
            let deviceId = readUrandom random;
                device = \<lparr>ed_publicKey = publicKey, ed_deviceName = (case getString ''deviceName'' reader of None \<Rightarrow> [] | Some v \<Rightarrow> v),
                  ed_biometricType = (case getString ''biometricType'' reader of None \<Rightarrow> [] | Some v \<Rightarrow> v), ed_enrolledAt = now\<rparr>
            in (json_ok e (endObject (value_bool True (jw_key ''enrolled'' (value_string deviceId (jw_key ''deviceId'' (beginObject JsonWriter_new)))))),
                s\<lparr>ah_enrolledDevices_s := (ah_enrolledDevices_s s)(deviceId \<mapsto> device)\<rparr>))"

definition evictExpiredChallenges :: "int \<Rightarrow> AuthHandler \<Rightarrow> AuthHandler" where
  "evictExpiredChallenges now s = s\<lparr>ah_pendingChallenges_s := (\<lambda>c. case ah_pendingChallenges_s s c of
       None \<Rightarrow> None
     | Some ch \<Rightarrow> if older_than (elapsed_seconds now (pc_createdAt ch)) CHALLENGE_TTL_SECONDS then None else Some ch)\<rparr>"

definition getChallenge :: "'k bridge_env \<Rightarrow> int \<Rightarrow> byte list option \<Rightarrow> byte list option \<Rightarrow> int \<Rightarrow> AuthHandler \<Rightarrow> HttpResponse \<times> AuthHandler" where
  "getChallenge e now1 random1 random2 now2 s =
     (let s1 = evictExpiredChallenges now1 s; challengeId = readUrandom random1; nonce = readUrandom random2 in
      if card (dom (ah_pendingChallenges_s s1)) \<ge> MAX_PENDING_CHALLENGES
      then (tooManyRequests (be_tls e) (be_cors e) ''Too many pending challenges'' ''RATE_LIMITED'', s1)
      else (json_ok e (endObject (value_string nonce (jw_key ''nonce'' (value_string challengeId (jw_key ''challengeId'' (beginObject JsonWriter_new)))))),
            s1\<lparr>ah_pendingChallenges_s := (ah_pendingChallenges_s s1)(challengeId \<mapsto> \<lparr>pc_nonce = nonce, pc_createdAt = now2\<rparr>)\<rparr>))"

text \<open>\<^verbatim>\<open>std::stoi\<close> in base sixteen, and the bytes of a text of hexadecimal pairs; \<open>None\<close> is the exception.\<close>

definition hex_digit :: "char \<Rightarrow> nat option" where
  "hex_digit c = (let n = of_char c :: nat in
     if 48 \<le> n \<and> n \<le> 57 then Some (n - 48) else if 97 \<le> n \<and> n \<le> 102 then Some (n - 87)
     else if 65 \<le> n \<and> n \<le> 70 then Some (n - 55) else None)"

definition std_stoi16 :: "string \<Rightarrow> int option" where
  "std_stoi16 s = (let s1 = dropWhile is_space s;
        neg = (s1 \<noteq> [] \<and> hd s1 = CHR ''-'');
        s2 = (if s1 \<noteq> [] \<and> (hd s1 = CHR ''-'' \<or> hd s1 = CHR ''+'') then tl s1 else s1);
        s3 = (case s2 of a # x # d # r \<Rightarrow> if a = CHR ''0'' \<and> (x = CHR ''x'' \<or> x = CHR ''X'') \<and> hex_digit d \<noteq> None then d # r else s2 | _ \<Rightarrow> s2);
        ds = takeWhile (\<lambda>c. hex_digit c \<noteq> None) s3;
        v = foldl (\<lambda>v c. 16 * v + int (the (hex_digit c))) 0 ds
     in if ds = [] then None else Some (if neg then - v else v))"

fun hex_decode :: "string \<Rightarrow> byte list option" where
  "hex_decode (a # b # s) = do { v \<leftarrow> std_stoi16 [a, b]; bs \<leftarrow> hex_decode s; Some (of_int v # bs) }"
| "hex_decode _ = Some []"

text \<open>\<open>None\<close> is the exception of \<open>stoi\<close>, which leaves the handler.\<close>

definition verifySignature :: "'k bridge_env \<Rightarrow> int \<Rightarrow> byte list option \<Rightarrow> HttpRequest \<Rightarrow> AuthHandler \<Rightarrow> HttpResponse option \<times> AuthHandler" where
  "verifySignature e now random request s =
     (let reader = JsonReader_new (be_parse e) (body request) in
      case getString ''challengeId'' reader of None \<Rightarrow> (Some (bad_request e ''Missing challengeId''), s)
      | Some challengeId \<Rightarrow>
      (case getString ''signature'' reader of None \<Rightarrow> (Some (bad_request e ''Missing signature''), s)
      | Some signature \<Rightarrow>
      (case getString ''publicKey'' reader of None \<Rightarrow> (Some (bad_request e ''Missing publicKey''), s)
      | Some publicKey \<Rightarrow>
      (case ah_pendingChallenges_s s challengeId of None \<Rightarrow> (Some (bad_request e ''Unknown or expired challenge''), s)
      | Some ch \<Rightarrow>
        let s1 = s\<lparr>ah_pendingChallenges_s := (ah_pendingChallenges_s s)(challengeId := None)\<rparr> in
        if older_than (elapsed_seconds now (pc_createdAt ch)) CHALLENGE_TTL_SECONDS then (Some (bad_request e ''Challenge expired''), s1)
        else if \<not> (\<exists>d\<in>ran (ah_enrolledDevices_s s). ed_publicKey d = publicKey) then (Some (bad_request e ''Device not enrolled''), s1)
        else if \<not> be_tls e then (Some (server_error e ''Signature verification not available (TLS disabled)''), s1)
        else if \<not> be_bio e then (Some (server_error e ''Signature verification failed''), s1)
        else (case be_pubkey e publicKey of None \<Rightarrow> (Some (bad_request e ''Invalid public key format''), s1)
        | Some pkey \<Rightarrow>
          if \<not> be_ctx e then (Some (server_error e ''Signature verification failed''), s1)
          else (case (if be_verifyInit e pkey \<and> be_verifyUpdate e pkey (pc_nonce ch)
                      then map_option (be_verifyFinal e pkey (pc_nonce ch)) (hex_decode signature) else Some False) of
              None \<Rightarrow> (None, s1)
            | Some verified \<Rightarrow>
                if \<not> verified then (Some (bad_request e ''Signature verification failed''), s1)
                else (Some (json_ok e (endObject (value_ulong 3600 (jw_key ''expiresIn'' (value_string (readUrandom random)
                       (jw_key ''accessToken'' (beginObject JsonWriter_new))))))), s1)))))))"

section \<open>How long a key works\<close>

definition key_accepted :: "ApiKeyAuth \<Rightarrow> int \<Rightarrow> string \<Rightarrow> bool" where
  "key_accepted s t k \<longleftrightarrow> ka_apiKey_s s = k \<or> (\<exists>e\<in>set (ka_keys_s s). ke_expiresAt e > t \<and> ke_key e = k)"

definition exempt :: "HttpRequest \<Rightarrow> bool" where
  "exempt request \<longleftrightarrow> http_method request = ''GET'' \<and> take 7 (path request) = ''/status''"

lemma validate_iff:
  "fst (validate jwt now s request response) \<longleftrightarrow> exempt request \<or>
     ka_apiKey_s s \<noteq> [] \<and> (\<exists>token. auth_header request = bearer @ token \<and>
       (key_accepted s now token \<or> (\<exists>cfg. ka_jwt s = Some cfg \<and> jwt cfg token)))"
proof -
  have "take (length bearer) h = bearer \<longleftrightarrow> (\<exists>token. h = bearer @ token \<and> token = drop (length bearer) h)" for h :: string
    by (metis append_eq_conv_conj)
  note pre = this [of "auth_header request"]
  have keys: "key_accepted s now token \<longleftrightarrow> ss_equals (ka_apiKey_s s) token \<or> list_ex (\<lambda>e. ke_expiresAt e > now \<and> ss_equals (ke_key e) token) (ka_keys_s s)" for token
    by (auto simp: key_accepted_def list_ex_iff)
  have jw: "(case ka_jwt s of None \<Rightarrow> False | Some cfg \<Rightarrow> jwt cfg token) \<longleftrightarrow> (\<exists>cfg. ka_jwt s = Some cfg \<and> jwt cfg token)" for token
    by (cases "ka_jwt s") simp_all
  show ?thesis
  proof (cases "exempt request \<or> ka_apiKey_s s = []")
    case True
    then show ?thesis by (auto simp: validate_def exempt_def)
  next
    case False
    then have "fst (validate jwt now s request response) \<longleftrightarrow> take (length bearer) (auth_header request) = bearer \<and>
        (key_accepted s now (drop (length bearer) (auth_header request)) \<or> (\<exists>cfg. ka_jwt s = Some cfg \<and> jwt cfg (drop (length bearer) (auth_header request))))"
      unfolding validate_def exempt_def Let_def keys jw by (simp del: ss_equals_eq split_paired_Ex) fastforce
    with False pre show ?thesis by (metis append_eq_conv_conj)
  qed
qed

type_synonym rotation = "byte list \<times> int \<times> int \<times> int"

definition rotate :: "rotation \<Rightarrow> ApiKeyAuth \<Rightarrow> ApiKeyAuth" where
  "rotate r s = (case r of (bs, now, now2, grace) \<Rightarrow> snd (rotateKey (Some bs) now now2 grace s))"

text \<open>Each key with the time until which it works.\<close>

fun lifetimes :: "string \<Rightarrow> rotation list \<Rightarrow> (string \<times> int) list" where
  "lifetimes k [] = [(k, time_max)]"
| "lifetimes k ((bs, now, now2, grace) # rs) = (k, now + grace * 1000000000) # lifetimes (hex_bytes bs) rs"

definition in_range :: "int \<Rightarrow> rotation \<Rightarrow> bool" where
  "in_range t r \<longleftrightarrow> (case r of (bs, now, now2, grace) \<Rightarrow> 0 \<le> grace \<and> 0 \<le> now \<and> now + grace * 1000000000 < 2 ^ 63 \<and> now2 \<le> t)"

lemma wrap64_id: "0 \<le> i \<Longrightarrow> i < 2 ^ 63 \<Longrightarrow> wrap64 i = i"
  by (simp add: wrap64_def int_word_sint)

lemma rotations_accept:
  assumes "ka_apiKey_s s = k0" "ka_keys_s s = fresh_key k0 # ds" "\<forall>e\<in>set ds. ke_deprecated e" "\<forall>r\<in>set rs. in_range t r" "t < time_max"
  shows "key_accepted (fold rotate rs s) t k \<longleftrightarrow>
    (\<exists>u. (k, u) \<in> set (lifetimes k0 rs) \<and> t < u) \<or> (\<exists>e\<in>set ds. ke_expiresAt e > t \<and> ke_key e = k)"
  using assms
proof (induction rs arbitrary: s k0 ds)
  case Nil
  then show ?case by (auto simp: key_accepted_def fresh_key_def)
next
  case (Cons r rs)
  obtain bs now now2 grace where r: "r = (bs, now, now2, grace)" by (cases r)
  have rng: "0 \<le> grace" "0 \<le> now" "now + grace * 1000000000 < 2 ^ 63" "now2 \<le> t" using Cons.prems(4) by (auto simp: r in_range_def)
  define old where "old = \<lparr>ke_key = k0, ke_expiresAt = now + grace * 1000000000, ke_deprecated = True\<rparr>"
  define ds' where "ds' = filter (\<lambda>e. \<not> ke_expiresAt e \<le> now2) (old # ds)"
  have w: "wrap64 (now + wrap64 (grace * 1000000000)) = now + grace * 1000000000"
    using rng by (simp add: wrap64_id)
  have "map (\<lambda>e. if \<not> ke_deprecated e then e\<lparr>ke_deprecated := True, ke_expiresAt := x\<rparr> else e) ds = ds" for x
    using Cons.prems(3) by (intro map_idI) simp
  then have "ka_keys_s (rotate r s) = fresh_key (hex_bytes bs) # ds'" "ka_apiKey_s (rotate r s) = hex_bytes bs"
    using Cons.prems(2,3) by (auto simp: rotate_def r rotateKey_def purgeExpiredKeys_def w fresh_key_def old_def ds'_def Let_def intro!: filter_cong)
  moreover have "\<forall>e\<in>set ds'. ke_deprecated e" using Cons.prems(3) by (auto simp: ds'_def old_def)
  ultimately have "key_accepted (fold rotate rs (rotate r s)) t k \<longleftrightarrow>
      (\<exists>u. (k, u) \<in> set (lifetimes (hex_bytes bs) rs) \<and> t < u) \<or> (\<exists>e\<in>set ds'. ke_expiresAt e > t \<and> ke_key e = k)"
    using Cons.IH [of "rotate r s" "hex_bytes bs" ds'] Cons.prems(4,5) by simp
  moreover have "(\<exists>e\<in>set ds'. ke_expiresAt e > t \<and> ke_key e = k) \<longleftrightarrow> (k = k0 \<and> t < now + grace * 1000000000) \<or> (\<exists>e\<in>set ds. ke_expiresAt e > t \<and> ke_key e = k)"
    using rng(4) by (auto simp: ds'_def old_def)
  ultimately show ?case by (auto simp: r)
qed

section \<open>A challenge is used once\<close>

datatype 'k auth_event = AuEnroll "'k bridge_env" "byte list option" int HttpRequest | AuChallenge "'k bridge_env" int "byte list option" "byte list option" int
  | AuVerify "'k bridge_env" int "byte list option" HttpRequest

fun auth_step :: "'k auth_event \<Rightarrow> AuthHandler \<Rightarrow> AuthHandler" where
  "auth_step (AuEnroll e random now request) s = snd (enrollDevice e random now request s)"
| "auth_step (AuChallenge e now1 random1 random2 now2) s = snd (getChallenge e now1 random1 random2 now2 s)"
| "auth_step (AuVerify e now random request) s = snd (verifySignature e now random request s)"

fun draws :: "string \<Rightarrow> 'k auth_event \<Rightarrow> bool" where
  "draws c (AuChallenge e now1 random1 random2 now2) = (readUrandom random1 = c)"
| "draws c _ = False"

text \<open>The challenge a request names.\<close>

definition names_challenge :: "'k bridge_env \<Rightarrow> HttpRequest \<Rightarrow> string option" where
  "names_challenge e request = getString ''challengeId'' (JsonReader_new (be_parse e) (body request))"

definition granted :: "HttpResponse option \<times> AuthHandler \<Rightarrow> bool" where
  "granted out \<longleftrightarrow> (case fst out of Some resp \<Rightarrow> statusCode_m resp = 200 | None \<Rightarrow> False)"

lemma status_codes [simp]:
  "statusCode_m (bad_request e m) = 400" "statusCode_m (server_error e m) = 500" "statusCode_m (json_ok e w) = 200"
  by (simp_all add: bad_request_def server_error_def json_ok_def badRequest_def serverError_def http_ok_def error_response_def
      setJsonBody_def HttpResponse_new_def addCorsHeaders_def Let_def)

lemma verify_outcome:
  assumes "granted (verifySignature e now random request s)"
  shows "\<exists>c ch d pkey sig bs. names_challenge e request = Some c \<and> ah_pendingChallenges_s s c = Some ch \<and>
    \<not> older_than (elapsed_seconds now (pc_createdAt ch)) CHALLENGE_TTL_SECONDS \<and> d \<in> ran (ah_enrolledDevices_s s) \<and>
    be_pubkey e (ed_publicKey d) = Some pkey \<and> hex_decode sig = Some bs \<and> be_verifyFinal e pkey (pc_nonce ch) bs \<and>
    ah_pendingChallenges_s (snd (verifySignature e now random request s)) c = None"
proof -
  let ?r = "JsonReader_new (be_parse e) (body request)"
  note d = assms [unfolded granted_def verifySignature_def Let_def]
  obtain c where c: "getString ''challengeId'' ?r = Some c" using d by (cases "getString ''challengeId'' ?r") simp_all
  obtain sig where sg: "getString ''signature'' ?r = Some sig" using d c by (cases "getString ''signature'' ?r") simp_all
  obtain pk where pk: "getString ''publicKey'' ?r = Some pk" using d c sg by (cases "getString ''publicKey'' ?r") simp_all
  obtain ch where ch: "ah_pendingChallenges_s s c = Some ch" using d c sg pk by (cases "ah_pendingChallenges_s s c") simp_all
  have g: "\<not> older_than (elapsed_seconds now (pc_createdAt ch)) CHALLENGE_TTL_SECONDS" "\<exists>d\<in>ran (ah_enrolledDevices_s s). ed_publicKey d = pk" "be_tls e" "be_bio e"
    using d c sg pk ch by (auto split: if_splits)
  obtain pkey where pkey: "be_pubkey e pk = Some pkey" using d c sg pk ch g by (cases "be_pubkey e pk") simp_all
  have v: "be_ctx e" "be_verifyInit e pkey" "be_verifyUpdate e pkey (pc_nonce ch)"
    using d c sg pk ch g pkey by (auto split: if_splits)
  obtain bs where bs: "hex_decode sig = Some bs" "be_verifyFinal e pkey (pc_nonce ch) bs"
    using d c sg pk ch g pkey v by (cases "hex_decode sig") (auto split: if_splits)
  have "ah_pendingChallenges_s (snd (verifySignature e now random request s)) c = None"
    using c sg pk ch g pkey v bs by (simp add: verifySignature_def Let_def)
  with c ch g(1,2) pkey bs show ?thesis unfolding names_challenge_def by blast
qed

lemma step_absent:
  assumes "ah_pendingChallenges_s s c = None" "\<not> draws c ev"
  shows "ah_pendingChallenges_s (auth_step ev s) c = None"
  using assms
  by (cases ev) (simp_all add: enrollDevice_def getChallenge_def verifySignature_def evictExpiredChallenges_def Let_def split: option.splits if_splits)

lemma run_absent: "ah_pendingChallenges_s s c = None \<Longrightarrow> \<forall>ev\<in>set evs. \<not> draws c ev \<Longrightarrow> ah_pendingChallenges_s (fold auth_step evs s) c = None"
  by (induction evs arbitrary: s) (simp_all add: step_absent)

section \<open>The policy that was loaded\<close>

lemma load_roles_map: "distinct (map fst ms) \<Longrightarrow> load_roles ms m role = (case map_of ms role of Some j \<Rightarrow> Some (string_elements j) | None \<Rightarrow> m role)"
proof (induction ms m rule: load_roles.induct)
  case (2 roleName arr ms roles)
  then have "map_of ms roleName = None" by (auto simp: map_of_eq_None_iff)
  moreover have "load_roles ms (roles(roleName \<mapsto> string_elements arr)) role =
      (case map_of ms role of Some j \<Rightarrow> Some (string_elements j) | None \<Rightarrow> (roles(roleName \<mapsto> string_elements arr)) role)"
    by (rule "2.IH") (use "2.prems" in simp)
  ultimately show ?case unfolding load_roles.simps
    by (cases "role = roleName"; cases "map_of ms role") (simp_all del: map_of_eq_Some_iff)
qed simp

lemma load_keys_map: "distinct (map fst ms) \<Longrightarrow> load_keys ms m key = (case map_of ms key of Some (JString r) \<Rightarrow> Some r
    | Some j \<Rightarrow> m key | None \<Rightarrow> m key)"
proof (induction ms m rule: load_keys.induct)
  case (2 k role ms keys)
  then have k: "map_of ms k = None" by (auto simp: map_of_eq_None_iff)
  let ?keys = "case role of JString r \<Rightarrow> keys(k \<mapsto> r) | _ \<Rightarrow> keys"
  have "?keys key = (if key = k then (case role of JString r \<Rightarrow> Some r | _ \<Rightarrow> keys key) else keys key)" by (cases role) simp_all
  moreover have "load_keys ms ?keys key = (case map_of ms key of Some (JString r) \<Rightarrow> Some r | Some j \<Rightarrow> ?keys key | None \<Rightarrow> ?keys key)"
    using 2 by simp
  ultimately show ?case unfolding load_keys.simps using k
    by (cases "key = k"; cases "map_of ms key") (simp_all del: map_of_eq_Some_iff split: json.split)
qed simp

section \<open>Properties\<close>

text \<open>C33: how long a key works, on a bridge without JWT. Whatever keys were rotated in before time \<open>t\<close>, each from some random bytes and
  with a grace period of at least 0 seconds that ends before the clock's 2^63 nanoseconds, a request with the key \<open>k\<close> in its header
  passes at time \<open>t\<close> exactly when \<open>k\<close> is the current key, or was replaced and its grace period is not over; purging does not
  change this. A longer grace period, which a request may ask for, overflows and ends at once.\<close>

theorem key_rotation:
  assumes "s = fst (ka_initialize envKey fileKey random ApiKeyAuth_static)" "ka_apiKey_s s \<noteq> []"
    and "\<forall>r\<in>set rs. in_range t r \<and> fst r \<noteq> []" "t < time_max"
    and "\<not> exempt request" "auth_header request = bearer @ k"
  shows "fst (validate jwt t (fold rotate rs s) request response) \<longleftrightarrow>
    (\<exists>u. (k, u) \<in> set (lifetimes (ka_apiKey_s s) rs) \<and> t < u)"
proof -
  have s: "ka_keys_s s = [fresh_key (ka_apiKey_s s)]" "ka_jwt s = None"
    using assms(1,2) by (auto simp: ka_initialize_def ApiKeyAuth_static_def Let_def split: if_splits option.splits)
  have kept: "ka_jwt (fold rotate rs a) = None \<and> ka_apiKey_s (fold rotate rs a) \<noteq> []"
    if "ka_jwt a = None" "ka_apiKey_s a \<noteq> []" "\<forall>r\<in>set rs. fst r \<noteq> []" for a
    using that
  proof (induction rs arbitrary: a)
    case (Cons r rs)
    obtain bs now now2 grace where r: "r = (bs, now, now2, grace)" by (cases r)
    have "hex_bytes bs \<noteq> []" using Cons.prems(3) by (cases bs) (simp_all add: r hex_bytes_def)
    then have "ka_jwt (rotate r a) = None" "ka_apiKey_s (rotate r a) \<noteq> []"
      using Cons.prems(1) by (simp_all add: rotate_def r rotateKey_def purgeExpiredKeys_def Let_def)
    with Cons show ?case by simp
  qed simp
  have "key_accepted (fold rotate rs s) t k \<longleftrightarrow> (\<exists>u. (k, u) \<in> set (lifetimes (ka_apiKey_s s) rs) \<and> t < u)"
    using rotations_accept [OF refl s(1), of rs t k] assms(3,4) by simp
  moreover have "fst (validate jwt t (fold rotate rs s) request response) \<longleftrightarrow> key_accepted (fold rotate rs s) t k"
    unfolding validate_iff using kept [OF s(2) assms(2)] assms(3,5,6) by auto
  ultimately show ?thesis by simp
qed

theorem key_rotation_witness:
  "\<exists>s. s = fold rotate [([1], 10, 10, 2)] (fst (ka_initialize (Some ''a'') None None ApiKeyAuth_static)) \<and>
     fst (validate (\<lambda>_ _. False) 2000000009 s (HttpRequest_new\<lparr>headers := [''authorization'' \<mapsto> bearer @ ''a'']\<rparr>) (http_ok False [] [])) \<and>
     \<not> fst (validate (\<lambda>_ _. False) 2000000010 s (HttpRequest_new\<lparr>headers := [''authorization'' \<mapsto> bearer @ ''a'']\<rparr>) (http_ok False [] []))"
proof -
  let ?s = "fst (ka_initialize (Some ''a'') None None ApiKeyAuth_static)"
  let ?q = "HttpRequest_new\<lparr>headers := [''authorization'' \<mapsto> bearer @ ''a'']\<rparr>"
  have h: "hex_bytes [1] = ''01''" by (simp add: hex_bytes_def hexDigits_def)
  have "fst (validate (\<lambda>_ _. False) t (fold rotate [([1], 10, 10, 2)] ?s) ?q (http_ok False [] [])) \<longleftrightarrow> t < 2000000010" if "t = 2000000009 \<or> t = 2000000010" for t
    by (subst key_rotation [where k = "''a''", OF refl])
      (use that in \<open>auto simp: ka_initialize_def ApiKeyAuth_static_def in_range_def time_max_def exempt_def auth_header_def HttpRequest_new_def h\<close>)
  then show ?thesis by auto
qed

text \<open>C34: no handler without a key. Behind the router, a request that is not a \<open>GET\<close> of the status and whose header carries
  no accepted key and no valid token gets one of four fixed answers, whatever routes and handlers there are.\<close>

theorem no_key_no_handler:
  assumes "rt_authMiddleware_m rt = Some (validate jwt now s)" "\<not> exempt request"
    and "\<forall>token. auth_header request = bearer @ token \<longrightarrow> \<not> key_accepted s now token \<and> (\<forall>cfg. ka_jwt s = Some cfg \<longrightarrow> \<not> jwt cfg token)"
  shows "dispatch tls corsOrigin request rt \<in> {HttpResponse_new tls corsOrigin 200 ''OK'', notFound tls corsOrigin ''NOT_FOUND'',
    methodNotAllowed tls corsOrigin, snd (validate jwt now s request (HttpResponse_new tls corsOrigin 401 ''Unauthorized''))}"
proof -
  have "\<not> fst (validate jwt now s request (HttpResponse_new tls corsOrigin 401 ''Unauthorized''))"
    unfolding validate_iff using assms(2,3) by blast
  then show ?thesis using assms(1)
    by (cases "validate jwt now s request (HttpResponse_new tls corsOrigin 401 ''Unauthorized'')")
      (simp add: dispatch_def split: option.splits prod.splits)
qed

theorem no_key_no_handler_witness:
  "dispatch False [] (HttpRequest_new\<lparr>http_method := ''POST'', path := ''/admin/peers''\<rparr>)
     (HttpRouter_new\<lparr>rt_authMiddleware_m := Some (validate (\<lambda>_ _. False) 5 ApiKeyAuth_static)\<rparr>) \<noteq> http_ok False [] ''secret''"
proof -
  let ?d = "dispatch False [] (HttpRequest_new\<lparr>http_method := ''POST'', path := ''/admin/peers''\<rparr>)
     (HttpRouter_new\<lparr>rt_authMiddleware_m := Some (validate (\<lambda>_ _. False) 5 ApiKeyAuth_static)\<rparr>)"
  have c: "body_m (HttpResponse_new tls c n m) = []" for tls c n m
    by (simp add: HttpResponse_new_def addCorsHeaders_def Let_def)
  have "body_m ?d = [] \<or> hd (body_m ?d) = CHR ''{''"
    using no_key_no_handler [of "HttpRouter_new\<lparr>rt_authMiddleware_m := Some (validate (\<lambda>_ _. False) 5 ApiKeyAuth_static)\<rparr>" "\<lambda>_ _. False" 5
        ApiKeyAuth_static "HttpRequest_new\<lparr>http_method := ''POST'', path := ''/admin/peers''\<rparr>" False "[]"]
    by (auto simp: exempt_def auth_header_def HttpRequest_new_def bearer_def validate_def ApiKeyAuth_static_def notFound_def
        methodNotAllowed_def error_response_def setJsonBody_def buildErrorJson_def c)
  moreover have "body_m (http_ok False [] ''secret'') = ''secret''" by (simp add: http_ok_def setJsonBody_def)
  ultimately show ?thesis by auto
qed

text \<open>C35: a challenge works once. A token is granted only for a challenge that is pending and at most 60 seconds old, to an
  enrolled key whose signature of the nonce verifies; and never again for the same challenge, whatever comes in between,
  unless the random source draws its id a second time.\<close>

theorem challenge_single_use:
  assumes "granted (verifySignature e now random request s)" "names_challenge e request = Some c"
    and "\<forall>ev\<in>set evs. \<not> draws c ev" "names_challenge e' request' = Some c"
  shows "(\<exists>ch d pkey sig bs. ah_pendingChallenges_s s c = Some ch \<and> \<not> older_than (elapsed_seconds now (pc_createdAt ch)) 60 \<and>
      d \<in> ran (ah_enrolledDevices_s s) \<and> be_pubkey e (ed_publicKey d) = Some pkey \<and> hex_decode sig = Some bs \<and> be_verifyFinal e pkey (pc_nonce ch) bs) \<and>
    \<not> granted (verifySignature e' now' random' request' (fold auth_step evs (snd (verifySignature e now random request s))))"
proof -
  obtain ch d pkey sig bs where o: "ah_pendingChallenges_s s c = Some ch" "\<not> older_than (elapsed_seconds now (pc_createdAt ch)) CHALLENGE_TTL_SECONDS"
      "d \<in> ran (ah_enrolledDevices_s s)" "be_pubkey e (ed_publicKey d) = Some pkey" "hex_decode sig = Some bs" "be_verifyFinal e pkey (pc_nonce ch) bs"
      "ah_pendingChallenges_s (snd (verifySignature e now random request s)) c = None"
    using verify_outcome [OF assms(1)] assms(2) by auto
  have "ah_pendingChallenges_s (fold auth_step evs (snd (verifySignature e now random request s))) c = None"
    by (rule run_absent [OF o(7) assms(3)])
  then have "\<not> granted (verifySignature e' now' random' request' (fold auth_step evs (snd (verifySignature e now random request s))))"
    using verify_outcome assms(4) by fastforce
  with o(1-6) show ?thesis by (auto simp: CHALLENGE_TTL_SECONDS_def)
qed

theorem challenge_single_use_witness:
  "\<exists>e s request. granted (verifySignature (e :: unit bridge_env) 5 None request s) \<and>
     \<not> granted (verifySignature e 6 None request (fold auth_step [AuEnroll e None 5 request] (snd (verifySignature e 5 None request s))))"
proof -
  let ?doc = "JObject [(''challengeId'', JString ''c''), (''signature'', JString ''''), (''publicKey'', JString ''p'')]"
  let ?e = "\<lparr>be_tls = True, be_cors = [], be_parse = \<lambda>_. Some ?doc, be_bio = True, be_pubkey = \<lambda>_. Some (), be_ctx = True,
    be_verifyInit = \<lambda>_. True, be_verifyUpdate = \<lambda>_ _. True, be_verifyFinal = \<lambda>_ _ _. True\<rparr>"
  let ?s = "\<lparr>ah_pendingChallenges_s = [''c'' \<mapsto> \<lparr>pc_nonce = ''n'', pc_createdAt = 0\<rparr>],
    ah_enrolledDevices_s = [''d'' \<mapsto> \<lparr>ed_publicKey = ''p'', ed_deviceName = [], ed_biometricType = [], ed_enrolledAt = 0\<rparr>]\<rparr>"
  have g: "getString k (JsonReader_new (\<lambda>_. Some ?doc) (body HttpRequest_new)) = (case map_of [(''challengeId'', ''c''), (''signature'', ''''), (''publicKey'', ''p'')] k of
      Some v \<Rightarrow> Some v | None \<Rightarrow> None)" if "k \<in> {''challengeId'', ''signature'', ''publicKey''}" for k
    using that by (auto simp: JsonReader_new_def HttpRequest_new_def is_object_def getString_def json_find_def checkDepthAndKeys.simps
        MAX_NESTING_DEPTH_def MAX_KEYS_PER_OBJECT_def MAX_STRING_LENGTH_def Let_def)
  have ok: "granted (verifySignature ?e 5 None HttpRequest_new ?s)"
    by (simp add: verifySignature_def g granted_def elapsed_seconds_def older_than_def CHALLENGE_TTL_SECONDS_def Let_def)
  moreover have "names_challenge ?e HttpRequest_new = Some ''c''" by (simp add: names_challenge_def g)
  ultimately have "\<not> granted (verifySignature ?e 6 None HttpRequest_new (fold auth_step [AuEnroll ?e None 5 HttpRequest_new]
      (snd (verifySignature ?e 5 None HttpRequest_new ?s))))"
    using challenge_single_use [OF ok, of "''c''" "[AuEnroll ?e None 5 HttpRequest_new]" ?e HttpRequest_new 6 None] by simp
  with ok show ?thesis by blast
qed

text \<open>Runs of the policy, and what they promise: the path of the last initialize, whether an initialize has loaded a document, and
  the document loaded last. A document grants a key what it lists for the role it gives the key.\<close>

datatype rb_call = RbInitialize "string \<Rightarrow> json option" string | RbReload "string \<Rightarrow> json option"

primrec rb_do :: "rb_call \<Rightarrow> RbacPolicy \<Rightarrow> RbacPolicy" where
  "rb_do (RbInitialize file pf) r = snd (rb_initialize file pf r)"
| "rb_do (RbReload file) r = snd (rb_reload file r)"

primrec policy_after :: "rb_call \<Rightarrow> string \<times> bool \<times> json \<Rightarrow> string \<times> bool \<times> json" where
  "policy_after (RbInitialize file pf) x = (case x of (_, on, doc) \<Rightarrow>
     (case (if pf = [] then None else file pf) of None \<Rightarrow> (pf, on, doc) | Some d \<Rightarrow> (pf, True, d)))"
| "policy_after (RbReload file) x = (case x of (pf, on, doc) \<Rightarrow>
     (case (if pf = [] then None else file pf) of None \<Rightarrow> (pf, on, doc) | Some d \<Rightarrow> (pf, on, d)))"

definition doc_grants :: "json \<Rightarrow> string \<Rightarrow> string \<Rightarrow> bool" where
  "doc_grants doc k q \<longleftrightarrow> (case map_of (json_members ''keys'' doc) k of
     Some (JString role) \<Rightarrow> (case map_of (json_members ''roles'' doc) role of
         Some (JArray xs) \<Rightarrow> JString ''*'' \<in> set xs \<or> JString q \<in> set xs
       | _ \<Rightarrow> False)
   | _ \<Rightarrow> False)"

text \<open>The members of an object have different names, as the parser's objects have.\<close>

definition plain_doc :: "json \<Rightarrow> bool" where
  "plain_doc doc \<longleftrightarrow> distinct (map fst (json_members ''roles'' doc)) \<and> distinct (map fst (json_members ''keys'' doc))"

primrec plain_call :: "rb_call \<Rightarrow> bool" where
  "plain_call (RbInitialize file pf) = (case file pf of None \<Rightarrow> True | Some doc \<Rightarrow> plain_doc doc)"
| "plain_call (RbReload file) = (\<forall>pf. case file pf of None \<Rightarrow> True | Some doc \<Rightarrow> plain_doc doc)"

definition policy_rep :: "RbacPolicy \<Rightarrow> string \<times> bool \<times> json \<Rightarrow> bool" where
  "policy_rep r x = (case x of (pf, on, doc) \<Rightarrow> rb_policyFilePath_s r = pf \<and> rb_enabled_s r = on \<and> plain_doc doc \<and>
     rb_roles_s r = load_roles (json_members ''roles'' doc) Map.empty \<and> rb_keyRoles_s r = load_keys (json_members ''keys'' doc) Map.empty)"

lemma policy_rep_new: "policy_rep RbacPolicy_static ([], False, JNull)"
  by (simp add: policy_rep_def RbacPolicy_static_def plain_doc_def json_members_def json_find_def)

lemma policy_rep_do: "policy_rep r x \<Longrightarrow> plain_call c \<Longrightarrow> policy_rep (rb_do c r) (policy_after c x)"
  by (cases c; cases x) (auto simp: policy_rep_def rb_initialize_def rb_reload_def loadPolicy_def Let_def split: option.splits if_splits)

lemma policy_rep_run: "policy_rep r x \<Longrightarrow> \<forall>c\<in>set cs. plain_call c \<Longrightarrow> policy_rep (fold rb_do cs r) (fold policy_after cs x)"
proof (induction cs arbitrary: r x)
  case (Cons c cs)
  then show ?case using policy_rep_do [OF Cons.prems(1)] by simp
qed simp

lemma string_elements_iff: "x \<in> string_elements j \<longleftrightarrow> (\<exists>xs. j = JArray xs \<and> JString x \<in> set xs)"
  by (cases j) (simp_all add: string_elements_def)

lemma policy_rep_role:
  "policy_rep r (pf, True, doc) \<Longrightarrow> getRoleForKey k r = (case map_of (json_members ''keys'' doc) k of Some (JString role) \<Rightarrow> role | _ \<Rightarrow> [])"
  by (auto simp: policy_rep_def plain_doc_def getRoleForKey_def load_keys_map split: option.splits json.splits)

lemma policy_rep_permission: "policy_rep r (pf, True, doc) \<Longrightarrow> hasPermission k q r \<longleftrightarrow> doc_grants doc k q"
  by (auto simp: policy_rep_def plain_doc_def hasPermission_def doc_grants_def load_keys_map load_roles_map string_elements_iff
      split: option.splits json.splits)

text \<open>C36: what the policy decides along any calls of initialize and reload from the start of the process, where every file may
  change between calls and the parser gives an object no name twice. As long as no initialize has loaded a document, every
  key has every permission and the role admin; a reload alone never ends that, even one that loads a document. From the
  first initialize that loads one, a key has exactly the permissions that the document loaded last lists for the role it gives the key,
  or all when it lists the star, other keys have none, and calls that load nothing change no decision. Every decision is
  the decision of the abstract policy.\<close>

theorem rbac_decides:
  assumes "\<forall>c\<in>set cs. plain_call c" "fold policy_after cs ([], False, JNull) = (pf, on, doc)"
  shows "(hasPermission k q (fold rb_do cs RbacPolicy_static) \<longleftrightarrow> (if on then doc_grants doc k q else True)) \<and>
    getRoleForKey k (fold rb_do cs RbacPolicy_static) =
      (if on then (case map_of (json_members ''keys'' doc) k of Some (JString role) \<Rightarrow> role | _ \<Rightarrow> []) else ''admin'')"
proof -
  have rep: "policy_rep (fold rb_do cs RbacPolicy_static) (pf, on, doc)"
    using policy_rep_run [OF policy_rep_new assms(1)] assms(2) by simp
  show ?thesis
  proof (cases on)
    case True
    then show ?thesis using policy_rep_permission policy_rep_role rep by simp
  next
    case False
    then show ?thesis using rep by (simp add: policy_rep_def hasPermission_def getRoleForKey_def)
  qed
qed

theorem rbac_decides_witness:
  "let file = (\<lambda>p. if p = ''f'' then Some (JObject [(''roles'', JObject [(''user'', JArray [JString ''query''])]),
       (''keys'', JObject [(''k'', JString ''user'')])]) else None);
     none = (\<lambda>p :: string. None :: json option);
     r = fold rb_do [RbInitialize none ''f'', RbReload file] RbacPolicy_static;
     r' = fold rb_do [RbInitialize none ''f'', RbReload file, RbInitialize file ''f'', RbReload none] RbacPolicy_static in
   hasPermission ''x'' ''ban'' r \<and> hasPermission ''k'' ''query'' r' \<and> \<not> hasPermission ''k'' ''ban'' r' \<and> \<not> hasPermission ''x'' ''query'' r' \<and>
   getRoleForKey ''k'' r' = ''user''"
proof -
  define d where "d = JObject [(''roles'', JObject [(''user'', JArray [JString ''query''])]), (''keys'', JObject [(''k'', JString ''user'')])]"
  define fl where "fl = (\<lambda>p. if p = ''f'' then Some d else None)"
  define none where "none = (\<lambda>p :: string. None :: json option)"
  have m: "json_members ''roles'' d = [(''user'', JArray [JString ''query''])]" "json_members ''keys'' d = [(''k'', JString ''user'')]"
    by (simp_all add: d_def json_members_def json_find_def)
  have g: "doc_grants d k q \<longleftrightarrow> k = ''k'' \<and> q = ''query''" for k q
    by (auto simp: doc_grants_def m)
  have plain: "\<forall>c\<in>set [RbInitialize none ''f'', RbReload fl, RbInitialize fl ''f'', RbReload none]. plain_call c"
      "\<forall>c\<in>set [RbInitialize none ''f'', RbReload fl]. plain_call c"
    by (simp_all add: fl_def none_def plain_doc_def m)
  have run: "fold policy_after [RbInitialize none ''f'', RbReload fl, RbInitialize fl ''f'', RbReload none] ([], False, JNull) = (''f'', True, d)"
      "fold policy_after [RbInitialize none ''f'', RbReload fl] ([], False, JNull) = (''f'', False, d)"
    by (simp_all add: fl_def none_def)
  show ?thesis
    unfolding d_def [symmetric] fl_def [symmetric] none_def [symmetric] Let_def
    using rbac_decides [OF plain(1) run(1)] rbac_decides [OF plain(2) run(2)] by (simp add: g m)
qed

end
