(* ===== verification/Cluster.thy ===== *)
theory Cluster
  imports Json HttpRouter RatingEngine
begin

text \<open>
  AlpineRestBridge/ClusterCoordinator.cpp, DiscoveryBeacon.cpp and SafeParse.h: the bridges of a cluster, who of them answers a query, and
  the beacons that announce them. The clock, the hash of strings, the order of the hash tables, the load of the machine,
  the network, the JSON parser and the query interface are arguments; an exception that leaves a handler is \<open>None\<close>.
  Shown: a query is never recognised as one of another bridge, when a client is redirected, the bounds of the timeout,
  that a partition is not noticed, and that the bridges do not hear their own beacons.
\<close>

section \<open>Text\<close>

text \<open>\<^verbatim>\<open>std::from_chars\<close> of the whole text.\<close>

definition parseUlong :: "string \<Rightarrow> ulong option" where
  "parseUlong s = (if s \<noteq> [] \<and> list_all is_digit s \<and> digits_val s < 2 ^ 64 then Some (of_nat (digits_val s)) else None)"

fun show_hex :: "nat \<Rightarrow> string" where
  "show_hex n = (if n < 16 then [hexDigits ! n] else show_hex (n div 16) @ [hexDigits ! (n mod 16)])"

declare show_hex.simps [simp del]

section \<open>State\<close>

record NodeInfo =
  ni_nodeId :: string
  ni_host :: string
  ni_restPort :: ushort
  ni_activeQueries :: "32 word"
  ni_connectionCount :: "32 word"
  ni_cpuLoadEstimate :: real
  ni_region :: string
  ni_rttMs :: real
  ni_capabilities :: "string list"
  ni_lastHeartbeat :: int

definition NodeInfo_new :: NodeInfo where
  "NodeInfo_new = \<lparr>ni_nodeId = [], ni_host = [], ni_restPort = 0, ni_activeQueries = 0, ni_connectionCount = 0, ni_cpuLoadEstimate = 0,
     ni_region = [], ni_rttMs = 0, ni_capabilities = [], ni_lastHeartbeat = 0\<rparr>"

record DedupEntry =
  de_nodeId :: string
  de_queryId :: ulong
  de_registeredAt :: int
  de_wallClockMs :: ulong

record ClusterCoordinator =
  cl_nodeId_s :: string
  cl_localHost_s :: string
  cl_localRegion_s :: string
  cl_restPort_s :: ushort
  cl_beaconPort_s :: ushort
  cl_isolated_s :: bool
  cl_nodes_s :: "string \<rightharpoonup> NodeInfo"
  cl_dedupShards_s :: "nat \<Rightarrow> string \<rightharpoonup> DedupEntry"
  cl_called :: bool
  cl_initialized_s :: bool

definition ClusterCoordinator_static :: ClusterCoordinator where
  "ClusterCoordinator_static = \<lparr>cl_nodeId_s = [], cl_localHost_s = [], cl_localRegion_s = [], cl_restPort_s = 0, cl_beaconPort_s = 0,
     cl_isolated_s = False, cl_nodes_s = Map.empty, cl_dedupShards_s = \<lambda>_. Map.empty, cl_called = False, cl_initialized_s = False\<rparr>"

definition DEDUP_SHARD_COUNT :: nat where "DEDUP_SHARD_COUNT = 8"
definition DEDUP_WINDOW_SEC :: int where "DEDUP_WINDOW_SEC = 30"
definition NODE_TIMEOUT_MIN_SEC :: int where "NODE_TIMEOUT_MIN_SEC = 35"
definition NODE_TIMEOUT_MAX_SEC :: int where "NODE_TIMEOUT_MAX_SEC = 120"
definition SPLIT_BRAIN_THRESHOLD :: real where "SPLIT_BRAIN_THRESHOLD = 1 / 2"
definition SPLIT_BRAIN_MULTIPLIER :: int where "SPLIT_BRAIN_MULTIPLIER = 2"

text \<open>The environment of a bridge.\<close>

record cluster_env =
  ce_tls :: bool
  ce_cors :: string
  ce_hash :: "string \<Rightarrow> ulong"
  ce_nodeOrder :: "(string \<rightharpoonup> NodeInfo) \<Rightarrow> string list"
  ce_entryOrder :: "(string \<rightharpoonup> DedupEntry) \<Rightarrow> string list"
  ce_parse :: "string \<Rightarrow> json option"
  ce_cpu :: real

text \<open>\<open>duration_cast\<close> to seconds, which rounds towards zero.\<close>

definition seconds_since :: "int \<Rightarrow> int \<Rightarrow> int" where
  "seconds_since now t = sgn (now - t) * (\<bar>now - t\<bar> div 1000000000)"

section \<open>Life cycle\<close>

definition generateNodeId :: "cluster_env \<Rightarrow> string \<Rightarrow> int \<Rightarrow> string" where
  "generateNodeId e hostname now = ''node-'' @ show_hex (unat (and (ce_hash e (hostname @ to_string_int now)) 0xFFFFFFFF))"

text \<open>Only the first call has an effect.\<close>

definition cl_initialize :: "cluster_env \<Rightarrow> ushort \<Rightarrow> ushort \<Rightarrow> string \<Rightarrow> int \<Rightarrow> string option \<Rightarrow> ClusterCoordinator \<Rightarrow> bool \<times> ClusterCoordinator" where
  "cl_initialize e restPort beaconPort hostname now regionEnv s =
     (if cl_called s then (True, s)
      else (True, s\<lparr>cl_restPort_s := restPort, cl_beaconPort_s := beaconPort, cl_nodeId_s := generateNodeId e hostname now,
        cl_localHost_s := hostname, cl_localRegion_s := (case regionEnv of Some r \<Rightarrow> r | None \<Rightarrow> ''default''), cl_called := True, cl_initialized_s := True\<rparr>))"

definition cl_shutdown :: "ClusterCoordinator \<Rightarrow> ClusterCoordinator" where
  "cl_shutdown s = (if \<not> cl_initialized_s s then s
     else s\<lparr>cl_initialized_s := False, cl_nodes_s := Map.empty, cl_dedupShards_s := \<lambda>_. Map.empty\<rparr>)"

section \<open>Membership\<close>

definition own_count :: "cluster_env \<Rightarrow> ClusterCoordinator \<Rightarrow> 32 word" where
  "own_count e s = of_nat (sum_list (map (\<lambda>i. length (filter (\<lambda>h. case cl_dedupShards_s s i h of
     Some entry \<Rightarrow> de_nodeId entry = cl_nodeId_s s | None \<Rightarrow> False) (ce_entryOrder e (cl_dedupShards_s s i)))) [0..<DEDUP_SHARD_COUNT]))"

definition getLocalNodeInfo :: "cluster_env \<Rightarrow> int \<Rightarrow> ClusterCoordinator \<Rightarrow> NodeInfo" where
  "getLocalNodeInfo e now s = NodeInfo_new\<lparr>ni_nodeId := cl_nodeId_s s, ni_host := cl_localHost_s s, ni_restPort := cl_restPort_s s,
     ni_region := cl_localRegion_s s, ni_cpuLoadEstimate := ce_cpu e, ni_lastHeartbeat := now, ni_activeQueries := own_count e s,
     ni_capabilities := [''query'', ''transfer'', ''stream'']\<rparr>"

definition node_list :: "cluster_env \<Rightarrow> ClusterCoordinator \<Rightarrow> NodeInfo list" where
  "node_list e s = map (\<lambda>i. the (cl_nodes_s s i)) (filter (\<lambda>i. cl_nodes_s s i \<noteq> None) (ce_nodeOrder e (cl_nodes_s s)))"

definition getClusterNodes :: "cluster_env \<Rightarrow> int \<Rightarrow> ClusterCoordinator \<Rightarrow> NodeInfo list" where
  "getClusterNodes e now s = getLocalNodeInfo e now s # node_list e s"

text \<open>Truncation of the average of the round trips that were measured.\<close>

definition computeAdaptiveTimeoutSec :: "cluster_env \<Rightarrow> ClusterCoordinator \<Rightarrow> int" where
  "computeAdaptiveTimeoutSec e s =
     (let rtts = filter (\<lambda>x. x > 0) (map ni_rttMs (node_list e s)) in
      if rtts = [] then NODE_TIMEOUT_MIN_SEC
      else min (max NODE_TIMEOUT_MIN_SEC \<lfloor>sum_list rtts / real (length rtts) * 10 / 1000\<rfloor>) NODE_TIMEOUT_MAX_SEC)"

definition evictStaleNodes :: "cluster_env \<Rightarrow> int \<Rightarrow> ClusterCoordinator \<Rightarrow> ClusterCoordinator" where
  "evictStaleNodes e now s = (let timeoutSec = computeAdaptiveTimeoutSec e s in
     s\<lparr>cl_nodes_s := (\<lambda>i. case cl_nodes_s s i of None \<Rightarrow> None
         | Some n \<Rightarrow> if seconds_since now (ni_lastHeartbeat n) > timeoutSec then None else Some n),
       cl_dedupShards_s := (\<lambda>k h. case cl_dedupShards_s s k h of None \<Rightarrow> None
         | Some d \<Rightarrow> if seconds_since now (de_registeredAt d) > DEDUP_WINDOW_SEC then None else Some d)\<rparr>)"

definition checkSplitBrain :: "cluster_env \<Rightarrow> int \<Rightarrow> ClusterCoordinator \<Rightarrow> ClusterCoordinator" where
  "checkSplitBrain e now s =
     (let nodes = node_list e s; window = computeAdaptiveTimeoutSec e s * SPLIT_BRAIN_MULTIPLIER in
      if nodes = [] then s\<lparr>cl_isolated_s := False\<rparr>
      else let unreachable = length (filter (\<lambda>n. seconds_since now (ni_lastHeartbeat n) > window) nodes)
        in s\<lparr>cl_isolated_s := real unreachable / real (length nodes) > SPLIT_BRAIN_THRESHOLD\<rparr>)"

definition isIsolated :: "ClusterCoordinator \<Rightarrow> bool" where
  "isIsolated s = cl_isolated_s s"

section \<open>Queries of the cluster\<close>

definition dedupShardIndex :: "cluster_env \<Rightarrow> string \<Rightarrow> nat" where
  "dedupShardIndex e key = unat (ce_hash e key) mod DEDUP_SHARD_COUNT"

definition hashQuery :: "cluster_env \<Rightarrow> string \<Rightarrow> string \<Rightarrow> ulong \<Rightarrow> string" where
  "hashQuery e queryString groupName autoHaltLimit =
     (let h = show_hex (unat (ce_hash e (queryString @ ''|'' @ groupName @ ''|'' @ show_dec (unat autoHaltLimit))))
      in replicate (16 - length h) (CHR ''0'') @ h)"

definition isDuplicateQuery :: "cluster_env \<Rightarrow> int \<Rightarrow> string \<Rightarrow> ClusterCoordinator \<Rightarrow> (string \<times> ushort) option" where
  "isDuplicateQuery e now queryHash s = (case cl_dedupShards_s s (dedupShardIndex e queryHash) queryHash of
       None \<Rightarrow> None
     | Some entry \<Rightarrow>
         if seconds_since now (de_registeredAt entry) > DEDUP_WINDOW_SEC then None
         else if de_nodeId entry = cl_nodeId_s s then None
         else map_option (\<lambda>n. (ni_host n, ni_restPort n)) (cl_nodes_s s (de_nodeId entry)))"

definition registerActiveQuery :: "cluster_env \<Rightarrow> int \<Rightarrow> ulong \<Rightarrow> string \<Rightarrow> ulong \<Rightarrow> ClusterCoordinator \<Rightarrow> ClusterCoordinator" where
  "registerActiveQuery e now wall queryHash queryId s = (let k = dedupShardIndex e queryHash in
     s\<lparr>cl_dedupShards_s := (cl_dedupShards_s s)(k := (cl_dedupShards_s s k)(queryHash \<mapsto>
       \<lparr>de_nodeId = cl_nodeId_s s, de_queryId = queryId, de_registeredAt = now, de_wallClockMs = wall\<rparr>))\<rparr>)"

definition unregisterActiveQuery :: "cluster_env \<Rightarrow> string \<Rightarrow> ClusterCoordinator \<Rightarrow> ClusterCoordinator" where
  "unregisterActiveQuery e queryHash s = (let k = dedupShardIndex e queryHash in
     s\<lparr>cl_dedupShards_s := (cl_dedupShards_s s)(k := (cl_dedupShards_s s k)(queryHash := None))\<rparr>)"

text \<open>The method that should take in the queries of other bridges has no body.\<close>

definition gossipActiveQueries :: "ClusterCoordinator \<Rightarrow> ClusterCoordinator" where
  "gossipActiveQueries s = s"

text \<open>The least loaded node; the clock is read for each.\<close>

definition node_score :: "string \<Rightarrow> NodeInfo \<Rightarrow> real" where
  "node_score region n = (let score = ni_cpuLoadEstimate n + real (unat (ni_activeQueries n)) * (1 / 10)
     in if ni_region n = region then score * (8 / 10) else score)"

fun best_node :: "(string \<Rightarrow> int) \<Rightarrow> int \<Rightarrow> string \<Rightarrow> NodeInfo list \<Rightarrow> (NodeInfo \<times> real) option \<Rightarrow> (NodeInfo \<times> real) option" where
  "best_node now timeoutSec region [] best = best"
| "best_node now timeoutSec region (n # ns) best =
     (if seconds_since (now (ni_nodeId n)) (ni_lastHeartbeat n) > timeoutSec then best_node now timeoutSec region ns best
      else let score = node_score region n in
        best_node now timeoutSec region ns (case best of
          None \<Rightarrow> Some (n, score)
        | Some (b, bestScore) \<Rightarrow> if score < bestScore then Some (n, score) else best))"

definition local_score :: "cluster_env \<Rightarrow> ClusterCoordinator \<Rightarrow> real" where
  "local_score e s = ce_cpu e + real (unat (own_count e s)) * (1 / 10)"

definition shouldRedirect :: "cluster_env \<Rightarrow> (string \<Rightarrow> int) \<Rightarrow> ClusterCoordinator \<Rightarrow> string option" where
  "shouldRedirect e now s =
     (case best_node now (computeAdaptiveTimeoutSec e s) (cl_localRegion_s s) (node_list e s) None of
        None \<Rightarrow> None
      | Some (best, bestScore) \<Rightarrow>
          if bestScore \<ge> local_score e s * (8 / 10) then None
          else Some (''http://'' @ ni_host best @ '':'' @ show_dec (unat (ni_restPort best))))"

section \<open>Handlers\<close>

definition json_body :: "json \<Rightarrow> string" where
  "json_body doc = jw_result (emit doc JsonWriter_new)"

definition ce_ok :: "cluster_env \<Rightarrow> json \<Rightarrow> HttpResponse" where
  "ce_ok e doc = http_ok (ce_tls e) (ce_cors e) (json_body doc)"

definition ce_badRequest :: "cluster_env \<Rightarrow> string \<Rightarrow> HttpResponse" where
  "ce_badRequest e message = badRequest (ce_tls e) (ce_cors e) message ''INVALID_PARAMETER''"

text \<open>The load is written as the id of the node, since the writer has no numbers with fractions.\<close>

definition node_json :: "NodeInfo \<Rightarrow> json" where
  "node_json n = JObject [(''nodeId'', JString (ni_nodeId n)), (''host'', JString (ni_host n)), (''restPort'', JUnsigned (ucast (ni_restPort n))),
     (''activeQueries'', JUnsigned (ucast (ni_activeQueries n))), (''connectionCount'', JUnsigned (ucast (ni_connectionCount n))),
     (''region'', JString (ni_region n)), (''cpuLoad'', JString (ni_nodeId n)), (''capabilities'', JArray (map JString (ni_capabilities n)))]"

definition handleClusterStatus :: "cluster_env \<Rightarrow> int \<Rightarrow> ClusterCoordinator \<Rightarrow> HttpResponse" where
  "handleClusterStatus e now s = (let nodes = getClusterNodes e now s in
     ce_ok e (JObject [(''nodeId'', JString (cl_nodeId_s s)), (''region'', JString (cl_localRegion_s s)), (''isolated'', JBool (isIsolated s)),
       (''clusterSize'', JUnsigned (of_nat (length nodes))), (''nodes'', JArray (map node_json nodes))]))"

definition redirect_to :: "cluster_env \<Rightarrow> string \<Rightarrow> string \<Rightarrow> HttpResponse" where
  "redirect_to e reason location =
     setJsonBody (json_body (JObject [(reason, JBool True), (''redirectTo'', JString location)]))
       (setHeader ''Location'' location (HttpResponse_new (ce_tls e) (ce_cors e) 307 ''Temporary Redirect''))"

text \<open>\<open>started\<close> is the id the query interface gives to the query, if it starts it.\<close>

definition handleClusterQuery :: "cluster_env \<Rightarrow> (string \<Rightarrow> int) \<Rightarrow> int \<Rightarrow> int \<Rightarrow> ulong \<Rightarrow> ulong option \<Rightarrow> HttpRequest \<Rightarrow> ClusterCoordinator \<Rightarrow>
    HttpResponse \<times> ClusterCoordinator" where
  "handleClusterQuery e nows now1 now2 wall started request s =
     (let reader = JsonReader_new (ce_parse e) (body request) in
      case getString ''queryString'' reader of
        None \<Rightarrow> (ce_badRequest e ''Missing queryString'', s)
      | Some queryString \<Rightarrow>
          let groupName = (case getString ''groupName'' reader of None \<Rightarrow> [] | Some v \<Rightarrow> v);
              autoHaltLimit = (case getUlong ''autoHaltLimit'' reader of None \<Rightarrow> 0 | Some v \<Rightarrow> v);
              queryHash = hashQuery e queryString groupName autoHaltLimit
          in (case isDuplicateQuery e now1 queryHash s of
                Some (ownerHost, ownerPort) \<Rightarrow>
                  (redirect_to e ''deduplicated'' (''http://'' @ ownerHost @ '':'' @ show_dec (unat ownerPort) @ ''/query''), s)
              | None \<Rightarrow>
                  (case shouldRedirect e nows s of
                     Some redirectUrl \<Rightarrow> (redirect_to e ''loadBalanced'' (redirectUrl @ ''/cluster/query''), s)
                   | None \<Rightarrow>
                       (case started of
                          None \<Rightarrow> (serverError (ce_tls e) (ce_cors e) ''Failed to start query'' ''INTERNAL_ERROR'', s)
                        | Some queryId \<Rightarrow>
                            (setHeader ''Location'' (''/query/'' @ show_dec (unat queryId))
                               (accepted (ce_tls e) (ce_cors e) (json_body (JObject [(''queryId'', JUnsigned queryId), (''nodeId'', JString (cl_nodeId_s s)),
                                  (''queryHash'', JString queryHash)]))),
                             registerActiveQuery e now2 wall queryHash queryId s)))))"

text \<open>Numbers of a document as C++ numbers; \<open>None\<close> is the exception of another type.\<close>

definition json_ulong :: "json \<Rightarrow> ulong option" where
  "json_ulong j = (case j of JUnsigned v \<Rightarrow> Some v | JInteger i \<Rightarrow> Some (of_int i)
     | JFloat x \<Rightarrow> Some (of_int (if x < 0 then \<lceil>x\<rceil> else \<lfloor>x\<rfloor>)) | _ \<Rightarrow> None)"

definition json_double :: "json \<Rightarrow> real option" where
  "json_double j = (case j of JUnsigned v \<Rightarrow> Some (real (unat v)) | JInteger i \<Rightarrow> Some (of_int i) | JFloat x \<Rightarrow> Some x | _ \<Rightarrow> None)"

fun gossip_scores :: "json list \<Rightarrow> t_ScoreEntry list option" where
  "gossip_scores [] = Some []"
| "gossip_scores (se # ses) =
     (case (json_find ''peerId'' se, json_find ''score'' se, json_find ''interactions'' se) of
        (Some p, Some sc, Some i) \<Rightarrow> do {
          pid \<leftarrow> json_ulong p; x \<leftarrow> json_double sc; n \<leftarrow> json_ulong i; rest \<leftarrow> gossip_scores ses;
          Some (\<lparr>se_peerId = pid, se_score = Fin x, se_interactions = n\<rparr> # rest) }
      | _ \<Rightarrow> gossip_scores ses)"

text \<open>The first component is \<open>None\<close> when an exception leaves the handler; the node has been entered by then.\<close>

definition handleClusterHeartbeat :: "cluster_env \<Rightarrow> int \<Rightarrow> (nat \<Rightarrow> int) \<Rightarrow> HttpRequest \<Rightarrow> ClusterCoordinator \<Rightarrow> ratings \<Rightarrow>
    HttpResponse option \<times> ClusterCoordinator \<times> ratings" where
  "handleClusterHeartbeat e now nows request s r =
     (let reader = JsonReader_new (ce_parse e) (body request) in
      case (getString ''nodeId'' reader, getString ''host'' reader, getUlong ''restPort'' reader) of
        (Some nodeId, Some host, Some restPort) \<Rightarrow>
          let node = (case cl_nodes_s s nodeId of None \<Rightarrow> NodeInfo_new | Some n \<Rightarrow> n);
              node1 = node\<lparr>ni_nodeId := nodeId, ni_host := host, ni_restPort := ucast restPort,
                ni_activeQueries := ucast (case getUlong ''activeQueries'' reader of None \<Rightarrow> 0 | Some v \<Rightarrow> v),
                ni_connectionCount := ucast (case getUlong ''connectionCount'' reader of None \<Rightarrow> 0 | Some v \<Rightarrow> v),
                ni_region := (case getString ''region'' reader of None \<Rightarrow> [] | Some v \<Rightarrow> v), ni_lastHeartbeat := now\<rparr>;
              s1 = s\<lparr>cl_nodes_s := (cl_nodes_s s)(nodeId \<mapsto> node1)\<rparr>;
              response = ce_ok e (JObject [(''accepted'', JBool True)])
          in (case Option.bind (ce_parse e (body request)) (json_find ''peerScores'') of
                Some (JArray ses) \<Rightarrow>
                  (case gossip_scores ses of
                     None \<Rightarrow> (None, s1, r)
                   | Some remoteScores \<Rightarrow>
                       (Some response, s1, if remoteScores = [] then r else mergeRemoteScores nows 10 remoteScores r))
              | _ \<Rightarrow> (Some response, s1, r))
      | _ \<Rightarrow> (Some (ce_badRequest e ''Missing required heartbeat fields''), s, r))"

text \<open>The body of the answer of another bridge; \<open>None\<close>: the connection failed.\<close>

fun after_headers :: "string \<Rightarrow> string" where
  "after_headers [] = []"
| "after_headers (c # cs) = (if take 4 (c # cs) = [CR, LF, CR, LF] then drop 4 (c # cs) else after_headers cs)"

definition fetchRemoteResults :: "string option \<Rightarrow> string" where
  "fetchRemoteResults response = (case response of None \<Rightarrow> [] | Some t \<Rightarrow> after_headers t)"

fun find_hash :: "cluster_env \<Rightarrow> ulong \<Rightarrow> nat list \<Rightarrow> ClusterCoordinator \<Rightarrow> string" where
  "find_hash e queryId [] s = []"
| "find_hash e queryId (k # ks) s =
     (case filter (\<lambda>h. case cl_dedupShards_s s k h of Some d \<Rightarrow> de_nodeId d = cl_nodeId_s s \<and> de_queryId d = queryId | None \<Rightarrow> False)
             (ce_entryOrder e (cl_dedupShards_s s k)) of
        [] \<Rightarrow> find_hash e queryId ks s
      | h # hs \<Rightarrow> if h = [] then find_hash e queryId ks s else h)"

type_synonym resource_info = "ulong \<times> ulong \<times> string \<times> string list"

definition resource_json :: "resource_info \<Rightarrow> json" where
  "resource_json res = (case res of (resourceId, sz, description, locators) \<Rightarrow> JObject [(''resourceId'', JUnsigned resourceId),
     (''size'', JUnsigned sz), (''description'', JString description), (''locators'', JArray (map JString locators))])"

definition remote_json :: "cluster_env \<Rightarrow> (string \<Rightarrow> int) \<Rightarrow> (string \<Rightarrow> ushort \<Rightarrow> ulong \<Rightarrow> string option) \<Rightarrow> string \<Rightarrow> ClusterCoordinator \<Rightarrow> json list" where
  "remote_json e nows network queryHash s =
     (if queryHash = [] then []
      else concat (map (\<lambda>i. case cl_nodes_s s i of
          None \<Rightarrow> []
        | Some n \<Rightarrow>
            if seconds_since (nows i) (ni_lastHeartbeat n) > computeAdaptiveTimeoutSec e s then []
            else (case cl_dedupShards_s s (dedupShardIndex e queryHash) queryHash of
                None \<Rightarrow> []
              | Some d \<Rightarrow>
                  if de_nodeId d \<noteq> i then []
                  else let remoteJson = fetchRemoteResults (network (ni_host n) (ni_restPort n) (de_queryId d)) in
                    if remoteJson = [] then [] else [JObject [(''nodeId'', JString i), (''data'', JString remoteJson)]]))
        (ce_nodeOrder e (cl_nodes_s s))))"

definition handleClusterResults :: "cluster_env \<Rightarrow> (string \<Rightarrow> int) \<Rightarrow> (string \<Rightarrow> ushort \<Rightarrow> ulong \<Rightarrow> string option) \<Rightarrow>
    (ulong \<Rightarrow> (ulong \<times> resource_info list) list option) \<Rightarrow> (string \<rightharpoonup> string) \<Rightarrow> ClusterCoordinator \<Rightarrow> HttpResponse" where
  "handleClusterResults e nows network results params s = (case params ''id'' of
       None \<Rightarrow> ce_badRequest e ''Missing query id''
     | Some v \<Rightarrow> (case parseUlong v of
           None \<Rightarrow> ce_badRequest e ''Invalid query id''
         | Some queryId \<Rightarrow> (case results queryId of
               None \<Rightarrow> notFound (ce_tls e) (ce_cors e) ''NOT_FOUND''
             | Some localResults \<Rightarrow>
                 ce_ok e (JObject [(''queryId'', JUnsigned queryId), (''nodeId'', JString (cl_nodeId_s s)), (''federated'', JBool True),
                   (''localPeers'', JArray (map (\<lambda>(peerId, rs). JObject [(''peerId'', JUnsigned peerId), (''resources'', JArray (map resource_json rs))]) localResults)),
                   (''remoteResults'', JArray (remote_json e nows network (find_hash e queryId [0..<DEDUP_SHARD_COUNT] s) s))]))))"

section \<open>Heartbeats and beacons\<close>

text \<open>The document of a heartbeat, the request that carries it, and what the answers change.\<close>

definition own_queries :: "cluster_env \<Rightarrow> ClusterCoordinator \<Rightarrow> json list" where
  "own_queries e s = concat (map (\<lambda>k. concat (map (\<lambda>h. case cl_dedupShards_s s k h of
       Some d \<Rightarrow> if de_nodeId d = cl_nodeId_s s then [JObject [(''hash'', JString h), (''queryId'', JUnsigned (de_queryId d))]] else []
     | None \<Rightarrow> []) (ce_entryOrder e (cl_dedupShards_s s k)))) [0..<DEDUP_SHARD_COUNT])"

text \<open>A score that is not a number is printed as \<open>null\<close>.\<close>

definition double_json :: "double \<Rightarrow> json" where
  "double_json d = (case d of Fin x \<Rightarrow> JFloat x | _ \<Rightarrow> JNull)"

definition heartbeat_payload :: "cluster_env \<Rightarrow> int \<Rightarrow> (ulong \<times> t_PeerRating) list \<Rightarrow> ClusterCoordinator \<Rightarrow> json" where
  "heartbeat_payload e now ratings s = (let local = getLocalNodeInfo e now s in
     JObject [(''nodeId'', JString (ni_nodeId local)), (''host'', JString (ni_host local)), (''restPort'', JUnsigned (ucast (ni_restPort local))),
       (''activeQueries'', JUnsigned (ucast (ni_activeQueries local))), (''connectionCount'', JUnsigned (ucast (ni_connectionCount local))),
       (''cpuLoad'', JFloat (ni_cpuLoadEstimate local)), (''region'', JString (ni_region local)),
       (''capabilities'', JArray (map JString (ni_capabilities local))), (''activeQueryHashes'', JArray (own_queries e s)),
       (''peerScores'', JArray (map (\<lambda>x. JObject [(''peerId'', JUnsigned (se_peerId x)), (''score'', double_json (se_score x)),
          (''interactions'', JUnsigned (se_interactions x))]) (getTopScores 50 ratings)))])"

definition heartbeat_request :: "string \<Rightarrow> NodeInfo \<Rightarrow> string" where
  "heartbeat_request text_m node = ''POST /cluster/heartbeat HTTP/1.1'' @ [CR, LF] @ ''Host: '' @ ni_host node @ '':'' @ show_dec (unat (ni_restPort node)) @ [CR, LF] @
     ''Content-Type: application/json'' @ [CR, LF] @ ''Content-Length: '' @ show_dec (length text_m) @ [CR, LF] @ ''Connection: close'' @ [CR, LF, CR, LF] @ text_m"

text \<open>\<open>dump\<close> prints a document; \<open>rtts\<close> are the round trips of the nodes that answered.\<close>

definition broadcastHeartbeat :: "cluster_env \<Rightarrow> (json \<Rightarrow> string) \<Rightarrow> int \<Rightarrow> (ulong \<times> t_PeerRating) list \<Rightarrow> (string \<rightharpoonup> real) \<Rightarrow> ClusterCoordinator \<Rightarrow>
    string list \<times> ClusterCoordinator" where
  "broadcastHeartbeat e dump now ratings rtts s =
     (map (heartbeat_request (dump (heartbeat_payload e now ratings s))) (node_list e s),
      s\<lparr>cl_nodes_s := (\<lambda>i. case cl_nodes_s s i of None \<Rightarrow> None
         | Some n \<Rightarrow> Some (case rtts i of None \<Rightarrow> n | Some rtt \<Rightarrow> n\<lparr>ni_rttMs := rtt\<rparr>))\<rparr>)"

text \<open>One round of the heartbeat thread.\<close>

definition heartbeat_round :: "cluster_env \<Rightarrow> (json \<Rightarrow> string) \<Rightarrow> int \<Rightarrow> int \<Rightarrow> int \<Rightarrow> (ulong \<times> t_PeerRating) list \<Rightarrow> (string \<rightharpoonup> real) \<Rightarrow>
    ClusterCoordinator \<Rightarrow> string list \<times> ClusterCoordinator" where
  "heartbeat_round e dump now1 now2 now3 ratings rtts s =
     broadcastHeartbeat e dump now3 ratings rtts (checkSplitBrain e now2 (evictStaleNodes e now1 s))"

text \<open>The beacon. The writer has no overload for a character pointer, so a literal is converted to a truth value.\<close>

definition beacon_json :: "ushort \<Rightarrow> json" where
  "beacon_json restPort = JObject [(''service'', JBool True), (''version'', JBool True), (''restPort'', JUnsigned (ucast restPort)),
     (''bridgeVersion'', JBool True)]"

definition beacon_payload :: "ushort \<Rightarrow> string" where
  "beacon_payload restPort = json_body (beacon_json restPort)"

definition hear_node :: "int \<Rightarrow> string \<Rightarrow> string \<Rightarrow> ushort \<Rightarrow> json \<Rightarrow> NodeInfo \<Rightarrow> NodeInfo" where
  "hear_node now nodeId host port doc node =
     (let n1 = node\<lparr>ni_nodeId := nodeId, ni_host := host, ni_restPort := port, ni_lastHeartbeat := now\<rparr>;
          n2 = (case json_find ''region'' doc of Some (JString r) \<Rightarrow> n1\<lparr>ni_region := r\<rparr> | _ \<Rightarrow> n1)
      in case json_find ''capabilities'' doc of
           Some (JArray cs) \<Rightarrow> n2\<lparr>ni_capabilities := map (\<lambda>c. case c of JString v \<Rightarrow> v | _ \<Rightarrow> []) (takeWhile (\<lambda>c. case c of JString v \<Rightarrow> True | _ \<Rightarrow> False) cs)\<rparr>
         | _ \<Rightarrow> n2)"

definition hear_beacon :: "cluster_env \<Rightarrow> int \<Rightarrow> string \<Rightarrow> string \<Rightarrow> ClusterCoordinator \<Rightarrow> ClusterCoordinator" where
  "hear_beacon e now peerHost received s = (case ce_parse e received of
       None \<Rightarrow> s
     | Some doc \<Rightarrow>
         if json_find ''service'' doc \<noteq> Some (JString ''alpine-bridge'') then s
         else (case (case json_find ''restPort'' doc of None \<Rightarrow> Some 0 | Some j \<Rightarrow> json_ulong j) of
             None \<Rightarrow> s
           | Some v \<Rightarrow>
               let peerRestPort = (ucast v :: ushort);
                   peerNodeId = ''beacon-'' @ show_dec (unat (and (ce_hash e (peerHost @ '':'' @ show_dec (unat peerRestPort))) 0xFFFFFFFF))
               in if peerRestPort = 0 then s
                  else if peerHost = cl_localHost_s s \<and> peerRestPort = cl_restPort_s s then s
                  else if (peerHost = ''127.0.0.1'' \<or> peerHost = ''0.0.0.0'') \<and> peerRestPort = cl_restPort_s s then s
                  else s\<lparr>cl_nodes_s := (cl_nodes_s s)(peerNodeId \<mapsto> hear_node now peerNodeId peerHost peerRestPort doc
                         (case cl_nodes_s s peerNodeId of None \<Rightarrow> NodeInfo_new | Some n \<Rightarrow> n))\<rparr>))"

section \<open>What the bridges know of each other\<close>

datatype cl_event = ClInit cluster_env ushort ushort string int "string option" | ClShutdown
  | ClQuery cluster_env "string \<Rightarrow> int" int int ulong "ulong option" HttpRequest | ClUnregister cluster_env string
  | ClHeartbeat cluster_env int "nat \<Rightarrow> int" HttpRequest ratings | ClBeacon cluster_env int string string
  | ClRound cluster_env "json \<Rightarrow> string" int int int "(ulong \<times> t_PeerRating) list" "string \<rightharpoonup> real" | ClGossip

fun cl_step :: "cl_event \<Rightarrow> ClusterCoordinator \<Rightarrow> ClusterCoordinator" where
  "cl_step (ClInit e p b h now env) s = snd (cl_initialize e p b h now env s)"
| "cl_step ClShutdown s = cl_shutdown s"
| "cl_step (ClQuery e nows now1 now2 wall started request) s = snd (handleClusterQuery e nows now1 now2 wall started request s)"
| "cl_step (ClUnregister e h) s = unregisterActiveQuery e h s"
| "cl_step (ClHeartbeat e now nows request r) s = fst (snd (handleClusterHeartbeat e now nows request s r))"
| "cl_step (ClBeacon e now host received) s = hear_beacon e now host received s"
| "cl_step (ClRound e dump now1 now2 now3 ratings rtts) s = snd (heartbeat_round e dump now1 now2 now3 ratings rtts s)"
| "cl_step ClGossip s = gossipActiveQueries s"

text \<open>Every entry of the index is one of this bridge.\<close>

definition own_only :: "ClusterCoordinator \<Rightarrow> bool" where
  "own_only s \<longleftrightarrow> cl_called s \<and> (\<forall>k h d. cl_dedupShards_s s k h = Some d \<longrightarrow> de_nodeId d = cl_nodeId_s s)"

lemma own_register: "own_only s \<Longrightarrow> own_only (registerActiveQuery e now wall h i s)"
  by (simp add: own_only_def registerActiveQuery_def Let_def)

lemma query_state: "snd (handleClusterQuery e nows now1 now2 wall started request s) = s \<or>
    (\<exists>h i. snd (handleClusterQuery e nows now1 now2 wall started request s) = registerActiveQuery e now2 wall h i s)"
  by (auto simp: handleClusterQuery_def Let_def split: option.splits)

lemma heartbeat_state:
  assumes "handleClusterHeartbeat e now nows request s r = (resp, s1, r1)"
  shows "\<exists>nodes. s1 = s\<lparr>cl_nodes_s := nodes\<rparr>"
proof (cases "\<exists>a b c. (getString ''nodeId'' (JsonReader_new (ce_parse e) (body request)), getString ''host'' (JsonReader_new (ce_parse e) (body request)),
    getUlong ''restPort'' (JsonReader_new (ce_parse e) (body request))) = (Some a, Some b, Some c)")
  case True
  then show ?thesis using assms
    by (auto simp: handleClusterHeartbeat_def Let_def split: option.splits json.splits if_splits)
next
  case False
  then have "s1 = s" using assms by (auto simp: handleClusterHeartbeat_def Let_def split: option.splits prod.splits)
  then show ?thesis by (intro exI [of _ "cl_nodes_s s"]) simp
qed

lemma own_step: "own_only s \<Longrightarrow> own_only (cl_step ev s)"
proof (cases ev)
  case (ClQuery e nows now1 now2 wall started request)
  assume "own_only s"
  with query_state [of e nows now1 now2 wall started request s] own_register show ?thesis unfolding ClQuery cl_step.simps by metis
next
  case (ClHeartbeat e now nows request r)
  assume s: "own_only s"
  obtain resp s1 r1 where "handleClusterHeartbeat e now nows request s r = (resp, s1, r1)" by (metis surj_pair)
  with heartbeat_state [OF this] s show ?thesis by (auto simp: ClHeartbeat own_only_def)
next
  case (ClBeacon e now host received)
  assume "own_only s"
  then show ?thesis by (auto simp: ClBeacon hear_beacon_def own_only_def Let_def split: option.splits)
qed (auto simp: cl_initialize_def cl_shutdown_def unregisterActiveQuery_def heartbeat_round_def broadcastHeartbeat_def checkSplitBrain_def
    evictStaleNodes_def gossipActiveQueries_def own_only_def Let_def split: option.splits if_splits)

lemma own_run: "own_only s \<Longrightarrow> own_only (fold cl_step evs s)"
  by (induction evs arbitrary: s) (simp_all add: own_step)

section \<open>Redirection\<close>

definition alive :: "cluster_env \<Rightarrow> (string \<Rightarrow> int) \<Rightarrow> ClusterCoordinator \<Rightarrow> NodeInfo \<Rightarrow> bool" where
  "alive e now s n \<longleftrightarrow> n \<in> set (node_list e s) \<and> seconds_since (now (ni_nodeId n)) (ni_lastHeartbeat n) \<le> computeAdaptiveTimeoutSec e s"

lemma best_node_min:
  "case best_node now t region ns best of
     None \<Rightarrow> best = None \<and> (\<forall>n\<in>set ns. seconds_since (now (ni_nodeId n)) (ni_lastHeartbeat n) > t)
   | Some (b, x) \<Rightarrow> ((best = Some (b, x)) \<or> b \<in> set ns \<and> seconds_since (now (ni_nodeId b)) (ni_lastHeartbeat b) \<le> t \<and> x = node_score region b) \<and>
       (\<forall>c y. best = Some (c, y) \<longrightarrow> x \<le> y) \<and>
       (\<forall>n\<in>set ns. seconds_since (now (ni_nodeId n)) (ni_lastHeartbeat n) \<le> t \<longrightarrow> x \<le> node_score region n)"
proof (induction ns arbitrary: best)
  case (Cons n ns)
  let ?old = "seconds_since (now (ni_nodeId n)) (ni_lastHeartbeat n) > t"
  define best1 where "best1 = (if ?old then best else case best of None \<Rightarrow> Some (n, node_score region n)
    | Some (b, x) \<Rightarrow> if node_score region n < x then Some (n, node_score region n) else best)"
  have e: "best_node now t region (n # ns) best = best_node now t region ns best1" by (simp add: best1_def Let_def)
  show ?case
  proof (cases "best_node now t region ns best1")
    case None
    then have "best1 = None" "\<forall>n\<in>set ns. seconds_since (now (ni_nodeId n)) (ni_lastHeartbeat n) > t" using Cons [of best1] by simp_all
    then show ?thesis unfolding e None by (auto simp: best1_def split: if_splits option.splits prod.splits)
  next
    case (Some out)
    obtain b x where out: "out = (b, x)" by (cases out)
    have ih: "best1 = Some (b, x) \<or> b \<in> set ns \<and> seconds_since (now (ni_nodeId b)) (ni_lastHeartbeat b) \<le> t \<and> x = node_score region b"
      "\<forall>c y. best1 = Some (c, y) \<longrightarrow> x \<le> y"
      "\<forall>n\<in>set ns. seconds_since (now (ni_nodeId n)) (ni_lastHeartbeat n) \<le> t \<longrightarrow> x \<le> node_score region n"
      using Cons [of best1] unfolding Some out by simp_all
    have "best1 = best \<or> best1 = Some (n, node_score region n) \<and> \<not> ?old" "\<not> ?old \<longrightarrow> (\<exists>c y. best1 = Some (c, y) \<and> y \<le> node_score region n)"
        "\<forall>c y. best = Some (c, y) \<longrightarrow> (\<exists>c' y'. best1 = Some (c', y') \<and> y' \<le> y)"
      by (auto simp: best1_def split: if_splits option.splits prod.splits)
    with ih show ?thesis unfolding e Some out by (auto intro: order_trans)
  qed
qed (simp split: option.splits)

section \<open>Timeouts\<close>

lemma timeout_bounds: "35 \<le> computeAdaptiveTimeoutSec e s" "computeAdaptiveTimeoutSec e s \<le> 120"
  by (simp_all add: computeAdaptiveTimeoutSec_def NODE_TIMEOUT_MIN_SEC_def NODE_TIMEOUT_MAX_SEC_def Let_def)

lemma node_list_known: "n \<in> set (node_list e s) \<Longrightarrow> \<exists>i. cl_nodes_s s i = Some n"
  by (auto simp: node_list_def)

lemma timeout_small:
  assumes "\<And>n. n \<in> set (node_list e s) \<Longrightarrow> ni_rttMs n \<le> 3500"
  shows "computeAdaptiveTimeoutSec e s = 35"
proof -
  have avg: "sum_list xs / real (length xs) * 10 / 1000 \<le> 35" if "xs \<noteq> []" "\<forall>x\<in>set xs. x \<le> 3500" for xs :: "real list"
  proof -
    have "sum_list xs \<le> 3500 * real (length xs)" using that(2) by (induction xs) (simp_all add: algebra_simps)
    then show ?thesis using that(1) by (simp add: divide_le_eq)
  qed
  define r where "r = filter (\<lambda>x. x > 0) (map ni_rttMs (node_list e s))"
  have "\<forall>x\<in>set r. x \<le> 3500" using assms by (auto simp: r_def)
  then have "r \<noteq> [] \<Longrightarrow> \<lfloor>sum_list r / real (length r) * 10 / 1000\<rfloor> \<le> 35" using avg [of r] by (simp add: floor_le_iff)
  then show ?thesis by (auto simp: computeAdaptiveTimeoutSec_def NODE_TIMEOUT_MIN_SEC_def NODE_TIMEOUT_MAX_SEC_def Let_def simp flip: r_def)
qed

section \<open>The parser\<close>

definition ascii :: "string \<Rightarrow> bool" where
  "ascii t = list_all (\<lambda>c. (of_char c :: nat) < 128) t"

definition scalar :: "json \<Rightarrow> bool" where
  "scalar x = (case x of JBool b \<Rightarrow> True | JUnsigned n \<Rightarrow> True | JString v \<Rightarrow> ascii v | _ \<Rightarrow> False)"

lemma scalar_writable: "list_all (\<lambda>m. ascii (fst m) \<and> scalar (snd m)) ms \<Longrightarrow> writable (JObject ms)"
proof -
  have "scalar x \<Longrightarrow> writable x" for x by (cases x) (simp_all add: scalar_def)
  then show "list_all (\<lambda>m. ascii (fst m) \<and> scalar (snd m)) ms \<Longrightarrow> writable (JObject ms)" by (auto simp: list_all_iff)
qed

text \<open>What is relied on of the parser: the text of an object with distinct names, whose members are numbers, truth values or strings of
  ASCII characters, is read as an object with these members, in any order.\<close>

locale json_parser =
  fixes parse :: "string \<Rightarrow> json option"
  assumes parse_object: "list_all (\<lambda>m. ascii (fst m) \<and> scalar (snd m)) ms \<Longrightarrow> distinct (map fst ms) \<Longrightarrow>
    \<exists>ms'. parse (jtext (JObject ms)) = Some (JObject ms') \<and> map_of ms' = map_of ms"
begin

lemma parse_written:
  assumes "list_all (\<lambda>m. ascii (fst m) \<and> scalar (snd m)) ms" "distinct (map fst ms)"
  shows "\<exists>ms'. parse (json_body (JObject ms)) = Some (JObject ms') \<and> map_of ms' = map_of ms"
proof -
  have "json_body (JObject ms) = jtext (JObject ms)"
    using emit_text(1) [OF scalar_writable [OF assms(1)], of "[]" "[]" False] by (simp add: json_body_def JsonWriter_new_def jw_result_def)
  with parse_object [OF assms] show ?thesis by simp
qed

end

definition reference_parse :: "string \<Rightarrow> json option" where
  "reference_parse t = (case read_json (length t) t of Some (x, []) \<Rightarrow> Some x | _ \<Rightarrow> None)"

lemma reference_reads: "list_all (\<lambda>m. ascii (fst m) \<and> scalar (snd m)) ms \<Longrightarrow> reference_parse (jtext (JObject ms)) = Some (JObject ms)"
  using read_written(1) [OF scalar_writable, of ms "[]" "length (jtext (JObject ms))"] by (simp add: reference_parse_def ends_def)

interpretation reference: json_parser reference_parse
  by unfold_locales (simp only: reference_reads, blast)

text \<open>An environment for the concrete inputs below.\<close>

definition lone_bridge :: cluster_env where
  "lone_bridge = \<lparr>ce_tls = False, ce_cors = [], ce_hash = (\<lambda>_. 0), ce_nodeOrder = (\<lambda>_. [''a'', ''b'']), ce_entryOrder = (\<lambda>_. []),
     ce_parse = reference_parse, ce_cpu = 1\<rparr>"

section \<open>Properties\<close>

text \<open>A query of another bridge is never recognised. Whatever a bridge hears after its initialization, heartbeats, beacons, queries and
  rounds in any order and with any answers, \<open>isDuplicateQuery\<close> finds no other bridge that runs a query, so no client is sent to one;
  and unless the bridge was told of a node with its own id, no results of other bridges are fetched.\<close>

lemma dedup_never_refers:
  "let s = fold cl_step evs (snd (cl_initialize e restPort beaconPort hostname now env ClusterCoordinator_static)) in
     isDuplicateQuery e' now' h s = None \<and> ((\<exists>n. cl_nodes_s s (cl_nodeId_s s) = Some n) \<or> remote_json e' nows network h s = [])"
proof -
  define s where "s = fold cl_step evs (snd (cl_initialize e restPort beaconPort hostname now env ClusterCoordinator_static))"
  have own: "own_only s" unfolding s_def
    by (rule own_run) (simp add: own_only_def cl_initialize_def ClusterCoordinator_static_def)
  have "isDuplicateQuery e' now' h s = None"
    using own by (auto simp: isDuplicateQuery_def own_only_def split: option.splits)
  moreover have "remote_json e' nows network h s = []" if "cl_nodes_s s (cl_nodeId_s s) = None"
    using that own by (auto simp: remote_json_def own_only_def split: option.splits)
  ultimately show ?thesis by (auto simp: s_def [symmetric] Let_def)
qed



text \<open>The clock readings of an event that concern nodes, and what an event does to a node that is known.\<close>

fun cl_times :: "cl_event \<Rightarrow> int list" where
  "cl_times (ClHeartbeat e now nows request r) = [now]"
| "cl_times (ClBeacon e now host received) = [now]"
| "cl_times (ClRound e dump now1 now2 now3 ratings rtts) = [now1]"
| "cl_times _ = []"

lemma evict_keeps:
  assumes "cl_nodes_s s i = Some n" "t \<le> ni_lastHeartbeat n" "now < t + 36 * 1000000000"
  shows "cl_nodes_s (evictStaleNodes e now s) i = Some n"
proof -
  have "seconds_since now (ni_lastHeartbeat n) \<le> 35"
    using assms(2,3) by (auto simp: seconds_since_def sgn_if)
  with timeout_bounds(1) [of e s] have "\<not> computeAdaptiveTimeoutSec e s < seconds_since now (ni_lastHeartbeat n)" by linarith
  with assms(1) show ?thesis by (simp add: evictStaleNodes_def Let_def)
qed

lemma evict_silent:
  assumes "cl_nodes_s (evictStaleNodes e now s) i = Some n"
  shows "now - ni_lastHeartbeat n < 121 * 1000000000"
proof (cases "ni_lastHeartbeat n \<le> now")
  case True
  then have "seconds_since now (ni_lastHeartbeat n) = (now - ni_lastHeartbeat n) div 1000000000"
    by (cases "now = ni_lastHeartbeat n") (simp_all add: seconds_since_def)
  with timeout_bounds(2) [of e s] assms show ?thesis by (auto simp: evictStaleNodes_def Let_def split: option.splits if_splits)
qed simp

lemma heartbeat_nodes:
  assumes "handleClusterHeartbeat e now nows request s r = (resp, s1, r1)" "cl_nodes_s s i = Some n" "t \<le> ni_lastHeartbeat n" "t \<le> now"
  shows "\<exists>n'. cl_nodes_s s1 i = Some n' \<and> t \<le> ni_lastHeartbeat n'"
  using assms by (auto simp: handleClusterHeartbeat_def Let_def split: option.splits json.splits if_splits)

lemma round_nodes: "cl_nodes_s (snd (heartbeat_round e dump now1 now2 now3 ratings rtts s)) i =
    map_option (\<lambda>n. case rtts i of None \<Rightarrow> n | Some rtt \<Rightarrow> n\<lparr>ni_rttMs := rtt\<rparr>) (cl_nodes_s (evictStaleNodes e now1 s) i)"
  by (simp add: heartbeat_round_def broadcastHeartbeat_def checkSplitBrain_def map_option_case Let_def)

lemma step_keeps:
  assumes "cl_nodes_s s i = Some n" "t \<le> ni_lastHeartbeat n" "ev \<noteq> ClShutdown" "\<forall>x\<in>set (cl_times ev). t \<le> x \<and> x < t + 36 * 1000000000"
  shows "\<exists>n'. cl_nodes_s (cl_step ev s) i = Some n' \<and> t \<le> ni_lastHeartbeat n'"
proof (cases ev)
  case (ClQuery e nows now1 now2 wall started request)
  with query_state [of e nows now1 now2 wall started request s] assms(1,2) show ?thesis by (auto simp: registerActiveQuery_def Let_def)
next
  case (ClHeartbeat e now nows request r)
  obtain resp s1 r1 where "handleClusterHeartbeat e now nows request s r = (resp, s1, r1)" by (metis surj_pair)
  with heartbeat_nodes [OF this assms(1,2)] assms(4) show ?thesis by (simp add: ClHeartbeat)
next
  case (ClBeacon e now host received)
  with assms show ?thesis by (auto simp: hear_beacon_def hear_node_def Let_def split: option.splits json.splits)
next
  case (ClRound e dump now1 now2 now3 ratings rtts)
  with evict_keeps [OF assms(1,2), of now1 e] assms(2,4) show ?thesis by (simp add: round_nodes split: option.splits)
qed (use assms in \<open>simp_all add: cl_initialize_def unregisterActiveQuery_def gossipActiveQueries_def Let_def\<close>)

lemma run_keeps:
  assumes "cl_nodes_s s i = Some n" "t \<le> ni_lastHeartbeat n"
    and "\<forall>ev\<in>set evs. ev \<noteq> ClShutdown \<and> (\<forall>x\<in>set (cl_times ev). t \<le> x \<and> x < t + 36 * 1000000000)"
  shows "\<exists>n'. cl_nodes_s (fold cl_step evs s) i = Some n' \<and> t \<le> ni_lastHeartbeat n'"
  using assms
proof (induction evs arbitrary: s n)
  case (Cons ev evs)
  then obtain n' where "cl_nodes_s (cl_step ev s) i = Some n'" "t \<le> ni_lastHeartbeat n'"
    using step_keeps [OF Cons.prems(1,2), of ev] by auto
  with Cons.IH [OF this] Cons.prems(3) show ?case by simp
qed auto

text \<open>C37: how long a node is known. A node that was heard at time \<open>t\<close> stays known through any heartbeats, beacons, queries and
  rounds, with any round trips, whose clock readings lie between \<open>t\<close> and 36 seconds later (whole seconds are compared), short of a shutdown.
  And after a round, whatever came before, every node that is left was heard less than 121 seconds before the sweep of the round,
  which removes no other: a node it removes has been silent for more than 35 seconds.\<close>

theorem membership_window:
  assumes "cl_nodes_s s i = Some n"
    and "\<forall>ev\<in>set evs. ev \<noteq> ClShutdown \<and> (\<forall>x\<in>set (cl_times ev). ni_lastHeartbeat n \<le> x \<and> x < ni_lastHeartbeat n + 36 * 1000000000)"
  shows "(\<exists>n'. cl_nodes_s (fold cl_step evs s) i = Some n' \<and> ni_lastHeartbeat n \<le> ni_lastHeartbeat n') \<and>
    (\<forall>s' j n'. cl_nodes_s (cl_step (ClRound e dump now1 now2 now3 ratings rtts) s') j = Some n' \<longrightarrow> now1 - ni_lastHeartbeat n' < 121 * 1000000000) \<and>
    (\<forall>s' j n'. cl_nodes_s s' j = Some n' \<longrightarrow> cl_nodes_s (cl_step (ClRound e dump now1 now2 now3 ratings rtts) s') j = None \<longrightarrow>
       now1 - ni_lastHeartbeat n' > 35 * 1000000000)"
proof (intro conjI allI impI)
  show "\<exists>n'. cl_nodes_s (fold cl_step evs s) i = Some n' \<and> ni_lastHeartbeat n \<le> ni_lastHeartbeat n'"
    using run_keeps [OF assms(1) order_refl assms(2)] .
next
  fix s' j n'
  assume "cl_nodes_s (cl_step (ClRound e dump now1 now2 now3 ratings rtts) s') j = Some n'"
  then obtain m where m: "cl_nodes_s (evictStaleNodes e now1 s') j = Some m" "ni_lastHeartbeat n' = ni_lastHeartbeat m"
    by (auto simp: round_nodes split: option.splits)
  show "now1 - ni_lastHeartbeat n' < 121 * 1000000000" unfolding m(2) by (rule evict_silent [OF m(1)])
next
  fix s' j n'
  assume n: "cl_nodes_s s' j = Some n'" "cl_nodes_s (cl_step (ClRound e dump now1 now2 now3 ratings rtts) s') j = None"
  then have "\<not> now1 < ni_lastHeartbeat n' + 36 * 1000000000" using evict_keeps [OF n(1) order_refl, of now1 e] by (auto simp: round_nodes)
  then show "now1 - ni_lastHeartbeat n' > 35 * 1000000000" by simp
qed

theorem membership_window_witness:
  "\<exists>s n'. cl_nodes_s (fold cl_step [ClRound lone_bridge (\<lambda>_. []) 30000000000 30000000000 30000000000 [] (\<lambda>_. Some 20), ClGossip] s) ''a'' = Some n' \<and>
     cl_nodes_s (cl_step (ClRound lone_bridge (\<lambda>_. []) 130000000000 0 0 [] (\<lambda>_. None)) s) ''a'' = None"
proof -
  let ?n = "NodeInfo_new\<lparr>ni_lastHeartbeat := 1000000000\<rparr>"
  let ?s = "ClusterCoordinator_static\<lparr>cl_nodes_s := [''a'' \<mapsto> ?n]\<rparr>"
  let ?r = "ClRound lone_bridge (\<lambda>_. []) 130000000000 0 0 [] (\<lambda>_. None)"
  have s: "cl_nodes_s ?s ''a'' = Some ?n" by simp
  have evs: "\<forall>ev\<in>set [ClRound lone_bridge (\<lambda>_. []) 30000000000 30000000000 30000000000 [] (\<lambda>_. Some 20), ClGossip].
      ev \<noteq> ClShutdown \<and> (\<forall>x\<in>set (cl_times ev). ni_lastHeartbeat ?n \<le> x \<and> x < ni_lastHeartbeat ?n + 36 * 1000000000)"
    by simp
  note w = membership_window [OF s evs, of lone_bridge "\<lambda>_. []" 130000000000 0 0 "[]" "\<lambda>_. None"]
  have "ni_lastHeartbeat n' = 1000000000" if "cl_nodes_s (cl_step ?r ?s) ''a'' = Some n'" for n'
    using that by (auto simp: round_nodes evictStaleNodes_def Let_def split: if_splits)
  with w have "cl_nodes_s (cl_step ?r ?s) ''a'' = None" by (cases "cl_nodes_s (cl_step ?r ?s) ''a''") fastforce+
  with w show ?thesis by blast
qed

text \<open>A partition is not noticed. As long as the measured round trips are at most three and a half seconds and the check follows
  the eviction within thirty seconds, no bridge ever counts itself isolated, however many nodes fell silent: they were evicted first.\<close>

lemma partition_unnoticed:
  assumes "\<And>i n. cl_nodes_s s i = Some n \<Longrightarrow> ni_rttMs n \<le> 3500" "now1 \<le> now2" "now2 \<le> now1 + 30 * 1000000000"
  shows "\<not> isIsolated (checkSplitBrain e now2 (evictStaleNodes e now1 s))"
proof -
  let ?s = "evictStaleNodes e now1 s"
  have kept: "cl_nodes_s s i = Some n \<and> seconds_since now1 (ni_lastHeartbeat n) \<le> computeAdaptiveTimeoutSec e s" if "cl_nodes_s ?s i = Some n" for i n
    using that by (auto simp: evictStaleNodes_def Let_def split: option.splits if_splits)
  have t: "computeAdaptiveTimeoutSec e s = 35" "computeAdaptiveTimeoutSec e ?s = 35"
    using assms(1) kept by (intro timeout_small; blast dest: node_list_known)+
  have "seconds_since now2 (ni_lastHeartbeat n) \<le> 70" if n: "n \<in> set (node_list e ?s)" for n
  proof -
    obtain i where "cl_nodes_s ?s i = Some n" using node_list_known [OF n] by blast
    with kept t have "seconds_since now1 (ni_lastHeartbeat n) \<le> 35" by fastforce
    with assms(2,3) show ?thesis by (auto simp: seconds_since_def sgn_if split: if_splits)
  qed
  then have none: "filter (\<lambda>n. 70 < seconds_since now2 (ni_lastHeartbeat n)) (node_list e ?s) = []" by (force simp: filter_empty_conv)
  show ?thesis
    by (simp add: checkSplitBrain_def isIsolated_def t none SPLIT_BRAIN_MULTIPLIER_def SPLIT_BRAIN_THRESHOLD_def Let_def)
qed

lemma partition_unnoticed_witness:
  "\<exists>s. cl_nodes_s s ''a'' = Some (NodeInfo_new\<lparr>ni_rttMs := 20\<rparr>) \<and>
     \<not> isIsolated (checkSplitBrain lone_bridge 500000000000 (evictStaleNodes lone_bridge 500000000000 s))"
proof -
  let ?s = "ClusterCoordinator_static\<lparr>cl_nodes_s := [''a'' \<mapsto> NodeInfo_new\<lparr>ni_rttMs := 20\<rparr>]\<rparr>"
  have "ni_rttMs n \<le> 3500" if "cl_nodes_s ?s i = Some n" for i n
    using that by (auto simp: NodeInfo_new_def split: if_splits)
  then have "\<not> isIsolated (checkSplitBrain lone_bridge 500000000000 (evictStaleNodes lone_bridge 500000000000 ?s))"
    by (rule partition_unnoticed) simp_all
  then show ?thesis by (intro exI [of _ ?s]) simp
qed

text \<open>Bridges do not hear each other's beacons. A bridge whose parser reads objects ignores every beacon a bridge sends, whatever
  the port and the sender, because the name of the service is sent as a truth value.\<close>

lemma beacons_unheard:
  assumes "json_parser (ce_parse e)"
  shows "hear_beacon e now peerHost (beacon_payload restPort) s = s"
proof -
  obtain ms where "ce_parse e (beacon_payload restPort) = Some (JObject ms)" "map_of ms ''service'' = Some (JBool True)"
    using json_parser.parse_written [OF assms, of "[(''service'', JBool True), (''version'', JBool True), (''restPort'', JUnsigned (ucast restPort)),
       (''bridgeVersion'', JBool True)]"] by (auto simp: beacon_payload_def beacon_json_def ascii_def scalar_def)
  then show ?thesis by (simp add: hear_beacon_def json_find_def)
qed


lemma beacons_unheard_witness:
  "json_parser (ce_parse lone_bridge) \<and> hear_beacon lone_bridge 7 ''10.0.0.1'' (beacon_payload 8080) ClusterCoordinator_static = ClusterCoordinator_static"
  using beacons_unheard [of lone_bridge 7 "''10.0.0.1''" 8080 ClusterCoordinator_static] reference.json_parser_axioms
  by (simp add: lone_bridge_def)

end
