(* ===== verification/Spec2Isabelle.thy ===== *)
theory Spec2Isabelle
  imports DtcpConnMux AlpinePacket CircuitBreaker QueryCache IpFilter RateLimiter HttpRouter WebSocket Feedback PeerMgr QueryMgr Access Cluster
begin

text \<open>
  Alpine, a peer-to-peer discovery platform: verification of its transport and protocol core.

  \<^bold>\<open>The program.\<close> A node sends and receives UDP datagrams (transport/Dtcp). A datagram is a chain of
  stack links, each of which writes its fields through one shared \<open>DataBuffer\<close>
  (transport/TransBase/DataBuffer.cpp): \<open>DtcpPacket\<close> (cookie, version, type), above it
  \<open>DtcpConnPacket\<close> (connection identifiers, sequence number), above it \<open>DtcpDataPacket\<close> or an
  \<open>AlpinePacket\<close> (protocols/Alpine) that carries a query, peer or proxy packet. A connection
  multiplexor keeps its peers in \<open>DtcpConnectionMap\<close>, refuses the addresses banned in
  \<open>DtcpFilter\<close>, and resends what is not acknowledged out of \<open>DtcpPendingAckMap\<close>. Before a query goes
  out, \<open>QueryCache\<close>, \<open>CircuitBreaker\<close> and \<open>IpFilter\<close> decide whether it is answered locally, whether
  the peer is worth asking and whether its address may be talked to. The REST bridge
  (AlpineRestBridge) opens the node to HTTP clients: a request is admitted by \<open>RateLimiter\<close>, parsed by
  \<open>HttpRequest\<close>, dispatched by \<open>HttpRouter\<close> and answered with an \<open>HttpResponse\<close>, and a WebSocket
  client is answered with the digest of its key. Keys, roles and challenges decide who may ask, and the bridges of
  a cluster tell each other who is there and how loaded.

  \<^bold>\<open>Theories.\<close>
  \<^item> \<open>Prelude\<close>: the machine types of base/Common.h (LP64, little endian), byte images of integers,
    the network byte order functions, stores at an index, and the locales \<open>machine\<close> (a labelled
    machine with an invariant, interpreted by the buffer, the connection map, the acknowledgement
    map, the query cache and the IP filter), \<open>codec\<close> (a byte code with its decoder, interpreted by
    the connection layer) and \<open>simulation\<close> (calls that may fault, which follow an abstract state along
    every run; interpreted by the resource sets, the query results, the peers and the queries).
  \<^item> \<open>DataBuffer\<close>: DataBuffer.cpp. A pointer into the array is an index; a load or store outside the
    array is \<open>None\<close>, a memory fault. The locale \<open>link_sink\<close> gives the packet theories the abstract
    view: writing appends, reading consumes.
  \<^item> \<open>DtcpPackets\<close>: DtcpPacket.cpp, DtcpConnPacket.cpp, DtcpDataPacket.cpp, DtcpNetId.cpp. The
    datatype \<open>stack_link\<close> is the chain of parent pointers, \<open>writeData\<close> and \<open>readData\<close> are the virtual
    calls. Shown: round trip of the stack, memory safety on arbitrary bytes, and that both directions
    report failure as soon as a parent link is present.
  \<^item> \<open>DtcpThreadTable\<close>, \<open>DtcpSendQueue\<close>: DtcpThreadTable.cpp; DtcpSendQueue.cpp with
    DtcpBroadcastStates.cpp. Shown: every receive record and every send buffer is in exactly one place
    under any interleaving; requests leave in order, all of them in time, and never faster than the transfer rate.
  \<^item> \<open>DtcpUdpTransport\<close>, \<open>DtcpConnMux\<close>: DtcpBaseUdpTransport.cpp, DtcpBaseConnTransport.cpp,
    DtcpBaseConnMux.cpp and DtcpBaseConnConnector.cpp over the packets, maps, pending acknowledgements
    and queue above. The record \<open>dtcp_node\<close> is the whole state of a node; a null pointer that is
    followed is \<open>None\<close>. Shown: what the code does today, that no handshake completes because every
    packet with a parent link is dropped, and exactly which datagrams make a node follow a null pointer.
  \<^item> \<open>DtcpMaps\<close>: DtcpConnectionMap.cpp and DtcpFilter.cpp, their life cycle and invariant.
  \<^item> \<open>PendingAck\<close>: DtcpPendingAckMap.cpp. The clock and the random draws are arguments (the locale
    \<open>uniform_source\<close> states what \<^verbatim>\<open>std::uniform_real_distribution\<close> promises), notifications are a
    list of events, \<open>double\<close> is \<open>real\<close>. Shown: what one timer call does to every transfer, that an
    unacknowledged transfer fails exactly once after the configured resends, the bounds of the
    round-trip estimate, and that no pending transfer is ever without a queue entry.
  \<^item> \<open>AlpineTypes\<close>, \<open>AlpineQueryPacket\<close>, \<open>AlpinePeerPacket\<close>, \<open>AlpinePacket\<close>: AlpinePacket.cpp,
    AlpineQueryPacket.cpp with AlpineResourceDesc.cpp, AlpinePeerPacket.cpp with
    AlpinePeerLocation.cpp, AlpineProxyPacket.cpp. Protocol extensions are loaded at run time, so
    their interface is the record \<open>option_api\<close>, an argument. Shown: memory safety of every read path,
    the round trips that hold, and the fields for which they do not.
  \<^item> \<open>CircuitBreaker\<close>: CircuitBreaker.cpp as a step relation with clock readings that never go back;
    threshold, probe budget, isolation of peers and the invariant of reachable states.
  \<^item> \<open>QueryCache\<close>: QueryCache.cpp. List iterators are node identities; a dangling one is \<open>None\<close>. The
    cache refines an abstract list in least-recently-used order.
  \<^item> \<open>TextNumbers\<close>, \<open>IpFilter\<close>: IpFilter.cpp, with \<^verbatim>\<open>std::stoi\<close> and \<^verbatim>\<open>std::getline\<close> defined and
    \<open>inet_pton\<close> and the files as arguments (locale \<open>ipv4_parser\<close>). Shown: CIDR semantics, the decision
    order, that a block persists, and the reload round trip.
  \<^item> \<open>RateLimiter\<close>: RateLimiter.cpp. The token buckets over real numbers, with clock, hash and address
    parser as arguments. Shown: the bound on the requests granted in any window, and that no client
    starves.
  \<^item> \<open>HttpMessages\<close>, \<open>HttpRouter\<close>: HttpRequest.cpp, HttpResponse.cpp, HttpRouter.cpp. Shown: the
    limits of the parser on every input, that a printed request is parsed into its parts, and that
    the trie is equivalent to matching the list of routes segment by segment.
  \<^item> \<open>Sha1\<close>: the digest, the Base64 code and the handshake response of WebSocketSession.cpp. Shown: the
    streaming digest equals the digest of the standard however the input is cut.
  \<^item> \<open>WebSocket\<close>: the session of WebSocketSession.cpp. The read in flight, the write in flight and the
    tasks posted to the strand are state; their completions are steps, in any order. Shown: the frames
    of a client are heard in order, and the invariant of every session.
  \<^item> \<open>Configuration\<close>: base/ConfigUtils. Arguments, environment and configuration file as the program
    reads them, and the schema checks. Shown: how a command line sets the values, which source decides the others
    (the file and the environment never do), and that a value, once set, never changes.
  \<^item> \<open>Doubles\<close>: the C++ type \<open>double\<close> where its special values are reached: a real number, an infinity or not a
    number, with the arithmetic and the comparisons of IEEE 754 but for rounding and the sign of zero.
  \<^item> \<open>RatingEngine\<close>: AlpineRatingEngine.cpp and AlpinePeerProfile.cpp over \<open>Doubles\<close>; \<^verbatim>\<open>std::stod\<close> is an argument
    (locale \<open>decimal_reader\<close>). Shown: scores stay in range or are not a number, what makes one so and that it stays so,
    gossip moves a score between the two sides unless the counters wrap, and the text of the ratings is read back.
  \<^item> \<open>Feedback\<close>: ResourceStore.cpp and AlpineFeedbackAggregator.cpp, which turn file events into ratings;
    the canonical form of a path is an argument. Shown: only the peer a path was registered for is rated,
    and never twice within the debounce time.
  \<^item> \<open>ProfileIndex\<close>: AlpinePeerProfileIndex.cpp, the profiles of a group linked by quality. An access outside
    the array is \<open>None\<close>. Shown: the index answers for exactly its peers, the contents of the weighted
    selection, and the short runs that leave the array.
  \<^item> \<open>QueryResults\<close>: AlpineResourceDescSet.cpp, AlpineQueryOptions.cpp, AlpineQueryResults.cpp, what the peers
    answer to a query. The copy constructor of a descriptor leaves a pointer unset that the destructor deletes; the flag
    \<open>zeroed\<close> says whether the memory of copies is zero, and a copy that keeps a stray pointer is \<open>None\<close>. Shown: exactly
    when calls on a set of resources go through and that it then is a list that grows, that replies in order are all
    kept, and that the bookkeeping stays consistent whatever packets arrive.
  \<^item> \<open>GroupMgr\<close>: AlpineGroup.cpp, AlpineGroupMgr.cpp. Groups are objects on a heap that both indexes point to.
    Shown: the indexes agree along any calls, and no id is given twice.
  \<^item> \<open>PeerMgr\<close>: AlpinePeerMgr.cpp over the profile index, the circuit breaker, the ratings and the groups. Shown:
    who is known, and that the books refuse a query to a peer which keeps failing.
  \<^item> \<open>QueryMgr\<close>: AlpineQuery.cpp, AlpineQueryMgr.cpp. Shown: the life of a query from creation over offers and
    replies to cancellation, the events that never do anything, and when a reply follows a null pointer.
  \<^item> \<open>Json\<close>: JsonWriter.cpp, JsonReader.cpp. The parser of the library nlohmann is an argument, its values are the
    datatype \<open>json\<close>. Shown: what is written decodes to the document, and the limits of what is read.
  \<^item> \<open>Access\<close>: SecureString.cpp, ApiKeyAuth.cpp, RbacPolicy.cpp, AuthHandler.cpp. Shown: until when a rotated key works,
    that no handler of the router is reached without a key, that a challenge is answered once, and what a policy grants along any loads.
  \<^item> \<open>Cluster\<close>: ClusterCoordinator.cpp, DiscoveryBeacon.cpp. The state of a bridge in a cluster with every message
    that changes it. Shown: whom a client is sent to, how long a node is known, and, as lemmas, what the code
    of the bridges makes them miss of each other (locale \<open>json_parser\<close> for the parser).

  \<^bold>\<open>Conventions.\<close> Integers keep the width they have in the source (\<open>ulong\<close> 64 bits, \<open>ushort\<close> 16,
  \<open>byte\<close> 8); buffer sizes and offsets are \<open>nat\<close>, since every one of them is bounded by the length of
  the array. Out parameters are results. A member that the constructor leaves uninitialised is an
  argument of it, and so is a variable that is passed to a call which does not set it.
  Locks make the operations atomic, so an interleaving of threads is a sequence of operations.

  \<^bold>\<open>Loops and fuel.\<close> The list readers of the query and peer packets take fuel, one unit per unread
  byte, which is enough because each round consumes at least one byte; the memory safety theorems
  include that they return. The timer loop takes the length of the queue, which is enough because a
  resent transfer is queued in the future. The searches along the links of the profile index are partial
  functions, since links may lead out of the array. Other loops are structural or have a measure.

  \<^bold>\<open>Not modelled.\<close> Rounding of \<open>double\<close>, and its special values outside the ratings; copy constructors and assignment of the packet classes;
  sockets, threads and logging; OpenSSL and zlib
  wrappers; the servers and the remaining handlers of the REST bridge, the command line, the graphical
  interface and the CORBA layer.
\<close>

end
